(* ===== verification/FB_Prelude.thy ===== *)
theory FB_Prelude
  imports Main "HOL-Library.Sublist" "HOL-Library.Char_ord" "HOL-Library.List_Lexorder"
    "HOL-Library.Word"
begin

text \<open>
  Shared vocabulary of the development: C strings and the \<^verbatim>\<open>string.h\<close> functions the sources
  call (\<open>strstr\<close>, \<open>memcmp\<close>, \<open>strcmp\<close>), the collections of rewrite rules the component theories
  extend, the interface of a set kept in an array and the interface of an interning pool.
  A C string is a \<^typ>\<open>string\<close> without the terminating NUL; \<open>cget\<close> reads it, the
  terminator included.
\<close>

named_theorems path_simps \<open>evaluation of the path scanners on constructors\<close>
named_theorems fu_simps \<open>projections of file informations, usages and updates\<close>

section \<open>C strings\<close>

abbreviation NUL :: char where "NUL \<equiv> CHR 0x00"
abbreviation SLASH :: char where "SLASH \<equiv> CHR ''/''"
abbreviation DOT :: char where "DOT \<equiv> CHR ''.''"

definition cget :: "string \<Rightarrow> nat \<Rightarrow> char" where
  "cget s i = (if i < length s then s ! i else NUL)"

definition nul_free :: "string \<Rightarrow> bool" where
  "nul_free s \<longleftrightarrow> NUL \<notin> set s"

lemma cget_Nil [simp]: "cget [] i = NUL"
  by (simp add: cget_def)

lemma cget_Cons_0 [simp]: "cget (c # s) 0 = c"
  by (simp add: cget_def)

lemma cget_Cons_Suc [simp]: "cget (c # s) (Suc i) = cget s i"
  by (simp add: cget_def)

lemma cget_nth: "i < length s \<Longrightarrow> cget s i = s ! i"
  by (simp add: cget_def)

lemma cget_beyond: "length s \<le> i \<Longrightarrow> cget s i = NUL"
  by (simp add: cget_def)

lemma cget_not_NUL_less: "cget s i \<noteq> NUL \<Longrightarrow> i < length s"
  by (auto simp: cget_def split: if_splits)

lemma cget_tl: "cget (tl s) i = cget s (Suc i)"
  by (cases s) auto

lemma cget_append_left: "i < length s \<Longrightarrow> cget (s @ t) i = cget s i"
  by (simp add: cget_def nth_append)

lemma nul_free_Nil [simp]: "nul_free []"
  by (simp add: nul_free_def)

lemma nul_free_Cons [simp]: "nul_free (c # s) \<longleftrightarrow> c \<noteq> NUL \<and> nul_free s"
  by (auto simp: nul_free_def)

lemma nul_free_append [simp]: "nul_free (s @ t) \<longleftrightarrow> nul_free s \<and> nul_free t"
  by (auto simp: nul_free_def)

lemma nul_free_take: "nul_free s \<Longrightarrow> nul_free (take n s)"
  by (auto simp: nul_free_def dest: in_set_takeD)

lemma nul_free_drop: "nul_free s \<Longrightarrow> nul_free (drop n s)"
  by (auto simp: nul_free_def dest: in_set_dropD)

lemma nul_free_cget: "nul_free s \<Longrightarrow> i < length s \<Longrightarrow> cget s i \<noteq> NUL"
  by (metis cget_nth nth_mem nul_free_def)

text \<open>\<open>strstr(3)\<close>: the index of the first occurrence.\<close>

fun strstr :: "string \<Rightarrow> string \<Rightarrow> nat option" where
  "strstr [] needle = (if needle = [] then Some 0 else None)"
| "strstr (c # s) needle =
     (if prefix needle (c # s) then Some 0 else map_option Suc (strstr s needle))"

lemma all_le_Suc_iff: "(\<forall>i \<le> length (c # s). P i) \<longleftrightarrow> P 0 \<and> (\<forall>i \<le> length s. P (Suc i))"
  by (metis Suc_le_mono le0 length_Cons not0_implies_Suc)

lemma strstr_None_iff: "strstr s n = None \<longleftrightarrow> (\<forall>i \<le> length s. \<not> prefix n (drop i s))"
proof (induction s)
  case Nil
  then show ?case by simp
next
  case (Cons c s)
  have "(\<forall>i \<le> length (c # s). \<not> prefix n (drop i (c # s))) \<longleftrightarrow>
      \<not> prefix n (c # s) \<and> (\<forall>i \<le> length s. \<not> prefix n (drop i s))"
    unfolding all_le_Suc_iff by simp
  with Cons.IH show ?case by simp
qed

lemma strstr_Some_D:
  "strstr s n = Some i \<Longrightarrow>
     i \<le> length s \<and> prefix n (drop i s) \<and> (\<forall>j < i. \<not> prefix n (drop j s))"
proof (induction s arbitrary: i)
  case Nil
  then show ?case by (simp split: if_splits)
next
  case (Cons c s)
  show ?case
  proof (cases "prefix n (c # s)")
    case True
    with Cons.prems show ?thesis by simp
  next
    case False
    with Cons.prems obtain k where k: "strstr s n = Some k" "i = Suc k" by auto
    with Cons.IH [OF k(1)] False show ?thesis
      by (auto simp: less_Suc_eq_0_disj)
  qed
qed

text \<open>
  \<open>memcmp(3)\<close> and \<open>strcmp(3)\<close> compare unsigned bytes; only the sign of the result is specified.
\<close>

fun memcmp :: "string \<Rightarrow> string \<Rightarrow> nat \<Rightarrow> int" where
  "memcmp a b 0 = 0"
| "memcmp a b (Suc n) =
     (if cget a 0 \<noteq> cget b 0 then of_char (cget a 0) - of_char (cget b 0)
      else memcmp (tl a) (tl b) n)"

fun strcmp :: "string \<Rightarrow> string \<Rightarrow> int" where
  "strcmp [] [] = 0"
| "strcmp (x # xs) [] = of_char x"
| "strcmp [] (y # ys) = - of_char y"
| "strcmp (x # xs) (y # ys) =
     (if x \<noteq> y then of_char x - of_char y else strcmp xs ys)"

lemma char_less_int: "(of_char c :: int) < of_char d \<longleftrightarrow> c < (d :: char)"
  by (simp add: less_char_def flip: of_nat_of_char [where 'a = int])

lemma of_char_pos_int: "c \<noteq> NUL \<Longrightarrow> 0 < (of_char c :: int)"
proof -
  assume "c \<noteq> NUL"
  then have "(of_char c :: nat) \<noteq> of_char NUL" by (simp only: of_char_eq_iff not_False_eq_True)
  then show ?thesis by (simp flip: of_nat_of_char [where 'a = int])
qed

lemma ex_less_Suc_iff: "(\<exists>k < Suc n. P k) \<longleftrightarrow> P 0 \<or> (\<exists>k < n. P (Suc k))"
  by (metis Suc_less_eq not0_implies_Suc zero_less_Suc)

lemma all_less_Suc_iff: "(\<forall>k < Suc n. P k) \<longleftrightarrow> P 0 \<and> (\<forall>k < n. P (Suc k))"
  by (metis Suc_less_eq not0_implies_Suc zero_less_Suc)

lemma memcmp_eq_0_iff: "memcmp a b n = 0 \<longleftrightarrow> (\<forall>i < n. cget a i = cget b i)"
proof (induction n arbitrary: a b)
  case 0
  then show ?case by simp
next
  case (Suc n)
  have "(\<forall>i < Suc n. cget a i = cget b i) \<longleftrightarrow>
      cget a 0 = cget b 0 \<and> (\<forall>i < n. cget (tl a) i = cget (tl b) i)"
    by (auto simp: cget_tl less_Suc_eq_0_disj)
  with Suc.IH [of "tl a" "tl b"] show ?case by simp
qed

lemma memcmp_pos_iff:
  "0 < memcmp a b n \<longleftrightarrow>
     (\<exists>k < n. (\<forall>i < k. cget a i = cget b i) \<and> cget b k < cget a k)"
proof (induction n arbitrary: a b)
  case 0
  then show ?case by simp
next
  case (Suc n)
  show ?case
    using Suc.IH [of "tl a" "tl b"]
    by (cases "cget a 0 = cget b 0")
      (auto simp: ex_less_Suc_iff all_less_Suc_iff cget_tl char_less_int)
qed

lemma memcmp_eq_0_take: "n \<le> length a \<Longrightarrow> n \<le> length b \<Longrightarrow>
    memcmp a b n = 0 \<longleftrightarrow> take n a = take n b"
  by (auto simp: memcmp_eq_0_iff list_eq_iff_nth_eq cget_def)

lemma strcmp_zero_iff: "nul_free a \<Longrightarrow> nul_free b \<Longrightarrow> strcmp a b = 0 \<longleftrightarrow> a = b"
  by (induction a b rule: strcmp.induct) (auto dest: of_char_pos_int)

lemma strcmp_neg_iff: "nul_free a \<Longrightarrow> nul_free b \<Longrightarrow> strcmp a b < 0 \<longleftrightarrow> a < b"
  by (induction a b rule: strcmp.induct) (auto simp: char_less_int dest: of_char_pos_int)

text \<open>The order of \<open>strcmp\<close> is the lexicographic order of \<open>List_Lexorder\<close>.\<close>

lemma lex_append_less: "(p @ x < p @ y) \<longleftrightarrow> (x < (y :: 'a :: linorder list))"
  by (induction p) simp_all

lemma prefix_less: "prefix x y \<Longrightarrow> x \<noteq> y \<Longrightarrow> x < (y :: 'a :: linorder list)"
proof -
  assume "prefix x y" "x \<noteq> y"
  then obtain z where z: "y = x @ z" "z \<noteq> []" by (auto simp: prefix_def)
  then have "[] < z" by (cases z) simp_all
  then show ?thesis using lex_append_less [of x "[]" z] z by simp
qed

lemma memcmp_less_list:
  assumes "length a = n" "length b = n"
  shows "memcmp a b n < 0 \<longleftrightarrow> a < b"
  using assms
proof (induction a arbitrary: b n)
  case (Cons x a)
  then obtain y b' where b: "b = y # b'" by (cases b) auto
  with Cons show ?case by (cases "x = y") (auto simp: char_less_int)
qed simp

end
