(* ===== verification/FB_Arrays.thy ===== *)
theory FB_Arrays
  imports FB_Prelude
begin

text \<open>
  \<^verbatim>\<open>src/common/firebuild_common.c\<close>, first half: the growing arrays and the pointer set that the
  interceptor and the supervisor share.

  An array is its allocated block (\<open>None\<close> is a cell that was never written), its length and its
  allocated size; an operation returns \<open>None\<close> when it would write outside the block.  Lengths are
  natural numbers: the \<open>int\<close> fields of the code are far from their limit for any argument list.
\<close>

section \<open>Growing arrays\<close>

record 'a carray =
  arr_p :: "'a option list"
  arr_len :: nat
  arr_size_alloc :: nat

record cstring_view =
  c_str :: string
  cv_length :: nat

type_synonym cstring_view_array = "cstring_view carray"
type_synonym voidp_array = "nat carray"
type_synonym voidp_set = "nat carray"

definition cstring_view_array_init :: cstring_view_array where
  "cstring_view_array_init = \<lparr>arr_p = [], arr_len = 0, arr_size_alloc = 0\<rparr>"

text \<open>\<open>malloc\<close> and \<open>realloc\<close>: the block gets \<open>n\<close> cells and keeps its old ones.\<close>

definition realloc :: "'a option list \<Rightarrow> nat \<Rightarrow> 'a option list" where
  "realloc p n = take n p @ replicate (n - length p) None"

definition poke :: "'a option list \<Rightarrow> nat \<Rightarrow> 'a \<Rightarrow> 'a option list option" where
  "poke p i v = (if i < length p then Some (p[i := Some v]) else None)"

definition mk_view :: "string \<Rightarrow> cstring_view" where
  "mk_view s = \<lparr>c_str = s, cv_length = length s\<rparr>"

definition cstring_view_array_append ::
    "cstring_view_array \<Rightarrow> string \<Rightarrow> cstring_view_array option" where
  "cstring_view_array_append a s =
     (let size' = (if arr_size_alloc a = 0 then 16
                   else if arr_len a = arr_size_alloc a then arr_size_alloc a * 2
                   else arr_size_alloc a);
          p' = (if arr_size_alloc a = 0 then replicate 16 None
                else if arr_len a = arr_size_alloc a then realloc (arr_p a) size'
                else arr_p a)
      in case poke p' (arr_len a) (mk_view s) of
           None \<Rightarrow> None
         | Some p'' \<Rightarrow> Some \<lparr>arr_p = p'', arr_len = arr_len a + 1, arr_size_alloc = size'\<rparr>)"

definition is_cstring_view_array_full :: "cstring_view_array \<Rightarrow> bool" where
  "is_cstring_view_array_full a \<longleftrightarrow> arr_len a = arr_size_alloc a"

definition cstring_view_array_append_noalloc ::
    "cstring_view_array \<Rightarrow> string \<Rightarrow> cstring_view_array option" where
  "cstring_view_array_append_noalloc a s =
     (if arr_size_alloc a > 0 \<and> arr_len a < arr_size_alloc a
      then (case poke (arr_p a) (arr_len a) (mk_view s) of
              None \<Rightarrow> None
            | Some p' \<Rightarrow> Some (a\<lparr>arr_p := p', arr_len := arr_len a + 1\<rparr>))
      else None)"

definition arr_contents :: "'a carray \<Rightarrow> 'a list" where
  "arr_contents a = map the (take (arr_len a) (arr_p a))"

text \<open>\<open>qsort(3)\<close> by \<open>strcmp\<close>: entries that compare equal are equal strings.\<close>

definition cstring_view_array_sort :: "cstring_view_array \<Rightarrow> cstring_view_array" where
  "cstring_view_array_sort a =
     a\<lparr>arr_p := map Some (sort_key c_str (arr_contents a)) @ drop (arr_len a) (arr_p a)\<rparr>"

fun in_sorted_loop :: "string \<Rightarrow> nat \<Rightarrow> cstring_view list \<Rightarrow> bool" where
  "in_sorted_loop str len [] = False"
| "in_sorted_loop str len (e # es) =
     (if len \<noteq> cv_length e then in_sorted_loop str len es
      else if memcmp (c_str e) str len < 0 then in_sorted_loop str len es
      else memcmp (c_str e) str len = 0)"

definition is_in_sorted_cstring_view_array :: "string \<Rightarrow> nat \<Rightarrow> cstring_view_array \<Rightarrow> bool" where
  "is_in_sorted_cstring_view_array str len a = in_sorted_loop str len (arr_contents a)"

definition voidp_array_init :: voidp_array where
  "voidp_array_init = \<lparr>arr_p = [], arr_len = 0, arr_size_alloc = 0\<rparr>"

text \<open>Pointers are numbers, \<open>NULL\<close> is 0; the array keeps a \<open>NULL\<close> after its last element.\<close>

definition voidp_array_append :: "voidp_array \<Rightarrow> nat \<Rightarrow> voidp_array option" where
  "voidp_array_append a v =
     (let size' = (if arr_size_alloc a = 0 then 16
                   else if arr_len a + 1 = arr_size_alloc a then arr_size_alloc a * 2
                   else arr_size_alloc a);
          p' = (if arr_size_alloc a = 0 then replicate 16 None
                else if arr_len a + 1 = arr_size_alloc a then realloc (arr_p a) size'
                else arr_p a)
      in case poke p' (arr_len a) v of
           None \<Rightarrow> None
         | Some p1 \<Rightarrow>
             (case poke p1 (arr_len a + 1) 0 of
                None \<Rightarrow> None
              | Some p2 \<Rightarrow> Some \<lparr>arr_p = p2, arr_len = arr_len a + 1, arr_size_alloc = size'\<rparr>))"

section \<open>Pointer set\<close>

definition voidp_set_init :: voidp_set where
  "voidp_set_init = \<lparr>arr_p = [], arr_len = 0, arr_size_alloc = 0\<rparr>"

definition voidp_set_clear :: "voidp_set \<Rightarrow> voidp_set" where
  "voidp_set_clear s = s\<lparr>arr_len := 0\<rparr>"

fun contains_from :: "nat option list \<Rightarrow> nat \<Rightarrow> nat \<Rightarrow> bool" where
  "contains_from ps 0 v = False"
| "contains_from [] (Suc n) v = False"
| "contains_from (q # qs) (Suc n) v = (q = Some v \<or> contains_from qs n v)"

definition voidp_set_contains :: "voidp_set \<Rightarrow> nat \<Rightarrow> bool" where
  "voidp_set_contains s v = contains_from (arr_p s) (arr_len s) v"

definition voidp_set_insert :: "voidp_set \<Rightarrow> nat \<Rightarrow> voidp_set option" where
  "voidp_set_insert s v =
     (if voidp_set_contains s v then Some s
      else let size' = (if arr_size_alloc s = 0 then 16
                        else if arr_len s = arr_size_alloc s then arr_size_alloc s * 2
                        else arr_size_alloc s);
               p' = (if arr_size_alloc s = 0 then replicate 16 None
                     else if arr_len s = arr_size_alloc s then realloc (arr_p s) size'
                     else arr_p s)
           in case poke p' (arr_len s) v of
                None \<Rightarrow> None
              | Some p'' \<Rightarrow> Some \<lparr>arr_p = p'', arr_len = arr_len s + 1, arr_size_alloc = size'\<rparr>)"

text \<open>The search of \<open>voidp_set_erase\<close>: the first index below the length that holds the pointer.\<close>

fun find_index :: "nat option list \<Rightarrow> nat \<Rightarrow> nat \<Rightarrow> nat option" where
  "find_index ps 0 v = None"
| "find_index [] (Suc n) v = None"
| "find_index (q # qs) (Suc n) v =
     (if q = Some v then Some 0 else map_option Suc (find_index qs n v))"

definition voidp_set_erase :: "voidp_set \<Rightarrow> nat \<Rightarrow> voidp_set" where
  "voidp_set_erase s v =
     (case find_index (arr_p s) (arr_len s) v of
        None \<Rightarrow> s
      | Some i \<Rightarrow> s\<lparr>arr_p := (arr_p s)[i := arr_p s ! (arr_len s - 1)],
                    arr_len := arr_len s - 1\<rparr>)"

section \<open>Appending\<close>

definition arr_inv :: "'a carray \<Rightarrow> bool" where
  "arr_inv a \<longleftrightarrow> length (arr_p a) = arr_size_alloc a \<and> arr_len a \<le> arr_size_alloc a \<and>
     (\<forall>i < arr_len a. arr_p a ! i \<noteq> None)"

text \<open>The \<open>NULL\<close>-terminated array: empty and unallocated, or with room for the terminator.\<close>

definition voidp_array_inv :: "voidp_array \<Rightarrow> bool" where
  "voidp_array_inv a \<longleftrightarrow> arr_inv a \<and>
     (if arr_size_alloc a = 0 then arr_len a = 0
      else arr_len a < arr_size_alloc a \<and> arr_size_alloc a \<ge> 16 \<and> arr_p a ! arr_len a = Some 0)"

fun append_all :: "('s \<Rightarrow> 'x \<Rightarrow> 's option) \<Rightarrow> 's \<Rightarrow> 'x list \<Rightarrow> 's option" where
  "append_all app a [] = Some a"
| "append_all app a (x # xs) =
     (case app a x of None \<Rightarrow> None | Some a' \<Rightarrow> append_all app a' xs)"

locale growing_array =
  fixes init :: 's
    and append_op :: "'s \<Rightarrow> 'x \<Rightarrow> 's option"
    and contents :: "'s \<Rightarrow> 'v list"
    and val :: "'x \<Rightarrow> 'v"
    and invar :: "'s \<Rightarrow> bool"
  assumes init_law: "invar init \<and> contents init = []"
    and append_law: "invar a \<Longrightarrow>
      \<exists>a'. append_op a x = Some a' \<and> invar a' \<and> contents a' = contents a @ [val x]"
begin

lemma append_all_from:
  "invar a \<Longrightarrow>
   \<exists>a'. append_all append_op a xs = Some a' \<and> invar a' \<and> contents a' = contents a @ map val xs"
proof (induction xs arbitrary: a)
  case Nil
  then show ?case by simp
next
  case (Cons x xs)
  from append_law [OF Cons.prems, of x] obtain b where
    b: "append_op a x = Some b" "invar b" "contents b = contents a @ [val x]" by blast
  from Cons.IH [OF b(2)] b show ?case by auto
qed

lemma append_all_init:
  "\<exists>a. append_all append_op init xs = Some a \<and> invar a \<and> contents a = map val xs"
  using append_all_from [of init xs] init_law by simp

end

lemma length_realloc [simp]: "length (realloc p n) = n"
  by (auto simp: realloc_def)

lemma nth_realloc: "i < n \<Longrightarrow> i < length p \<Longrightarrow> realloc p n ! i = p ! i"
  by (simp add: realloc_def nth_append)

lemma contents_grow:
  assumes "\<forall>i < n. p' ! i = p ! i" "n < length p'" "n \<le> length p"
  shows "map the (take (Suc n) (p'[n := Some v])) = map the (take n p) @ [v]"
proof -
  have "take n p' = take n p" using assms by (intro nth_equalityI) auto
  then show ?thesis using assms by (simp add: take_Suc_conv_app_nth)
qed

text \<open>The block an append works on, after the growth step common to the arrays and the set.\<close>

lemma grown_block:
  assumes "arr_inv a" "k \<le> 1" "arr_size_alloc a = 0 \<or> arr_len a + k \<le> arr_size_alloc a"
    and "size' = (if arr_size_alloc a = 0 then 16
           else if arr_len a + k = arr_size_alloc a then arr_size_alloc a * 2 else arr_size_alloc a)"
    and "p' = (if arr_size_alloc a = 0 then replicate 16 None
           else if arr_len a + k = arr_size_alloc a then realloc (arr_p a) size' else arr_p a)"
  shows "length p' = size' \<and> arr_len a + k < size' \<and> (\<forall>i < arr_len a. p' ! i = arr_p a ! i)"
  using assms by (auto simp: arr_inv_def nth_realloc)

lemma append_carray_law:
  assumes "arr_inv a" "length p' = size'" "arr_len a < size'" "\<forall>i < arr_len a. p' ! i = arr_p a ! i"
  shows "arr_inv \<lparr>arr_p = p'[arr_len a := Some v], arr_len = arr_len a + 1, arr_size_alloc = size'\<rparr>"
    and "arr_contents \<lparr>arr_p = p'[arr_len a := Some v], arr_len = arr_len a + 1, arr_size_alloc = size'\<rparr>
           = arr_contents a @ [v]"
proof -
  show "arr_inv \<lparr>arr_p = p'[arr_len a := Some v], arr_len = arr_len a + 1, arr_size_alloc = size'\<rparr>"
    using assms by (auto simp: arr_inv_def nth_list_update less_Suc_eq)
  show "arr_contents \<lparr>arr_p = p'[arr_len a := Some v], arr_len = arr_len a + 1, arr_size_alloc = size'\<rparr>
           = arr_contents a @ [v]"
    using assms contents_grow [of "arr_len a" p' "arr_p a" v] by (simp add: arr_contents_def arr_inv_def)
qed

lemma cstring_view_array_append_law:
  assumes "arr_inv a"
  shows "\<exists>a'. cstring_view_array_append a s = Some a' \<and> arr_inv a' \<and>
    arr_contents a' = arr_contents a @ [mk_view s]"
proof -
  define size' where "size' = (if arr_size_alloc a = 0 then 16
           else if arr_len a = arr_size_alloc a then arr_size_alloc a * 2 else arr_size_alloc a)"
  define p' where "p' = (if arr_size_alloc a = 0 then replicate 16 None
           else if arr_len a = arr_size_alloc a then realloc (arr_p a) size' else arr_p a)"
  have g: "length p' = size'" "arr_len a < size'" "\<forall>i < arr_len a. p' ! i = arr_p a ! i"
    using grown_block [of a 0 size' p'] assms by (auto simp: size'_def p'_def arr_inv_def)
  have "cstring_view_array_append a s =
      Some \<lparr>arr_p = p'[arr_len a := Some (mk_view s)], arr_len = arr_len a + 1, arr_size_alloc = size'\<rparr>"
    using g(1,2) unfolding cstring_view_array_append_def Let_def size'_def [symmetric]
      p'_def [symmetric] by (simp add: poke_def)
  with append_carray_law [OF assms g, of "mk_view s"] show ?thesis by blast
qed

lemma voidp_array_append_law:
  assumes "voidp_array_inv a"
  shows "\<exists>a'. voidp_array_append a v = Some a' \<and> voidp_array_inv a' \<and>
    arr_contents a' = arr_contents a @ [v]"
proof -
  define size' where "size' = (if arr_size_alloc a = 0 then 16
           else if arr_len a + 1 = arr_size_alloc a then arr_size_alloc a * 2 else arr_size_alloc a)"
  define p' where "p' = (if arr_size_alloc a = 0 then replicate 16 None
           else if arr_len a + 1 = arr_size_alloc a then realloc (arr_p a) size' else arr_p a)"
  have inv: "arr_inv a" using assms by (simp add: voidp_array_inv_def)
  have g: "length p' = size'" "arr_len a + 1 < size'" "\<forall>i < arr_len a. p' ! i = arr_p a ! i"
    using grown_block [of a 1 size' p'] assms
    by (auto simp: size'_def p'_def voidp_array_inv_def split: if_splits)
  let ?p = "p'[arr_len a + 1 := Some 0]"
  let ?a = "\<lparr>arr_p = ?p[arr_len a := Some v], arr_len = arr_len a + 1, arr_size_alloc = size'\<rparr>"
  have e: "voidp_array_append a v = Some ?a"
    using g(1,2) unfolding voidp_array_append_def Let_def size'_def [symmetric]
      p'_def [symmetric] by (simp add: poke_def list_update_swap)
  have l: "arr_inv ?a" "arr_contents ?a = arr_contents a @ [v]"
    using append_carray_law [OF inv, of ?p size' v] g by auto
  have "size' \<ge> 16" using assms by (auto simp: size'_def voidp_array_inv_def split: if_splits)
  then have "voidp_array_inv ?a" using l(1) g by (simp add: voidp_array_inv_def)
  with e l(2) show ?thesis by blast
qed

interpretation cva: growing_array cstring_view_array_init cstring_view_array_append arr_contents
  mk_view arr_inv
proof (standard, goal_cases)
  case 1
  then show ?case by (simp add: cstring_view_array_init_def arr_inv_def arr_contents_def)
next
  case (2 a x)
  then show ?case by (rule cstring_view_array_append_law)
qed

interpretation vpa: growing_array voidp_array_init voidp_array_append arr_contents
  "\<lambda>v. v" voidp_array_inv
proof (standard, goal_cases)
  case 1
  then show ?case
    by (simp add: voidp_array_init_def voidp_array_inv_def arr_inv_def arr_contents_def)
next
  case (2 a x)
  then show ?case by (rule voidp_array_append_law)
qed

section \<open>The pointer set as a set\<close>

datatype set_op = Ins nat | Era nat | Clr

fun run_set_ops ::
    "('s \<Rightarrow> nat \<Rightarrow> 's option) \<Rightarrow> ('s \<Rightarrow> nat \<Rightarrow> 's) \<Rightarrow> ('s \<Rightarrow> 's) \<Rightarrow> 's \<Rightarrow> set_op list \<Rightarrow> 's option" where
  "run_set_ops ins era clr s [] = Some s"
| "run_set_ops ins era clr s (Ins v # ops) =
     (case ins s v of None \<Rightarrow> None | Some s' \<Rightarrow> run_set_ops ins era clr s' ops)"
| "run_set_ops ins era clr s (Era v # ops) = run_set_ops ins era clr (era s v) ops"
| "run_set_ops ins era clr s (Clr # ops) = run_set_ops ins era clr (clr s) ops"

fun abs_set_ops :: "nat set \<Rightarrow> set_op list \<Rightarrow> nat set" where
  "abs_set_ops A [] = A"
| "abs_set_ops A (Ins v # ops) = abs_set_ops (insert v A) ops"
| "abs_set_ops A (Era v # ops) = abs_set_ops (A - {v}) ops"
| "abs_set_ops A (Clr # ops) = abs_set_ops {} ops"

locale pointer_set =
  fixes init :: 's
    and clear :: "'s \<Rightarrow> 's"
    and contains :: "'s \<Rightarrow> nat \<Rightarrow> bool"
    and insert_op :: "'s \<Rightarrow> nat \<Rightarrow> 's option"
    and erase :: "'s \<Rightarrow> nat \<Rightarrow> 's"
    and invar :: "'s \<Rightarrow> bool"
    and elems :: "'s \<Rightarrow> nat set"
  assumes init_law: "invar init \<and> elems init = {}"
    and clear_law: "invar s \<Longrightarrow> invar (clear s) \<and> elems (clear s) = {}"
    and contains_law: "invar s \<Longrightarrow> contains s v \<longleftrightarrow> v \<in> elems s"
    and insert_law: "invar s \<Longrightarrow>
      \<exists>s'. insert_op s v = Some s' \<and> invar s' \<and> elems s' = insert v (elems s)"
    and erase_law: "invar s \<Longrightarrow> invar (erase s v) \<and> elems (erase s v) = elems s - {v}"
begin

lemma run_refines:
  "invar s \<Longrightarrow> \<exists>s'. run_set_ops insert_op erase clear s ops = Some s' \<and> invar s' \<and>
     elems s' = abs_set_ops (elems s) ops"
proof (induction ops arbitrary: s)
  case Nil
  then show ?case by simp
next
  case (Cons x ops)
  show ?case
  proof (cases x)
    case (Ins v)
    from insert_law [OF Cons.prems, of v] obtain t where
      "insert_op s v = Some t" "invar t" "elems t = insert v (elems s)" by blast
    with Cons.IH [of t] Ins show ?thesis by simp
  next
    case (Era v)
    with Cons.IH [of "erase s v"] erase_law [OF Cons.prems, of v] show ?thesis by simp
  next
    case Clr
    with Cons.IH [of "clear s"] clear_law [OF Cons.prems] show ?thesis by simp
  qed
qed

lemma run_contains:
  "\<exists>s. run_set_ops insert_op erase clear init ops = Some s \<and> invar s \<and>
     (\<forall>v. contains s v \<longleftrightarrow> v \<in> abs_set_ops {} ops)"
  using run_refines [of init ops] init_law contains_law by auto

end

definition voidp_set_inv :: "voidp_set \<Rightarrow> bool" where
  "voidp_set_inv s \<longleftrightarrow> arr_inv s \<and> distinct (arr_contents s)"

lemma contains_from_iff:
  "n \<le> length ps \<Longrightarrow> contains_from ps n v \<longleftrightarrow> (\<exists>i < n. ps ! i = Some v)"
  by (induction ps n v rule: contains_from.induct) (auto simp: ex_less_Suc_iff)

lemma find_index_Some:
  "find_index ps n v = Some i \<Longrightarrow> i < n \<and> i < length ps \<and> ps ! i = Some v"
  by (induction ps n v arbitrary: i rule: find_index.induct) (auto split: if_splits)

lemma find_index_None:
  "n \<le> length ps \<Longrightarrow> find_index ps n v = None \<Longrightarrow> \<forall>i < n. ps ! i \<noteq> Some v"
  by (induction ps n v rule: find_index.induct) (auto simp: all_less_Suc_iff split: if_splits)

lemma contents_nth:
  "arr_inv s \<Longrightarrow> length (arr_contents s) = arr_len s \<and>
     (\<forall>i < arr_len s. arr_p s ! i = Some (arr_contents s ! i))"
  by (auto simp: arr_inv_def arr_contents_def)

lemma voidp_set_contains_law:
  assumes "voidp_set_inv s"
  shows "voidp_set_contains s v \<longleftrightarrow> v \<in> set (arr_contents s)"
  using assms contents_nth [of s] contains_from_iff [of "arr_len s" "arr_p s" v]
  by (auto simp: voidp_set_contains_def voidp_set_inv_def arr_inv_def in_set_conv_nth)

lemma voidp_set_insert_law:
  assumes "voidp_set_inv s"
  shows "\<exists>s'. voidp_set_insert s v = Some s' \<and> voidp_set_inv s' \<and>
    set (arr_contents s') = insert v (set (arr_contents s))"
proof (cases "voidp_set_contains s v")
  case True
  then show ?thesis
    using assms voidp_set_contains_law [OF assms] by (auto simp: voidp_set_insert_def)
next
  case False
  define size' where "size' = (if arr_size_alloc s = 0 then 16
           else if arr_len s = arr_size_alloc s then arr_size_alloc s * 2 else arr_size_alloc s)"
  define p' where "p' = (if arr_size_alloc s = 0 then replicate 16 None
           else if arr_len s = arr_size_alloc s then realloc (arr_p s) size' else arr_p s)"
  have inv: "arr_inv s" using assms by (simp add: voidp_set_inv_def)
  have g: "length p' = size'" "arr_len s < size'" "\<forall>i < arr_len s. p' ! i = arr_p s ! i"
    using grown_block [of s 0 size' p'] inv by (auto simp: size'_def p'_def arr_inv_def)
  let ?s = "\<lparr>arr_p = p'[arr_len s := Some v], arr_len = arr_len s + 1, arr_size_alloc = size'\<rparr>"
  have "voidp_set_insert s v = Some ?s"
    using g(1,2) False unfolding voidp_set_insert_def Let_def size'_def [symmetric]
      p'_def [symmetric] by (simp add: poke_def)
  moreover have "voidp_set_inv ?s"
    using append_carray_law [OF inv g, of v] assms False voidp_set_contains_law [OF assms]
    by (simp add: voidp_set_inv_def)
  ultimately show ?thesis using append_carray_law(2) [OF inv g, of v] by auto
qed

lemma swap_last_erase:
  assumes "distinct xs" "length xs = Suc n" "i < length xs"
  shows "distinct (take n (xs[i := xs ! n])) \<and> set (take n (xs[i := xs ! n])) = set xs - {xs ! i}"
proof -
  obtain ys z where xs: "xs = ys @ [z]" "length ys = n"
    using assms(2) by (cases xs rule: rev_cases) auto
  show ?thesis
  proof (cases "i = n")
    case True
    then show ?thesis using assms xs by auto
  next
    case False
    then have "i < length ys" using assms xs by simp
    then show ?thesis using assms(1) xs
      by (auto simp: list_update_append nth_append set_update_distinct intro!: distinct_list_update)
  qed
qed

lemma voidp_set_erase_law:
  assumes "voidp_set_inv s"
  shows "voidp_set_inv (voidp_set_erase s v) \<and>
    set (arr_contents (voidp_set_erase s v)) = set (arr_contents s) - {v}"
proof (cases "find_index (arr_p s) (arr_len s) v")
  case None
  then have "\<not> voidp_set_contains s v"
    using assms find_index_None [of "arr_len s" "arr_p s" v] contains_from_iff [of "arr_len s" "arr_p s" v]
    by (auto simp: voidp_set_contains_def voidp_set_inv_def arr_inv_def)
  then show ?thesis using None assms voidp_set_contains_law [OF assms]
    by (simp add: voidp_set_erase_def)
next
  case (Some i)
  define n where "n = arr_len s - 1"
  define xs where "xs = arr_contents s"
  have inv: "arr_inv s" "distinct xs" using assms by (simp_all add: voidp_set_inv_def xs_def)
  have i: "i < arr_len s" "arr_p s ! i = Some v" using find_index_Some [OF Some] by auto
  have xs: "length xs = Suc n" "xs ! i = v" "\<forall>j < arr_len s. arr_p s ! j = Some (xs ! j)"
    using contents_nth [OF inv(1)] i by (auto simp: xs_def n_def)
  have e: "voidp_set_erase s v = s\<lparr>arr_p := (arr_p s)[i := arr_p s ! n], arr_len := n\<rparr>"
    using Some by (simp add: voidp_set_erase_def n_def)
  have c: "arr_contents (voidp_set_erase s v) = take n (xs[i := xs ! n])"
    unfolding e using inv(1) xs i
    by (intro nth_equalityI) (auto simp: arr_contents_def arr_inv_def n_def nth_list_update)
  have "distinct (take n (xs[i := xs ! n])) \<and> set (take n (xs[i := xs ! n])) = set xs - {v}"
    using swap_last_erase [OF inv(2) xs(1), of i] xs(1,2) i by (auto simp: n_def)
  moreover have "arr_inv (voidp_set_erase s v)"
    unfolding e using inv(1) i by (auto simp: arr_inv_def n_def nth_list_update)
  ultimately show ?thesis unfolding voidp_set_inv_def c by (simp add: xs_def)
qed

interpretation vps: pointer_set voidp_set_init voidp_set_clear voidp_set_contains voidp_set_insert
  voidp_set_erase voidp_set_inv "\<lambda>s. set (arr_contents s)"
proof (standard, goal_cases)
  case 1
  then show ?case by (simp add: voidp_set_init_def voidp_set_inv_def arr_inv_def arr_contents_def)
next
  case (2 s)
  then show ?case by (simp add: voidp_set_clear_def voidp_set_inv_def arr_inv_def arr_contents_def)
next
  case (3 s v)
  then show ?case by (rule voidp_set_contains_law)
next
  case (4 s v)
  then show ?case by (rule voidp_set_insert_law)
next
  case (5 s v)
  then show ?case by (rule voidp_set_erase_law)
qed

section \<open>Searching a sorted array\<close>

lemma arr_contents_sort:
  "arr_inv a \<Longrightarrow> arr_contents (cstring_view_array_sort a) = sort_key c_str (arr_contents a)"
proof -
  assume "arr_inv a"
  then have "length (sort_key c_str (arr_contents a)) = arr_len a"
    using contents_nth [of a] by simp
  then show ?thesis
    unfolding cstring_view_array_sort_def by (simp add: arr_contents_def [of "arr_p_update _ _"] o_def)
qed

lemma in_sorted_loop_correct:
  assumes "sorted (map c_str vs)" "\<forall>v \<in> set vs. cv_length v = length (c_str v)"
  shows "in_sorted_loop str (length str) vs \<longleftrightarrow> str \<in> c_str ` set vs"
  using assms
proof (induction vs)
  case (Cons v vs)
  show ?case
  proof (cases "length (c_str v) = length str")
    case True
    have z: "memcmp (c_str v) str (length str) = 0 \<longleftrightarrow> c_str v = str"
      using memcmp_eq_0_take [of "length str" "c_str v" str] True by simp
    have "str \<notin> c_str ` set vs" if "str < c_str v" using Cons.prems that by force
    then show ?thesis
      using Cons True z memcmp_less_list [of "c_str v" "length str" str] by (auto simp: not_less)
  qed (use Cons in auto)
qed simp


section \<open>Properties\<close>


text \<open>
  Appending pointers one by one to an empty array never writes outside its block, keeps them in
  order, and leaves a \<open>NULL\<close> behind the last one.
\<close>

theorem voidp_array_append_correct:
  "\<exists>a. append_all voidp_array_append voidp_array_init ps = Some a \<and> arr_contents a = ps \<and>
     arr_len a = length ps \<and> (arr_len a = 0 \<or> arr_p a ! length ps = Some 0)"
proof -
  from vpa.append_all_init [of ps] obtain a where
    a: "append_all voidp_array_append voidp_array_init ps = Some a" "voidp_array_inv a"
      "arr_contents a = ps" by auto
  have "arr_len a = length ps" using a(2,3) contents_nth [of a] by (auto simp: voidp_array_inv_def)
  then show ?thesis using a by (auto simp: voidp_array_inv_def split: if_splits)
qed

text \<open>
  A string array built by appends and sorted by \<open>strcmp\<close> answers membership: the search with
  its early exit finds a string exactly when it was appended.
\<close>

theorem is_in_sorted_cstring_view_array_correct:
  "\<exists>a. append_all cstring_view_array_append cstring_view_array_init xs = Some a \<and>
     (\<forall>str. is_in_sorted_cstring_view_array str (length str) (cstring_view_array_sort a) \<longleftrightarrow>
        str \<in> set xs)"
proof -
  from cva.append_all_init [of xs] obtain a where
    a: "append_all cstring_view_array_append cstring_view_array_init xs = Some a" "arr_inv a"
      "arr_contents a = map mk_view xs" by blast
  have "is_in_sorted_cstring_view_array str (length str) (cstring_view_array_sort a) \<longleftrightarrow> str \<in> set xs"
    for str
    using in_sorted_loop_correct [of "sort_key c_str (arr_contents a)" str] a(2,3)
    by (auto simp: is_in_sorted_cstring_view_array_def arr_contents_sort mk_view_def image_image)
  with a(1) show ?thesis by blast
qed

end
