(* ===== verification/FB_Paths.thy ===== *)
theory FB_Paths
  imports FB_Arrays
begin

text \<open>
  \<^verbatim>\<open>src/common/firebuild_common.c\<close>, second half: the location test \<open>is_path_at_locations\<close> and the
  path canonicalisation \<open>is_canonical\<close> and \<open>make_canonical\<close>.

  \<open>make_canonical\<close> works in place on the buffer holding the path and its terminating NUL, with the
  indices \<open>src\<close> and \<open>dst\<close> for the two pointers of the code.  It is proved equal to the
  component-wise specification \<open>canonical_spec\<close>, in two steps: the loop over the buffer equals a
  function \<open>canonS\<close> on the unread rest of the path, and that function equals the filter of the
  components.
\<close>

section \<open>Location test\<close>

fun strip_location_len :: "string \<Rightarrow> nat \<Rightarrow> nat" where
  "strip_location_len location 0 = 0"
| "strip_location_len location (Suc n) =
     (if cget location n = SLASH then strip_location_len location n else Suc n)"

fun at_locations_loop :: "string \<Rightarrow> nat \<Rightarrow> cstring_view list \<Rightarrow> bool" where
  "at_locations_loop path path_len [] = False"
| "at_locations_loop path path_len (l # ls) =
     (let location_len = strip_location_len (c_str l) (cv_length l) in
      if path_len < location_len then at_locations_loop path path_len ls
      else if cget path location_len \<noteq> SLASH \<and> path_len > location_len
        then at_locations_loop path path_len ls
      else let memcmp_res = memcmp (c_str l) path location_len in
        if memcmp_res < 0 then at_locations_loop path path_len ls
        else if memcmp_res > 0 then False
        else if path_len = location_len then True
        else if cget path location_len = SLASH then True
        else at_locations_loop path path_len ls)"

definition is_path_at_locations :: "string \<Rightarrow> int \<Rightarrow> cstring_view_array \<Rightarrow> bool" where
  "is_path_at_locations path len a =
     at_locations_loop path (if len \<ge> 0 then nat len else length path) (arr_contents a)"

section \<open>Canonical paths\<close>

definition is_canonical :: "string \<Rightarrow> nat \<Rightarrow> bool" where
  "is_canonical path len =
     (if cget path 0 = NUL then True
      else if (cget path 0 = DOT \<and> cget path 1 = SLASH)
        \<or> (len \<ge> 2 \<and> cget path (len - 1) = SLASH)
        \<or> (len \<ge> 2 \<and> cget path (len - 2) = SLASH \<and> cget path (len - 1) = DOT)
        \<or> strstr path ''//'' \<noteq> None
        \<or> strstr path ''/./'' \<noteq> None then False
      else True)"

text \<open>\<open>while (src[0] == '/' || (src[0] == '.' && (src[1] == '/' || src[1] == '\0'))) src++;\<close>\<close>

function skip_run :: "string \<Rightarrow> nat \<Rightarrow> nat" where
  "skip_run buf src =
     (if cget buf src = SLASH \<or>
         (cget buf src = DOT \<and> (cget buf (src + 1) = SLASH \<or> cget buf (src + 1) = NUL))
      then skip_run buf (src + 1) else src)"
  by pat_completeness auto
termination
  by (relation "measure (\<lambda>(buf, src). length buf - src)")
    (auto dest!: cget_not_NUL_less [of _ _, rotated] simp: cget_def split: if_splits)

text \<open>\<open>while (src[0] != '/' && src[0] != '\0') *dst++ = *src++;\<close>\<close>

function copy_component :: "string \<Rightarrow> nat \<Rightarrow> nat \<Rightarrow> string \<times> nat \<times> nat" where
  "copy_component buf src dst =
     (if cget buf src \<noteq> SLASH \<and> cget buf src \<noteq> NUL
      then copy_component (buf[dst := cget buf src]) (src + 1) (dst + 1)
      else (buf, src, dst))"
  by pat_completeness auto
termination
  by (relation "measure (\<lambda>(buf, src, dst). length buf - src)")
    (auto simp: cget_def split: if_splits)

declare skip_run.simps [simp del] copy_component.simps [simp del]

lemma skip_run_ge: "src \<le> skip_run buf src"
  by (induction buf src rule: skip_run.induct) (subst skip_run.simps, auto)

lemma skip_run_slash: "cget buf src = SLASH \<Longrightarrow> src < skip_run buf src"
  using skip_run_ge [of "src + 1" buf] by (subst skip_run.simps) simp

lemma copy_component_src_ge: "copy_component buf src dst = (buf', src', dst') \<Longrightarrow>
    src \<le> src' \<and> length buf' = length buf"
  by (induction buf src dst rule: copy_component.induct)
    (subst (asm) (2) copy_component.simps, auto split: if_splits)

lemma copy_component_src_gt:
  "copy_component buf src dst = (buf', src', dst') \<Longrightarrow>
     cget buf src \<noteq> SLASH \<Longrightarrow> cget buf src \<noteq> NUL \<Longrightarrow> src < src'"
  by (subst (asm) copy_component.simps) (auto dest: copy_component_src_ge)

function canon_loop :: "string \<Rightarrow> nat \<Rightarrow> nat \<Rightarrow> bool \<Rightarrow> string \<times> nat" where
  "canon_loop buf src dst add_slash =
     (if cget buf src = NUL then (buf, dst)
      else let (buf1, src1, dst1) =
             (if cget buf src = SLASH
              then (if add_slash then (buf[dst := SLASH], skip_run buf src, dst + 1)
                    else (buf, skip_run buf src, dst))
              else (buf, src, dst))
           in case copy_component buf1 src1 dst1 of
                (buf2, src2, dst2) \<Rightarrow> canon_loop buf2 src2 dst2 True)"
  by pat_completeness auto
termination
proof (relation "measure (\<lambda>(buf, src, dst, add_slash). length buf - src)", goal_cases)
  case 1
  then show ?case by simp
next
  case (2 buf src dst add_slash x buf1 y src1 dst1 buf2 z src2 dst2)
  have len: "src < length buf" using 2(1) by (rule cget_not_NUL_less)
  have cc: "copy_component buf1 src1 dst1 = (buf2, src2, dst2)" using 2 by simp
  have l1: "length buf1 = length buf" using 2 by (auto split: if_splits)
  have "src < src2"
  proof (cases "cget buf src = SLASH")
    case True
    then have "src < src1" using 2 skip_run_slash by (auto split: if_splits)
    then show ?thesis using copy_component_src_ge [OF cc] by simp
  next
    case False
    then have "buf1 = buf" "src1 = src" using 2 by (auto split: if_splits)
    then show ?thesis using copy_component_src_gt [OF cc] False 2(1) by simp
  qed
  then show ?case using len l1 copy_component_src_ge [OF cc] by auto
qed

declare canon_loop.simps [simp del]

text \<open>The buffer is the path with its NUL; the result is the new buffer and the returned length.\<close>

definition make_canonical :: "string \<Rightarrow> nat \<Rightarrow> string \<times> nat" where
  "make_canonical buf original_length =
     (let path = takeWhile (\<lambda>c. c \<noteq> NUL) buf in
      if cget buf 0 = NUL then (buf, 0)
      else
        let starts_dot_slash = (cget buf 0 = DOT \<and> cget buf 1 = SLASH);
            a = strstr path ''//'';
            b = strstr path ''/./''
        in if \<not> starts_dot_slash \<and> a = None \<and> b = None then
             (let (buf1, len1) =
                (if original_length \<ge> 2 \<and> cget buf (original_length - 1) = DOT
                    \<and> cget buf (original_length - 2) = SLASH
                 then (buf[original_length - 1 := NUL], original_length - 1)
                 else (buf, original_length))
              in if len1 \<ge> 2 \<and> cget buf1 (len1 - 1) = SLASH
                 then (buf1[len1 - 1 := NUL], len1 - 1)
                 else (buf1, len1))
           else
             (let (src, dst, add_slash) =
                (if starts_dot_slash then (1, 0, False)
                 else let p = (case (a, b) of
                                 (Some i, Some j) \<Rightarrow> (if i < j then i else j)
                               | (Some i, None) \<Rightarrow> i
                               | (None, Some j) \<Rightarrow> j
                               | (None, None) \<Rightarrow> 0)
                      in (p, p, True));
                  (buf1, dst1) = canon_loop buf src dst add_slash;
                  (buf2, dst2) = (if dst1 = 0 then (buf1[dst1 := DOT], dst1 + 1) else (buf1, dst1));
                  dst3 = (if dst2 > 1 \<and> cget buf2 (dst2 - 1) = SLASH then dst2 - 1 else dst2)
              in (buf2[dst3 := NUL], dst3)))"

section \<open>The in-place loop on the unread rest\<close>

fun skipS :: "string \<Rightarrow> string" where
  "skipS [] = []"
| "skipS (c # s) =
     (if c = SLASH \<or> (c = DOT \<and> (s = [] \<or> hd s = SLASH)) then skipS s else c # s)"

lemma length_skipS: "length (skipS s) \<le> length s"
  by (induction s) auto

function canonS :: "bool \<Rightarrow> string \<Rightarrow> string" where
  "canonS add [] = []"
| "canonS add (c # s) =
     (if c = SLASH
      then (if add then [SLASH] else []) @ takeWhile (\<lambda>x. x \<noteq> SLASH) (skipS s)
             @ canonS True (dropWhile (\<lambda>x. x \<noteq> SLASH) (skipS s))
      else takeWhile (\<lambda>x. x \<noteq> SLASH) (c # s)
             @ canonS True (dropWhile (\<lambda>x. x \<noteq> SLASH) (c # s)))"
  by pat_completeness auto
termination
proof (relation "measure (\<lambda>(add, s). length s)", goal_cases)
  case 1
  then show ?case by simp
next
  case (2 add c s)
  show ?case
    using length_skipS [of s] length_dropWhile_le [of "\<lambda>x. x \<noteq> SLASH" "skipS s"] by simp
next
  case (3 add c s)
  then show ?case using length_dropWhile_le [of "\<lambda>x. x \<noteq> SLASH" s] by (simp add: le_imp_less_Suc)
qed

text \<open>\<open>unread buf src s\<close>: the buffer holds \<open>s\<close> and a NUL from \<open>src\<close> on.\<close>

definition unread :: "string \<Rightarrow> nat \<Rightarrow> string \<Rightarrow> bool" where
  "unread buf src s \<longleftrightarrow> nul_free s \<and> drop src buf = s @ [NUL]"

lemma cget_drop: "cget (drop k s) i = cget s (k + i)"
  by (auto simp: cget_def less_diff_conv add.commute)

lemma unread_cget:
  assumes "unread buf src s" "i \<le> length s"
  shows "cget buf (src + i) = cget s i"
proof -
  have "cget buf (src + i) = cget (s @ [NUL]) i"
    using assms(1) by (simp add: unread_def flip: cget_drop)
  also have "\<dots> = cget s i" using assms(2) by (auto simp: cget_def nth_append)
  finally show ?thesis .
qed

lemma unread_0: "unread buf src s \<Longrightarrow> cget buf src = cget s 0"
  using unread_cget [of buf src s 0] by simp

lemma unread_1: "unread buf src (c # s) \<Longrightarrow> cget buf (Suc src) = cget s 0"
  using unread_cget [of buf src "c # s" 1] by simp

lemma unread_length:
  assumes "unread buf src s"
  shows "length buf = src + length s + 1"
proof -
  have "length (drop src buf) = length s + 1" using assms by (simp add: unread_def)
  then show ?thesis by simp
qed

lemma unread_Suc: "unread buf src (c # s) \<Longrightarrow> unread buf (Suc src) s"
  by (simp add: unread_def drop_Suc drop_tl)

lemma unread_update: "unread buf src s \<Longrightarrow> dst < src \<Longrightarrow> unread (buf[dst := c]) src s"
  by (simp add: unread_def drop_update_cancel)

lemma skip_run_skipS:
  "unread buf src s \<Longrightarrow> \<exists>k. skip_run buf src = src + k \<and> k \<le> length s \<and> drop k s = skipS s"
proof (induction s arbitrary: src)
  case Nil
  then have "cget buf src = NUL" by (simp add: unread_0)
  then show ?case by (subst skip_run.simps) simp
next
  case (Cons c s)
  from Cons.IH [OF unread_Suc [OF Cons.prems]] obtain k where
    k: "skip_run buf (Suc src) = Suc src + k" "k \<le> length s" "drop k s = skipS s" by blast
  have cond: "(cget s 0 = SLASH \<or> cget s 0 = NUL) \<longleftrightarrow> (s = [] \<or> hd s = SLASH)"
    using Cons.prems by (cases s) (auto simp: unread_def)
  show ?case
  proof (cases "c = SLASH \<or> (c = DOT \<and> (s = [] \<or> hd s = SLASH))")
    case True
    then have "skip_run buf src = skip_run buf (Suc src)"
      using unread_0 [OF Cons.prems] unread_1 [OF Cons.prems] cond
      by (subst skip_run.simps) auto
    then show ?thesis using k True by (intro exI [of _ "Suc k"]) auto
  next
    case False
    then have "skip_run buf src = src"
      using unread_0 [OF Cons.prems] unread_1 [OF Cons.prems] cond
      by (subst skip_run.simps) auto
    then show ?thesis using False by (intro exI [of _ 0]) auto
  qed
qed

lemma unread_skip_run:
  assumes "unread buf src s"
  shows "unread buf (skip_run buf src) (skipS s)"
proof -
  from skip_run_skipS [OF assms] obtain k where
    k: "skip_run buf src = src + k" "k \<le> length s" "drop k s = skipS s" by blast
  have "drop (src + k) buf = drop k (s @ [NUL])"
    using assms by (simp add: unread_def add.commute flip: drop_drop)
  then show ?thesis using assms k nul_free_drop [of s k] by (simp add: unread_def)
qed

lemma take_update_snoc: "dst < length buf \<Longrightarrow> take (Suc dst) (buf[dst := c]) = take dst buf @ [c]"
  by (simp add: take_Suc_conv_app_nth)

lemma copy_component_spec:
  "unread buf src s \<Longrightarrow> dst \<le> src \<Longrightarrow>
   \<exists>buf' src' dst'. copy_component buf src dst = (buf', src', dst') \<and> dst' \<le> src' \<and>
     length buf' = length buf \<and> unread buf' src' (dropWhile (\<lambda>x. x \<noteq> SLASH) s) \<and>
     take dst' buf' = take dst buf @ takeWhile (\<lambda>x. x \<noteq> SLASH) s"
proof (induction s arbitrary: buf src dst)
  case Nil
  then have "cget buf src = NUL" by (simp add: unread_0)
  with Nil show ?case by (subst copy_component.simps) simp
next
  case (Cons c s)
  have c: "cget buf src = c" using unread_0 [OF Cons.prems(1)] by simp
  have nn: "c \<noteq> NUL" using Cons.prems(1) by (simp add: unread_def)
  show ?case
  proof (cases "c = SLASH")
    case True
    with Cons.prems c show ?thesis by (subst copy_component.simps) simp
  next
    case False
    have u: "unread (buf[dst := c]) (Suc src) s"
      using unread_update [OF unread_Suc [OF Cons.prems(1)], of dst c] Cons.prems(2) by simp
    have l: "dst < length buf" using unread_length [OF Cons.prems(1)] Cons.prems(2) by simp
    have "copy_component buf src dst = copy_component (buf[dst := c]) (Suc src) (Suc dst)"
      using c nn False by (subst copy_component.simps) simp
    with Cons.IH [OF u, of "Suc dst"] False nn l Cons.prems(2) show ?thesis
      by (auto simp: take_update_snoc)
  qed
qed

lemma canon_loop_canonS:
  "unread buf src s \<Longrightarrow> dst \<le> src \<Longrightarrow>
   \<exists>buf' dst'. canon_loop buf src dst add = (buf', dst') \<and> dst' < length buf \<and>
     length buf' = length buf \<and> take dst' buf' = take dst buf @ canonS add s"
proof (induction add s arbitrary: buf src dst rule: canonS.induct)
  case (1 add)
  then have "cget buf src = NUL" by (simp add: unread_0)
  with 1 show ?case using unread_length [of buf src "[]"] by (subst canon_loop.simps) simp
next
  case (2 add c s)
  have c: "cget buf src = c" using unread_0 [OF 2(3)] by simp
  have nn: "c \<noteq> NUL" using 2(3) by (simp add: unread_def)
  have l: "dst < length buf" using unread_length [OF 2(3)] 2(4) by simp
  show ?case
  proof (cases "c = SLASH")
    case True
    let ?b = "if add then buf[dst := SLASH] else buf"
    let ?d = "if add then Suc dst else dst"
    have lt: "src < skip_run buf src" using True c by (simp add: skip_run_slash)
    have u: "unread ?b (skip_run buf src) (skipS s)"
      using unread_update [OF unread_skip_run [OF 2(3)], of dst SLASH] unread_skip_run [OF 2(3)]
        lt 2(4) True by auto
    have d: "?d \<le> skip_run buf src" using lt 2(4) by auto
    from copy_component_spec [OF u d] obtain b2 s2 d2 where
      cc: "copy_component ?b (skip_run buf src) ?d = (b2, s2, d2)" "d2 \<le> s2"
        "length b2 = length buf" "unread b2 s2 (dropWhile (\<lambda>x. x \<noteq> SLASH) (skipS s))"
        "take d2 b2 = take ?d ?b @ takeWhile (\<lambda>x. x \<noteq> SLASH) (skipS s)" by auto
    have "canon_loop buf src dst add = canon_loop b2 s2 d2 True"
      using c True cc(1) by (subst canon_loop.simps) (auto split: if_splits)
    moreover have "take ?d ?b = take dst buf @ (if add then [SLASH] else [])"
      using l by (simp add: take_update_snoc)
    ultimately show ?thesis using 2(1) [OF True cc(4,2)] True cc(3,5) by auto
  next
    case False
    from copy_component_spec [OF 2(3,4)] obtain b2 s2 d2 where
      cc: "copy_component buf src dst = (b2, s2, d2)" "d2 \<le> s2"
        "length b2 = length buf" "unread b2 s2 (dropWhile (\<lambda>x. x \<noteq> SLASH) (c # s))"
        "take d2 b2 = take dst buf @ takeWhile (\<lambda>x. x \<noteq> SLASH) (c # s)" by auto
    have "canon_loop buf src dst add = canon_loop b2 s2 d2 True"
      using c False nn cc(1) by (subst canon_loop.simps) simp
    then show ?thesis using 2(2) [OF False cc(4,2)] False cc(3,5) by auto
  qed
qed

section \<open>Components\<close>

fun comps :: "string \<Rightarrow> string list" where
  "comps [] = [[]]"
| "comps (c # s) = (if c = SLASH then [] # comps s else (c # hd (comps s)) # tl (comps s))"

fun join_path :: "string list \<Rightarrow> string" where
  "join_path [] = []"
| "join_path [x] = x"
| "join_path (x # y # zs) = x @ SLASH # join_path (y # zs)"

definition good_comp :: "string \<Rightarrow> bool" where
  "good_comp x \<longleftrightarrow> x \<noteq> [] \<and> x \<noteq> [DOT]"

text \<open>
  The specification: drop the empty and the \<open>.\<close> components; an absolute path stays absolute, and a
  relative path with no component left is \<open>.\<close>.
\<close>

definition canonical_spec :: "string \<Rightarrow> string" where
  "canonical_spec path =
     (let keep = filter good_comp (comps path)
      in if path = [] then []
         else if hd path = SLASH then SLASH # join_path keep
         else if keep = [] then [DOT]
         else join_path keep)"

definition slashed :: "string list \<Rightarrow> string" where
  "slashed xs = concat (map ((#) SLASH) xs)"

definition tail_slash :: "string list \<Rightarrow> string" where
  "tail_slash xs = (if good_comp (last xs) then [] else [SLASH])"

lemma comps_not_Nil [simp]: "comps s \<noteq> []"
  by (cases s) auto

lemma comps_no_slash: "x \<in> set (comps s) \<Longrightarrow> SLASH \<notin> set x"
proof (induction s arbitrary: x)
  case Nil
  then show ?case by simp
next
  case (Cons c s)
  have "hd (comps s) \<in> set (comps s)" "set (tl (comps s)) \<subseteq> set (comps s)"
    by (auto intro: list.set_sel)
  with Cons show ?case by (auto split: if_splits)
qed

lemma comps_takeWhile:
  "comps s = takeWhile (\<lambda>x. x \<noteq> SLASH) s #
     (case dropWhile (\<lambda>x. x \<noteq> SLASH) s of [] \<Rightarrow> [] | c # t \<Rightarrow> comps t)"
  by (induction s) auto

lemma slashed_join: "ks \<noteq> [] \<Longrightarrow> slashed ks = SLASH # join_path ks"
  by (induction ks rule: join_path.induct) (auto simp: slashed_def)

lemma dropWhile_slash: "dropWhile (\<lambda>x. x \<noteq> SLASH) s = c # t \<Longrightarrow> c = SLASH"
  by (simp add: dropWhile_eq_Cons_conv)

text \<open>Skipping a run drops the leading components that are empty or \<open>.\<close>.\<close>

definition skipped :: "string \<Rightarrow> string \<Rightarrow> bool" where
  "skipped s r \<longleftrightarrow>
     (if r = [] then \<forall>x \<in> set (comps s). \<not> good_comp x
      else good_comp (takeWhile (\<lambda>x. x \<noteq> SLASH) r) \<and>
        (\<exists>bs. (\<forall>x \<in> set bs. \<not> good_comp x) \<and> comps s = bs @ comps r))"

lemma skipped_step:
  assumes "skipped u r" "comps s = b # comps u" "\<not> good_comp b"
  shows "skipped s r"
proof (cases "r = []")
  case True
  then show ?thesis using assms by (simp add: skipped_def)
next
  case False
  with assms(1) obtain bs where "\<forall>x \<in> set bs. \<not> good_comp x" "comps u = bs @ comps r"
    by (auto simp: skipped_def)
  with assms False show ?thesis by (auto simp: skipped_def intro!: exI [of _ "b # bs"])
qed

lemma skipS_comps: "skipped s (skipS s)"
proof (induction s rule: length_induct)
  case (1 s)
  show ?case
  proof (cases s)
    case Nil
    then show ?thesis by (simp add: skipped_def good_comp_def)
  next
    case (Cons c t)
    consider (slash) "c = SLASH" | (dot_end) "c = DOT" "t = []"
      | (dot) u where "c = DOT" "t = SLASH # u"
      | (good) "c \<noteq> SLASH" "\<not> (c = DOT \<and> (t = [] \<or> hd t = SLASH))"
      by (cases t) auto
    then show ?thesis
    proof cases
      case slash
      have "skipped t (skipS t)" using 1 Cons by simp
      then have "skipped s (skipS t)"
        using slash Cons by (elim skipped_step) (auto simp: good_comp_def)
      then show ?thesis using slash Cons by simp
    next
      case dot_end
      then show ?thesis using Cons by (simp add: skipped_def good_comp_def)
    next
      case dot
      have "skipped u (skipS u)" using 1 Cons dot by simp
      then have "skipped s (skipS u)"
        using dot Cons by (elim skipped_step) (auto simp: good_comp_def)
      then show ?thesis using dot Cons by simp
    next
      case good
      then have "skipS s = s" using Cons by auto
      moreover have "good_comp (takeWhile (\<lambda>x. x \<noteq> SLASH) s)"
        using good Cons by (cases t) (auto simp: good_comp_def)
      moreover have "s \<noteq> []" using Cons by simp
      ultimately show ?thesis unfolding skipped_def by (auto intro: exI [of _ "[]"])
    qed
  qed
qed

lemma canonS_slash:
  "canonS True (SLASH # t) = slashed (filter good_comp (comps t)) @ tail_slash (comps t)"
proof (induction t rule: length_induct)
  case (1 t)
  from skipS_comps [of t] consider
    (none) "skipS t = []" "\<forall>x \<in> set (comps t). \<not> good_comp x"
    | (some) bs where "skipS t \<noteq> []" "good_comp (takeWhile (\<lambda>x. x \<noteq> SLASH) (skipS t))"
      "\<forall>x \<in> set bs. \<not> good_comp x" "comps t = bs @ comps (skipS t)"
    by (auto simp: skipped_def split: if_splits)
  then show ?case
  proof cases
    case none
    then have "filter good_comp (comps t) = []" "\<not> good_comp (last (comps t))" by auto
    with none show ?thesis by (simp add: slashed_def tail_slash_def)
  next
    case some
    let ?g = "takeWhile (\<lambda>x. x \<noteq> SLASH) (skipS t)"
    have fb: "filter good_comp bs = []" using some by simp
    show ?thesis
    proof (cases "dropWhile (\<lambda>x. x \<noteq> SLASH) (skipS t)")
      case Nil
      then have "comps (skipS t) = [?g]"
        using comps_takeWhile [of "skipS t"] by (simp only: list.case)
      moreover have "canonS True (SLASH # t) = SLASH # ?g"
        by (simp only: canonS.simps Nil) simp
      ultimately show ?thesis using some fb by (simp add: slashed_def tail_slash_def del: canonS.simps)
    next
      case (Cons c u)
      then have c: "c = SLASH" by (rule dropWhile_slash)
      have ct: "comps (skipS t) = ?g # comps u" 
        using comps_takeWhile [of "skipS t"] by (simp only: Cons list.case)
      have "length u < length t"
        using length_dropWhile_le [of "\<lambda>x. x \<noteq> SLASH" "skipS t"] length_skipS [of t] Cons by simp
      with 1 have "canonS True (SLASH # u) =
          slashed (filter good_comp (comps u)) @ tail_slash (comps u)" by blast
      moreover have "canonS True (SLASH # t) = SLASH # ?g @ canonS True (SLASH # u)"
        using Cons c by (subst canonS.simps(2)) (simp del: canonS.simps)
      ultimately show ?thesis
        using some fb ct by (simp add: slashed_def tail_slash_def del: canonS.simps)
    qed
  qed
qed

section \<open>Character equations of the scanner\<close>

lemma canonS_other [path_simps]: "c \<noteq> SLASH \<Longrightarrow> canonS True (c # s) = c # canonS True s"
  by (cases s) auto

lemma canonS_slash_plain [path_simps]:
  "\<not> prefix ''/'' s \<Longrightarrow> \<not> prefix ''./'' s \<Longrightarrow> s \<noteq> ''.'' \<Longrightarrow>
   canonS True (SLASH # s) = SLASH # canonS True s"
proof (cases s)
  case (Cons d t)
  assume "\<not> prefix ''/'' s" "\<not> prefix ''./'' s" "s \<noteq> ''.''"
  then have "skipS s = s" "d \<noteq> SLASH" using Cons by (cases t; auto)+
  then show ?thesis using Cons by simp
qed simp

lemma canonS_relative:
  "comps s = x # xs \<Longrightarrow>
   canonS True s = x @ (if xs = [] then [] else slashed (filter good_comp xs) @ tail_slash xs)"
proof (induction s arbitrary: x xs)
  case Nil
  then show ?case by simp
next
  case (Cons c s)
  show ?case
  proof (cases "c = SLASH")
    case True
    with Cons.prems show ?thesis by (auto simp: canonS_slash simp del: canonS.simps(2))
  next
    case False
    obtain y ys where ys: "comps s = y # ys" by (cases "comps s") auto
    with Cons.prems False have "x = c # y" "xs = ys" by auto
    with Cons.IH [OF ys] False show ?thesis by (simp add: canonS_other del: canonS.simps(2))
  qed
qed

lemma fast_forward:
  "i < length s \<Longrightarrow> s ! i = SLASH \<Longrightarrow>
   (\<And>j. j < i \<Longrightarrow> \<not> prefix ''//'' (drop j s)) \<Longrightarrow>
   (\<And>j. j < i \<Longrightarrow> \<not> prefix ''/./'' (drop j s)) \<Longrightarrow>
   canonS True s = take i s @ canonS True (drop i s)"
proof (induction s arbitrary: i)
  case Nil
  then show ?case by simp
next
  case (Cons c s)
  show ?case
  proof (cases i)
    case 0
    then show ?thesis by simp
  next
    case (Suc k)
    have IH: "canonS True s = take k s @ canonS True (drop k s)"
    proof (rule Cons.IH)
      show "k < length s" "s ! k = SLASH" using Cons.prems(1,2) Suc by simp_all
      show "\<not> prefix ''//'' (drop j s)" "\<not> prefix ''/./'' (drop j s)" if "j < k" for j
        using Cons.prems(3,4) [of "Suc j"] Suc that by simp_all
    qed
    show ?thesis
    proof (cases "c = SLASH")
      case True
      have "\<not> prefix ''//'' (c # s)" "\<not> prefix ''/./'' (c # s)"
        using Cons.prems(3,4) [of 0] Suc by auto
      moreover have "s \<noteq> ''.''" using Cons.prems(1,2) Suc by auto
      ultimately have "canonS True (c # s) = SLASH # canonS True s"
        using True by (simp add: canonS_slash_plain del: canonS.simps(2))
      then show ?thesis using IH Suc True by simp
    next
      case False
      then show ?thesis using IH Suc by (simp add: canonS_other del: canonS.simps(2))
    qed
  qed
qed

lemma canonS_quick:
  "strstr s ''//'' = None \<Longrightarrow> strstr s ''/./'' = None \<Longrightarrow>
   canonS True s = (if suffix ''/.'' s then butlast s else s)"
proof (induction s)
  case Nil
  then show ?case by simp
next
  case (Cons c s)
  have IH: "canonS True s = (if suffix ''/.'' s then butlast s else s)"
    using Cons by (simp split: if_splits)
  show ?case
  proof (cases "c = SLASH")
    case True
    with Cons.prems have np: "\<not> prefix ''/'' s" "\<not> prefix ''./'' s" by (auto split: if_splits)
    show ?thesis
    proof (cases "s = ''.''")
      case True
      then show ?thesis using \<open>c = SLASH\<close> by (simp add: suffix_def)
    next
      case False
      then have "suffix ''/.'' (c # s) \<longleftrightarrow> suffix ''/.'' s" using True by (auto simp: suffix_Cons)
      then show ?thesis using IH canonS_slash_plain [OF np False] True
        by (auto simp del: canonS.simps(2) simp: suffix_def)
    qed
  next
    case False
    then have "suffix ''/.'' (c # s) \<longleftrightarrow> suffix ''/.'' s" by (auto simp: suffix_Cons)
    then show ?thesis using IH False by (auto simp: canonS_other suffix_def simp del: canonS.simps(2))
  qed
qed

section \<open>The in-place function meets its specification\<close>

text \<open>The end of the slow path: \<open>.\<close> for an empty result, and no trailing slash.\<close>

definition finish_path :: "string \<Rightarrow> string" where
  "finish_path r =
     (let r' = (if r = [] then [DOT] else r)
      in if length r' > 1 \<and> last r' = SLASH then butlast r' else r')"

text \<open>A buffer that holds \<open>r\<close>, a NUL after it, and has kept its size.\<close>

definition holds_path :: "string \<times> nat \<Rightarrow> nat \<Rightarrow> string \<Rightarrow> bool" where
  "holds_path res n r \<longleftrightarrow>
     length (fst res) = n \<and> snd res = length r \<and> length r < n \<and>
     take (length r) (fst res) = r \<and> fst res ! length r = NUL"

lemma last_join_path:
  "ks \<noteq> [] \<Longrightarrow> (\<And>k. k \<in> set ks \<Longrightarrow> good_comp k \<and> SLASH \<notin> set k) \<Longrightarrow>
   join_path ks \<noteq> [] \<and> last (join_path ks) \<noteq> SLASH"
proof (induction ks rule: join_path.induct)
  case (2 x)
  then show ?case by (metis good_comp_def join_path.simps(2) last_in_set list.set_intros(1))
qed auto

lemma finish_slashed:
  assumes "\<And>k. k \<in> set ks \<Longrightarrow> good_comp k \<and> SLASH \<notin> set k" "ks \<noteq> []" "t = [] \<or> t = [SLASH]"
  shows "finish_path (join_path ks @ t) = join_path ks"
    and "finish_path (SLASH # join_path ks @ t) = SLASH # join_path ks"
  using last_join_path [OF assms(2,1)] assms(3)
  by (auto simp: finish_path_def Let_def neq_Nil_conv butlast_append)

lemma keep_good: "k \<in> set (filter good_comp (comps s)) \<Longrightarrow> good_comp k \<and> SLASH \<notin> set k"
  by (auto dest: comps_no_slash)

lemma tail_slash_cases: "tail_slash xs = [] \<or> tail_slash xs = [SLASH]"
  by (simp add: tail_slash_def)

lemma finish_keep:
  assumes "filter good_comp (comps s) \<noteq> []" "t = [] \<or> t = [SLASH]"
  shows "finish_path (join_path (filter good_comp (comps s)) @ t) =
           join_path (filter good_comp (comps s))"
    and "finish_path (SLASH # join_path (filter good_comp (comps s)) @ t) =
           SLASH # join_path (filter good_comp (comps s))"
  by (rule finish_slashed [OF _ assms], erule keep_good)+

lemma comps_absolute: "s = SLASH # t \<Longrightarrow> filter good_comp (comps s) = filter good_comp (comps t)"
  by (simp add: good_comp_def)

lemma finish_absolute:
  "finish_path (canonS True (SLASH # t)) = SLASH # join_path (filter good_comp (comps t))"
proof (cases "filter good_comp (comps t) = []")
  case True
  then have "\<not> good_comp (last (comps t))" by (simp add: filter_empty_conv)
  with True show ?thesis unfolding canonS_slash
    by (simp add: finish_path_def slashed_def tail_slash_def Let_def)
next
  case False
  with finish_keep(2) [OF False tail_slash_cases]
  show ?thesis unfolding canonS_slash by (simp add: slashed_join)
qed

lemma finish_dot_slash:
  "finish_path (tl (canonS True (SLASH # t))) =
     (if filter good_comp (comps t) = [] then [DOT] else join_path (filter good_comp (comps t)))"
proof (cases "filter good_comp (comps t) = []")
  case True
  then have "\<not> good_comp (last (comps t))" by (simp add: filter_empty_conv)
  with True show ?thesis unfolding canonS_slash
    by (simp add: finish_path_def slashed_def tail_slash_def Let_def)
next
  case False
  with finish_keep(1) [OF False tail_slash_cases]
  show ?thesis unfolding canonS_slash by (simp add: slashed_join)
qed

lemma join_path_Cons: "ks \<noteq> [] \<Longrightarrow> join_path (x # ks) = x @ SLASH # join_path ks"
  by (cases ks) auto

lemma finish_relative:
  assumes "s \<noteq> []" "hd s \<noteq> SLASH" "\<not> prefix ''./'' s"
  shows "finish_path (canonS True s) = canonical_spec s"
proof -
  obtain x xs where xs: "comps s = x # xs" by (cases "comps s") auto
  have x: "x = takeWhile (\<lambda>c. c \<noteq> SLASH) s" "x \<noteq> []"
    using comps_takeWhile [of s] xs assms by (auto simp: neq_Nil_conv)
  note e = canonS_relative [OF xs]
  show ?thesis
  proof (cases "good_comp x")
    case False
    then have xd: "x = [DOT]" using x by (simp add: good_comp_def)
    have "s = [DOT]"
      using x(1) xd assms by (cases s; cases "tl s") (auto split: if_splits)
    then show ?thesis by (simp add: finish_path_def canonical_spec_def good_comp_def)
  next
    case True
    define ks where "ks = filter good_comp (comps s)"
    have ks: "ks = x # filter good_comp xs" using True xs by (simp add: ks_def)
    have "\<exists>t. canonS True s = join_path ks @ t \<and> (t = [] \<or> t = [SLASH])"
    proof (cases "filter good_comp xs = []")
      case True
      then show ?thesis using e tail_slash_cases [of xs] ks by (simp add: slashed_def)
    next
      case False
      then have "xs \<noteq> []" by auto
      then show ?thesis using e False tail_slash_cases [of xs] ks
        by (simp add: slashed_join join_path_Cons)
    qed
    then obtain t where t: "canonS True s = join_path ks @ t" "t = [] \<or> t = [SLASH]" by blast
    have "finish_path (canonS True s) = join_path ks"
      unfolding t(1) ks_def using ks by (intro finish_keep(1) t(2)) (simp add: ks_def)
    then show ?thesis using assms ks by (simp add: canonical_spec_def flip: ks_def)
  qed
qed

lemma canonical_spec_finish:
  "s \<noteq> [] \<Longrightarrow> \<not> prefix ''./'' s \<Longrightarrow> finish_path (canonS True s) = canonical_spec s"
  using finish_relative [of s] finish_absolute [of "tl s"]
  by (cases s) (auto simp: canonical_spec_def good_comp_def simp del: canonS.simps)

lemma canonical_spec_dot_slash:
  "canonical_spec (DOT # SLASH # t) = finish_path (tl (canonS True (SLASH # t)))"
  unfolding finish_dot_slash by (simp add: canonical_spec_def good_comp_def)

lemma canonS_False_slash: "canonS False (SLASH # t) = tl (canonS True (SLASH # t))"
  by simp

lemma last_take_nth: "0 < k \<Longrightarrow> k \<le> length b \<Longrightarrow> last (take k b) = cget b (k - 1)"
  by (subst last_conv_nth) (auto simp: min_def cget_def)

lemma holds_finish:
  assumes "canon_loop buf src dst add = (buf1, dst1)" "dst1 < length buf" "length buf1 = length buf"
    "take dst1 buf1 = r" "1 < length buf"
  shows "holds_path
     (let (buf2, dst2) = (if dst1 = 0 then (buf1[dst1 := DOT], dst1 + 1) else (buf1, dst1));
          dst3 = (if dst2 > 1 \<and> cget buf2 (dst2 - 1) = SLASH then dst2 - 1 else dst2)
      in (buf2[dst3 := NUL], dst3)) (length buf) (finish_path r)"
proof (cases "dst1 = 0")
  case True
  then show ?thesis using assms
    by (auto simp: holds_path_def finish_path_def Let_def cget_def take_Suc_conv_app_nth)
next
  case False
  then have r: "length r = dst1" "r \<noteq> []" using assms by auto
  have c: "cget buf1 (dst1 - 1) = last r"
    using last_take_nth [of dst1 buf1] assms False by simp
  have b: "take (dst1 - 1) buf1 = butlast r"
    using assms False by (auto simp: butlast_take)
  show ?thesis
    using assms False r b c by (auto simp: holds_path_def finish_path_def Let_def)
qed

lemma strstr_slash_at:
  assumes "strstr s n = Some i" "prefix [SLASH] n" 
  shows "i < length s \<and> s ! i = SLASH"
proof -
  have "prefix [SLASH] (drop i s)"
    using strstr_Some_D [OF assms(1)] assms(2) prefix_order.trans by blast
  then show ?thesis by (auto simp: prefix_def) (metis drop_eq_Nil linorder_not_less list.distinct(1),
      metis hd_drop_conv_nth drop_eq_Nil linorder_not_less list.distinct(1) list.sel(1))
qed

lemma first_match_forward:
  assumes "strstr s ''//'' \<noteq> None \<or> strstr s ''/./'' \<noteq> None"
    "p = (case (strstr s ''//'', strstr s ''/./'') of
        (Some i, Some j) \<Rightarrow> (if i < j then i else j)
      | (Some i, None) \<Rightarrow> i | (None, Some j) \<Rightarrow> j | (None, None) \<Rightarrow> 0)"
  shows "p < length s \<and> canonS True s = take p s @ canonS True (drop p s)"
proof -
  have *: "p < length s \<and> s ! p = SLASH \<and> (\<forall>j < p. \<not> prefix ''//'' (drop j s) \<and> \<not> prefix ''/./'' (drop j s))"
    using assms strstr_slash_at [of s "''//''"] strstr_slash_at [of s "''/./''"]
      strstr_Some_D [of s "''//''"] strstr_Some_D [of s "''/./''"]
      strstr_None_iff [of s "''//''"] strstr_None_iff [of s "''/./''"]
    by (auto split: option.splits if_splits)
  then show ?thesis using fast_forward [of p s] by blast
qed

lemma quick_finish:
  assumes "strstr s ''//'' = None" "strstr s ''/./'' = None" "s \<noteq> []"
  shows "finish_path (canonS True s) =
    (let t = (if suffix ''/.'' s then butlast s else s)
     in if length t \<ge> 2 \<and> last t = SLASH then butlast t else t)"
  using assms(3) unfolding canonS_quick [OF assms(1,2)] finish_path_def
  by (auto simp: Let_def suffix_def butlast_append)

lemma cget_last: "s \<noteq> [] \<Longrightarrow> cget s (length s - 1) = last s"
  by (simp add: cget_def last_conv_nth)

lemma suffix_slash_dot_iff:
  "suffix ''/.'' s \<longleftrightarrow>
     length s \<ge> 2 \<and> cget s (length s - 1) = DOT \<and> cget s (length s - 2) = SLASH"
proof (cases s rule: rev_cases)
  case (snoc u c)
  then show ?thesis by (cases u rule: rev_cases) (auto simp: suffix_def cget_def nth_append)
qed simp

lemma takeWhile_path: "nul_free path \<Longrightarrow> takeWhile (\<lambda>c. c \<noteq> NUL) (path @ [NUL]) = path"
  by (subst takeWhile_append2) (auto simp: nul_free_def)

lemma holds_strip:
  assumes "length t < n" "length b = n" "take (length t) b = t" "b ! length t = NUL"
  shows "holds_path (if length t \<ge> 2 \<and> cget b (length t - 1) = SLASH
       then (b[length t - 1 := NUL], length t - 1) else (b, length t)) n
     (if length t \<ge> 2 \<and> last t = SLASH then butlast t else t)"
proof -
  have "last t = cget b (length t - 1)" if "length t \<ge> 2"
    using last_take_nth [of "length t" b] assms that by fastforce
  moreover have "take (length t - 1) b = butlast t"
    using assms(1,2) by (metis assms(3) butlast_take less_imp_le)
  ultimately show ?thesis using assms by (auto simp: holds_path_def)
qed

lemma make_canonical_holds:
  assumes "nul_free path"
  shows "holds_path (make_canonical (path @ [NUL]) (length path)) (length path + 1)
           (canonical_spec path)"
proof -
  let ?buf = "path @ [NUL]"
  note tw = takeWhile_path [OF assms]
  consider (empty) "path = []"
    | (dot) t where "path = DOT # SLASH # t"
    | (quick) "path \<noteq> []" "\<not> prefix ''./'' path" "strstr path ''//'' = None" "strstr path ''/./'' = None"
    | (slow) "path \<noteq> []" "\<not> prefix ''./'' path" "strstr path ''//'' \<noteq> None \<or> strstr path ''/./'' \<noteq> None"
    by (cases "prefix ''./'' path") (auto simp: prefix_def)
  then show ?thesis
  proof cases
    case empty
    then show ?thesis by (simp add: make_canonical_def holds_path_def canonical_spec_def)
  next
    case dot
    have u: "unread ?buf 1 (SLASH # t)" using dot assms by (simp add: unread_def)
    from canon_loop_canonS [OF u, of 0 False] obtain b d where
      l: "canon_loop ?buf 1 0 False = (b, d)" "d < length ?buf" "length b = length ?buf"
         "take d b = canonS False (SLASH # t)" by auto
    show ?thesis using holds_finish [OF l] l(1) dot
      by (simp add: make_canonical_def Let_def canonical_spec_dot_slash canonS_False_slash
          del: canonS.simps)
  next
    case quick
    define t where "t = (if suffix ''/.'' path then butlast path else path)"
    define b where "b = (if suffix ''/.'' path then ?buf[length path - 1 := NUL] else ?buf)"
    have fin: "canonical_spec path = (if length t \<ge> 2 \<and> last t = SLASH then butlast t else t)"
      using canonical_spec_finish [OF quick(1,2)] quick_finish [OF quick(3,4,1)]
      unfolding t_def Let_def by (rule trans [OF sym])
    have hb: "length t < length path + 1" "length b = length path + 1" "take (length t) b = t"
      "b ! length t = NUL"
      using quick(1) by (auto simp: b_def t_def butlast_conv_take)
    have sfx: "suffix ''/.'' path \<longleftrightarrow> length path \<ge> 2 \<and> cget ?buf (length path - 1) = DOT
        \<and> cget ?buf (length path - 2) = SLASH"
      using quick(1) by (auto simp: suffix_slash_dot_iff cget_append_left)
    have c0: "\<not> (cget ?buf 0 = DOT \<and> cget ?buf 1 = SLASH)" "cget ?buf 0 \<noteq> NUL"
      using quick(1,2) assms by (cases path; cases "tl path"; auto simp: cget_def)+
    have "make_canonical ?buf (length path) =
        (if length t \<ge> 2 \<and> cget b (length t - 1) = SLASH
         then (b[length t - 1 := NUL], length t - 1) else (b, length t))"
    proof (cases "suffix ''/.'' path")
      case True
      with sfx quick c0 show ?thesis by (simp add: make_canonical_def tw Let_def t_def b_def)
    next
      case False
      with sfx have n: "\<not> (length path \<ge> 2 \<and> cget ?buf (length path - 1) = DOT
        \<and> cget ?buf (length path - 2) = SLASH)" by blast
      show ?thesis
        unfolding make_canonical_def tw Let_def t_def b_def if_not_P [OF n] if_not_P [OF False]
        using quick c0 by simp
    qed
    then show ?thesis unfolding fin using holds_strip [OF hb] by simp
  next
    case slow
    define p where "p = (case (strstr path ''//'', strstr path ''/./'') of
        (Some i, Some j) \<Rightarrow> (if i < j then i else j)
      | (Some i, None) \<Rightarrow> i | (None, Some j) \<Rightarrow> j | (None, None) \<Rightarrow> 0)"
    have p: "p < length path" "canonS True path = take p path @ canonS True (drop p path)"
      using first_match_forward [OF slow(3) p_def] by auto
    have u: "unread ?buf p (drop p path)" using p assms by (simp add: unread_def nul_free_drop)
    from canon_loop_canonS [OF u, of p True] p obtain b d where
      l: "canon_loop ?buf p p True = (b, d)" "d < length ?buf" "length b = length ?buf"
         "take d b = canonS True path" by auto
    have c0: "\<not> (cget ?buf 0 = DOT \<and> cget ?buf 1 = SLASH)" "cget ?buf 0 \<noteq> NUL"
      using slow(1,2) assms by (cases path; cases "tl path"; auto simp: cget_def)+
    have n: "\<not> (\<not> (cget ?buf 0 = DOT \<and> cget ?buf 1 = SLASH) \<and>
        strstr path ''//'' = None \<and> strstr path ''/./'' = None)" using slow(3) by blast
    have "make_canonical ?buf (length path) =
       (let (buf2, dst2) = (if d = 0 then (b[d := DOT], d + 1) else (b, d));
            dst3 = (if dst2 > 1 \<and> cget buf2 (dst2 - 1) = SLASH then dst2 - 1 else dst2)
        in (buf2[dst3 := NUL], dst3))"
      unfolding make_canonical_def tw Let_def if_not_P [OF c0(1)] if_not_P [OF c0(2)] if_not_P [OF n]
        p_def [symmetric] by (simp only: prod.case l(1))
    then show ?thesis
      using holds_finish [OF l] canonical_spec_finish [OF slow(1,2)] slow(1) by simp
  qed
qed

section \<open>Canonical paths are the fixed points\<close>

lemma comps_no_slash_id: "SLASH \<notin> set x \<Longrightarrow> comps x = [x]"
  by (induction x) auto

lemma comps_append: "SLASH \<notin> set x \<Longrightarrow> comps (x @ SLASH # s) = x # comps s"
  by (induction x) auto

lemma comps_join_path:
  "ks \<noteq> [] \<Longrightarrow> \<forall>k \<in> set ks. SLASH \<notin> set k \<Longrightarrow> comps (join_path ks) = ks"
  by (induction ks rule: join_path.induct) (auto simp: comps_no_slash_id comps_append)

lemma hd_join_path:
  "ks \<noteq> [] \<Longrightarrow> \<forall>k \<in> set ks. k \<noteq> [] \<and> SLASH \<notin> set k \<Longrightarrow>
   join_path ks \<noteq> [] \<and> hd (join_path ks) \<noteq> SLASH"
  by (induction ks rule: join_path.induct) (auto simp: hd_append dest: hd_in_set)

lemma canonical_spec_idem: "canonical_spec (canonical_spec s) = canonical_spec s"
proof -
  define ks where "ks = filter good_comp (comps s)"
  have ks: "\<forall>k \<in> set ks. k \<noteq> [] \<and> SLASH \<notin> set k" "filter good_comp ks = ks"
    using comps_no_slash [of _ s] by (auto simp: ks_def) (auto simp: good_comp_def)
  have fc: "filter good_comp (comps (join_path ks)) = ks"
    using comps_join_path [of ks] ks by (cases "ks = []") (auto simp: good_comp_def)
  have fa: "filter good_comp (comps (SLASH # join_path ks)) = ks"
    using fc by (simp add: good_comp_def)
  have fd: "canonical_spec [DOT] = [DOT]" by (simp add: canonical_spec_def good_comp_def)
  have "canonical_spec s =
      (if s = [] then [] else if hd s = SLASH then SLASH # join_path ks
       else if ks = [] then [DOT] else join_path ks)"
    by (simp add: canonical_spec_def Let_def flip: ks_def)
  moreover have "canonical_spec (SLASH # join_path ks) = SLASH # join_path ks"
    using fa by (simp add: canonical_spec_def Let_def del: comps.simps)
  moreover have "canonical_spec (join_path ks) = join_path ks" if "ks \<noteq> []"
    using fc that hd_join_path [of ks] ks by (simp add: canonical_spec_def Let_def)
  ultimately show ?thesis using fd by (simp add: canonical_spec_def [of "[]"])
qed

lemma length_canonS: "length (canonS add s) \<le> length s"
proof (induction add s rule: canonS.induct)
  case (1 add)
  then show ?case by simp
next
  case (2 add c s)
  have tw: "length (takeWhile P t) + length (dropWhile P t) = length t" for P and t :: string
    by (metis length_append takeWhile_dropWhile_id)
  show ?case
    using 2 length_skipS [of s] tw [of "\<lambda>x. x \<noteq> SLASH" "skipS s"] tw [of "\<lambda>x. x \<noteq> SLASH" s]
    by (cases "c = SLASH") auto
qed

lemma canonS_shrinks:
  assumes "strstr s ''//'' \<noteq> None \<or> strstr s ''/./'' \<noteq> None"
  shows "length (canonS True s) < length s"
proof -
  obtain i where i: "i < length s" "prefix ''//'' (drop i s) \<or> prefix ''/./'' (drop i s)"
    "canonS True s = take i s @ canonS True (drop i s)"
  proof -
    let ?p = "(case (strstr s ''//'', strstr s ''/./'') of
        (Some i, Some j) \<Rightarrow> (if i < j then i else j)
      | (Some i, None) \<Rightarrow> i | (None, Some j) \<Rightarrow> j | (None, None) \<Rightarrow> 0)"
    have "prefix ''//'' (drop ?p s) \<or> prefix ''/./'' (drop ?p s)"
      using assms strstr_Some_D [of s "''//''"] strstr_Some_D [of s "''/./''"]
      by (auto split: option.splits)
    then show ?thesis using that first_match_forward [OF assms refl] by blast
  qed
  have "length (canonS True (drop i s)) < length (drop i s)"
    using i(2)
  proof
    assume "prefix ''//'' (drop i s)"
    then obtain u where u: "drop i s = SLASH # SLASH # u" by (auto simp: prefix_def)
    have "canonS True (SLASH # SLASH # u) = canonS True (SLASH # u)" by simp
    then show ?thesis using u length_canonS [of True "SLASH # u"] by (simp del: canonS.simps)
  next
    assume "prefix ''/./'' (drop i s)"
    then obtain u where u: "drop i s = SLASH # DOT # SLASH # u" by (auto simp: prefix_def)
    have "canonS True (SLASH # DOT # SLASH # u) = canonS True (SLASH # u)" by simp
    then show ?thesis using u length_canonS [of True "SLASH # u"] by (simp del: canonS.simps)
  qed
  then show ?thesis using i(1,3) by simp
qed

lemma length_finish_path: "length (finish_path r) \<le> max 1 (length r)"
  by (auto simp: finish_path_def Let_def)

lemma is_canonical_iff:
  assumes "nul_free path"
  shows "is_canonical path (length path) \<longleftrightarrow> canonical_spec path = path"
proof -
  consider (empty) "path = []"
    | (dot) t where "path = DOT # SLASH # t"
    | (quick) "path \<noteq> []" "\<not> prefix ''./'' path" "strstr path ''//'' = None" "strstr path ''/./'' = None"
    | (slow) "path \<noteq> []" "\<not> prefix ''./'' path" "strstr path ''//'' \<noteq> None \<or> strstr path ''/./'' \<noteq> None"
    by (cases "prefix ''./'' path") (auto simp: prefix_def)
  then show ?thesis
  proof cases
    case empty
    then show ?thesis by (simp add: is_canonical_def canonical_spec_def)
  next
    case dot
    have "length (canonical_spec path) < length path"
      using length_canonS [of True "SLASH # t"] length_finish_path [of "tl (canonS True (SLASH # t))"]
      unfolding dot canonical_spec_dot_slash by (simp del: canonS.simps)
    then show ?thesis using dot by (auto simp: is_canonical_def)
  next
    case quick
    let ?t = "if suffix ''/.'' path then butlast path else path"
    have fin: "canonical_spec path = (if length ?t \<ge> 2 \<and> last ?t = SLASH then butlast ?t else ?t)"
      using canonical_spec_finish [OF quick(1,2)] quick_finish [OF quick(3,4,1)]
      unfolding Let_def by (rule trans [OF sym])
    have len: "butlast path \<noteq> path" "butlast (butlast path) \<noteq> path"
      using quick(1) by (metis diff_less length_butlast length_greater_0_conv less_one nat_neq_iff,
          metis append_butlast_last_id butlast.simps(1) length_append_singleton length_butlast
          diff_le_self le_trans not_less_eq_eq order_refl quick(1))
    have c0: "\<not> (cget path 0 = DOT \<and> cget path 1 = SLASH)" "cget path 0 \<noteq> NUL"
      using quick(1,2) assms by (cases path; cases "tl path"; auto)+
    have "is_canonical path (length path) \<longleftrightarrow>
        \<not> (length path \<ge> 2 \<and> last path = SLASH) \<and> \<not> suffix ''/.'' path"
      using c0 quick cget_last [of path] by (auto simp: is_canonical_def suffix_slash_dot_iff)
    then show ?thesis using fin len by auto
  next
    case slow
    then have "length (canonS True path) < length path" by (intro canonS_shrinks)
    moreover have "1 < length path" using slow(1,3) by (cases path; cases "tl path") (auto simp: prefix_def)
    ultimately have "length (canonical_spec path) < length path"
      using canonical_spec_finish [OF slow(1,2)] length_finish_path [of "canonS True path"] by simp
    moreover have "\<not> is_canonical path (length path)"
      using slow nul_free_cget [OF assms, of 0] by (auto simp: is_canonical_def)
    ultimately show ?thesis by auto
  qed
qed

section \<open>Locations\<close>

definition strip_slashes :: "string \<Rightarrow> string" where
  "strip_slashes s = take (strip_location_len s (length s)) s"

text \<open>The path is the location or lies below it.\<close>

definition at_location :: "string \<Rightarrow> string \<Rightarrow> bool" where
  "at_location path location \<longleftrightarrow>
     path = strip_slashes location \<or> prefix (strip_slashes location @ ''/'') path"

definition view_ok :: "cstring_view \<Rightarrow> bool" where
  "view_ok v \<longleftrightarrow> cv_length v = length (c_str v) \<and> nul_free (c_str v)"

lemma strip_location_len_le: "strip_location_len s n \<le> n"
  by (induction n) auto

lemma strip_location_len_slash:
  "strip_location_len s n \<le> i \<Longrightarrow> i < n \<Longrightarrow> cget s i = SLASH"
  by (induction n) (auto split: if_splits simp: less_Suc_eq)

lemma strip_slashes_append:
  "\<exists>n. s = strip_slashes s @ replicate n SLASH"
proof
  let ?k = "strip_location_len s (length s)"
  have "drop ?k s = replicate (length s - ?k) SLASH"
    using strip_location_len_slash [of s "length s"] by (intro nth_equalityI) (auto simp: cget_def)
  then show "s = strip_slashes s @ replicate (length s - ?k) SLASH"
    by (metis append_take_drop_id strip_slashes_def)
qed

lemma strip_slashes_cases:
  assumes "\<not> suffix ''//'' s"
  shows "s = strip_slashes s \<or> s = strip_slashes s @ ''/''"
proof -
  obtain n where n: "s = strip_slashes s @ replicate n SLASH" using strip_slashes_append by blast
  have "n < 2"
  proof (rule ccontr)
    assume "\<not> n < 2"
    then obtain m where "n = m + 2" by (metis add.commute le_Suc_ex not_less)
    then have "replicate n SLASH = replicate m SLASH @ ''//''"
      by (simp only: replicate_add) (simp add: numeral_2_eq_2)
    then have "suffix ''//'' s"
      using n by (metis append.assoc suffix_def)
    with assms show False ..
  qed
  then have "n = 0 \<or> n = 1" by auto
  then show ?thesis using n by auto
qed

lemma at_location_prefix:
  "at_location path l \<longleftrightarrow>
     (let n = length (strip_slashes l)
      in n \<le> length path \<and> take n path = strip_slashes l \<and> (n = length path \<or> path ! n = SLASH))"
proof -
  have e: "prefix (m @ ''/'') path \<longleftrightarrow>
      length m < length path \<and> take (length m) path = m \<and> path ! length m = SLASH" for m
  proof
    assume "prefix (m @ ''/'') path"
    then show "length m < length path \<and> take (length m) path = m \<and> path ! length m = SLASH"
      by (auto simp: prefix_def)
  next
    assume a: "length m < length path \<and> take (length m) path = m \<and> path ! length m = SLASH"
    then have "path = m @ SLASH # drop (Suc (length m)) path" by (metis id_take_nth_drop)
    then show "prefix (m @ ''/'') path" by (metis append.assoc append_Cons append_Nil prefix_def)
  qed
  show ?thesis
  proof (cases "length (strip_slashes l) < length path")
    case True
    then have "path \<noteq> strip_slashes l" by auto
    with True show ?thesis by (simp add: at_location_def e Let_def less_imp_neq)
  next
    case False
    then show ?thesis by (auto simp: at_location_def e Let_def)
  qed
qed

text \<open>
  The early \<open>return false\<close>: when a location differs from the path first at a greater byte, no
  later location of the sorted array can match.
\<close>

lemma greater_location_no_match:
  assumes le: "l \<le> (l' :: string)"
    and no: "\<not> suffix ''//'' l'"
    and k: "k < length (strip_slashes l)" "length (strip_slashes l) \<le> length path"
      "\<forall>i < k. cget l i = cget path i" "cget path k < cget l k"
  shows "\<not> at_location path l'"
proof
  assume "at_location path l'"
  define m where "m = strip_slashes l'"
  have m: "length m \<le> length path" "take (length m) path = m"
      "length m = length path \<or> path ! length m = SLASH"
    using \<open>at_location path l'\<close> by (auto simp: at_location_prefix Let_def m_def)
  have l': "l' = m \<or> l' = m @ ''/''" using strip_slashes_cases [OF no] by (simp add: m_def)
  have kl: "k < length l" using k(1) by (simp add: strip_slashes_def)
  have kp: "k < length path" using k by simp
  have eq: "\<And>i. i < k \<Longrightarrow> l ! i = path ! i" using k(3) kl kp by (auto simp: cget_def)
  have gt: "path ! k < l ! k" using k(4) kl kp by (simp add: cget_def)
  have tk: "take k l = take k path" using eq kl kp by (intro nth_equalityI) auto
  have l_split: "l = take k path @ l ! k # drop (Suc k) l" using kl tk by (metis id_take_nth_drop)
  have "l' < l"
  proof (cases "k < length m")
    case True
    have kl': "k < length l'" using l' True by auto
    have pm: "prefix m path" using m(2) by (metis take_is_prefix)
    have tl: "take k l' = take k path"
      using l' True pm by (auto simp: prefix_def)
    have nl: "l' ! k = path ! k"
      using l' True pm by (auto simp: prefix_def nth_append)
    have "l' = take k path @ path ! k # drop (Suc k) l'" using kl' tl nl by (metis id_take_nth_drop)
    then have "l' < take k path @ l ! k # drop (Suc k) l" using gt
      by (metis lex_append_less Cons_less_Cons)
    then show ?thesis using l_split by simp
  next
    case False
    with kp have sl: "path ! length m = SLASH" using m(3) by auto
    show ?thesis
    proof (cases "length m = k")
      case True
      then have lm: "l = m @ l ! k # drop (Suc k) l" using l_split m(2) by simp
      have "SLASH < l ! k" using gt sl True by simp
      then have "m @ ''/'' < m @ l ! k # drop (Suc k) l" "m < m @ l ! k # drop (Suc k) l"
        using lex_append_less [of m "[]"] by (simp_all add: lex_append_less)
      then show ?thesis using l' lm by auto
    next
      case False
      with \<open>\<not> k < length m\<close> have lt: "length m < k" by simp
      have "take (Suc (length m)) l = take (Suc (length m)) path"
        using tk lt by (metis Suc_leI min.absorb1 take_take)
      also have "\<dots> = m @ ''/''" using lt kp sl m(2) by (simp add: take_Suc_conv_app_nth)
      finally have "prefix (m @ ''/'') l" by (metis take_is_prefix)
      then have "prefix l' l" using l' by (auto intro: append_prefixD)
      moreover have "l' \<noteq> l" using l' lt kl by auto
      ultimately show ?thesis by (simp add: prefix_less)
    qed
  qed
  with le show False by simp
qed

text \<open>The body of the loop on one location, by the outcome of the comparison.\<close>

lemma location_step_match:
  assumes "view_ok v" "path_len \<le> length path" "n = strip_location_len (c_str v) (cv_length v)"
  shows "at_location (take path_len path) (c_str v) \<longleftrightarrow>
    n \<le> path_len \<and> (n < path_len \<longrightarrow> cget path n = SLASH) \<and> memcmp (c_str v) path n = 0"
proof -
  have n: "n = length (strip_slashes (c_str v))" "n \<le> length (c_str v)"
    using assms strip_location_len_le [of "c_str v" "length (c_str v)"]
    by (auto simp: strip_slashes_def view_ok_def)
  have s: "strip_slashes (c_str v) = take n (c_str v)"
    using assms by (simp add: strip_slashes_def view_ok_def)
  have mc: "memcmp (c_str v) path n = 0 \<longleftrightarrow> take n path = take n (c_str v)" if "n \<le> path_len"
    using memcmp_eq_0_take [of n "c_str v" path] n(2) assms(2) that by auto
  have cg: "cget path n = take path_len path ! n" if "n < path_len"
    using assms(2) that by (simp add: cget_def)
  show ?thesis
  proof (cases "n \<le> path_len")
    case True
    then have "length (take path_len path) = path_len" "take n (take path_len path) = take n path"
      using assms(2) by (simp_all add: min_def)
    then show ?thesis
      unfolding at_location_prefix Let_def n(1) [symmetric] s
      using True mc cg min_absorb2 [OF n(2)] by (cases "n = path_len") (simp_all add: conj_commute)
  next
    case False
    then show ?thesis
      unfolding at_location_prefix Let_def n(1) [symmetric] using assms(2) by simp
  qed
qed

lemma at_locations_loop_correct:
  assumes "path_len \<le> length path" "\<forall>v \<in> set vs. view_ok v \<and> \<not> suffix ''//'' (c_str v)"
    "sorted (map c_str vs)"
  shows "at_locations_loop path path_len vs \<longleftrightarrow>
    (\<exists>v \<in> set vs. at_location (take path_len path) (c_str v))"
  using assms(2,3)
proof (induction vs)
  case Nil
  then show ?case by simp
next
  case (Cons v vs)
  define n where "n = strip_location_len (c_str v) (cv_length v)"
  have IH: "at_locations_loop path path_len vs \<longleftrightarrow>
      (\<exists>v \<in> set vs. at_location (take path_len path) (c_str v))" using Cons by simp
  have vok: "view_ok v" using Cons.prems by simp
  note m = location_step_match [OF vok assms(1) n_def]
  have stop: "\<not> at_location (take path_len path) (c_str w)"
    if w: "w \<in> set vs" and le: "n \<le> path_len" and pos: "0 < memcmp (c_str v) path n" for w
  proof -
    from pos obtain k where k: "k < n" "\<forall>i < k. cget (c_str v) i = cget path i"
      "cget path k < cget (c_str v) k" by (auto simp: memcmp_pos_iff)
    have n: "n = length (strip_slashes (c_str v))"
      using vok strip_location_len_le [of "c_str v" "length (c_str v)"]
      by (auto simp: n_def strip_slashes_def view_ok_def)
    have cg: "cget (take path_len path) i = cget path i" if "i \<le> k" for i
      using that k(1) le assms(1) by (simp add: cget_def)
    show ?thesis
    proof (rule greater_location_no_match [of "c_str v" "c_str w" k])
      show "c_str v \<le> c_str w" "\<not> suffix ''//'' (c_str w)" using Cons.prems w by auto
      show "k < length (strip_slashes (c_str v))" using k(1) n by simp
      show "length (strip_slashes (c_str v)) \<le> length (take path_len path)"
        using n le assms(1) by simp
      show "\<forall>i<k. cget (c_str v) i = cget (take path_len path) i"
        "cget (take path_len path) k < cget (c_str v) k" using k cg by simp_all
    qed
  qed
  consider "path_len < n" | "n < path_len" "cget path n \<noteq> SLASH"
    | "n \<le> path_len" "n < path_len \<longrightarrow> cget path n = SLASH" by linarith
  then show ?case
  proof cases
    case 3
    consider "memcmp (c_str v) path n < 0" | "memcmp (c_str v) path n = 0"
      | "0 < memcmp (c_str v) path n" by linarith
    then show ?thesis using 3 IH m stop by cases (auto simp: Let_def simp flip: n_def)
  qed (use IH m in \<open>auto simp: Let_def simp flip: n_def\<close>)
qed

lemma make_canonical_fixed:
  assumes "nul_free path"
  shows "make_canonical (path @ [NUL]) (length path) = (path @ [NUL], length path) \<longleftrightarrow>
    canonical_spec path = path"
proof (cases "make_canonical (path @ [NUL]) (length path)")
  case (Pair buf len)
  with make_canonical_holds [OF assms] have h: "length buf = length path + 1"
    "len = length (canonical_spec path)" "take len buf = canonical_spec path" "buf ! len = NUL"
    by (simp_all add: holds_path_def)
  show ?thesis
  proof
    assume "canonical_spec path = path"
    with h have "buf = path @ [NUL]" by (metis Suc_eq_plus1 lessI take_Suc_conv_app_nth take_all_iff le_refl)
    then show "make_canonical (path @ [NUL]) (length path) = (path @ [NUL], length path)"
      using Pair h \<open>canonical_spec path = path\<close> by simp
  next
    assume "make_canonical (path @ [NUL]) (length path) = (path @ [NUL], length path)"
    then show "canonical_spec path = path" using Pair h by simp
  qed
qed

lemma nul_free_join_path: "\<forall>k \<in> set ks. nul_free k \<Longrightarrow> nul_free (join_path ks)"
  by (induction ks rule: join_path.induct) auto

lemma comps_subset: "x \<in> set (comps s) \<Longrightarrow> set x \<subseteq> set s"
proof (induction s arbitrary: x)
  case (Cons c s)
  have "hd (comps s) \<in> set (comps s)" "set (tl (comps s)) \<subseteq> set (comps s)"
    by (auto intro: list.set_sel)
  then have "set (hd (comps s)) \<subseteq> set s" "\<forall>y \<in> set (tl (comps s)). set y \<subseteq> set s"
    using Cons.IH by blast+
  moreover have "set x \<subseteq> set s" if "x \<in> set (comps s)" using Cons.IH that .
  ultimately show ?case using Cons.prems by (cases "c = SLASH") (auto simp del: list.set_sel)
qed simp

lemma nul_free_canonical_spec: "nul_free path \<Longrightarrow> nul_free (canonical_spec path)"
  using comps_subset [of _ path] nul_free_join_path [of "filter good_comp (comps path)"]
  by (auto simp: canonical_spec_def Let_def nul_free_def)

section \<open>Properties\<close>

text \<open>
  C9: in-place canonicalisation.  On every NUL-free path, \<open>make_canonical\<close> leaves in the buffer
  exactly the path whose empty and \<open>.\<close> components are dropped, NUL-terminated, returns its length,
  and writes only inside the original buffer.
\<close>

theorem make_canonical_correct:
  "nul_free path \<Longrightarrow>
   (case make_canonical (path @ [NUL]) (length path) of
      (buf, len) \<Rightarrow> length buf = length path + 1 \<and> len \<le> length path \<and>
        take len buf = canonical_spec path \<and> len = length (canonical_spec path) \<and> buf ! len = NUL)"
  using make_canonical_holds [of path]
  by (cases "make_canonical (path @ [NUL]) (length path)") (simp add: holds_path_def)

theorem make_canonical_correct_witness:
  "(case make_canonical (''./a//b/./c/.'' @ [NUL]) (length ''./a//b/./c/.'') of
      (buf, len) \<Rightarrow> take len buf = ''a/b/c'' \<and> len = 5)"
proof -
  have e: "canonical_spec ''./a//b/./c/.'' = ''a/b/c''" and n: "nul_free ''./a//b/./c/.''"
    by code_simp+
  show ?thesis
    using make_canonical_correct [OF n] unfolding e by (simp split: prod.splits)
qed

text \<open>
  C20: \<open>is_canonical\<close> decides whether \<open>make_canonical\<close> has anything to do: it accepts a path exactly
  when the path is a fixed point of the canonicalisation, and the canonicalisation always ends in
  one.
\<close>

theorem is_canonical_correct:
  "nul_free path \<Longrightarrow>
   (is_canonical path (length path) \<longleftrightarrow>
      make_canonical (path @ [NUL]) (length path) = (path @ [NUL], length path)) \<and>
   is_canonical (canonical_spec path) (length (canonical_spec path))"
  using make_canonical_fixed [of path] is_canonical_iff [of path]
    is_canonical_iff [of "canonical_spec path"] canonical_spec_idem [of path]
    nul_free_canonical_spec [of path] by simp

theorem is_canonical_correct_witness:
  "\<not> is_canonical ''a/./b'' (length ''a/./b'') \<and>
   make_canonical (''a/./b'' @ [NUL]) (length ''a/./b'') \<noteq> (''a/./b'' @ [NUL], length ''a/./b'') \<and>
   is_canonical ''a/b'' (length ''a/b'')"
proof -
  have e: "canonical_spec ''a/./b'' = ''a/b''" and n: "nul_free ''a/./b''"
    and c: "\<not> is_canonical ''a/./b'' (length ''a/./b'')" by code_simp+
  show ?thesis using is_canonical_correct [OF n] c unfolding e by blast
qed




end
