(* ===== verification/FB_Base64.thy ===== *)
theory FB_Base64
  imports FB_Prelude
begin

text \<open>
  \<^verbatim>\<open>src/firebuild/base64.cc\<close>, \<^verbatim>\<open>base64.h\<close> and \<^verbatim>\<open>subkey.h\<close>: the base64 variant that names the files
  of the object and blob caches.  Bytes are \<open>8 word\<close>, the intermediate values keep the widths of the
  code.  The object cache sorts subkeys by \<open>memcmp\<close> of their names; the theorems show that this is
  the numeric order of the keys and that no two keys share a name.
\<close>

unbundle bit_operations_syntax

type_synonym byte = "8 word"

definition kEncodeMap :: string where
  "kEncodeMap = ''+0123456789ABCDEFGHIJKLMNOPQRSTUVWXYZ^abcdefghijklmnopqrstuvwxyz''"

fun valid_chars :: "string \<Rightarrow> nat \<Rightarrow> bool" where
  "valid_chars str 0 = (cget str 0 = NUL)"
| "valid_chars str (Suc n) =
     (let c = cget str 0 in
      if (c \<ge> CHR ''A'' \<and> c \<le> CHR ''Z'') \<or> (c \<ge> CHR ''a'' \<and> c \<le> CHR ''z'') \<or>
         (c \<ge> CHR ''0'' \<and> c \<le> CHR ''9'') \<or> c = CHR ''+'' \<or> c = CHR ''^''
      then valid_chars (tl str) n else False)"

definition valid_ascii :: "string \<Rightarrow> nat \<Rightarrow> bool" where
  "valid_ascii str len = valid_chars str len"

definition emap :: "32 word \<Rightarrow> char" where
  "emap i = kEncodeMap ! unat i"

definition block3_val :: "byte \<Rightarrow> byte \<Rightarrow> byte \<Rightarrow> 32 word" where
  "block3_val a b c =
     (push_bit 16 (ucast a)) OR (push_bit 8 (ucast b)) OR (ucast c)"

definition encode_3byte_block :: "byte \<Rightarrow> byte \<Rightarrow> byte \<Rightarrow> string" where
  "encode_3byte_block a b c =
     (let val = block3_val a b c in
      [emap (drop_bit 18 val), emap (drop_bit 12 val AND 0x3f),
       emap (drop_bit 6 val AND 0x3f), emap (val AND 0x3f)])"

text \<open>\<open>val\<close> is a \<open>uint16_t\<close>; the shifts work on it after promotion to \<open>int\<close>.\<close>

definition block2_val :: "byte \<Rightarrow> byte \<Rightarrow> 16 word" where
  "block2_val a b = (push_bit 8 (ucast a)) OR (ucast b)"

definition encode_2byte_block :: "byte \<Rightarrow> byte \<Rightarrow> string" where
  "encode_2byte_block a b =
     (let val = ucast (block2_val a b) :: 32 word in
      [emap (drop_bit 10 val AND 0x3f), emap (drop_bit 4 val AND 0x3f),
       emap (push_bit 2 val AND 0x3f)])"

definition encode_1byte_block :: "byte \<Rightarrow> string" where
  "encode_1byte_block a =
     (let val = ucast a :: 32 word in
      [emap (drop_bit 2 val), emap (push_bit 4 val AND 0x3f)])"

text \<open>The output excludes the final NUL; \<open>None\<close> is \<open>abort()\<close>.\<close>

definition base64_encode :: "byte list \<Rightarrow> string option" where
  "base64_encode bs =
     (if length bs = 16 then
        Some (encode_3byte_block (bs ! 0) (bs ! 1) (bs ! 2) @
              encode_3byte_block (bs ! 3) (bs ! 4) (bs ! 5) @
              encode_3byte_block (bs ! 6) (bs ! 7) (bs ! 8) @
              encode_3byte_block (bs ! 9) (bs ! 10) (bs ! 11) @
              encode_3byte_block (bs ! 12) (bs ! 13) (bs ! 14) @
              encode_1byte_block (bs ! 15))
      else if length bs = 8 then
        Some (encode_3byte_block (bs ! 0) (bs ! 1) (bs ! 2) @
              encode_3byte_block (bs ! 3) (bs ! 4) (bs ! 5) @
              encode_2byte_block (bs ! 6) (bs ! 7))
      else None)"

text \<open>\<open>htobe64\<close>: the bytes of the key, most significant first.\<close>

definition be_bytes :: "64 word \<Rightarrow> byte list" where
  "be_bytes key = map (\<lambda>i. ucast (drop_bit (56 - 8 * i) key)) [0 ..< 8]"

definition subkey_of :: "64 word \<Rightarrow> string" where
  "subkey_of key = (case base64_encode (be_bytes key) of Some s \<Rightarrow> s | None \<Rightarrow> [])"

definition subkey_less :: "string \<Rightarrow> string \<Rightarrow> bool" where
  "subkey_less a b \<longleftrightarrow> memcmp a b 11 < 0"

section \<open>Digit strings\<close>

fun num_of :: "nat \<Rightarrow> nat list \<Rightarrow> nat" where
  "num_of B [] = 0"
| "num_of B (d # ds) = d * B ^ length ds + num_of B ds"

lemma num_of_append: "num_of B (xs @ ys) = num_of B xs * B ^ length ys + num_of B ys"
  by (induction xs) (simp_all add: power_add algebra_simps)

lemma num_of_less: "\<forall>d \<in> set ds. d < B \<Longrightarrow> num_of B ds < B ^ length ds"
proof (induction ds)
  case (Cons d ds)
  then have "d * B ^ length ds + num_of B ds < d * B ^ length ds + B ^ length ds" by simp
  also have "\<dots> = Suc d * B ^ length ds" by simp
  also have "\<dots> \<le> B * B ^ length ds" using Cons.prems by (intro mult_le_mono1) auto
  finally show ?case by simp
qed simp

lemma num_of_order:
  assumes "length xs = length ys" "\<forall>d \<in> set xs. d < B" "\<forall>d \<in> set ys. d < B"
  shows "num_of B xs < num_of B ys \<longleftrightarrow> xs < ys" "num_of B xs = num_of B ys \<longleftrightarrow> xs = ys"
proof -
  have "(num_of B xs < num_of B ys \<longleftrightarrow> xs < ys) \<and> (num_of B xs = num_of B ys \<longleftrightarrow> xs = ys)"
    using assms
  proof (induction xs ys rule: list_induct2)
    case (Cons x xs y ys)
    have l: "num_of B xs < B ^ length xs" "num_of B ys < B ^ length xs"
      using Cons num_of_less [of xs B] num_of_less [of ys B] by auto
    have step: "x * B ^ n + p < y * B ^ n + q" if "x < y" "p < B ^ n" for x y n p q :: nat
    proof -
      have "x * B ^ n + p < Suc x * B ^ n" using that by simp
      also have "\<dots> \<le> y * B ^ n" using that by (intro mult_le_mono1) simp
      finally show ?thesis by simp
    qed
    consider "x < y" | "x = y" | "y < x" by linarith
    then show ?case
    proof cases
      case 1
      then show ?thesis using step [OF 1 l(1), of "num_of B ys"] Cons by simp
    next
      case 2
      then show ?thesis using Cons by simp
    next
      case 3
      then show ?thesis using step [OF 3 l(2), of "num_of B xs"] Cons by simp
    qed
  qed simp
  then show "num_of B xs < num_of B ys \<longleftrightarrow> xs < ys" "num_of B xs = num_of B ys \<longleftrightarrow> xs = ys"
    by blast+
qed

section \<open>Sextets\<close>

lemma unat_sextet: "unat (w AND 0x3f :: 32 word) = unat w mod 64"
proof -
  have "w AND 0x3f = take_bit 6 w" by (simp add: take_bit_eq_mask mask_eq_exp_minus_1)
  then have "unat (w AND 0x3f) = take_bit 6 (unat w)" by (simp only: unsigned_take_bit_eq)
  then show ?thesis by (simp add: take_bit_eq_mod)
qed

lemma unat_drop_bit32: "unat (drop_bit n w :: 32 word) = unat w div 2 ^ n"
  unfolding unat_drop_bit_eq by (rule drop_bit_eq_div)

lemma unat_byte_less: "unat (b :: byte) < 256"
  using unsigned_less [of b, where 'a = nat] by simp

lemma unat_push_bit:
  "unat (w :: 'a :: len word) * 2 ^ n < 2 ^ LENGTH('a) \<Longrightarrow> unat (push_bit n w) = unat w * 2 ^ n"
  unfolding unsigned_push_bit_eq by (simp add: push_bit_eq_mult take_bit_nat_eq_self)

lemma unat_ucast32: "LENGTH('a) \<le> 32 \<Longrightarrow> unat (ucast (w :: 'a :: len word) :: 32 word) = unat w"
proof -
  assume "LENGTH('a) \<le> 32"
  then have "unat w < 2 ^ 32"
    by (intro less_le_trans [OF unsigned_less] power_increasing) simp_all
  then show ?thesis unfolding unsigned_ucast_eq by (simp add: take_bit_nat_eq_self)
qed

lemma unat_ucast16: "unat (ucast (w :: byte) :: 16 word) = unat w"
  unfolding unsigned_ucast_eq using unat_byte_less [of w] by (simp add: take_bit_nat_eq_self)

lemma push_or_nat: "x < 2 ^ n \<Longrightarrow> (y * 2 ^ n) OR x = y * 2 ^ n + (x :: nat)"
proof -
  assume x: "x < 2 ^ n"
  have "push_bit n y AND x = 0"
  proof (rule bit_eqI)
    fix k
    have "\<not> bit x k" if "n \<le> k"
      using x that by (metis bit_take_bit_iff linorder_not_le take_bit_nat_eq_self)
    then show "bit (push_bit n y AND x) k \<longleftrightarrow> bit 0 k" by (auto simp: bit_simps)
  qed
  then show ?thesis
    using disjunctive_add_eq_or [of "push_bit n y" x] by (simp add: push_bit_eq_mult)
qed

lemma unat_block3: "unat (block3_val a b c) = unat a * 65536 + unat b * 256 + unat c"
proof -
  have l: "unat a < 256" "unat b < 256" "unat c < 256" by (rule unat_byte_less)+
  have p: "unat (push_bit 16 (ucast a) :: 32 word) = unat a * 2 ^ 16"
    "unat (push_bit 8 (ucast b) :: 32 word) = unat b * 2 ^ 8"
    using l by (simp_all add: unat_push_bit unat_ucast32)
  have "unat (block3_val a b c) = (unat a * 2 ^ 16) OR ((unat b * 2 ^ 8) OR unat c)"
    unfolding block3_val_def unsigned_or_eq p by (simp add: unat_ucast32)
  also have "(unat b * 2 ^ 8) OR unat c = unat b * 2 ^ 8 + unat c"
    using l by (intro push_or_nat) simp
  also have "(unat a * 2 ^ 16) OR (unat b * 2 ^ 8 + unat c) = unat a * 2 ^ 16 + (unat b * 2 ^ 8 + unat c)"
    using l by (intro push_or_nat) simp
  finally show ?thesis by simp
qed

lemma unat_block2: "unat (block2_val a b) = unat a * 256 + unat b"
proof -
  have l: "unat a < 256" "unat b < 256" by (rule unat_byte_less)+
  have p: "unat (push_bit 8 (ucast a) :: 16 word) = unat a * 2 ^ 8"
    using l by (simp add: unat_push_bit unat_ucast16)
  have "unat (block2_val a b) = (unat a * 2 ^ 8) OR unat b"
    unfolding block2_val_def unsigned_or_eq p by (simp add: unat_ucast16)
  also have "\<dots> = unat a * 2 ^ 8 + unat b" using l by (intro push_or_nat) simp
  finally show ?thesis by simp
qed

text \<open>The sextets of a block, and the number they spell.\<close>

definition sextets3 :: "byte \<Rightarrow> byte \<Rightarrow> byte \<Rightarrow> nat list" where
  "sextets3 a b c = (let v = unat a * 65536 + unat b * 256 + unat c in
     [v div 262144, v div 4096 mod 64, v div 64 mod 64, v mod 64])"

definition sextets2 :: "byte \<Rightarrow> byte \<Rightarrow> nat list" where
  "sextets2 a b = (let v = unat a * 256 + unat b in
     [v div 1024 mod 64, v div 16 mod 64, v * 4 mod 64])"

definition sextets1 :: "byte \<Rightarrow> nat list" where
  "sextets1 a = [unat a div 4, unat a * 16 mod 64]"

definition code_char :: "nat \<Rightarrow> char" where
  "code_char n = kEncodeMap ! n"

lemma encode_3byte_sextets: "encode_3byte_block a b c = map code_char (sextets3 a b c)"
  by (simp add: encode_3byte_block_def Let_def emap_def code_char_def sextets3_def unat_sextet
      unat_drop_bit32 unat_block3)

lemma encode_2byte_sextets: "encode_2byte_block a b = map code_char (sextets2 a b)"
proof -
  have l: "unat a < 256" "unat b < 256" by (rule unat_byte_less)+
  have e: "unat (ucast (block2_val a b) :: 32 word) = unat a * 256 + unat b"
    by (simp add: unat_ucast32 unat_block2)
  have p: "unat (push_bit 2 (ucast (block2_val a b)) :: 32 word) = (unat a * 256 + unat b) * 4"
    using l by (simp add: unat_push_bit e)
  show ?thesis
    by (simp add: encode_2byte_block_def Let_def emap_def code_char_def sextets2_def unat_sextet
        unat_drop_bit32 e p)
qed

lemma encode_1byte_sextets: "encode_1byte_block a = map code_char (sextets1 a)"
proof -
  have e: "unat (ucast a :: 32 word) = unat a" by (simp add: unat_ucast32)
  have p: "unat (push_bit 4 (ucast a) :: 32 word) = unat a * 16"
    using unat_byte_less [of a] by (simp add: unat_push_bit e)
  show ?thesis
    by (simp add: encode_1byte_block_def Let_def emap_def code_char_def sextets1_def unat_sextet
        unat_drop_bit32 e p)
qed

lemma split_div: "(v :: nat) div n = v div (n * m) * m + v div n mod m"
  by (metis div_mult2_eq div_mult_mod_eq)

lemma num_sextets3: "num_of 64 (sextets3 a b c) = num_of 256 [unat a, unat b, unat c]"
proof -
  define v where "v = unat a * 65536 + unat b * 256 + unat c"
  have "v = v div 64 * 64 + v mod 64" by simp
  also have "v div 64 = v div 4096 * 64 + v div 64 mod 64" using split_div [of v 64 64] by simp
  also have "v div 4096 = v div 262144 * 64 + v div 4096 mod 64" using split_div [of v 4096 64] by simp
  finally show ?thesis by (simp add: sextets3_def v_def Let_def)
qed

lemma num_sextets2: "num_of 64 (sextets2 a b) = num_of 256 [unat a, unat b] * 4"
proof -
  define v where "v = unat a * 256 + unat b"
  have l: "v div 1024 < 64" using unat_byte_less [of a] unat_byte_less [of b] by (simp add: v_def)
  have m: "v * 4 mod 64 = v mod 16 * 4" using mult_mod_left [of v 16 4] by simp
  have "v = v div 16 * 16 + v mod 16" by simp
  also have "v div 16 = v div 1024 * 64 + v div 16 mod 64" using split_div [of v 16 64] by simp
  finally have "v = v div 1024 * 1024 + v div 16 mod 64 * 16 + v mod 16" by simp
  then show ?thesis using l m by (simp add: sextets2_def flip: v_def)
qed

lemma num_sextets1: "num_of 64 (sextets1 a) = unat a * 16"
proof -
  have "unat a * 16 mod 64 = unat a mod 4 * 16" using mult_mod_left [of "unat a" 4 16] by simp
  moreover have "unat a div 4 * 64 + unat a mod 4 * 16 = unat a * 16"
    using div_mult_mod_eq [of "unat a" 4] by linarith
  ultimately show ?thesis by (simp add: sextets1_def)
qed

lemma sextets_less: "\<forall>d \<in> set (sextets3 a b c). d < 64" "\<forall>d \<in> set (sextets2 a b). d < 64"
  "\<forall>d \<in> set (sextets1 a). d < 64"
  using unat_byte_less [of a] unat_byte_less [of b] unat_byte_less [of c]
  by (auto simp: sextets3_def sextets2_def sextets1_def Let_def)

section \<open>Whole keys\<close>

definition sextets_of :: "byte list \<Rightarrow> nat list" where
  "sextets_of bs =
     (if length bs = 16 then
        sextets3 (bs ! 0) (bs ! 1) (bs ! 2) @ sextets3 (bs ! 3) (bs ! 4) (bs ! 5) @
        sextets3 (bs ! 6) (bs ! 7) (bs ! 8) @ sextets3 (bs ! 9) (bs ! 10) (bs ! 11) @
        sextets3 (bs ! 12) (bs ! 13) (bs ! 14) @ sextets1 (bs ! 15)
      else
        sextets3 (bs ! 0) (bs ! 1) (bs ! 2) @ sextets3 (bs ! 3) (bs ! 4) (bs ! 5) @
        sextets2 (bs ! 6) (bs ! 7))"

lemma encode_sextets:
  "length bs = 8 \<or> length bs = 16 \<Longrightarrow> base64_encode bs = Some (map code_char (sextets_of bs))"
  by (auto simp: base64_encode_def sextets_of_def encode_3byte_sextets encode_2byte_sextets
      encode_1byte_sextets)

lemma length_sextets [simp]: "length (sextets3 a b c) = 4" "length (sextets2 a b) = 3"
  "length (sextets1 a) = 2"
  by (simp_all add: sextets3_def sextets2_def sextets1_def Let_def)

lemma length_sextets_of: "length (sextets_of bs) = (if length bs = 16 then 22 else 11)"
  by (simp add: sextets_of_def)

lemma sextets_of_less: "\<forall>d \<in> set (sextets_of bs). d < 64"
  using sextets_less by (auto simp: sextets_of_def)

lemma list_8: "length bs = 8 \<Longrightarrow> bs = [bs ! 0, bs ! 1, bs ! 2, bs ! 3, bs ! 4, bs ! 5, bs ! 6, bs ! 7]"
  by (intro nth_equalityI) (auto simp: less_Suc_eq numeral_eq_Suc nth_Cons')

lemma list_16: "length bs = 16 \<Longrightarrow>
    bs = [bs ! 0, bs ! 1, bs ! 2, bs ! 3, bs ! 4, bs ! 5, bs ! 6, bs ! 7,
          bs ! 8, bs ! 9, bs ! 10, bs ! 11, bs ! 12, bs ! 13, bs ! 14, bs ! 15]"
  by (intro nth_equalityI) (auto simp: less_Suc_eq numeral_eq_Suc nth_Cons')

lemma num_sextets_8:
  assumes "length bs = 8"
  shows "num_of 64 (sextets_of bs) = num_of 256 (map unat bs) * 4"
  using assms
  by (subst (2) list_8 [OF assms])
    (simp add: sextets_of_def num_of_append num_sextets3 num_sextets2)

lemma num_sextets_16:
  assumes "length bs = 16"
  shows "num_of 64 (sextets_of bs) = num_of 256 (map unat bs) * 16"
  using assms
  by (subst (2) list_16 [OF assms])
    (simp add: sextets_of_def num_of_append num_sextets3 num_sextets1)

lemma sorted_kEncodeMap: "sorted_wrt (<) kEncodeMap" "length kEncodeMap = 64"
  by code_simp+

lemma code_char_less: "m < 64 \<Longrightarrow> n < 64 \<Longrightarrow> code_char m < code_char n \<longleftrightarrow> m < n"
  unfolding code_char_def using sorted_kEncodeMap sorted_wrt_nth_less [of "(<)" kEncodeMap]
  by (metis less_asym linorder_neqE_nat less_irrefl)

lemma code_char_eq: "m < 64 \<Longrightarrow> n < 64 \<Longrightarrow> code_char m = code_char n \<longleftrightarrow> m = n"
  using code_char_less by (metis less_irrefl linorder_neqE_nat)

lemma map_code_char_less:
  "length xs = length ys \<Longrightarrow> \<forall>d \<in> set xs. d < 64 \<Longrightarrow> \<forall>d \<in> set ys. d < 64 \<Longrightarrow>
   (map code_char xs < map code_char ys \<longleftrightarrow> xs < ys) \<and> (map code_char xs = map code_char ys \<longleftrightarrow> xs = ys)"
  by (induction xs ys rule: list_induct2) (auto simp: code_char_less code_char_eq)

lemma code_char_valid: "d < 64 \<Longrightarrow>
    (code_char d \<ge> CHR ''A'' \<and> code_char d \<le> CHR ''Z'') \<or>
    (code_char d \<ge> CHR ''a'' \<and> code_char d \<le> CHR ''z'') \<or>
    (code_char d \<ge> CHR ''0'' \<and> code_char d \<le> CHR ''9'') \<or> code_char d = CHR ''+'' \<or>
    code_char d = CHR ''^''"
proof -
  have "list_all (\<lambda>c. (c \<ge> CHR ''A'' \<and> c \<le> CHR ''Z'') \<or> (c \<ge> CHR ''a'' \<and> c \<le> CHR ''z'') \<or>
    (c \<ge> CHR ''0'' \<and> c \<le> CHR ''9'') \<or> c = CHR ''+'' \<or> c = CHR ''^'') kEncodeMap" by code_simp
  then show "d < 64 \<Longrightarrow> ?thesis" unfolding list_all_length code_char_def sorted_kEncodeMap(2) by blast
qed

lemma valid_map_code_char: "\<forall>d \<in> set ds. d < 64 \<Longrightarrow> valid_chars (map code_char ds) (length ds)"
  by (induction ds) (simp_all add: code_char_valid Let_def del: less_eq_char_simp)

lemma unat_be_byte: "unat (ucast (drop_bit n key) :: byte) = unat (key :: 64 word) div 2 ^ n mod 256"
  unfolding unsigned_ucast_eq unat_drop_bit_eq by (simp add: take_bit_eq_mod drop_bit_eq_div)

lemma num_be_bytes: "num_of 256 (map unat (be_bytes key)) = unat key"
proof -
  define v where "v = unat key"
  have l: "v div 2 ^ 56 < 256"
    using unsigned_less [of key, where 'a = nat] by (simp add: v_def)
  have "v = v div 256 * 256 + v mod 256" by simp
  also have "v div 256 = v div 2 ^ 16 * 256 + v div 256 mod 256" using split_div [of v 256 256] by simp
  also have "v div 2 ^ 16 = v div 2 ^ 24 * 256 + v div 2 ^ 16 mod 256"
    using split_div [of v "2 ^ 16" 256] by simp
  also have "v div 2 ^ 24 = v div 2 ^ 32 * 256 + v div 2 ^ 24 mod 256"
    using split_div [of v "2 ^ 24" 256] by simp
  also have "v div 2 ^ 32 = v div 2 ^ 40 * 256 + v div 2 ^ 32 mod 256"
    using split_div [of v "2 ^ 32" 256] by simp
  also have "v div 2 ^ 40 = v div 2 ^ 48 * 256 + v div 2 ^ 40 mod 256"
    using split_div [of v "2 ^ 40" 256] by simp
  also have "v div 2 ^ 48 = v div 2 ^ 56 * 256 + v div 2 ^ 48 mod 256"
    using split_div [of v "2 ^ 48" 256] by simp
  finally show ?thesis
    using l unat_be_byte [of 0 key]
    by (simp add: be_bytes_def unat_be_byte upt_conv_Cons algebra_simps flip: v_def)
qed

lemma length_be_bytes: "length (be_bytes key) = 8"
  by (simp add: be_bytes_def)

lemma unat_bytes_less: "\<forall>d \<in> set (map unat (bs :: byte list)). d < 256"
  using unat_byte_less by auto

lemma map_unat_inj: "map unat bs = map unat (cs :: byte list) \<longleftrightarrow> bs = cs"
  by (rule inj_map_eq_map) (simp add: inj_def word_unat_eq_iff)

lemma encode_order:
  assumes "length bs = length cs" "length bs = 8 \<or> length bs = 16"
  shows "sextets_of bs < sextets_of cs \<longleftrightarrow> map unat bs < map unat cs"
    "sextets_of bs = sextets_of cs \<longleftrightarrow> bs = cs"
proof -
  have l: "length (sextets_of bs) = length (sextets_of cs)" using assms by (simp add: length_sextets_of)
  note o64 = num_of_order [OF l sextets_of_less sextets_of_less]
  have l2: "length (map unat bs) = length (map unat cs)" using assms by simp
  note o256 = num_of_order [OF l2 unat_bytes_less unat_bytes_less]
  have k: "num_of 64 (sextets_of bs) = num_of 256 (map unat bs) * (if length bs = 8 then 4 else 16)"
    "num_of 64 (sextets_of cs) = num_of 256 (map unat cs) * (if length bs = 8 then 4 else 16)"
    using assms num_sextets_8 [of bs] num_sextets_8 [of cs] num_sextets_16 [of bs] num_sextets_16 [of cs]
    by auto
  show "sextets_of bs < sextets_of cs \<longleftrightarrow> map unat bs < map unat cs"
    using o64(1) o256(1) k by (simp split: if_splits)
  show "sextets_of bs = sextets_of cs \<longleftrightarrow> bs = cs"
    using o64(2) o256(2) k by (simp add: map_unat_inj split: if_splits)
qed

section \<open>Properties\<close>

text \<open>
  C19: on the two supported lengths the encoder returns a name of 11 or 22 valid characters, different
  inputs get different names, and \<open>memcmp\<close> orders the names as the bytes are ordered.
\<close>

theorem base64_encode_order:
  assumes "length bs = 8 \<or> length bs = 16" "length cs = length bs"
  shows "\<exists>s t. base64_encode bs = Some s \<and> base64_encode cs = Some t \<and>
    length s = (if length bs = 16 then 22 else 11) \<and> length t = length s \<and>
    valid_ascii s (length s) \<and> (s = t \<longleftrightarrow> bs = cs) \<and>
    (memcmp s t (length s) < 0 \<longleftrightarrow> map unat bs < map unat cs)"
proof -
  let ?s = "map code_char (sextets_of bs)" and ?t = "map code_char (sextets_of cs)"
  have e: "base64_encode bs = Some ?s" "base64_encode cs = Some ?t"
    using encode_sextets [of bs] encode_sextets [of cs] assms by auto
  have l: "length ?s = (if length bs = 16 then 22 else 11)" "length ?t = length ?s"
    using assms by (auto simp: length_sextets_of)
  have o: "(?s < ?t \<longleftrightarrow> sextets_of bs < sextets_of cs) \<and> (?s = ?t \<longleftrightarrow> sextets_of bs = sextets_of cs)"
    using l by (intro map_code_char_less sextets_of_less) simp
  have m: "memcmp ?s ?t (length ?s) < 0 \<longleftrightarrow> ?s < ?t" using l by (intro memcmp_less_list) simp_all
  have v: "valid_ascii ?s (length ?s)"
    using valid_map_code_char [OF sextets_of_less [of bs]] by (simp add: valid_ascii_def)
  show ?thesis
    using e l m v o encode_order [OF assms(2) [symmetric] assms(1)] by blast
qed

theorem base64_encode_order_witness:
  "\<exists>s t. base64_encode [1, 2, 3, 4, 5, 6, 7, 8] = Some s \<and>
     base64_encode [1, 2, 3, 4, 5, 6, 8, 0] = Some t \<and> memcmp s t (length s) < 0"
proof -
  have "map unat [1, 2, 3, 4, 5, 6, 7, 8 :: byte] < map unat [1, 2, 3, 4, 5, 6, 8, 0 :: byte]"
    by simp
  then show ?thesis
    using base64_encode_order [of "[1, 2, 3, 4, 5, 6, 7, 8]" "[1, 2, 3, 4, 5, 6, 8, 0]"] by auto
qed

text \<open>
  Subkeys sort as their keys: the comparison \<open>Subkey::operator<\<close> of two encoded 64-bit keys is
  the numeric order of the keys.
\<close>

theorem subkey_order:
  "subkey_less (subkey_of k) (subkey_of l) \<longleftrightarrow> k < l"
proof -
  let ?s = "map code_char (sextets_of (be_bytes k))" and ?t = "map code_char (sextets_of (be_bytes l))"
  have e: "subkey_of k = ?s" "subkey_of l = ?t"
    by (simp_all add: subkey_of_def encode_sextets length_be_bytes)
  have n: "length ?s = 11" "length ?t = 11" by (simp_all add: length_sextets_of length_be_bytes)
  have "subkey_less ?s ?t \<longleftrightarrow> ?s < ?t"
    unfolding subkey_less_def by (intro memcmp_less_list n)
  also have "\<dots> \<longleftrightarrow> sextets_of (be_bytes k) < sextets_of (be_bytes l)"
    using n map_code_char_less [OF _ sextets_of_less sextets_of_less] by simp
  also have "\<dots> \<longleftrightarrow> map unat (be_bytes k) < map unat (be_bytes l)"
    by (intro encode_order) (simp_all add: length_be_bytes)
  also have "\<dots> \<longleftrightarrow> unat k < unat l"
    using num_of_order(1) [OF _ unat_bytes_less unat_bytes_less, of "be_bytes k" "be_bytes l"]
    by (simp add: length_be_bytes num_be_bytes del: map_map)
  finally show ?thesis by (simp add: e word_less_nat_alt)
qed

end
