(* ===== verification/FB_LinearBuffer.thy ===== *)
theory FB_LinearBuffer
  imports FB_Prelude
begin

text \<open>
  \<^verbatim>\<open>src/firebuild/linear_buffer.h\<close>: the byte buffer behind every connection and pipe.  The buffer is
  its allocated block with the offset and length of the live data; a write outside the block, and a
  failed assertion, is \<open>None\<close>.  The system calls \<open>read\<close> and \<open>ioctl(FIONREAD)\<close> are parameters: their
  answers are arguments of \<open>lb_read\<close>.
\<close>

section \<open>The buffer\<close>

record linear_buffer =
  lb_size :: nat
  lb_buffer :: string
  lb_data_start_offset :: nat
  lb_length :: nat

definition lb_init :: linear_buffer where
  "lb_init = \<lparr>lb_size = 8 * 1024, lb_buffer = replicate (8 * 1024) NUL,
     lb_data_start_offset = 0, lb_length = 0\<rparr>"

definition lb_data :: "linear_buffer \<Rightarrow> string" where
  "lb_data b = take (lb_length b) (drop (lb_data_start_offset b) (lb_buffer b))"

text \<open>\<open>memcpy\<close> and \<open>memmove\<close> into the block at \<open>off\<close>, and \<open>realloc\<close> of the block.\<close>

definition blit :: "string \<Rightarrow> nat \<Rightarrow> string \<Rightarrow> string option" where
  "blit buf off d =
     (if off + length d \<le> length buf then Some (take off buf @ d @ drop (off + length d) buf) else None)"

definition lb_realloc :: "string \<Rightarrow> nat \<Rightarrow> string" where
  "lb_realloc buf n = take n buf @ replicate (n - length buf) NUL"

definition ensure_space :: "linear_buffer \<Rightarrow> nat \<Rightarrow> linear_buffer option" where
  "ensure_space b howmuch =
     (case (if lb_data_start_offset b > 256 * 1024
            then (case blit (lb_buffer b) 0 (lb_data b) of
                    None \<Rightarrow> None
                  | Some buf \<Rightarrow> Some (b\<lparr>lb_buffer := buf, lb_data_start_offset := 0\<rparr>))
            else Some b) of
        None \<Rightarrow> None
      | Some b1 \<Rightarrow>
          (let needed_size = lb_data_start_offset b1 + lb_length b1 + howmuch in
           if lb_size b1 < needed_size
           then (let size' = (if needed_size > lb_size b1 * 2 then needed_size else lb_size b1 * 2)
                 in Some (b1\<lparr>lb_size := size', lb_buffer := lb_realloc (lb_buffer b1) size'\<rparr>))
           else Some b1))"

definition lb_add :: "linear_buffer \<Rightarrow> string \<Rightarrow> linear_buffer option" where
  "lb_add b d =
     (case ensure_space b (length d) of
        None \<Rightarrow> None
      | Some b1 \<Rightarrow>
          (case blit (lb_buffer b1) (lb_data_start_offset b1 + lb_length b1) d of
             None \<Rightarrow> None
           | Some buf \<Rightarrow> Some (b1\<lparr>lb_buffer := buf, lb_length := lb_length b1 + length d\<rparr>)))"

definition lb_discard :: "linear_buffer \<Rightarrow> nat \<Rightarrow> linear_buffer option" where
  "lb_discard b howmuch =
     (if howmuch \<le> lb_length b
      then (let len' = lb_length b - howmuch in
            if len' = 0 then Some (b\<lparr>lb_length := len', lb_data_start_offset := 0\<rparr>)
            else Some (b\<lparr>lb_length := len',
                         lb_data_start_offset := lb_data_start_offset b + howmuch\<rparr>))
      else None)"

text \<open>The answer of one \<open>::read(fd, p, n)\<close>: the bytes it stored (none at end of file), or an error.\<close>

datatype read_result = ReadErr | ReadOk string

definition received :: "read_result \<Rightarrow> int" where
  "received r = (case r of ReadErr \<Rightarrow> -1 | ReadOk d \<Rightarrow> int (length d))"

text \<open>One \<open>::read\<close> into the free space behind the data, and \<open>length_ += received\<close>.\<close>

definition read_into :: "linear_buffer \<Rightarrow> read_result \<Rightarrow> linear_buffer option" where
  "read_into b r =
     (case r of
        ReadErr \<Rightarrow> Some b
      | ReadOk d \<Rightarrow>
          (case blit (lb_buffer b) (lb_data_start_offset b + lb_length b) d of
             None \<Rightarrow> None
           | Some buf \<Rightarrow> Some (b\<lparr>lb_buffer := buf, lb_length := lb_length b + length d\<rparr>)))"

definition lb_read ::
    "(nat \<Rightarrow> read_result) \<Rightarrow> int \<Rightarrow> (nat \<Rightarrow> read_result) \<Rightarrow> linear_buffer \<Rightarrow> int
       \<Rightarrow> (int \<times> linear_buffer) option" where
  "lb_read rd1 fionread rd2 b howmuch =
     (if howmuch = 0 then None
      else if howmuch > 0 then
        (case ensure_space b (nat howmuch) of
           None \<Rightarrow> None
         | Some b1 \<Rightarrow>
             (case read_into b1 (rd1 (nat howmuch)) of
                None \<Rightarrow> None
              | Some b2 \<Rightarrow> Some (received (rd1 (nat howmuch)), b2)))
      else
        (case ensure_space b (8 * 1024) of
           None \<Rightarrow> None
         | Some b1 \<Rightarrow>
             (let attempt1 = lb_size b1 - lb_data_start_offset b1 - lb_length b1;
                  received1 = received (rd1 attempt1)
              in if received1 \<le> 0 then Some (received1, b1)
                 else (case read_into b1 (rd1 attempt1) of
                         None \<Rightarrow> None
                       | Some b2 \<Rightarrow>
                           if received1 < int attempt1 then Some (received1, b2)
                           else if fionread \<le> 0 then Some (received1, b2)
                           else (case ensure_space b2 (nat fionread) of
                                   None \<Rightarrow> None
                                 | Some b3 \<Rightarrow>
                                     (let received2 = received (rd2 (nat fionread)) in
                                      if received2 \<le> 0 then Some (received1, b3)
                                      else (case read_into b3 (rd2 (nat fionread)) of
                                              None \<Rightarrow> None
                                            | Some b4 \<Rightarrow> Some (received1 + received2, b4))))))))"

section \<open>The interface of a byte queue\<close>

datatype buf_op = Add string | Discard nat

fun run_buf_ops ::
    "('b \<Rightarrow> string) \<Rightarrow> ('b \<Rightarrow> string \<Rightarrow> 'b option) \<Rightarrow> ('b \<Rightarrow> nat \<Rightarrow> 'b option) \<Rightarrow> 'b \<Rightarrow> buf_op list
       \<Rightarrow> ('b \<times> string) option" where
  "run_buf_ops dat add dis b [] = Some (b, [])"
| "run_buf_ops dat add dis b (Add d # ops) =
     (case add b d of None \<Rightarrow> None | Some b' \<Rightarrow> run_buf_ops dat add dis b' ops)"
| "run_buf_ops dat add dis b (Discard n # ops) =
     (case dis b n of
        None \<Rightarrow> None
      | Some b' \<Rightarrow> map_option (\<lambda>(r, out). (r, take n (dat b) @ out)) (run_buf_ops dat add dis b' ops))"

fun added :: "buf_op list \<Rightarrow> string" where
  "added [] = []"
| "added (Add d # ops) = d @ added ops"
| "added (Discard n # ops) = added ops"

fun legal :: "nat \<Rightarrow> buf_op list \<Rightarrow> bool" where
  "legal n [] = True"
| "legal n (Add d # ops) = legal (n + length d) ops"
| "legal n (Discard k # ops) = (k \<le> n \<and> legal (n - k) ops)"

locale byte_queue =
  fixes init :: 'b
    and dat :: "'b \<Rightarrow> string"
    and add :: "'b \<Rightarrow> string \<Rightarrow> 'b option"
    and dis :: "'b \<Rightarrow> nat \<Rightarrow> 'b option"
    and invar :: "'b \<Rightarrow> bool"
  assumes init_law: "invar init \<and> dat init = []"
    and add_law: "invar b \<Longrightarrow> \<exists>b'. add b d = Some b' \<and> invar b' \<and> dat b' = dat b @ d"
    and discard_law: "invar b \<Longrightarrow>
      (if n \<le> length (dat b) then \<exists>b'. dis b n = Some b' \<and> invar b' \<and> dat b' = drop n (dat b)
       else dis b n = None)"
begin

lemma run_fifo:
  "invar b \<Longrightarrow>
   (if legal (length (dat b)) ops
    then \<exists>b' out. run_buf_ops dat add dis b ops = Some (b', out) \<and> invar b' \<and>
           out @ dat b' = dat b @ added ops
    else run_buf_ops dat add dis b ops = None)"
proof (induction ops arbitrary: b)
  case Nil
  then show ?case by simp
next
  case (Cons x ops)
  show ?case
  proof (cases x)
    case (Add d)
    from add_law [OF Cons.prems, of d] obtain b' where
      b': "add b d = Some b'" "invar b'" "dat b' = dat b @ d" by blast
    with Cons.IH [OF b'(2)] Add show ?thesis by (auto split: if_splits)
  next
    case (Discard n)
    show ?thesis
    proof (cases "n \<le> length (dat b)")
      case True
      with discard_law [OF Cons.prems, of n] obtain b' where
        b': "dis b n = Some b'" "invar b'" "dat b' = drop n (dat b)" by auto
      have "take n (dat b) @ out @ r = dat b @ added ops" if "out @ r = drop n (dat b) @ added ops"
        for out r using that by simp
      with Cons.IH [OF b'(2)] Discard b' True show ?thesis by (auto split: if_splits)
    next
      case False
      with discard_law [OF Cons.prems, of n] Discard show ?thesis by simp
    qed
  qed
qed

lemma run_init:
  "if legal 0 ops
   then \<exists>b out. run_buf_ops dat add dis init ops = Some (b, out) \<and> invar b \<and> out @ dat b = added ops
   else run_buf_ops dat add dis init ops = None"
  using run_fifo [of init ops] init_law by (auto split: if_splits)

end

section \<open>The linear buffer is a byte queue\<close>

definition lb_inv :: "linear_buffer \<Rightarrow> bool" where
  "lb_inv b \<longleftrightarrow> length (lb_buffer b) = lb_size b \<and>
     lb_data_start_offset b + lb_length b \<le> lb_size b"

lemma length_lb_data: "lb_inv b \<Longrightarrow> length (lb_data b) = lb_length b"
  by (auto simp: lb_inv_def lb_data_def)

lemma length_lb_realloc [simp]: "length (lb_realloc buf n) = n"
  by (auto simp: lb_realloc_def)

lemma lb_realloc_data:
  "off + n \<le> length buf \<Longrightarrow> length buf \<le> m \<Longrightarrow> take n (drop off (lb_realloc buf m)) = take n (drop off buf)"
  by (simp add: lb_realloc_def)

lemma ensure_space_law:
  assumes "lb_inv b"
  shows "\<exists>b'. ensure_space b n = Some b' \<and> lb_inv b' \<and> lb_data b' = lb_data b \<and>
    lb_length b' = lb_length b \<and> lb_data_start_offset b' + lb_length b' + n \<le> lb_size b'"
proof -
  define b1 where "b1 = (if lb_data_start_offset b > 256 * 1024
     then b\<lparr>lb_buffer := lb_data b @ drop (lb_length b) (lb_buffer b), lb_data_start_offset := 0\<rparr> else b)"
  have l: "length (lb_data b) = lb_length b" using assms by (rule length_lb_data)
  have b1: "lb_inv b1" "lb_data b1 = lb_data b" "lb_length b1 = lb_length b"
    using assms l by (auto simp: b1_def lb_inv_def) (auto simp: lb_data_def)
  have c: "(if lb_data_start_offset b > 256 * 1024
       then (case blit (lb_buffer b) 0 (lb_data b) of
               None \<Rightarrow> None
             | Some buf \<Rightarrow> Some (b\<lparr>lb_buffer := buf, lb_data_start_offset := 0\<rparr>))
       else Some b) = Some b1"
    using assms l by (simp add: blit_def b1_def lb_inv_def)
  have e: "ensure_space b n =
      (let needed_size = lb_data_start_offset b1 + lb_length b1 + n in
       if lb_size b1 < needed_size
       then (let size' = (if needed_size > lb_size b1 * 2 then needed_size else lb_size b1 * 2)
             in Some (b1\<lparr>lb_size := size', lb_buffer := lb_realloc (lb_buffer b1) size'\<rparr>))
       else Some b1)"
    unfolding ensure_space_def c by (simp only: option.case)
  show ?thesis
  proof (cases "lb_size b1 < lb_data_start_offset b1 + lb_length b1 + n")
    case False
    with e b1 show ?thesis by (simp add: Let_def)
  next
    case True
    define m where "m = (if lb_data_start_offset b1 + lb_length b1 + n > lb_size b1 * 2
       then lb_data_start_offset b1 + lb_length b1 + n else lb_size b1 * 2)"
    have m: "lb_data_start_offset b1 + lb_length b1 + n \<le> m" "lb_size b1 \<le> m"
      by (auto simp: m_def)
    let ?b2 = "b1\<lparr>lb_size := m, lb_buffer := lb_realloc (lb_buffer b1) m\<rparr>"
    have "ensure_space b n = Some ?b2"
      unfolding e Let_def if_P [OF True] m_def [symmetric] by simp
    moreover have "lb_inv ?b2" using m b1 by (simp add: lb_inv_def)
    moreover have "lb_data ?b2 = lb_data b"
      using b1 m unfolding b1(2) [symmetric]
      by (auto simp: lb_data_def lb_inv_def intro: lb_realloc_data)
    ultimately show ?thesis using m b1 by auto
  qed
qed

lemma blit_data:
  assumes "lb_inv b" "lb_data_start_offset b + lb_length b + length d \<le> lb_size b"
  shows "\<exists>buf. blit (lb_buffer b) (lb_data_start_offset b + lb_length b) d = Some buf \<and>
    lb_inv (b\<lparr>lb_buffer := buf, lb_length := lb_length b + length d\<rparr>) \<and>
    lb_data (b\<lparr>lb_buffer := buf, lb_length := lb_length b + length d\<rparr>) = lb_data b @ d"
  using assms by (auto simp: blit_def lb_inv_def lb_data_def drop_take add.assoc)

lemma lb_add_law:
  assumes "lb_inv b"
  shows "\<exists>b'. lb_add b d = Some b' \<and> lb_inv b' \<and> lb_data b' = lb_data b @ d"
proof -
  from ensure_space_law [OF assms, of "length d"] obtain b1 where
    b1: "ensure_space b (length d) = Some b1" "lb_inv b1" "lb_data b1 = lb_data b"
      "lb_data_start_offset b1 + lb_length b1 + length d \<le> lb_size b1" by auto
  from blit_data [OF b1(2,4)] show ?thesis using b1(1,3) by (auto simp: lb_add_def)
qed

lemma lb_discard_law:
  assumes "lb_inv b"
  shows "if n \<le> length (lb_data b)
    then \<exists>b'. lb_discard b n = Some b' \<and> lb_inv b' \<and> lb_data b' = drop n (lb_data b)
    else lb_discard b n = None"
  using assms length_lb_data [OF assms]
  by (auto simp: lb_discard_def Let_def lb_inv_def) (auto simp: lb_data_def drop_take add.commute)

interpretation lbq: byte_queue lb_init lb_data lb_add lb_discard lb_inv
proof (standard, goal_cases)
  case 1
  then show ?case by (simp add: lb_init_def lb_inv_def lb_data_def)
next
  case (2 b d)
  then show ?case by (rule lb_add_law)
next
  case (3 b n)
  then show ?case by (rule lb_discard_law)
qed

definition bytes_of :: "read_result \<Rightarrow> string" where
  "bytes_of r = (case r of ReadErr \<Rightarrow> [] | ReadOk d \<Rightarrow> d)"

lemma received_bytes: "received r = (if r = ReadErr then -1 else int (length (bytes_of r)))"
  by (cases r) (simp_all add: received_def bytes_of_def)

lemma read_into_law:
  assumes "lb_inv b" "lb_data_start_offset b + lb_length b + n \<le> lb_size b" "length (bytes_of r) \<le> n"
  shows "\<exists>b'. read_into b r = Some b' \<and> lb_inv b' \<and> lb_data b' = lb_data b @ bytes_of r"
proof (cases r)
  case ReadErr
  then show ?thesis using assms(1) by (simp add: read_into_def bytes_of_def)
next
  case (ReadOk d)
  then have "lb_data_start_offset b + lb_length b + length d \<le> lb_size b"
    using assms(2,3) by (simp add: bytes_of_def)
  from blit_data [OF assms(1) this] show ?thesis by (auto simp: read_into_def bytes_of_def ReadOk)
qed

section \<open>Properties\<close>

text \<open>
  C18: the linear buffer is a first-in-first-out byte queue: every sequence of additions and of
  discards that never discard more than is there succeeds without touching memory outside the
  block, and what was discarded followed by what is left is exactly what was added.
\<close>

theorem linear_buffer_fifo:
  "if legal 0 ops
   then \<exists>b out. run_buf_ops lb_data lb_add lb_discard lb_init ops = Some (b, out) \<and> lb_inv b \<and>
          out @ lb_data b = added ops
   else run_buf_ops lb_data lb_add lb_discard lb_init ops = None"
  by (rule lbq.run_init)

text \<open>
  Reading from a descriptor.  When each \<open>read(2)\<close> stores at most as many bytes as it was asked
  for, \<open>LinearBuffer::read\<close> stays inside the block on all its branches, appends to the data exactly
  the bytes whose number it returns, and leaves the data alone when it returns an error.
\<close>

theorem lb_read_appends:
  assumes inv: "lb_inv b" and h: "howmuch \<noteq> 0"
    and r1: "\<And>n. length (bytes_of (rd1 n)) \<le> n" and r2: "\<And>n. length (bytes_of (rd2 n)) \<le> n"
  shows "\<exists>n b' d. lb_read rd1 fionread rd2 b howmuch = Some (n, b') \<and> lb_inv b' \<and>
    lb_data b' = lb_data b @ d \<and> (n = int (length d) \<or> n = -1 \<and> d = [])"
proof (cases "howmuch > 0")
  case True
  from ensure_space_law [OF inv, of "nat howmuch"] obtain b1 where
    b1: "ensure_space b (nat howmuch) = Some b1" "lb_inv b1" "lb_data b1 = lb_data b"
      "lb_data_start_offset b1 + lb_length b1 + nat howmuch \<le> lb_size b1" by auto
  from read_into_law [OF b1(2,4) r1] obtain b2 where
    b2: "read_into b1 (rd1 (nat howmuch)) = Some b2" "lb_inv b2"
      "lb_data b2 = lb_data b1 @ bytes_of (rd1 (nat howmuch))" by auto
  show ?thesis using True b1(1,3) b2 by (auto simp: lb_read_def received_bytes bytes_of_def)
next
  case False
  from ensure_space_law [OF inv, of "8 * 1024"] obtain b1 where
    b1: "ensure_space b (8 * 1024) = Some b1" "lb_inv b1" "lb_data b1 = lb_data b" by auto
  define a1 where "a1 = lb_size b1 - lb_data_start_offset b1 - lb_length b1"
  have a1': "lb_size b1 - (lb_data_start_offset b1 + lb_length b1) = a1" by (simp add: a1_def)
  have sp: "lb_data_start_offset b1 + lb_length b1 + a1 \<le> lb_size b1"
    using b1(2) by (simp add: a1_def lb_inv_def)
  from read_into_law [OF b1(2) sp r1] obtain b2 where
    b2: "read_into b1 (rd1 a1) = Some b2" "lb_inv b2" "lb_data b2 = lb_data b1 @ bytes_of (rd1 a1)" by auto
  from ensure_space_law [OF b2(2), of "nat fionread"] obtain b3 where
    b3: "ensure_space b2 (nat fionread) = Some b3" "lb_inv b3" "lb_data b3 = lb_data b2"
      "lb_data_start_offset b3 + lb_length b3 + nat fionread \<le> lb_size b3" by auto
  from read_into_law [OF b3(2,4) r2] obtain b4 where
    b4: "read_into b3 (rd2 (nat fionread)) = Some b4" "lb_inv b4"
      "lb_data b4 = lb_data b3 @ bytes_of (rd2 (nat fionread))" by auto
  have e: "lb_read rd1 fionread rd2 b howmuch =
    (if received (rd1 a1) \<le> 0 then Some (received (rd1 a1), b1)
     else if received (rd1 a1) < int a1 \<or> fionread \<le> 0 then Some (received (rd1 a1), b2)
     else if received (rd2 (nat fionread)) \<le> 0 then Some (received (rd1 a1), b3)
     else Some (received (rd1 a1) + received (rd2 (nat fionread)), b4))"
    using False h b1(1) b2(1) b3(1) b4(1) a1' by (simp add: lb_read_def Let_def)
  show ?thesis
    unfolding e using b1 b2 b3 b4 by (auto simp: received_bytes)
qed

theorem lb_read_appends_witness:
  "\<exists>n b' d. lb_read (\<lambda>n. ReadOk (replicate n (CHR ''x''))) 5 (\<lambda>n. ReadErr) lb_init (-1) = Some (n, b') \<and>
     lb_data b' = d \<and> n = int (length d)"
proof -
  have i: "lb_inv lb_init" "lb_data lb_init = []" by (simp_all add: lb_inv_def lb_init_def lb_data_def)
  obtain n b' d where
    r: "lb_read (\<lambda>n. ReadOk (replicate n (CHR ''x''))) 5 (\<lambda>n. ReadErr) lb_init (-1) = Some (n, b')"
      "lb_data b' = d" "n = int (length d) \<or> n = -1 \<and> d = []"
    using lb_read_appends [OF i(1), of "-1" "\<lambda>n. ReadOk (replicate n (CHR ''x''))" "\<lambda>n. ReadErr" 5] i(2)
    by (auto simp: bytes_of_def)
  moreover have "n \<noteq> -1"
    using r(1) by (auto simp: lb_read_def received_def ensure_space_def lb_init_def blit_def read_into_def
        Let_def split: option.splits if_splits)
  ultimately show ?thesis by blast
qed

end
