(* ===== verification/FB_FileInfo.thy ===== *)
theory FB_FileInfo
  imports FB_Prelude
begin

text \<open>
  \<^verbatim>\<open>src/firebuild/file_info.h\<close> and \<^verbatim>\<open>file_info.cc\<close>: what is known about a file at some point in time.
  \<open>describes\<close> gives a \<open>FileInfo\<close> its meaning: the file states it admits.  The other components of the
  cache (the hash cache, usages and updates) are related to it.
\<close>

unbundle bit_operations_syntax

type_synonym mode_t = "32 word"
type_synonym hash_t = "128 word"

section \<open>File types\<close>

datatype file_type = DONTKNOW | EXIST | NOTEXIST | NOTEXIST_OR_ISREG | ISREG | ISDIR

fun file_type_to_int :: "file_type \<Rightarrow> int" where
  "file_type_to_int DONTKNOW = 0"
| "file_type_to_int EXIST = 1"
| "file_type_to_int NOTEXIST = 2"
| "file_type_to_int NOTEXIST_OR_ISREG = 3"
| "file_type_to_int ISREG = 4"
| "file_type_to_int ISDIR = 5"

text \<open>\<open>None\<close> is \<open>abort()\<close>.\<close>

definition int_to_file_type :: "int \<Rightarrow> file_type option" where
  "int_to_file_type t =
     (if t = 0 then Some DONTKNOW else if t = 1 then Some EXIST else if t = 2 then Some NOTEXIST
      else if t = 3 then Some NOTEXIST_OR_ISREG else if t = 4 then Some ISREG
      else if t = 5 then Some ISDIR else None)"

fun file_type_to_string :: "file_type \<Rightarrow> string" where
  "file_type_to_string DONTKNOW = ''dontknow''"
| "file_type_to_string EXIST = ''exist''"
| "file_type_to_string NOTEXIST = ''notexist''"
| "file_type_to_string NOTEXIST_OR_ISREG = ''notexist_or_isreg''"
| "file_type_to_string ISREG = ''isreg''"
| "file_type_to_string ISDIR = ''isdir''"

section \<open>FileInfo\<close>

record file_info =
  fi_type :: file_type
  fi_size :: int
  fi_hash_known :: bool
  fi_hash :: hash_t
  fi_mode :: mode_t
  fi_mode_mask :: mode_t

text \<open>The constructor with its default arguments; \<open>Hash()\<close> is zero.\<close>

definition mk_file_info :: "file_type \<Rightarrow> int \<Rightarrow> hash_t option \<Rightarrow> file_info" where
  "mk_file_info t sz h =
     \<lparr>fi_type = t, fi_size = sz, fi_hash_known = (h \<noteq> None),
      fi_hash = (case h of Some x \<Rightarrow> x | None \<Rightarrow> 0), fi_mode = 0, fi_mode_mask = 0\<rparr>"

definition file_info_of_type :: "file_type \<Rightarrow> file_info" where
  "file_info_of_type t = mk_file_info t (-1) None"

definition size_known :: "file_info \<Rightarrow> bool" where
  "size_known i \<longleftrightarrow> fi_size i \<ge> 0"

definition set_hash :: "hash_t \<Rightarrow> file_info \<Rightarrow> file_info" where
  "set_hash h i = i\<lparr>fi_hash := h, fi_hash_known := True\<rparr>"

definition set_hash_ptr :: "hash_t option \<Rightarrow> file_info \<Rightarrow> file_info" where
  "set_hash_ptr h i =
     (case h of
        Some x \<Rightarrow> i\<lparr>fi_hash := x, fi_hash_known := True\<rparr>
      | None \<Rightarrow> i\<lparr>fi_hash := 0, fi_hash_known := False\<rparr>)"

definition set_mode_bits :: "mode_t \<Rightarrow> mode_t \<Rightarrow> file_info \<Rightarrow> file_info" where
  "set_mode_bits mode msk i =
     i\<lparr>fi_mode := (fi_mode i AND NOT msk) OR (mode AND msk),
       fi_mode_mask := fi_mode_mask i OR msk\<rparr>"

lemmas fi_accessors [fu_simps] =
  size_known_def set_hash_def set_hash_ptr_def file_info_of_type_def mk_file_info_def

section \<open>Meaning\<close>

text \<open>
  The state of a path: absent (a special file counts as absent for firebuild), a regular file or a
  directory, with what the supervisor can see of it.
\<close>

datatype file_state =
    Absent
  | RegFile (fs_size : int) (fs_hash : hash_t) (fs_mode : mode_t)
  | Directory (fs_hash : hash_t) (fs_mode : mode_t)

definition mode_ok :: "file_info \<Rightarrow> mode_t \<Rightarrow> bool" where
  "mode_ok i m \<longleftrightarrow> fi_mode i AND fi_mode_mask i = m AND fi_mode_mask i"

definition reg_ok :: "file_info \<Rightarrow> int \<Rightarrow> hash_t \<Rightarrow> mode_t \<Rightarrow> bool" where
  "reg_ok i s h m \<longleftrightarrow>
     (fi_size i \<ge> 0 \<longrightarrow> fi_size i = s) \<and> (fi_hash_known i \<longrightarrow> fi_hash i = h) \<and> mode_ok i m"

definition dir_ok :: "file_info \<Rightarrow> hash_t \<Rightarrow> mode_t \<Rightarrow> bool" where
  "dir_ok i h m \<longleftrightarrow> (fi_hash_known i \<longrightarrow> fi_hash i = h) \<and> mode_ok i m"

fun describes :: "file_info \<Rightarrow> file_state \<Rightarrow> bool" where
  "describes i Absent = (fi_type i \<in> {DONTKNOW, NOTEXIST, NOTEXIST_OR_ISREG})"
| "describes i (RegFile s h m) =
     (case fi_type i of
        DONTKNOW \<Rightarrow> True
      | EXIST \<Rightarrow> mode_ok i m
      | NOTEXIST \<Rightarrow> False
      | NOTEXIST_OR_ISREG \<Rightarrow> reg_ok i s h m
      | ISREG \<Rightarrow> reg_ok i s h m
      | ISDIR \<Rightarrow> False)"
| "describes i (Directory h m) =
     (case fi_type i of
        DONTKNOW \<Rightarrow> True
      | EXIST \<Rightarrow> mode_ok i m
      | NOTEXIST \<Rightarrow> False
      | NOTEXIST_OR_ISREG \<Rightarrow> False
      | ISREG \<Rightarrow> False
      | ISDIR \<Rightarrow> dir_ok i h m)"

text \<open>
  The documented shape: no detail without a type that gives it sense, mode bits only where the msk
  has them.
\<close>

definition wf_info :: "file_info \<Rightarrow> bool" where
  "wf_info i \<longleftrightarrow>
     (fi_type i \<in> {DONTKNOW, EXIST, NOTEXIST, ISDIR} \<longrightarrow> fi_size i < 0) \<and>
     (fi_hash_known i \<longrightarrow> fi_type i \<in> {ISREG, ISDIR}) \<and>
     (fi_mode_mask i \<noteq> 0 \<longrightarrow> fi_type i \<in> {EXIST, ISREG, ISDIR}) \<and>
     fi_mode i AND NOT (fi_mode_mask i) = 0"

section \<open>Mode bits\<close>

lemma bits_subset: "a AND NOT m = 0 \<Longrightarrow> a AND m = (a :: mode_t)"
  by (rule bit_eqI) (metis bit_and_iff bit_not_iff bit_0_eq bot_apply bot_bool_def possible_bit_word)

lemma set_mode_bits_subset:
  "fi_mode i AND NOT (fi_mode_mask i) = 0 \<Longrightarrow>
   fi_mode (set_mode_bits mode msk i) AND NOT (fi_mode_mask (set_mode_bits mode msk i)) = 0"
  unfolding set_mode_bits_def by (auto simp: bit_eq_iff bit_simps)

text \<open>Setting bits learnt about the same file keeps the bits known before.\<close>

lemma mode_ok_set_mode_bits:
  assumes "mode_ok i m0" "mode AND msk = m0 AND msk"
  shows "mode_ok (set_mode_bits mode msk i) m \<longleftrightarrow> mode_ok i m \<and> mode AND msk = m AND msk"
proof -
  have "mode_ok (set_mode_bits mode msk i) m \<longleftrightarrow>
      (\<forall>n < 32. (bit (fi_mode_mask i) n \<or> bit msk n) \<longrightarrow>
         ((bit (fi_mode i) n \<and> \<not> bit msk n) \<or> (bit mode n \<and> bit msk n) \<longleftrightarrow> bit m n))"
    by (auto simp: mode_ok_def set_mode_bits_def bit_eq_iff bit_simps)
  moreover have "mode_ok i m \<longleftrightarrow>
      (\<forall>n < 32. bit (fi_mode_mask i) n \<longrightarrow> (bit (fi_mode i) n \<longleftrightarrow> bit m n))" for m
    by (auto simp: mode_ok_def bit_eq_iff bit_simps)
  moreover have "mode AND msk = m AND msk \<longleftrightarrow>
      (\<forall>n < 32. bit msk n \<longrightarrow> (bit mode n \<longleftrightarrow> bit m n))" for m
    by (auto simp: bit_eq_iff bit_simps)
  ultimately show ?thesis using assms by metis
qed

end
