(* ===== verification/FB_FileName.thy ===== *)
theory FB_FileName
  imports FB_Paths
begin

text \<open>
  \<^verbatim>\<open>src/firebuild/file_name.h\<close> and \<^verbatim>\<open>file_name.cc\<close>: interned file names.  The global pool \<open>db_\<close> is a list,
  a \<open>const FileName*\<close> is an index into it.  The interface \<open>interning\<close> states what the rest of the
  program relies on: equal names are equal pointers, and pointers stay valid.  The other theories
  therefore identify a file name with its string.
\<close>

section \<open>Interning pools\<close>

fun find_first :: "('v \<Rightarrow> bool) \<Rightarrow> 'v list \<Rightarrow> nat option" where
  "find_first P [] = None"
| "find_first P (x # xs) = (if P x then Some 0 else map_option Suc (find_first P xs))"

fun get_all :: "('v list \<Rightarrow> 'k \<Rightarrow> 'v list \<times> nat) \<Rightarrow> 'v list \<Rightarrow> 'k list \<Rightarrow> 'v list \<times> nat list" where
  "get_all get db [] = (db, [])"
| "get_all get db (k # ks) =
     (case get db k of (db1, i) \<Rightarrow> (case get_all get db1 ks of (db2, is) \<Rightarrow> (db2, i # is)))"

locale interning =
  fixes get :: "'v list \<Rightarrow> 'k \<Rightarrow> 'v list \<times> nat"
    and key :: "'v \<Rightarrow> 'k"
    and invar :: "'v list \<Rightarrow> bool"
  assumes get_law: "invar db \<Longrightarrow> get db k = (db', i) \<Longrightarrow>
      invar db' \<and> prefix db db' \<and> i < length db' \<and> key (db' ! i) = k"
    and unique_law: "invar db \<Longrightarrow> i < length db \<Longrightarrow> j < length db \<Longrightarrow>
      key (db ! i) = key (db ! j) \<Longrightarrow> i = j"
begin

lemma get_all_law:
  "invar db \<Longrightarrow> get_all get db ks = (db', is) \<Longrightarrow>
   invar db' \<and> prefix db db' \<and> length is = length ks \<and>
   (\<forall>a < length ks. is ! a < length db' \<and> key (db' ! (is ! a)) = ks ! a)"
proof (induction ks arbitrary: db "is")
  case Nil
  then show ?case by simp
next
  case (Cons k ks)
  obtain db1 i where g: "get db k = (db1, i)" by (cases "get db k")
  obtain "is'" where r: "get_all get db1 ks = (db', is')" "is = i # is'"
    using Cons.prems g by (auto split: prod.splits)
  have l: "invar db1" "prefix db db1" "i < length db1" "key (db1 ! i) = k"
    using get_law [OF Cons.prems(1) g] by auto
  have IH: "invar db'" "prefix db1 db'" "length is' = length ks"
    "\<forall>a < length ks. is' ! a < length db' \<and> key (db' ! (is' ! a)) = ks ! a"
    using Cons.IH [OF l(1) r(1)] by auto
  have "i < length db' \<and> key (db' ! i) = k"
    using l IH(2) by (auto simp: prefix_def nth_append)
  with IH r(2) l(2) show ?case
    by (auto simp: nth_Cons' less_Suc_eq_0_disj intro: prefix_order.trans)
qed

lemma pointers_identify:
  assumes "invar db" "get_all get db ks = (db', is)" "a < length ks" "b < length ks"
  shows "is ! a = is ! b \<longleftrightarrow> ks ! a = ks ! b"
  using get_all_law [OF assms(1,2)] assms(3,4) unique_law by metis

end

lemma find_first_Some:
  "find_first P xs = Some i \<Longrightarrow> i < length xs \<and> P (xs ! i)"
  by (induction xs arbitrary: i) (auto split: if_splits)

lemma find_first_None: "find_first P xs = None \<longleftrightarrow> (\<forall>x \<in> set xs. \<not> P x)"
  by (induction xs) auto

section \<open>FileName\<close>

record file_name =
  fn_name :: string
  fn_in_ignore_location :: bool
  fn_in_read_only_location :: bool

record locations =
  ignore_locations :: cstring_view_array
  read_only_locations :: cstring_view_array

definition fn_length :: "file_name \<Rightarrow> nat" where
  "fn_length f = length (fn_name f)"

definition file_name_eq :: "file_name \<Rightarrow> file_name \<Rightarrow> bool" where
  "file_name_eq lhs rhs \<longleftrightarrow>
     fn_length lhs = fn_length rhs \<and> memcmp (fn_name lhs) (fn_name rhs) (fn_length lhs) = 0"

definition is_at_locations :: "file_name \<Rightarrow> cstring_view_array \<Rightarrow> bool" where
  "is_at_locations f a = is_path_at_locations (fn_name f) (int (fn_length f)) a"

text \<open>\<open>FileName::Get\<close> on the string the arguments denote.\<close>

definition FileName_Get :: "locations \<Rightarrow> file_name list \<Rightarrow> string \<Rightarrow> file_name list \<times> nat" where
  "FileName_Get locs db name =
     (let tmp = \<lparr>fn_name = name, fn_in_ignore_location = False, fn_in_read_only_location = False\<rparr>
      in case find_first (file_name_eq tmp) db of
           Some i \<Rightarrow> (db, i)
         | None \<Rightarrow>
             (db @ [tmp\<lparr>fn_in_ignore_location := is_at_locations tmp (ignore_locations locs),
                        fn_in_read_only_location := is_at_locations tmp (read_only_locations locs)\<rparr>],
              length db))"

text \<open>The scan of \<open>GetParentDir\<close> for the last slash.\<close>

fun last_slash :: "string \<Rightarrow> nat \<Rightarrow> nat option" where
  "last_slash name 0 = None"
| "last_slash name (Suc n) = (if cget name n = SLASH then Some n else last_slash name n)"

definition GetParentDir :: "string \<Rightarrow> nat \<Rightarrow> string option" where
  "GetParentDir name len =
     (case last_slash name len of
        None \<Rightarrow> None
      | Some slash_pos \<Rightarrow>
          if len = 1 then None
          else if slash_pos = 0 then Some ''/''
          else Some (take slash_pos name))"

definition path_is_absolute :: "string \<Rightarrow> bool" where
  "path_is_absolute p \<longleftrightarrow> cget p 0 = SLASH"

definition GetCanonicalized :: "string \<Rightarrow> string \<Rightarrow> string" where
  "GetCanonicalized name wd =
     (let canonicalized_name =
            (if \<not> is_canonical name (length name)
             then (case make_canonical (name @ [NUL]) (length name) of (buf, len) \<Rightarrow> take len buf)
             else name)
      in if path_is_absolute canonicalized_name then canonicalized_name
         else wd @ (if cget wd (length wd - 1) \<noteq> SLASH then ''/'' else []) @ canonicalized_name)"

text \<open>\<open>FileNameLess\<close> and \<open>file_file_usage_cmp\<close>: \<open>memcmp\<close> over the shorter name and one more byte.\<close>

definition FileNameLess :: "string \<Rightarrow> string \<Rightarrow> bool" where
  "FileNameLess f1 f2 \<longleftrightarrow> memcmp f1 f2 (min (length f1) (length f2) + 1) < 0"

section \<open>The pool interns names\<close>

definition pool_inv :: "file_name list \<Rightarrow> bool" where
  "pool_inv db \<longleftrightarrow> distinct (map fn_name db)"

lemma file_name_eq_iff: "file_name_eq a b \<longleftrightarrow> fn_name a = fn_name b"
  using memcmp_eq_0_take [of "fn_length a" "fn_name a" "fn_name b"]
  by (auto simp: file_name_eq_def fn_length_def)

interpretation names: interning "FileName_Get locs" fn_name pool_inv for locs
proof (standard, goal_cases)
  case (1 db k db' i)
  define tmp where "tmp = \<lparr>fn_name = k, fn_in_ignore_location = False,
    fn_in_read_only_location = False\<rparr>"
  show ?case
  proof (cases "find_first (file_name_eq tmp) db")
    case None
    then have "k \<notin> fn_name ` set db" by (auto simp: find_first_None file_name_eq_iff tmp_def)
    with None 1 show ?thesis
      by (auto simp: FileName_Get_def Let_def pool_inv_def nth_append simp flip: tmp_def)
        (auto simp: tmp_def)
  next
    case (Some j)
    with 1 find_first_Some [OF Some] show ?thesis
      by (auto simp: FileName_Get_def Let_def file_name_eq_iff simp flip: tmp_def)
        (auto simp: tmp_def)
  qed
next
  case (2 db i j)
  then show ?case by (auto simp: pool_inv_def distinct_conv_nth)
qed

section \<open>Parent directories\<close>

definition abs_path :: "string list \<Rightarrow> string" where
  "abs_path ks = SLASH # join_path ks"

definition good_comps :: "string list \<Rightarrow> bool" where
  "good_comps ks \<longleftrightarrow> (\<forall>k \<in> set ks. good_comp k \<and> SLASH \<notin> set k \<and> nul_free k)"

lemma last_slash_no_slash: "SLASH \<notin> set k \<Longrightarrow> n \<le> length k \<Longrightarrow>
    last_slash (p @ SLASH # k) (length p + 1 + n) = Some (length p)"
  by (induction n) (auto simp: cget_def nth_append in_set_conv_nth)

lemma join_path_snoc: "ks \<noteq> [] \<Longrightarrow> join_path (ks @ [k]) = join_path ks @ SLASH # k"
  by (induction ks rule: join_path.induct) (auto simp: join_path_Cons)

lemma join_path_eq_Nil: "good_comps ks \<Longrightarrow> join_path ks = [] \<longleftrightarrow> ks = []"
  by (cases ks rule: join_path.cases) (auto simp: good_comps_def good_comp_def)

lemma GetParentDir_snoc:
  assumes "good_comps (ks @ [k])"
  shows "GetParentDir (abs_path (ks @ [k])) (length (abs_path (ks @ [k]))) = Some (abs_path ks)"
proof -
  have k: "SLASH \<notin> set k" "k \<noteq> []" using assms by (auto simp: good_comps_def good_comp_def)
  have g: "good_comps ks" using assms by (simp add: good_comps_def)
  show ?thesis
  proof (cases "ks = []")
    case True
    then show ?thesis
      using last_slash_no_slash [OF k(1), of "length k" "[]"] k(2)
      by (simp add: abs_path_def GetParentDir_def)
  next
    case False
    let ?p = "abs_path ks"
    have e: "abs_path (ks @ [k]) = ?p @ SLASH # k" using False by (simp add: abs_path_def join_path_snoc)
    have l: "last_slash (?p @ SLASH # k) (length (?p @ SLASH # k)) = Some (length ?p)"
      using last_slash_no_slash [OF k(1), of "length k" ?p] by simp
    have "0 < length ?p" by (simp add: abs_path_def)
    then show ?thesis unfolding e GetParentDir_def l by simp
  qed
qed

lemma comps_abs_path: "good_comps ks \<Longrightarrow> filter good_comp (comps (abs_path ks)) = ks"
  using comps_join_path [of ks]
  by (cases "ks = []") (auto simp: abs_path_def good_comps_def good_comp_def)

lemma canonical_abs_path: "good_comps ks \<Longrightarrow> canonical_spec (abs_path ks) = abs_path ks"
  using comps_abs_path [of ks] by (simp add: canonical_spec_def Let_def) (simp add: abs_path_def)

lemma nul_free_abs_path: "good_comps ks \<Longrightarrow> nul_free (abs_path ks)"
  by (simp add: abs_path_def good_comps_def nul_free_join_path)

section \<open>Canonicalised names\<close>

lemma make_canonical_take:
  "nul_free name \<Longrightarrow>
   (case make_canonical (name @ [NUL]) (length name) of (buf, len) \<Rightarrow> take len buf) = canonical_spec name"
  using make_canonical_holds [of name]
  by (cases "make_canonical (name @ [NUL]) (length name)") (simp add: holds_path_def)

lemma GetCanonicalized_spec:
  assumes "nul_free name"
  shows "GetCanonicalized name wd =
     (if path_is_absolute (canonical_spec name) then canonical_spec name
      else wd @ (if cget wd (length wd - 1) \<noteq> SLASH then ''/'' else []) @ canonical_spec name)"
  using is_canonical_iff [OF assms] make_canonical_take [OF assms]
  by (simp add: GetCanonicalized_def Let_def)

lemma good_comps_keep: "nul_free name \<Longrightarrow> good_comps (filter good_comp (comps name))"
  using comps_subset [of _ name] comps_no_slash [of _ name]
  by (auto simp: good_comps_def nul_free_def)

lemma last_abs_path:
  assumes "good_comps ws"
  shows "cget (abs_path ws) (length (abs_path ws) - 1) = SLASH \<longleftrightarrow> ws = []"
proof (cases "ws = []")
  case True
  then show ?thesis by (simp add: abs_path_def cget_def)
next
  case False
  have "join_path ws \<noteq> [] \<and> last (join_path ws) \<noteq> SLASH"
    using assms False by (intro last_join_path) (auto simp: good_comps_def)
  then show ?thesis using cget_last [of "abs_path ws"] False by (simp add: abs_path_def)
qed

lemma join_path_append:
  "xs \<noteq> [] \<Longrightarrow> ys \<noteq> [] \<Longrightarrow> join_path (xs @ ys) = join_path xs @ SLASH # join_path ys"
  by (induction xs rule: join_path.induct) (auto simp: join_path_Cons)

lemma memcmp_FileNameLess:
  "nul_free a \<Longrightarrow> nul_free b \<Longrightarrow> memcmp a b (min (length a) (length b) + 1) < 0 \<longleftrightarrow> a < b"
proof (induction a arbitrary: b)
  case Nil
  then show ?case by (cases b) (auto simp: of_char_pos_int)
next
  case (Cons x a)
  then show ?case
    by (cases b) (auto simp: char_less_int dest: of_char_pos_int)
qed

section \<open>Properties\<close>

text \<open>
  C22: file names are interned: through any sequence of \<open>FileName::Get\<close> calls from an empty pool,
  two calls return the same pointer exactly when they were given the same name, and every pointer
  denotes its name in the final pool.
\<close>

theorem FileName_Get_interns:
  assumes "get_all (FileName_Get locs) [] ks = (db, ptrs)" "a < length ks" "b < length ks"
  shows "(ptrs ! a = ptrs ! b \<longleftrightarrow> ks ! a = ks ! b) \<and> ptrs ! a < length db \<and>
    fn_name (db ! (ptrs ! a)) = ks ! a"
proof -
  have i: "pool_inv []" by (simp add: pool_inv_def)
  show ?thesis
    using names.pointers_identify [OF i assms] names.get_all_law [OF i assms(1)] assms(2) by simp
qed

theorem FileName_Get_interns_witness:
  "\<exists>locs. case get_all (FileName_Get locs) [] [''/a'', ''/b'', ''/a''] of
     (db, ptrs) \<Rightarrow> ptrs ! 0 = ptrs ! 2 \<and> ptrs ! 0 \<noteq> ptrs ! 1"
proof -
  define locs where "locs = \<lparr>ignore_locations = cstring_view_array_init,
    read_only_locations = cstring_view_array_init\<rparr>"
  obtain db ptrs where e: "get_all (FileName_Get locs) [] [''/a'', ''/b'', ''/a''] = (db, ptrs)"
    by (cases "get_all (FileName_Get locs) [] [''/a'', ''/b'', ''/a'']")
  have "ptrs ! 0 = ptrs ! 2" "ptrs ! 0 \<noteq> ptrs ! 1"
    using FileName_Get_interns [OF e, of 0 2] FileName_Get_interns [OF e, of 0 1] by simp_all
  with e show ?thesis by (intro exI [of _ locs]) simp
qed

text \<open>
  C23: \<open>parent_dir\<close> of an absolute canonical path drops exactly the last component, and only the root
  has no parent.
\<close>

theorem GetParentDir_correct:
  "good_comps ks \<Longrightarrow>
   GetParentDir (abs_path ks) (length (abs_path ks)) =
     (if ks = [] then None else Some (abs_path (butlast ks)))"
  using GetParentDir_snoc [of "butlast ks" "last ks"]
  by (cases "ks = []") (simp_all add: GetParentDir_def abs_path_def cget_def)

theorem GetParentDir_correct_witness:
  "GetParentDir ''/usr/lib/x'' (length ''/usr/lib/x'') = Some ''/usr/lib''"
proof -
  have g: "good_comps [''usr'', ''lib'', ''x'']" by code_simp
  show ?thesis
    using GetParentDir_correct [OF g] by (simp add: abs_path_def)
qed



text \<open>
  The working directory named as \<open>.\<close> is not canonicalised: \<open>GetCanonicalized\<close> appends the dot,
  and the result is a different, non-canonical name for the directory.
\<close>

theorem GetCanonicalized_dot:
  "good_comps ws \<Longrightarrow> ws \<noteq> [] \<Longrightarrow>
   GetCanonicalized ''.'' (abs_path ws) = abs_path ws @ ''/.'' \<and>
   \<not> is_canonical (GetCanonicalized ''.'' (abs_path ws)) (length (GetCanonicalized ''.'' (abs_path ws)))"
proof -
  assume g: "good_comps ws" "ws \<noteq> []"
  have s: "canonical_spec ''.'' = ''.''" "nul_free ''.''" by code_simp+
  have e: "GetCanonicalized ''.'' (abs_path ws) = abs_path ws @ ''/.''"
    unfolding GetCanonicalized_spec [OF s(2)] s(1) using last_abs_path [OF g(1)] g(2)
    by (simp add: path_is_absolute_def)
  have "\<not> is_canonical (abs_path ws @ ''/.'') (length (abs_path ws @ ''/.''))"
    by (auto simp: is_canonical_def abs_path_def cget_def nth_append)
  with e show ?thesis by simp
qed

theorem GetCanonicalized_dot_witness:
  "GetCanonicalized ''.'' ''/w'' = ''/w/.''"
proof -
  have g: "good_comps [''w'']" by code_simp
  show ?thesis using GetCanonicalized_dot [OF g] by (simp add: abs_path_def)
qed

text \<open>
  \<open>FileNameLess\<close>, which orders files before they are fingerprinted and stored, is the strict
  lexicographic order of the names.
\<close>

theorem FileNameLess_correct:
  "nul_free f1 \<Longrightarrow> nul_free f2 \<Longrightarrow> FileNameLess f1 f2 \<longleftrightarrow> f1 < f2"
  unfolding FileNameLess_def by (rule memcmp_FileNameLess)

theorem FileNameLess_correct_witness:
  "FileNameLess ''/a'' ''/a/b'' \<and> \<not> FileNameLess ''/b'' ''/a/b''"
proof -
  have n: "nul_free ''/a''" "nul_free ''/a/b''" "nul_free ''/b''" by code_simp+
  have o: "''/a'' < (''/a/b'' :: string)" "\<not> ''/b'' < (''/a/b'' :: string)" by code_simp+
  show ?thesis using FileNameLess_correct [OF n(1,2)] FileNameLess_correct [OF n(3,2)] o by blast
qed

end
