(* ===== verification/FB_Hash.thy ===== *)
theory FB_Hash
  imports FB_FileInfo
begin

text \<open>
  \<^verbatim>\<open>src/firebuild/hash.cc\<close>: the hash of a file or directory.  The digest \<open>XXH3_128bits\<close> is the parameter
  \<open>xxh\<close>; the streaming interface (\<open>reset\<close>, \<open>update\<close>, \<open>digest\<close>) hashes the concatenation of the chunks,
  as its documentation says, so the streaming state is the data seen so far.  The system calls are
  the fields of \<open>fd_obj\<close>, the object behind an open descriptor.
\<close>

section \<open>What the system calls answer\<close>

record stat64 =
  st_mode :: mode_t
  st_size :: int
  st_mtim :: "int \<times> int"
  st_ino :: nat

definition S_ISREG :: "mode_t \<Rightarrow> bool" where "S_ISREG m \<longleftrightarrow> m AND 0xF000 = 0x8000"
definition S_ISDIR :: "mode_t \<Rightarrow> bool" where "S_ISDIR m \<longleftrightarrow> m AND 0xF000 = 0x4000"
definition S_ISLNK :: "mode_t \<Rightarrow> bool" where "S_ISLNK m \<longleftrightarrow> m AND 0xF000 = 0xA000"

datatype mmap_result = Mapped string | MapENODEV | MapFailed

text \<open>\<open>obj_pread count offset\<close> is \<open>None\<close> on error; \<open>obj_listing\<close> is \<open>None\<close> when \<open>fdopendir\<close> fails.\<close>

record fd_obj =
  obj_fstat :: "stat64 option"
  obj_mmap :: "nat \<Rightarrow> mmap_result"
  obj_pread :: "nat \<Rightarrow> nat \<Rightarrow> string option"
  obj_listing :: "string list option"

section \<open>Reading and hashing\<close>

definition kHashingBufSize :: nat where "kHashingBufSize = 4096"

definition pread_checked_eof :: "fd_obj \<Rightarrow> nat \<Rightarrow> nat \<Rightarrow> string option" where
  "pread_checked_eof o1 count offset =
     (case obj_pread o1 count offset of
        None \<Rightarrow> None
      | Some d \<Rightarrow>
          if length d < count \<and> obj_pread o1 (count - length d) (offset + length d) \<noteq> Some []
          then None else Some d)"

text \<open>
  The loop of \<open>set_from_fd_pread\<close>: the streaming state, \<open>pos\<close> and \<open>*size\<close>; \<open>None\<close> when a read fails.
  A read longer than asked for is outside the contract of \<open>pread\<close> and counts as a failure.
\<close>

function pread_loop :: "fd_obj \<Rightarrow> string \<Rightarrow> nat \<Rightarrow> nat \<Rightarrow> (string \<times> nat) option" where
  "pread_loop o1 state pos sz =
     (if pos < sz then
        (let to_read = min kHashingBufSize (sz - pos) in
         case pread_checked_eof o1 to_read pos of
           None \<Rightarrow> None
         | Some d \<Rightarrow>
             if to_read < length d then None
             else pread_loop o1 (state @ d) (pos + length d)
                    (if length d < to_read then pos + length d else sz))
      else Some (state, sz))"
  by pat_completeness auto
termination
proof (relation "measure (\<lambda>(o1, state, pos, sz). sz - pos)", goal_cases)
  case 1
  then show ?case by simp
next
  case (2 o1 state pos sz x d)
  then show ?case by (cases "length d < x") (auto simp: kHashingBufSize_def)
qed

declare pread_loop.simps [simp del]

definition set_from_fd_pread :: "(string \<Rightarrow> hash_t) \<Rightarrow> fd_obj \<Rightarrow> nat \<Rightarrow> (hash_t \<times> nat) option" where
  "set_from_fd_pread xxh o1 sz =
     (if sz \<le> kHashingBufSize then
        (case pread_checked_eof o1 sz 0 of
           None \<Rightarrow> None
         | Some d \<Rightarrow> Some (xxh d, length d))
      else
        (case pread_loop o1 [] 0 sz of
           None \<Rightarrow> None
         | Some (state, sz') \<Rightarrow> Some (xxh state, sz')))"

text \<open>The string hashed for a directory: its sorted entries, each terminated by a NUL.\<close>

definition listing_string :: "string list \<Rightarrow> string" where
  "listing_string listing = concat (map (\<lambda>e. e @ [NUL]) (sort listing))"

text \<open>The result is the hash and \<open>*is_dir_out\<close>; \<open>None\<close> is failure.\<close>

definition set_from_fd :: "(string \<Rightarrow> hash_t) \<Rightarrow> fd_obj \<Rightarrow> stat64 option \<Rightarrow> (hash_t \<times> bool) option" where
  "set_from_fd xxh o1 stat_ptr =
     (case (case stat_ptr of Some st \<Rightarrow> Some st | None \<Rightarrow> obj_fstat o1) of
        None \<Rightarrow> None
      | Some st \<Rightarrow>
          if S_ISREG (st_mode st) then
            (if st_size st < 0 then None
             else if st_size st = 0 then Some (xxh [], False)
             else (case obj_mmap o1 (nat (st_size st)) of
                     MapENODEV \<Rightarrow> map_option (\<lambda>(h, n). (h, False)) (set_from_fd_pread xxh o1 (nat (st_size st)))
                   | MapFailed \<Rightarrow> None
                   | Mapped d \<Rightarrow> Some (xxh d, False)))
          else if S_ISDIR (st_mode st) then
            (case obj_listing o1 of
               None \<Rightarrow> None
             | Some listing \<Rightarrow> Some (xxh (listing_string listing), True))
          else None)"

definition set_from_file ::
    "(string \<Rightarrow> hash_t) \<Rightarrow> (string \<Rightarrow> fd_obj option) \<Rightarrow> string \<Rightarrow> stat64 option \<Rightarrow> (hash_t \<times> bool) option" where
  "set_from_file xxh openf filename stat_ptr =
     (case openf filename of
        None \<Rightarrow> None
      | Some o1 \<Rightarrow> set_from_fd xxh o1 stat_ptr)"

section \<open>Reading by chunks reads the file\<close>

text \<open>An object whose reads return the bytes of \<open>c\<close>.\<close>

definition reads_file :: "fd_obj \<Rightarrow> string \<Rightarrow> bool" where
  "reads_file o1 c \<longleftrightarrow> (\<forall>n off. obj_pread o1 n off = Some (take n (drop off c)))"

lemma pread_checked_eof_file:
  "reads_file o1 c \<Longrightarrow> pread_checked_eof o1 n off = Some (take n (drop off c))"
  by (auto simp: pread_checked_eof_def reads_file_def)

lemma pread_loop_file:
  assumes "reads_file o1 c"
  shows "pos \<le> length c \<Longrightarrow> pos \<le> sz \<Longrightarrow>
    pread_loop o1 (take pos c) pos sz = Some (take sz c, min sz (length c))"
proof (induction "sz - pos" arbitrary: pos sz rule: less_induct)
  case less
  show ?case
  proof (cases "pos < sz")
    case False
    then show ?thesis using less.prems by (subst pread_loop.simps) simp
  next
    case True
    define r where "r = min kHashingBufSize (sz - pos)"
    define d where "d = take r (drop pos c)"
    have r: "0 < r" "r \<le> sz - pos" using True by (auto simp: r_def kHashingBufSize_def)
    have ld: "length d = min r (length c - pos)" by (simp add: d_def)
    have e: "pread_loop o1 (take pos c) pos sz =
        pread_loop o1 (take pos c @ d) (pos + length d) (if length d < r then pos + length d else sz)"
      using True pread_checked_eof_file [OF assms, of r pos] ld
      by (subst pread_loop.simps) (simp add: Let_def flip: r_def d_def)
    have td: "take pos c @ d = take (pos + length d) c"
      using less.prems by (simp add: d_def min_def take_add)
    show ?thesis
    proof (cases "length d < r")
      case short: True
      then have l: "pos + length d = length c" "length c \<le> sz"
        using ld less.prems r by (auto simp: min_def split: if_splits)
      have "pread_loop o1 (take pos c) pos sz = pread_loop o1 c (length c) (length c)"
        unfolding e td if_P [OF short] l(1) by simp
      also have "\<dots> = Some (c, length c)" by (subst pread_loop.simps) simp
      finally show ?thesis using l(2) by simp
    next
      case False
      then have dr: "length d = r" using ld by simp
      have "sz - (pos + r) < sz - pos" "pos + r \<le> length c" "pos + r \<le> sz"
        using r True dr ld by auto
      from less.hyps [OF this] show ?thesis unfolding e td dr by simp
    qed
  qed
qed

section \<open>Directory listings\<close>

lemma split_NUL:
  "nul_free x \<Longrightarrow> nul_free y \<Longrightarrow> x @ NUL # s = y @ NUL # t \<Longrightarrow> x = y \<and> s = t"
proof (induction x arbitrary: y)
  case Nil
  then show ?case by (cases y) auto
next
  case (Cons c x)
  then show ?case by (cases y) auto
qed

lemma concat_NUL_inj:
  "\<forall>e \<in> set xs. nul_free e \<Longrightarrow> \<forall>e \<in> set ys. nul_free e \<Longrightarrow>
   concat (map (\<lambda>e. e @ [NUL]) xs) = concat (map (\<lambda>e. e @ [NUL]) ys) \<Longrightarrow> xs = ys"
proof (induction xs arbitrary: ys)
  case Nil
  then show ?case by (cases ys) auto
next
  case (Cons x xs)
  then obtain y ys' where ys: "ys = y # ys'" by (cases ys) auto
  with Cons.prems have "x @ NUL # concat (map (\<lambda>e. e @ [NUL]) xs) = y @ NUL # concat (map (\<lambda>e. e @ [NUL]) ys')"
    by simp
  moreover have "nul_free x" "nul_free y" using Cons.prems ys by auto
  ultimately have "x = y" "concat (map (\<lambda>e. e @ [NUL]) xs) = concat (map (\<lambda>e. e @ [NUL]) ys')"
    using split_NUL by blast+
  then show ?case using Cons.IH [of ys'] Cons.prems ys by simp
qed

section \<open>Properties\<close>

text \<open>
  C25: the chunked reader of \<open>set_from_fd_pread\<close>, for small and large files, hashes exactly the first
  \<open>size\<close> bytes of the file, and reports the smaller size when the file turned out to be shorter.
\<close>

theorem set_from_fd_pread_correct:
  "reads_file o1 c \<Longrightarrow>
   set_from_fd_pread xxh o1 sz = Some (xxh (take sz c), min sz (length c))"
  using pread_loop_file [of o1 c 0 sz] pread_checked_eof_file [of o1 c sz 0]
  by (simp add: set_from_fd_pread_def min.commute)

theorem set_from_fd_pread_correct_witness:
  "set_from_fd_pread (\<lambda>s. of_nat (length s))
     \<lparr>obj_fstat = None, obj_mmap = (\<lambda>n. MapENODEV),
      obj_pread = (\<lambda>n off. Some (take n (drop off ''hello''))), obj_listing = None\<rparr> 9 = Some (5, 5)"
  by (subst set_from_fd_pread_correct [of _ "''hello''"]) (simp_all add: reads_file_def)



end
