(* ===== verification/FB_HashCache.thy ===== *)
theory FB_HashCache
  imports FB_FileName FB_Hash
begin

text \<open>
  \<^verbatim>\<open>src/firebuild/hash_cache.cc\<close>: the in-memory cache of file hashes.  \<open>db_\<close> is a map from file names
  to entries; every operation takes the cache and returns it with its result.  The operating system,
  the digest and the blob store (\<open>BlobCache::store_file\<close>) are the fields of \<open>os\<close>; \<open>locs\<close> are the
  configured ignore and read-only locations.

  The cache assumes that a file with unchanged type, size, modification time and inode has unchanged
  contents.  \<open>consistent\<close> states that assumption for a function \<open>F\<close> from paths and keys to hashes; the
  theorems show that under it every answer of the cache is the answer of the file system.
\<close>

section \<open>State and environment\<close>

record hash_cache_entry =
  ent_info :: file_info
  ent_mtime :: "int \<times> int"
  ent_inode :: nat
  ent_is_stored :: bool
  ent_is_static :: bool
  ent_is_static_checked :: bool

type_synonym hash_cache = "string \<Rightarrow> hash_cache_entry option"

record os =
  os_stat :: "string \<Rightarrow> stat64 option"
  os_fstat :: "int \<Rightarrow> stat64 option"
  os_open :: "string \<Rightarrow> fd_obj option"
  os_fd :: "int \<Rightarrow> fd_obj"
  os_store_file :: "string \<Rightarrow> int \<Rightarrow> int \<Rightarrow> hash_t option"
  os_xxh :: "string \<Rightarrow> hash_t"
  os_writers :: "string \<Rightarrow> int"

definition in_ignore_location :: "locations \<Rightarrow> string \<Rightarrow> bool" where
  "in_ignore_location locs p = is_path_at_locations p (int (length p)) (ignore_locations locs)"

definition in_read_only_location :: "locations \<Rightarrow> string \<Rightarrow> bool" where
  "in_read_only_location locs p = is_path_at_locations p (int (length p)) (read_only_locations locs)"

definition new_entry :: "file_type \<Rightarrow> hash_cache_entry" where
  "new_entry t = \<lparr>ent_info = file_info_of_type t, ent_mtime = (0, 0), ent_inode = 0,
     ent_is_stored = False, ent_is_static = False, ent_is_static_checked = False\<rparr>"

definition notexist_entry :: hash_cache_entry where "notexist_entry = new_entry NOTEXIST"
definition dontknow_entry :: hash_cache_entry where "dontknow_entry = new_entry DONTKNOW"

section \<open>Updating an entry\<close>

definition same_metadata :: "stat64 \<Rightarrow> hash_cache_entry \<Rightarrow> bool" where
  "same_metadata st e \<longleftrightarrow>
     ((S_ISREG (st_mode st) \<and> fi_type (ent_info e) = ISREG) \<or>
      (S_ISDIR (st_mode st) \<and> fi_type (ent_info e) = ISDIR)) \<and>
     (S_ISDIR (st_mode st) \<or> st_size st = fi_size (ent_info e)) \<and>
     st_mtim st = ent_mtime e \<and> st_ino st = ent_inode e"

definition refreshed :: "stat64 \<Rightarrow> hash_cache_entry \<Rightarrow> hash_cache_entry" where
  "refreshed st e =
     e\<lparr>ent_mtime := st_mtim st, ent_inode := st_ino st, ent_is_stored := False,
       ent_is_static := False, ent_is_static_checked := False,
       ent_info :=
         (if S_ISREG (st_mode st)
          then set_hash_ptr None ((set_mode_bits (st_mode st AND 0xFFF) 0xFFF
                 ((ent_info e)\<lparr>fi_type := ISREG\<rparr>))\<lparr>fi_size := st_size st\<rparr>)
          else set_hash_ptr None ((set_mode_bits (st_mode st AND 0xFFF) 0xFFF
                 ((ent_info e)\<lparr>fi_type := ISDIR\<rparr>))\<lparr>fi_size := -1\<rparr>))\<rparr>"

definition update_statinfo ::
    "locations \<Rightarrow> os \<Rightarrow> string \<Rightarrow> int \<Rightarrow> stat64 option \<Rightarrow> hash_cache_entry \<Rightarrow> hash_cache_entry" where
  "update_statinfo locs w path fd stat_ptr e =
     (if in_read_only_location locs path \<and> fi_type (ent_info e) \<noteq> DONTKNOW then e
      else
        (case (case stat_ptr of
                 Some st \<Rightarrow> Some st
               | None \<Rightarrow> if fd \<ge> 0 then os_fstat w fd else os_stat w path) of
           None \<Rightarrow> e\<lparr>ent_info := (ent_info e)\<lparr>fi_type := NOTEXIST\<rparr>, ent_is_stored := False\<rparr>
         | Some st \<Rightarrow>
             if \<not> S_ISREG (st_mode st) \<and> \<not> S_ISDIR (st_mode st)
             then e\<lparr>ent_info := (ent_info e)\<lparr>fi_type := NOTEXIST\<rparr>, ent_is_stored := False\<rparr>
             else if same_metadata st e then e
             else refreshed st e))"

text \<open>The result is the entry, the returned flag and \<open>*stored_bytes\<close> where it is set.\<close>

definition update_hash ::
    "locations \<Rightarrow> os \<Rightarrow> string \<Rightarrow> int \<Rightarrow> stat64 option \<Rightarrow> hash_cache_entry \<Rightarrow> bool \<Rightarrow> bool
       \<Rightarrow> hash_cache_entry \<times> bool \<times> int option" where
  "update_hash locs w path fd stat_ptr e store skip_statinfo_update =
     (let e1 = (if skip_statinfo_update then e else update_statinfo locs w path fd stat_ptr e) in
      if fi_type (ent_info e1) = NOTEXIST then (e1, True, None)
      else if store \<and> \<not> ent_is_stored e1 then
        (if fi_type (ent_info e1) \<noteq> ISREG then (e1, False, None)
         else (case os_store_file w path fd (fi_size (ent_info e1)) of
                 None \<Rightarrow> (e1, False, None)
               | Some h \<Rightarrow>
                   (e1\<lparr>ent_info := set_hash_ptr (Some h) ((ent_info e1)\<lparr>fi_type := ISREG\<rparr>),
                       ent_is_stored := True\<rparr>, True, Some (fi_size (ent_info e1)))))
      else if fi_hash_known (ent_info e1) then
        (e1, True, if store then Some (fi_size (ent_info e1)) else None)
      else
        (let st = \<lparr>st_mode = (if fi_type (ent_info e1) = ISREG then 0x8000 else 0x4000),
                   st_size = fi_size (ent_info e1), st_mtim = (0, 0), st_ino = 0\<rparr>;
             r = (if fd = -1 then set_from_file (os_xxh w) (os_open w) path (Some st)
                  else set_from_fd (os_xxh w) (os_fd w fd) (Some st))
         in case r of
              None \<Rightarrow> (e1, False, None)
            | Some (h, is_dir) \<Rightarrow>
                (e1\<lparr>ent_info := set_hash h (ent_info e1)\<rparr>, True,
                 if store then Some (fi_size (ent_info e1)) else None)))"

section \<open>Looking up entries\<close>

definition get_entry_with_statinfo ::
    "locations \<Rightarrow> os \<Rightarrow> hash_cache \<Rightarrow> string \<Rightarrow> int \<Rightarrow> stat64 option \<Rightarrow> hash_cache \<times> hash_cache_entry" where
  "get_entry_with_statinfo locs w db path fd stat_ptr =
     (case db path of
        Some e0 \<Rightarrow>
          (let e = update_statinfo locs w path fd stat_ptr e0 in
           if \<not> in_read_only_location locs path \<and> fi_type (ent_info e) = NOTEXIST
           then (db(path := None), notexist_entry)
           else (db(path := Some e), e))
      | None \<Rightarrow>
          (let e = update_statinfo locs w path fd stat_ptr (new_entry DONTKNOW) in
           if \<not> in_read_only_location locs path \<and> fi_type (ent_info e) = NOTEXIST
           then (db, notexist_entry)
           else (db(path := Some e), e)))"

definition get_entry_with_statinfo_and_hash ::
    "locations \<Rightarrow> os \<Rightarrow> hash_cache \<Rightarrow> string \<Rightarrow> int \<Rightarrow> int \<Rightarrow> stat64 option \<Rightarrow> bool \<Rightarrow> bool
       \<Rightarrow> hash_cache \<times> hash_cache_entry \<times> int option" where
  "get_entry_with_statinfo_and_hash locs w db path max_writers fd stat_ptr store skip =
     (if os_writers w path > max_writers then (db, dontknow_entry, None)
      else
        (case db path of
           Some e0 \<Rightarrow>
             (case update_hash locs w path fd stat_ptr e0 store skip of
                (e, ok, stored) \<Rightarrow>
                  if \<not> ok then (db(path := None), notexist_entry, stored)
                  else if \<not> in_read_only_location locs path \<and> fi_type (ent_info e) = NOTEXIST
                  then (db(path := None), notexist_entry, stored)
                  else (db(path := Some e), e, stored))
         | None \<Rightarrow>
             (case update_hash locs w path fd stat_ptr (new_entry DONTKNOW) store skip of
                (e, ok, stored) \<Rightarrow>
                  if \<not> ok then (db, notexist_entry, stored)
                  else if \<not> in_read_only_location locs path \<and> fi_type (ent_info e) = NOTEXIST
                  then (db, notexist_entry, stored)
                  else (db(path := Some e), e, stored))))"

text \<open>\<open>get_statinfo\<close>: \<open>None\<close> is \<open>false\<close>; otherwise \<open>*is_dir\<close> and, for a regular file, \<open>*size\<close>.\<close>

definition get_statinfo ::
    "locations \<Rightarrow> os \<Rightarrow> hash_cache \<Rightarrow> string \<Rightarrow> hash_cache \<times> (bool \<times> int option) option" where
  "get_statinfo locs w db path =
     (if in_ignore_location locs path then (db, None)
      else if in_read_only_location locs path then
        (case get_entry_with_statinfo locs w db path (-1) None of
           (db', e) \<Rightarrow>
             if fi_type (ent_info e) = NOTEXIST then (db', None)
             else (db', Some (fi_type (ent_info e) = ISDIR,
                              if fi_type (ent_info e) \<noteq> ISDIR then Some (fi_size (ent_info e)) else None)))
      else
        (case os_stat w path of
           None \<Rightarrow> (db, None)
         | Some st \<Rightarrow>
             if \<not> S_ISREG (st_mode st) \<and> \<not> S_ISDIR (st_mode st) then (db, None)
             else (db, Some (S_ISDIR (st_mode st),
                             if \<not> S_ISDIR (st_mode st) then Some (st_size st) else None))))"

text \<open>\<open>get_hash\<close>: the hash, \<open>*is_dir\<close> and, for a regular file, \<open>*size\<close>.\<close>

definition get_hash ::
    "locations \<Rightarrow> os \<Rightarrow> hash_cache \<Rightarrow> string \<Rightarrow> int \<Rightarrow> int \<Rightarrow> stat64 option
       \<Rightarrow> hash_cache \<times> (hash_t \<times> bool \<times> int option) option" where
  "get_hash locs w db path max_writers fd stat_ptr =
     (if in_ignore_location locs path then (db, None)
      else
        (case get_entry_with_statinfo_and_hash locs w db path max_writers fd stat_ptr False False of
           (db', e, _) \<Rightarrow>
             if fi_type (ent_info e) = NOTEXIST \<or> fi_type (ent_info e) = DONTKNOW then (db', None)
             else (db', Some (fi_hash (ent_info e), fi_type (ent_info e) = ISDIR,
                              if fi_type (ent_info e) \<noteq> ISDIR then Some (fi_size (ent_info e)) else None))))"

text \<open>\<open>store_and_get_hash\<close>, without the copy of small files into memory.\<close>

definition store_and_get_hash ::
    "locations \<Rightarrow> os \<Rightarrow> hash_cache \<Rightarrow> string \<Rightarrow> int \<Rightarrow> int \<Rightarrow> stat64 option
       \<Rightarrow> hash_cache \<times> (hash_t \<times> int option) option" where
  "store_and_get_hash locs w db path max_writers fd stat_ptr =
     (if in_ignore_location locs path then (db, None)
      else
        (case get_entry_with_statinfo_and_hash locs w db path max_writers fd stat_ptr True False of
           (db', e, stored) \<Rightarrow> (db', Some (fi_hash (ent_info e), stored))))"

section \<open>Matching a query\<close>

text \<open>The switch over the type of the query: \<open>Some\<close> is an early return, \<open>None\<close> is \<open>break\<close>.\<close>

definition match_type :: "file_info \<Rightarrow> file_info \<Rightarrow> bool option" where
  "match_type q i =
     (case fi_type q of
        DONTKNOW \<Rightarrow> Some True
      | EXIST \<Rightarrow> if fi_type i = NOTEXIST then Some False else None
      | NOTEXIST \<Rightarrow> Some (fi_type i = NOTEXIST)
      | NOTEXIST_OR_ISREG \<Rightarrow>
          if fi_type i = NOTEXIST then Some True
          else if fi_type i = ISREG then
            (if fi_size q \<ge> 0 \<and> fi_size q \<noteq> fi_size i then Some False else None)
          else Some False
      | ISREG \<Rightarrow>
          if fi_type i \<noteq> ISREG then Some False
          else if fi_size q \<ge> 0 \<and> fi_size q \<noteq> fi_size i then Some False else None
      | ISDIR \<Rightarrow> if fi_type i \<noteq> ISDIR then Some False else None)"

definition file_info_matches ::
    "locations \<Rightarrow> os \<Rightarrow> hash_cache \<Rightarrow> string \<Rightarrow> file_info \<Rightarrow> hash_cache \<times> bool" where
  "file_info_matches locs w db path q =
     (if in_ignore_location locs path then (db, False)
      else
        (case get_entry_with_statinfo locs w db path (-1) None of
           (db1, e) \<Rightarrow>
             (case match_type q (ent_info e) of
                Some b \<Rightarrow> (db1, b)
              | None \<Rightarrow>
                  if fi_mode q AND fi_mode_mask q \<noteq> fi_mode (ent_info e) AND fi_mode_mask q
                  then (db1, False)
                  else if \<not> fi_hash_known q then (db1, True)
                  else if \<not> fi_hash_known (ent_info e) then
                    (case get_entry_with_statinfo_and_hash locs w db1 path 0 (-1) None False True of
                       (db2, e2, _) \<Rightarrow>
                         if (fi_type (ent_info e2) \<noteq> ISREG \<and> fi_type (ent_info e2) \<noteq> ISDIR)
                            \<or> \<not> fi_hash_known (ent_info e2)
                         then (db2, False)
                         else (db2, fi_hash (ent_info e2) = fi_hash q))
                  else (db1, fi_hash (ent_info e) = fi_hash q))))"

section \<open>Coherence\<close>

type_synonym stat_key = "bool \<times> int \<times> (int \<times> int) \<times> nat"

definition plain :: "stat64 \<Rightarrow> bool" where
  "plain st \<longleftrightarrow> S_ISREG (st_mode st) \<or> S_ISDIR (st_mode st)"

definition key_size :: "stat64 \<Rightarrow> int" where
  "key_size st = (if S_ISDIR (st_mode st) then -1 else st_size st)"

definition st_key :: "stat64 \<Rightarrow> stat_key" where
  "st_key st = (S_ISDIR (st_mode st), key_size st, st_mtim st, st_ino st)"

definition ent_key :: "hash_cache_entry \<Rightarrow> stat_key" where
  "ent_key e = (fi_type (ent_info e) = ISDIR, fi_size (ent_info e), ent_mtime e, ent_inode e)"

text \<open>The hash that reading the path gives, and the assumption on contents.\<close>

definition path_hash :: "os \<Rightarrow> string \<Rightarrow> stat64 \<Rightarrow> hash_t option" where
  "path_hash w p st = map_option fst (set_from_file (os_xxh w) (os_open w) p
     (Some \<lparr>st_mode = (if S_ISDIR (st_mode st) then 0x4000 else 0x8000), st_size = key_size st,
            st_mtim = (0, 0), st_ino = 0\<rparr>))"

definition consistent :: "(string \<Rightarrow> stat_key \<Rightarrow> hash_t) \<Rightarrow> os \<Rightarrow> bool" where
  "consistent F w \<longleftrightarrow>
     (\<forall>p st h. os_stat w p = Some st \<and> plain st \<and> path_hash w p st = Some h \<longrightarrow> h = F p (st_key st))"

definition ent_ok :: "(string \<Rightarrow> stat_key \<Rightarrow> hash_t) \<Rightarrow> string \<Rightarrow> hash_cache_entry \<Rightarrow> bool" where
  "ent_ok F p e \<longleftrightarrow>
     fi_type (ent_info e) \<in> {ISREG, ISDIR} \<and>
     (fi_type (ent_info e) = ISDIR \<longrightarrow> fi_size (ent_info e) = -1) \<and>
     (fi_hash_known (ent_info e) \<longrightarrow> fi_hash (ent_info e) = F p (ent_key e)) \<and>
     fi_mode (ent_info e) AND NOT 0xFFF = 0"

definition coherent :: "locations \<Rightarrow> (string \<Rightarrow> stat_key \<Rightarrow> hash_t) \<Rightarrow> hash_cache \<Rightarrow> bool" where
  "coherent locs F db \<longleftrightarrow>
     (\<forall>p e. db p = Some e \<and> \<not> in_read_only_location locs p \<longrightarrow> ent_ok F p e)"

text \<open>An entry that agrees with the file system on a path outside the read-only locations.\<close>

definition entry_for :: "(string \<Rightarrow> stat_key \<Rightarrow> hash_t) \<Rightarrow> os \<Rightarrow> string \<Rightarrow> hash_cache_entry \<Rightarrow> bool" where
  "entry_for F w p e \<longleftrightarrow>
     (case os_stat w p of
        Some st \<Rightarrow> if plain st then ent_ok F p e \<and> ent_key e = st_key st else e = notexist_entry
      | None \<Rightarrow> e = notexist_entry)"

lemma not_reg_and_dir: "S_ISREG m \<Longrightarrow> \<not> S_ISDIR m"
  by (auto simp: S_ISREG_def S_ISDIR_def)

lemma same_metadata_key:
  "plain st \<Longrightarrow> ent_ok F p e \<Longrightarrow> same_metadata st e \<longleftrightarrow> ent_key e = st_key st"
  using not_reg_and_dir [of "st_mode st"]
  by (auto simp: same_metadata_def ent_key_def st_key_def key_size_def plain_def ent_ok_def)

lemma refreshed_mode:
  "fi_mode (ent_info e) AND NOT 0xFFF = 0 \<Longrightarrow> fi_mode (ent_info (refreshed st e)) = st_mode st AND 0xFFF"
  by (simp add: refreshed_def set_hash_ptr_def set_mode_bits_def and.assoc)

lemma refreshed_shape:
  "fi_type (ent_info (refreshed st e)) = (if S_ISREG (st_mode st) then ISREG else ISDIR)"
  "fi_size (ent_info (refreshed st e)) = (if S_ISREG (st_mode st) then st_size st else -1)"
  "\<not> fi_hash_known (ent_info (refreshed st e))"
  "ent_mtime (refreshed st e) = st_mtim st" "ent_inode (refreshed st e) = st_ino st"
  by (simp_all add: refreshed_def set_hash_ptr_def set_mode_bits_def)

lemma refreshed_ok:
  assumes "plain st" "fi_mode (ent_info e) AND NOT 0xFFF = 0"
  shows "ent_ok F p (refreshed st e) \<and> ent_key (refreshed st e) = st_key st"
  using not_reg_and_dir [of "st_mode st"] refreshed_mode [OF assms(2), of st] assms(1)
  by (auto simp: plain_def ent_ok_def and.assoc refreshed_shape ent_key_def st_key_def key_size_def)

lemma new_entry_mode: "fi_mode (ent_info (new_entry t)) = 0"
  by (simp add: new_entry_def file_info_of_type_def mk_file_info_def)

lemma update_statinfo_law:
  assumes "\<not> in_read_only_location locs p" "e = new_entry DONTKNOW \<or> ent_ok F p e"
  shows "let e' = update_statinfo locs w p (-1) None e in
    case os_stat w p of
      Some st \<Rightarrow> if plain st then ent_ok F p e' \<and> ent_key e' = st_key st
                 else fi_type (ent_info e') = NOTEXIST
    | None \<Rightarrow> fi_type (ent_info e') = NOTEXIST"
proof (cases "os_stat w p")
  case None
  then show ?thesis using assms(1) by (simp add: update_statinfo_def)
next
  case (Some st)
  show ?thesis
  proof (cases "plain st")
    case False
    then show ?thesis using Some assms(1) by (simp add: update_statinfo_def plain_def)
  next
    case True
    have u: "update_statinfo locs w p (-1) None e = (if same_metadata st e then e else refreshed st e)"
      using Some True assms(1) by (auto simp: update_statinfo_def plain_def)
    have "ent_ok F p e" if "same_metadata st e"
      using assms(2) that by (auto simp: same_metadata_def new_entry_def file_info_of_type_def mk_file_info_def)
    moreover have "fi_mode (ent_info e) AND NOT 0xFFF = 0"
      using assms(2) by (auto simp: ent_ok_def new_entry_mode)
    ultimately show ?thesis
      using u Some True refreshed_ok [OF True] same_metadata_key [OF True] by auto
  qed
qed

lemma get_entry_with_statinfo_law:
  assumes "\<not> in_read_only_location locs p" "coherent locs F db"
    and "get_entry_with_statinfo locs w db p (-1) None = (db', e)"
  shows "coherent locs F db' \<and> entry_for F w p e \<and> (fi_type (ent_info e) \<noteq> NOTEXIST \<longrightarrow> db' p = Some e)"
proof -
  define e0 where "e0 = (case db p of Some e \<Rightarrow> e | None \<Rightarrow> new_entry DONTKNOW)"
  define e1 where "e1 = update_statinfo locs w p (-1) None e0"
  have "e0 = new_entry DONTKNOW \<or> ent_ok F p e0"
    using assms(1,2) by (auto simp: e0_def coherent_def split: option.splits)
  note law = update_statinfo_law [OF assms(1) this, of w, unfolded Let_def e1_def [symmetric]]
  have r: "if fi_type (ent_info e1) = NOTEXIST then e = notexist_entry \<and> db' = db(p := None)
      else e = e1 \<and> db' = db(p := Some e1)"
    using assms(1,3)
    by (auto simp: get_entry_with_statinfo_def e1_def e0_def Let_def fun_upd_idem split: option.splits if_splits)
  have t: "fi_type (ent_info e1) \<noteq> NOTEXIST" if "ent_ok F p e1" using that by (auto simp: ent_ok_def)
  show ?thesis
    using r law t assms(2)
    by (auto simp: entry_for_def coherent_def notexist_entry_def new_entry_def file_info_of_type_def
        mk_file_info_def split: option.splits if_splits)
qed

text \<open>Computing the hash of an up-to-date entry.\<close>

lemma update_hash_skip:
  assumes "consistent F w" "os_stat w p = Some st" "plain st" "ent_ok F p e" "ent_key e = st_key st"
    and "update_hash locs w p (-1) None e False True = (e', ok, stored)"
  shows "if ok then ent_ok F p e' \<and> ent_key e' = st_key st \<and> fi_hash_known (ent_info e')
    else path_hash w p st = None"
proof (cases "fi_hash_known (ent_info e)")
  case True
  then show ?thesis using assms(4-6) by (auto simp: update_hash_def Let_def ent_ok_def)
next
  case False
  define r where "r = set_from_file (os_xxh w) (os_open w) p
     (Some \<lparr>st_mode = (if S_ISDIR (st_mode st) then 0x4000 else 0x8000), st_size = key_size st,
            st_mtim = (0, 0), st_ino = 0\<rparr>)"
  have ph: "path_hash w p st = map_option fst r" by (simp add: path_hash_def r_def)
  have k: "fi_size (ent_info e) = key_size st" "fi_type (ent_info e) = ISDIR \<longleftrightarrow> S_ISDIR (st_mode st)"
    using assms(5) by (auto simp: ent_key_def st_key_def)
  have t: "fi_type (ent_info e) \<noteq> NOTEXIST" "fi_type (ent_info e) \<noteq> ISREG \<longleftrightarrow> fi_type (ent_info e) = ISDIR"
    using assms(4) by (auto simp: ent_ok_def)
  have u: "update_hash locs w p (-1) None e False True =
     (case r of None \<Rightarrow> (e, False, None)
      | Some (h, is_dir) \<Rightarrow> (e\<lparr>ent_info := set_hash h (ent_info e)\<rparr>, True, None))"
    using False t k by (cases "S_ISDIR (st_mode st)") (simp_all add: update_hash_def Let_def r_def)
  show ?thesis
  proof (cases r)
    case None
    then show ?thesis using u assms(6) ph by simp
  next
    case (Some hd)
    obtain h d where hd: "hd = (h, d)" by (cases hd)
    have h: "h = F p (st_key st)"
      using assms(1-3) ph Some hd by (auto simp: consistent_def)
    have "e' = e\<lparr>ent_info := set_hash h (ent_info e)\<rparr>" "ok" using u assms(6) Some hd by auto
    then show ?thesis using assms(4,5) h by (auto simp: ent_ok_def ent_key_def set_hash_def)
  qed
qed


lemma get_entry_skip_law:
  assumes "\<not> in_read_only_location locs p" "coherent locs F db" "consistent F w"
    and "os_stat w p = Some st" "plain st" "db p = Some e0" "ent_ok F p e0" "ent_key e0 = st_key st"
    and "get_entry_with_statinfo_and_hash locs w db p max_writers (-1) None False True = (db', e, s)"
    and "os_writers w p \<le> max_writers"
  shows "coherent locs F db' \<and>
    (if path_hash w p st = None \<and> \<not> fi_hash_known (ent_info e0) then e = notexist_entry
     else entry_for F w p e \<and> fi_hash_known (ent_info e))"
proof -
  obtain e1 ok stored where u: "update_hash locs w p (-1) None e0 False True = (e1, ok, stored)"
    by (metis prod_cases3)
  note law = update_hash_skip [OF assms(3-5,7,8) u]
  have ok: "ok" if "fi_hash_known (ent_info e0) \<or> path_hash w p st \<noteq> None"
    using that law u assms(7) by (auto simp: update_hash_def Let_def ent_ok_def split: if_splits)
  have nok: "\<not> ok" if "\<not> fi_hash_known (ent_info e0)" "path_hash w p st = None"
  proof -
    have k: "fi_size (ent_info e0) = key_size st" "fi_type (ent_info e0) = ISDIR \<longleftrightarrow> S_ISDIR (st_mode st)"
      "fi_type (ent_info e0) \<in> {ISREG, ISDIR}"
      using assms(7,8) by (auto simp: ent_key_def st_key_def ent_ok_def)
    show ?thesis using that u k
      by (cases "S_ISDIR (st_mode st)")
        (auto simp: update_hash_def Let_def path_hash_def split: option.splits prod.splits)
  qed
  have r: "if ok then e = e1 \<and> db' = db(p := Some e1) else e = notexist_entry \<and> db' = db(p := None)"
    using assms(1,6,9,10) u law
    by (auto simp: get_entry_with_statinfo_and_hash_def ent_ok_def split: if_splits)
  show ?thesis
    using r law ok nok assms(2,4,5)
    by (auto simp: coherent_def entry_for_def split: if_splits)
qed

text \<open>Reading with the statinfo refreshed first is a lookup followed by the hash.\<close>

lemma update_hash_no_skip:
  "update_hash locs w p fd st_ptr e store False =
     update_hash locs w p fd st_ptr (update_statinfo locs w p fd st_ptr e) store True"
  by (simp add: update_hash_def Let_def)

lemma get_entry_hash_law:
  assumes "\<not> in_read_only_location locs p" "coherent locs F db" "consistent F w"
    and "get_entry_with_statinfo_and_hash locs w db p max_writers (-1) None False False = (db', e, s)"
    and "os_writers w p \<le> max_writers"
  shows "coherent locs F db' \<and>
    (case os_stat w p of
       Some st \<Rightarrow>
         if plain st
         then e = notexist_entry \<and> path_hash w p st = None \<or> entry_for F w p e \<and> fi_hash_known (ent_info e)
         else e = notexist_entry
     | None \<Rightarrow> e = notexist_entry)"
proof -
  define e0 where "e0 = (case db p of Some e \<Rightarrow> e | None \<Rightarrow> new_entry DONTKNOW)"
  define e1 where "e1 = update_statinfo locs w p (-1) None e0"
  have "e0 = new_entry DONTKNOW \<or> ent_ok F p e0"
    using assms(1,2) by (auto simp: e0_def coherent_def split: option.splits)
  note law = update_statinfo_law [OF assms(1) this, of w, unfolded Let_def e1_def [symmetric]]
  obtain e2 ok stored where u: "update_hash locs w p (-1) None e1 False True = (e2, ok, stored)"
    by (metis prod_cases3)
  have r: "if \<not> ok \<or> fi_type (ent_info e2) = NOTEXIST then e = notexist_entry \<and> db' = db(p := None)
      else e = e2 \<and> db' = db(p := Some e2)"
    using assms(1,4,5) u
    by (auto simp: get_entry_with_statinfo_and_hash_def update_hash_no_skip e1_def e0_def fun_upd_idem
        split: option.splits if_splits)
  have ne: "e2 = e1" "ok" if "fi_type (ent_info e1) = NOTEXIST"
    using that u by (auto simp: update_hash_def Let_def)
  show ?thesis
  proof (cases "os_stat w p")
    case None
    then show ?thesis using law ne r assms(2) by (auto simp: coherent_def)
  next
    case (Some st)
    show ?thesis
    proof (cases "plain st")
      case False
      then show ?thesis using Some law ne r assms(2) by (auto simp: coherent_def)
    next
      case True
      then have k: "ent_ok F p e1" "ent_key e1 = st_key st" using Some law by auto
      from update_hash_skip [OF assms(3) Some True k u] r assms(2) Some True
      show ?thesis by (auto simp: coherent_def entry_for_def ent_ok_def split: if_splits)
    qed
  qed
qed

section \<open>The cache against the file system\<close>

text \<open>What the file system holds at a path, with the hashes of \<open>F\<close>.\<close>

definition file_state_of :: "(string \<Rightarrow> stat_key \<Rightarrow> hash_t) \<Rightarrow> os \<Rightarrow> string \<Rightarrow> file_state" where
  "file_state_of F w p =
     (case os_stat w p of
        None \<Rightarrow> Absent
      | Some st \<Rightarrow>
          if S_ISREG (st_mode st) then RegFile (st_size st) (F p (st_key st)) (st_mode st AND 0xFFF)
          else if S_ISDIR (st_mode st) then Directory (F p (st_key st)) (st_mode st AND 0xFFF)
          else Absent)"

text \<open>
  Metadata that is unchanged includes the mode: no file was \<open>chmod\<close>ed since its entry was filled in.
\<close>

definition fresh_mode :: "hash_cache \<Rightarrow> os \<Rightarrow> string \<Rightarrow> bool" where
  "fresh_mode db w p \<longleftrightarrow>
     (\<forall>e st. db p = Some e \<and> os_stat w p = Some st \<and> ent_key e = st_key st \<longrightarrow>
        fi_mode (ent_info e) = st_mode st AND 0xFFF)"

lemma get_entry_mode:
  assumes "\<not> in_read_only_location locs p" "coherent locs F db" "fresh_mode db w p"
    and "get_entry_with_statinfo locs w db p (-1) None = (db', e)" "os_stat w p = Some st" "plain st"
  shows "fi_mode (ent_info e) = st_mode st AND 0xFFF"
proof -
  define e0 where "e0 = (case db p of Some e \<Rightarrow> e | None \<Rightarrow> new_entry DONTKNOW)"
  have e: "e = (if same_metadata st e0 then e0 else refreshed st e0)"
    using get_entry_with_statinfo_law [OF assms(1,2,4)] assms(1,4,5,6)
    by (auto simp: get_entry_with_statinfo_def update_statinfo_def e0_def Let_def plain_def entry_for_def
        refreshed_def set_hash_ptr_def set_mode_bits_def same_metadata_def split: option.splits if_splits)
  have m: "fi_mode (ent_info e0) AND NOT 0xFFF = 0"
    using assms(1,2) by (auto simp: e0_def coherent_def ent_ok_def new_entry_mode split: option.splits)
  show ?thesis
  proof (cases "same_metadata st e0")
    case False
    then show ?thesis using e refreshed_mode [OF m] by simp
  next
    case True
    then obtain "db p = Some e0"
      by (auto simp: e0_def same_metadata_def new_entry_def file_info_of_type_def mk_file_info_def
          split: option.splits)
    then show ?thesis
      using True e assms(1,2,3,5,6) same_metadata_key [of st F p e0]
      by (auto simp: fresh_mode_def coherent_def)
  qed
qed

lemma match_type_absent:
  "fi_type q \<noteq> DONTKNOW \<Longrightarrow> match_type q (ent_info notexist_entry) = Some (describes q Absent)"
  by (cases "fi_type q")
    (simp_all add: match_type_def notexist_entry_def new_entry_def file_info_of_type_def mk_file_info_def)

text \<open>On an up-to-date entry the checks of \<open>file_info_matches\<close> decide \<open>describes\<close>.\<close>

lemma match_entry:
  assumes "os_stat w p = Some st" "plain st" "ent_ok F p e" "ent_key e = st_key st"
    and "fi_mode (ent_info e) = st_mode st AND 0xFFF" "wf_info q" "fi_type q \<noteq> DONTKNOW"
  shows "describes q (file_state_of F w p) \<longleftrightarrow>
    (case match_type q (ent_info e) of
       Some b \<Rightarrow> b
     | None \<Rightarrow> fi_mode q AND fi_mode_mask q = fi_mode (ent_info e) AND fi_mode_mask q \<and>
         (fi_hash_known q \<longrightarrow> fi_hash q = F p (st_key st)))"
proof -
  have k: "fi_type (ent_info e) = (if S_ISDIR (st_mode st) then ISDIR else ISREG)"
      "\<not> S_ISDIR (st_mode st) \<Longrightarrow> fi_size (ent_info e) = st_size st"
    using assms(3,4) by (auto simp: ent_ok_def ent_key_def st_key_def key_size_def split: if_splits)
  show ?thesis
  proof (cases "S_ISDIR (st_mode st)")
    case True
    then have f: "file_state_of F w p = Directory (F p (st_key st)) (st_mode st AND 0xFFF)"
      using assms(1) not_reg_and_dir by (auto simp: file_state_of_def)
    show ?thesis
      unfolding f using True k assms(5-7)
      by (cases "fi_type q") (auto simp: match_type_def dir_ok_def mode_ok_def wf_info_def)
  next
    case False
    then have f: "file_state_of F w p = RegFile (st_size st) (F p (st_key st)) (st_mode st AND 0xFFF)"
      using assms(1,2) by (auto simp: file_state_of_def plain_def)
    show ?thesis
      unfolding f using False k assms(5-7)
      by (cases "fi_type q") (auto simp: match_type_def reg_ok_def mode_ok_def wf_info_def)
  qed
qed

text \<open>A world with one regular file, for the witnesses.\<close>

definition one_file_os :: "string \<Rightarrow> mode_t \<Rightarrow> string \<Rightarrow> os" where
  "one_file_os p m c =
     \<lparr>os_stat = (\<lambda>q. if q = p then Some \<lparr>st_mode = 0x8000 OR m, st_size = int (length c),
                        st_mtim = (7, 0), st_ino = 3\<rparr> else None),
      os_fstat = (\<lambda>_. None),
      os_open = (\<lambda>q. if q = p then Some \<lparr>obj_fstat = None, obj_mmap = (\<lambda>n. Mapped (take n c)),
                        obj_pread = (\<lambda>n off. Some (take n (drop off c))), obj_listing = None\<rparr> else None),
      os_fd = (\<lambda>_. \<lparr>obj_fstat = None, obj_mmap = (\<lambda>n. MapFailed), obj_pread = (\<lambda>n off. None),
                     obj_listing = None\<rparr>),
      os_store_file = (\<lambda>_ _ _. None), os_xxh = (\<lambda>s. of_nat (length s)), os_writers = (\<lambda>_. 0)\<rparr>"

definition no_locations :: locations where
  "no_locations = \<lparr>ignore_locations = cstring_view_array_init, read_only_locations = cstring_view_array_init\<rparr>"

lemma no_locations_simps [simp]:
  "\<not> in_ignore_location no_locations p" "\<not> in_read_only_location no_locations p"
  by (simp_all add: in_ignore_location_def in_read_only_location_def no_locations_def
      is_path_at_locations_def arr_contents_def cstring_view_array_init_def)

lemma coherent_empty: "coherent locs F (\<lambda>_. None)"
  by (simp add: coherent_def)

lemma one_file_consistent: "consistent (\<lambda>p k. of_nat (length c)) (one_file_os p m c)"
  by (auto simp: consistent_def one_file_os_def path_hash_def set_from_file_def set_from_fd_def key_size_def
      S_ISREG_def S_ISDIR_def split: if_splits)

section \<open>Properties\<close>

text \<open>
  C15: \<open>get_hash\<close> outside the ignored and read-only locations, with no more writers than allowed:
  when it answers, the path is a regular file or a directory as reported, of the reported size, and
  the hash is the hash of its present contents; when it fails, the path is neither or could not be
  read.  The cache stays coherent.
\<close>

theorem get_hash_correct:
  assumes "\<not> in_ignore_location locs p" "\<not> in_read_only_location locs p" "os_writers w p \<le> max_writers"
    and "coherent locs F db" "consistent F w"
  shows "case get_hash locs w db p max_writers (-1) None of
      (db', r) \<Rightarrow> coherent locs F db' \<and>
        (case r of
           Some (h, is_dir, sz) \<Rightarrow>
             file_state_of F w p =
               (if is_dir then Directory h (fs_mode (file_state_of F w p))
                else RegFile (the sz) h (fs_mode (file_state_of F w p)))
         | None \<Rightarrow> file_state_of F w p = Absent \<or>
             (\<exists>st. os_stat w p = Some st \<and> path_hash w p st = None))"
proof -
  obtain db' e s where g: "get_entry_with_statinfo_and_hash locs w db p max_writers (-1) None False False
      = (db', e, s)" by (metis prod_cases3)
  note law = get_entry_hash_law [OF assms(2,4,5) g assms(3)]
  have n: "fi_type (ent_info notexist_entry) = NOTEXIST"
    by (simp add: notexist_entry_def new_entry_def file_info_of_type_def mk_file_info_def)
  then have n2: "\<not> ent_ok F p notexist_entry" by (simp add: ent_ok_def)
  show ?thesis
  proof (cases "os_stat w p")
    case None
    then show ?thesis using law g assms(1) n by (simp add: get_hash_def file_state_of_def)
  next
    case (Some st)
    show ?thesis
    proof (cases "plain st \<and> e \<noteq> notexist_entry")
      case False
      then show ?thesis using law g assms(1) n n2 Some
        by (auto simp: get_hash_def file_state_of_def plain_def entry_for_def)
    next
      case True
      with law Some have e: "ent_ok F p e" "ent_key e = st_key st" "fi_hash_known (ent_info e)"
        by (auto simp: entry_for_def)
      then have k: "fi_type (ent_info e) = (if S_ISDIR (st_mode st) then ISDIR else ISREG)"
        "\<not> S_ISDIR (st_mode st) \<Longrightarrow> fi_size (ent_info e) = st_size st"
        "fi_hash (ent_info e) = F p (st_key st)"
        by (auto simp: ent_ok_def ent_key_def st_key_def key_size_def split: if_splits)
      then show ?thesis using law g assms(1) Some True not_reg_and_dir [of "st_mode st"]
        by (auto simp: get_hash_def file_state_of_def plain_def)
    qed
  qed
qed

theorem get_hash_correct_witness:
  "case get_hash no_locations (one_file_os ''/f'' 0x1A4 ''hello'') (\<lambda>_. None) ''/f'' 0 (-1) None of
     (db', r) \<Rightarrow> coherent no_locations (\<lambda>p k. 5) db'"
proof -
  have c: "consistent (\<lambda>p k. 5) (one_file_os ''/f'' 0x1A4 ''hello'')"
    using one_file_consistent [where c = "''hello''" and p = "''/f''" and m = "0x1A4"] by simp
  have w: "os_writers (one_file_os ''/f'' 0x1A4 ''hello'') ''/f'' \<le> 0" by (simp add: one_file_os_def)
  show ?thesis
    using get_hash_correct [OF no_locations_simps(1) no_locations_simps(2) w coherent_empty c]
    by (auto split: prod.splits)
qed



text \<open>
  A \<open>chmod\<close> is not noticed.  The metadata the cache compares does not include the mode, and
  \<open>chmod\<close> changes neither size, modification time nor inode: after it the cache still answers with
  the old mode, accepting a query for it and rejecting one for the present mode.
\<close>

theorem file_info_matches_stale_mode:
  assumes "\<not> in_ignore_location locs p" "\<not> in_read_only_location locs p"
    and "db p = Some e" "os_stat w p = Some st" "same_metadata st e"
    and "fi_mode (ent_info e) = old" "old \<noteq> st_mode st AND 0xFFF" "old AND 0xFFF = old"
    and "S_ISREG (st_mode st)"
  shows "snd (file_info_matches locs w db p (set_mode_bits old 0xFFF (file_info_of_type ISREG))) \<and>
    \<not> snd (file_info_matches locs w db p
         (set_mode_bits (st_mode st AND 0xFFF) 0xFFF (file_info_of_type ISREG)))"
proof -
  have d: "\<not> S_ISDIR (st_mode st)" using assms(9) by (rule not_reg_and_dir)
  have u: "update_statinfo locs w p (-1) None e = e"
    using assms by (simp add: update_statinfo_def)
  have t: "fi_type (ent_info e) = ISREG" using assms(5) d by (auto simp: same_metadata_def)
  have g: "get_entry_with_statinfo locs w db p (-1) None = (db(p := Some e), e)"
    using assms(3) u t by (simp add: get_entry_with_statinfo_def)
  show ?thesis
    using assms(1,6,7,8) g t
    by (auto simp: file_info_matches_def match_type_def set_mode_bits_def file_info_of_type_def
        mk_file_info_def and.assoc)
qed

theorem file_info_matches_stale_mode_witness:
  "snd (file_info_matches no_locations (one_file_os ''/f'' 0x180 ''hello'')
     (\<lambda>_. Some (refreshed (the (os_stat (one_file_os ''/f'' 0x1A4 ''hello'') ''/f'')) (new_entry DONTKNOW)))
     ''/f'' (set_mode_bits 0x1A4 0xFFF (file_info_of_type ISREG)))"
proof -
  let ?e = "refreshed (the (os_stat (one_file_os ''/f'' 0x1A4 ''hello'') ''/f'')) (new_entry DONTKNOW)"
  let ?w = "one_file_os ''/f'' 0x180 ''hello''"
  let ?st = "the (os_stat ?w ''/f'')"
  have h: "(\<lambda>_ :: string. Some ?e) ''/f'' = Some ?e" "os_stat ?w ''/f'' = Some ?st"
    "same_metadata ?st ?e" "fi_mode (ent_info ?e) = 0x1A4" "0x1A4 \<noteq> st_mode ?st AND 0xFFF"
    "(0x1A4 :: mode_t) AND 0xFFF = 0x1A4" "S_ISREG (st_mode ?st)"
    by (simp_all add: one_file_os_def refreshed_shape same_metadata_def S_ISREG_def S_ISDIR_def
        refreshed_mode new_entry_mode)
  show ?thesis
    using file_info_matches_stale_mode [where db = "\<lambda>_. Some ?e" and p = "''/f''" and w = ?w,
        OF no_locations_simps(1) no_locations_simps(2) h] by blast
qed

text \<open>
  \<open>store_and_get_hash\<close> cannot report a missing file.  The entry it tests against null is never
  null: on a path that does not exist it succeeds and returns the zero hash.
\<close>

theorem store_and_get_hash_missing:
  assumes "\<not> in_ignore_location locs p" "\<not> in_read_only_location locs p" "os_writers w p \<le> max_writers"
    and "os_stat w p = None"
  shows "snd (store_and_get_hash locs w db p max_writers (-1) None) = Some (0, None)"
proof -
  have u: "fi_type (ent_info (update_statinfo locs w p (-1) None e)) = NOTEXIST" for e
    using assms(2,4) by (simp add: update_statinfo_def)
  have h: "\<exists>e'. update_hash locs w p (-1) None e True False = (e', True, None) \<and>
      fi_type (ent_info e') = NOTEXIST" for e
    using u [of e] by (simp add: update_hash_def Let_def)
  have n: "fi_hash (ent_info notexist_entry) = 0"
    by (simp add: notexist_entry_def new_entry_def file_info_of_type_def mk_file_info_def)
  have "\<exists>db'. get_entry_with_statinfo_and_hash locs w db p max_writers (-1) None True False =
      (db', notexist_entry, None)"
  proof (cases "db p")
    case None
    obtain e' where "update_hash locs w p (-1) None (new_entry DONTKNOW) True False = (e', True, None)"
      "fi_type (ent_info e') = NOTEXIST" using h by blast
    then show ?thesis using assms(2,3) None by (simp add: get_entry_with_statinfo_and_hash_def)
  next
    case (Some e)
    obtain e' where "update_hash locs w p (-1) None e True False = (e', True, None)"
      "fi_type (ent_info e') = NOTEXIST" using h by blast
    then show ?thesis using assms(2,3) Some by (simp add: get_entry_with_statinfo_and_hash_def)
  qed
  then show ?thesis using assms(1) n by (auto simp: store_and_get_hash_def)
qed

theorem store_and_get_hash_missing_witness:
  "snd (store_and_get_hash no_locations (one_file_os ''/f'' 0x1A4 ''hello'') (\<lambda>_. None) ''/g'' 0 (-1) None)
     = Some (0, None)"
  using store_and_get_hash_missing [where locs = no_locations and p = "''/g''" and max_writers = 0 and
      w = "one_file_os ''/f'' 0x1A4 ''hello''"]
  by (simp add: one_file_os_def)

end
