(* ===== verification/FB_FileUsage.thy ===== *)
theory FB_FileUsage
  imports FB_HashCache
begin

text \<open>
  \<^verbatim>\<open>src/firebuild/file_usage_update.cc\<close> and \<^verbatim>\<open>file_usage.cc\<close>: what one system call of a process says
  about a file (\<open>FileUsageUpdate\<close>, whose type and hash may still have to be computed), and what all
  calls so far say (\<open>FileUsage\<close>).  An update is built from the parameters and the result of the call
  and merged into the usage of the process and of its ancestors.

  The lazy members are explicit: \<open>fuu_type_computer\<close> and \<open>fuu_hash_computer\<close> say that the function
  pointer is set, and the getters return the update with the computed value.  \<open>errno\<close> is part of the
  environment.
\<close>

section \<open>Environment, flags and error numbers\<close>

record fb_env =
  env_locs :: locations
  env_os :: os
  env_errno :: int
  env_generation :: "string \<Rightarrow> nat"

abbreviation O_WRONLY :: "32 word" where "O_WRONLY \<equiv> 0x1"
abbreviation O_RDWR :: "32 word" where "O_RDWR \<equiv> 0x2"
abbreviation O_ACCMODE :: "32 word" where "O_ACCMODE \<equiv> 0x3"
abbreviation O_CREAT :: "32 word" where "O_CREAT \<equiv> 0x40"
abbreviation O_EXCL :: "32 word" where "O_EXCL \<equiv> 0x80"
abbreviation O_TRUNC :: "32 word" where "O_TRUNC \<equiv> 0x200"
abbreviation ENOENT :: int where "ENOENT \<equiv> 2"
abbreviation EACCES :: int where "EACCES \<equiv> 13"
abbreviation EEXIST :: int where "EEXIST \<equiv> 17"
abbreviation ENOTDIR :: int where "ENOTDIR \<equiv> 20"
abbreviation EINVAL :: int where "EINVAL \<equiv> 22"

definition is_rdonly :: "32 word \<Rightarrow> bool" where "is_rdonly flags \<longleftrightarrow> flags AND O_ACCMODE = 0"
definition is_wronly :: "32 word \<Rightarrow> bool" where "is_wronly flags \<longleftrightarrow> flags AND O_ACCMODE = O_WRONLY"
definition is_rdwr :: "32 word \<Rightarrow> bool" where "is_rdwr flags \<longleftrightarrow> flags AND O_ACCMODE = O_RDWR"
definition is_write :: "32 word \<Rightarrow> bool" where "is_write flags \<longleftrightarrow> is_wronly flags \<or> is_rdwr flags"

definition has_flag :: "32 word \<Rightarrow> 32 word \<Rightarrow> bool" where
  "has_flag flags f \<longleftrightarrow> flags AND f \<noteq> 0"

section \<open>FileUsageUpdate\<close>

record file_usage_update =
  fuu_initial_state :: file_info
  fuu_filename :: string
  fuu_max_writers :: int
  fuu_type_computer :: bool
  fuu_hash_computer :: bool
  fuu_written :: bool
  fuu_mode_changed :: bool
  fuu_tmp_file :: bool
  fuu_generation :: nat
  fuu_parent_type :: file_type
  fuu_unknown_err :: int
  fuu_timestamp_source :: "string option"

definition FileUsageUpdate_info :: "fb_env \<Rightarrow> string \<Rightarrow> file_info \<Rightarrow> bool \<Rightarrow> bool \<Rightarrow> file_usage_update" where
  "FileUsageUpdate_info env filename info written mode_changed =
     \<lparr>fuu_initial_state = info, fuu_filename = filename, fuu_max_writers = 0,
      fuu_type_computer = False, fuu_hash_computer = False, fuu_written = written,
      fuu_mode_changed = mode_changed, fuu_tmp_file = False,
      fuu_generation = env_generation env filename, fuu_parent_type = DONTKNOW, fuu_unknown_err = 0,
      fuu_timestamp_source = None\<rparr>"

definition FileUsageUpdate :: "fb_env \<Rightarrow> string \<Rightarrow> file_type \<Rightarrow> bool \<Rightarrow> bool \<Rightarrow> file_usage_update" where
  "FileUsageUpdate env filename t written mode_changed =
     FileUsageUpdate_info env filename (file_info_of_type t) written mode_changed"

definition set_initial_type :: "file_type \<Rightarrow> file_usage_update \<Rightarrow> file_usage_update" where
  "set_initial_type t u = u\<lparr>fuu_initial_state := (fuu_initial_state u)\<lparr>fi_type := t\<rparr>\<rparr>"

definition set_initial_size :: "int \<Rightarrow> file_usage_update \<Rightarrow> file_usage_update" where
  "set_initial_size n u = u\<lparr>fuu_initial_state := (fuu_initial_state u)\<lparr>fi_size := n\<rparr>\<rparr>"

definition set_initial_mode_bits :: "mode_t \<Rightarrow> mode_t \<Rightarrow> file_usage_update \<Rightarrow> file_usage_update" where
  "set_initial_mode_bits m msk u =
     u\<lparr>fuu_initial_state := set_mode_bits m msk (fuu_initial_state u)\<rparr>"

definition initial_hash_known :: "file_usage_update \<Rightarrow> bool" where
  "initial_hash_known u \<longleftrightarrow> fi_hash_known (fuu_initial_state u) \<or> fuu_hash_computer u"

subsection \<open>Lazy members\<close>

definition type_computer_open_rdonly ::
    "fb_env \<Rightarrow> hash_cache \<Rightarrow> file_usage_update \<Rightarrow> hash_cache \<times> file_usage_update" where
  "type_computer_open_rdonly env db u =
     (case get_hash (env_locs env) (env_os env) db (fuu_filename u) (fuu_max_writers u) (-1) None of
        (db', None) \<Rightarrow> (db', u\<lparr>fuu_unknown_err := env_errno env\<rparr>)
      | (db', Some (h, is_dir, sz)) \<Rightarrow>
          (db', (if is_dir
                 then u\<lparr>fuu_initial_state := set_hash h ((fuu_initial_state u)\<lparr>fi_type := ISDIR\<rparr>)\<rparr>
                 else u\<lparr>fuu_initial_state := set_hash h ((fuu_initial_state u)\<lparr>fi_type := ISREG,
                          fi_size := (case sz of Some n \<Rightarrow> n | None \<Rightarrow> -1)\<rparr>)\<rparr>)
                \<lparr>fuu_type_computer := False, fuu_hash_computer := False\<rparr>))"

definition get_initial_type ::
    "fb_env \<Rightarrow> hash_cache \<Rightarrow> file_usage_update \<Rightarrow> hash_cache \<times> file_usage_update \<times> file_type option" where
  "get_initial_type env db u =
     (case (if fuu_type_computer u then type_computer_open_rdonly env db u else (db, u)) of
        (db', u') \<Rightarrow>
          (db', u', if fuu_unknown_err u' \<noteq> 0 then None else Some (fi_type (fuu_initial_state u'))))"

definition hash_computer ::
    "fb_env \<Rightarrow> hash_cache \<Rightarrow> file_usage_update \<Rightarrow> hash_cache \<times> file_usage_update" where
  "hash_computer env db u =
     (case get_hash (env_locs env) (env_os env) db (fuu_filename u) (fuu_max_writers u) (-1) None of
        (db', Some (h, is_dir, sz)) \<Rightarrow>
          (db', u\<lparr>fuu_initial_state := set_hash h (fuu_initial_state u), fuu_hash_computer := False\<rparr>)
      | (db', None) \<Rightarrow>
          (db', u\<lparr>fuu_unknown_err := env_errno env, fuu_hash_computer := False\<rparr>))"

definition get_initial_hash ::
    "fb_env \<Rightarrow> hash_cache \<Rightarrow> file_usage_update \<Rightarrow> hash_cache \<times> file_usage_update \<times> hash_t option" where
  "get_initial_hash env db u =
     (case (if fuu_hash_computer u then hash_computer env db u else (db, u)) of
        (db', u') \<Rightarrow>
          (db', u', if fuu_unknown_err u' \<noteq> 0 then None else Some (fi_hash (fuu_initial_state u'))))"

subsection \<open>From the parameters of system calls\<close>

text \<open>\<open>None\<close>: the parent of the root directory would be dereferenced.\<close>

definition update_from_enotdir ::
    "fb_env \<Rightarrow> hash_cache \<Rightarrow> file_usage_update \<Rightarrow> string \<Rightarrow> (hash_cache \<times> file_usage_update) option" where
  "update_from_enotdir env db u filename =
     (case get_statinfo (env_locs env) (env_os env) db filename of
        (db1, Some (is_dir, _)) \<Rightarrow>
          Some (db1,
            (if is_dir then (set_initial_type ISDIR u)\<lparr>fuu_unknown_err := ENOTDIR\<rparr>
             else set_initial_type ISREG u)\<lparr>fuu_parent_type := ISDIR\<rparr>)
      | (db1, None) \<Rightarrow>
          (case GetParentDir filename (length filename) of
             None \<Rightarrow> None
           | Some parent \<Rightarrow>
               (case get_statinfo (env_locs env) (env_os env) db1 parent of
                  (db2, Some (is_dir, _)) \<Rightarrow>
                    Some (db2,
                      if is_dir
                      then (set_initial_type ISDIR (u\<lparr>fuu_parent_type := ISDIR\<rparr>))\<lparr>fuu_unknown_err := ENOTDIR\<rparr>
                      else set_initial_type DONTKNOW (u\<lparr>fuu_parent_type := ISREG\<rparr>))
                | (db2, None) \<Rightarrow>
                    Some (db2, u\<lparr>fuu_parent_type := DONTKNOW, fuu_unknown_err := ENOTDIR\<rparr>))))"

text \<open>A successful open for writing: the cases A to F of the source.\<close>

definition update_open_write ::
    "fb_env \<Rightarrow> string \<Rightarrow> 32 word \<Rightarrow> mode_t \<Rightarrow> bool \<Rightarrow> file_usage_update \<Rightarrow> file_usage_update" where
  "update_open_write env filename flags mode_with_umask tmp_file u =
     (let opened = (\<lambda>v. v\<lparr>fuu_parent_type := ISDIR, fuu_written := True, fuu_max_writers := 1\<rparr>) in
      if has_flag flags O_CREAT \<and> has_flag flags O_EXCL then
        opened ((set_initial_type NOTEXIST u)\<lparr>fuu_mode_changed := True, fuu_parent_type := ISDIR,
                  fuu_tmp_file := tmp_file\<rparr>)
      else if has_flag flags O_TRUNC then
        (if \<not> has_flag flags O_CREAT then opened (set_initial_type ISREG u)
         else
           (case os_stat (env_os env) filename of
              None \<Rightarrow> u\<lparr>fuu_unknown_err := env_errno env\<rparr>
            | Some st \<Rightarrow>
                if st_size st > 0 then u\<lparr>fuu_unknown_err := EEXIST\<rparr>
                else if st_mode st AND 0xFFF \<noteq> mode_with_umask
                then opened (set_initial_type ISREG (set_initial_type NOTEXIST_OR_ISREG u))
                else opened ((set_initial_type NOTEXIST_OR_ISREG u)\<lparr>fuu_mode_changed := True\<rparr>)))
      else
        (if \<not> has_flag flags O_CREAT then opened ((set_initial_type ISREG u)\<lparr>fuu_hash_computer := True\<rparr>)
         else
           (case os_stat (env_os env) filename of
              None \<Rightarrow> u\<lparr>fuu_unknown_err := env_errno env\<rparr>
            | Some st \<Rightarrow>
                (let u1 = (if st_size st > 0
                           then (set_initial_type ISREG u)\<lparr>fuu_hash_computer := True\<rparr>
                           else set_initial_type NOTEXIST_OR_ISREG u);
                     u2 = set_initial_size (st_size st) u1
                 in if st_mode st AND 0xFFF \<noteq> mode_with_umask
                    then opened (set_initial_type ISREG u2)
                    else opened (u2\<lparr>fuu_mode_changed := True\<rparr>)))))"

definition get_from_open_params ::
    "fb_env \<Rightarrow> hash_cache \<Rightarrow> string \<Rightarrow> 32 word \<Rightarrow> mode_t \<Rightarrow> int \<Rightarrow> bool
       \<Rightarrow> (hash_cache \<times> file_usage_update) option" where
  "get_from_open_params env db filename flags mode_with_umask err tmp_file =
     (let u = FileUsageUpdate env filename DONTKNOW False False in
      if err = 0 then
        (if is_write flags
         then Some (db, update_open_write env filename flags mode_with_umask tmp_file u)
         else Some (db, u\<lparr>fuu_type_computer := True, fuu_hash_computer := True\<rparr>))
      else if is_write flags then
        (if err = ENOENT then
           (if \<not> has_flag flags O_CREAT then Some (db, set_initial_type NOTEXIST u)
            else Some (db, u\<lparr>fuu_parent_type := NOTEXIST\<rparr>))
         else if err = EEXIST then
           (if \<not> tmp_file then Some (db, set_initial_type EXIST u)
            else Some (db, (set_initial_type DONTKNOW u)\<lparr>fuu_tmp_file := tmp_file, fuu_unknown_err := err\<rparr>))
         else if err = ENOTDIR then update_from_enotdir env db u filename
         else if err = EINVAL then
           Some (db, (if tmp_file then (set_initial_type DONTKNOW u)\<lparr>fuu_tmp_file := tmp_file\<rparr>
                      else set_initial_type DONTKNOW u)\<lparr>fuu_unknown_err := err\<rparr>)
         else Some (db, u\<lparr>fuu_unknown_err := err\<rparr>))
      else
        (if err = ENOENT then Some (db, set_initial_type NOTEXIST u)
         else if err = ENOTDIR then update_from_enotdir env db u filename
         else Some (db, u\<lparr>fuu_unknown_err := err\<rparr>)))"

definition get_from_mkdir_params :: "fb_env \<Rightarrow> string \<Rightarrow> int \<Rightarrow> bool \<Rightarrow> file_usage_update" where
  "get_from_mkdir_params env filename err tmp_dir =
     (let u = FileUsageUpdate env filename DONTKNOW False False in
      if err = 0 then
        (set_initial_type NOTEXIST u)\<lparr>fuu_parent_type := ISDIR, fuu_written := True,
           fuu_mode_changed := True, fuu_tmp_file := tmp_dir\<rparr>
      else if err = EEXIST then set_initial_type ISDIR u
      else if err = ENOENT then (set_initial_type NOTEXIST u)\<lparr>fuu_parent_type := NOTEXIST\<rparr>
      else if err = EINVAL then
        (if tmp_dir then (set_initial_type DONTKNOW u)\<lparr>fuu_tmp_file := tmp_dir\<rparr>
         else set_initial_type DONTKNOW u)\<lparr>fuu_unknown_err := err\<rparr>
      else if err = EACCES then
        (if in_read_only_location (env_locs env) filename then set_initial_type NOTEXIST u
         else (set_initial_type DONTKNOW u)\<lparr>fuu_unknown_err := err\<rparr>)
      else u\<lparr>fuu_unknown_err := err\<rparr>)"

definition get_from_stat_params ::
    "fb_env \<Rightarrow> string \<Rightarrow> mode_t \<Rightarrow> int \<Rightarrow> int \<Rightarrow> file_usage_update" where
  "get_from_stat_params env filename mode sz err =
     (let u = FileUsageUpdate env filename DONTKNOW False False in
      if err = 0 then
        (if S_ISREG mode then
           set_initial_size sz (set_initial_mode_bits mode 0xFFF (set_initial_type ISREG u))
         else if S_ISDIR mode then set_initial_mode_bits mode 0xFFF (set_initial_type ISDIR u)
         else if S_ISLNK mode then set_initial_type DONTKNOW u
         else set_initial_type NOTEXIST u)
      else set_initial_type NOTEXIST u)"

definition get_oldfile_usage_from_rename_params ::
    "fb_env \<Rightarrow> hash_cache \<Rightarrow> string \<Rightarrow> string \<Rightarrow> int \<Rightarrow> (hash_cache \<times> file_usage_update) option" where
  "get_oldfile_usage_from_rename_params env db old_name new_name err =
     map_option (\<lambda>(db', u). (db', u\<lparr>fuu_written := True, fuu_mode_changed := True,
                                    fuu_generation := env_generation env old_name\<rparr>))
       (get_from_open_params env db new_name 0 0 err False)"

definition get_newfile_usage_from_rename_params :: "fb_env \<Rightarrow> string \<Rightarrow> int \<Rightarrow> file_usage_update" where
  "get_newfile_usage_from_rename_params env new_name err = FileUsageUpdate env new_name DONTKNOW True True"

section \<open>FileUsage\<close>

record file_usage =
  fu_initial_state :: file_info
  fu_written :: bool
  fu_mode_changed :: bool
  fu_tmp_file :: bool
  fu_propagated :: bool
  fu_generation :: nat
  fu_timestamp_source :: "string option"
  fu_unknown_err :: int

definition FileUsage_of_type :: "file_type \<Rightarrow> file_usage" where
  "FileUsage_of_type t =
     \<lparr>fu_initial_state = file_info_of_type t, fu_written = False, fu_mode_changed = False,
      fu_tmp_file = False, fu_propagated = True, fu_generation = 0, fu_timestamp_source = None,
      fu_unknown_err = 0\<rparr>"

text \<open>\<open>FileUsage::Get(candidate)\<close> on the global pool; a usage pointer is an index into it.\<close>

definition FileUsage_Get :: "file_usage list \<Rightarrow> file_usage \<Rightarrow> file_usage list \<times> nat" where
  "FileUsage_Get db candidate =
     (case find_first (\<lambda>u. u = candidate) db of
        Some i \<Rightarrow> (db, i)
      | None \<Rightarrow> (db @ [candidate], length db))"

definition db_initializer :: "file_usage list" where
  "db_initializer = map (\<lambda>i. FileUsage_of_type (the (int_to_file_type i))) [0, 1, 2, 3, 4, 5]"

text \<open>Taking over the hash of the update when ours is not known; \<open>None\<close> when it cannot be computed.\<close>

definition learn_hash ::
    "fb_env \<Rightarrow> hash_cache \<Rightarrow> file_usage_update \<Rightarrow> file_info \<Rightarrow> file_info
       \<Rightarrow> hash_cache \<times> file_usage_update \<times> file_info option" where
  "learn_hash env db u this tmp =
     (if \<not> fi_hash_known this \<and> initial_hash_known u then
        (case get_initial_hash env db u of
           (db', u', None) \<Rightarrow> (db', u', None)
         | (db', u', Some h) \<Rightarrow> (db', u', Some (set_hash h tmp)))
      else (db, u, Some tmp))"

definition learn_size :: "file_usage_update \<Rightarrow> file_info \<Rightarrow> file_info \<Rightarrow> file_info" where
  "learn_size u this tmp =
     (if \<not> size_known this \<and> size_known (fuu_initial_state u)
      then tmp\<lparr>fi_size := fi_size (fuu_initial_state u)\<rparr> else tmp)"

text \<open>The \<open>switch\<close> of \<open>merge\<close> over our initial type; \<open>None\<close> is \<open>return nullptr\<close>.\<close>

definition merge_initial_state ::
    "fb_env \<Rightarrow> hash_cache \<Rightarrow> file_usage_update \<Rightarrow> file_type \<Rightarrow> file_info
       \<Rightarrow> hash_cache \<times> file_usage_update \<times> file_info option" where
  "merge_initial_state env db u ut i =
     (case fi_type i of
        DONTKNOW \<Rightarrow> learn_hash env db u i (learn_size u i (i\<lparr>fi_type := ut\<rparr>))
      | EXIST \<Rightarrow>
          if ut = NOTEXIST then (db, u, None)
          else if ut = NOTEXIST_OR_ISREG then
            (db, u, Some (if size_known (fuu_initial_state u)
                          then i\<lparr>fi_type := ISREG, fi_size := fi_size (fuu_initial_state u)\<rparr>
                          else i\<lparr>fi_type := ISREG\<rparr>))
          else learn_hash env db u i (learn_size u i (i\<lparr>fi_type := ut\<rparr>))
      | NOTEXIST \<Rightarrow>
          if ut \<noteq> DONTKNOW \<and> ut \<noteq> NOTEXIST \<and> ut \<noteq> NOTEXIST_OR_ISREG then (db, u, None)
          else (db, u, Some i)
      | NOTEXIST_OR_ISREG \<Rightarrow> (db, u, Some i)
      | ISREG \<Rightarrow>
          if ut \<noteq> DONTKNOW \<and> ut \<noteq> EXIST \<and> ut \<noteq> NOTEXIST_OR_ISREG \<and> ut \<noteq> ISREG then (db, u, None)
          else learn_hash env db u i (learn_size u i i)
      | ISDIR \<Rightarrow>
          if ut \<noteq> DONTKNOW \<and> ut \<noteq> EXIST \<and> ut \<noteq> ISDIR then (db, u, None)
          else learn_hash env db u i i)"

text \<open>
  \<open>merge\<close>.  An unchanged \<open>tmp\<close> is the value of \<open>this\<close>, so both returns of the code give the value of
  \<open>tmp\<close>.
\<close>

definition merge ::
    "fb_env \<Rightarrow> hash_cache \<Rightarrow> file_usage \<Rightarrow> file_usage_update \<Rightarrow> bool
       \<Rightarrow> hash_cache \<times> file_usage_update \<times> file_usage option" where
  "merge env db this u propagated =
     (let tmp0 = this\<lparr>fu_generation := fuu_generation u\<rparr>;
          r = (if \<not> fu_written this then
                 (case get_initial_type env db u of
                    (db1, u1, None) \<Rightarrow> (db1, u1, None)
                  | (db1, u1, Some ut) \<Rightarrow>
                      (case merge_initial_state env db1 u1 ut (fu_initial_state this) of
                         (db2, u2, None) \<Rightarrow> (db2, u2, None)
                       | (db2, u2, Some i) \<Rightarrow>
                           (db2, u2, Some (tmp0\<lparr>fu_initial_state := i,
                                                fu_written := fu_written this \<or> fuu_written u2\<rparr>))))
               else (db, u, Some tmp0))
      in case r of
           (db', u', None) \<Rightarrow> (db', u', None)
         | (db', u', Some tmp) \<Rightarrow>
             (let tmp1 = (if \<not> fu_mode_changed this then
                            (let t = (if fi_mode (fu_initial_state this) \<noteq> fi_mode (fuu_initial_state u')
                                         \<or> fi_mode_mask (fu_initial_state this) \<noteq> fi_mode_mask (fuu_initial_state u')
                                      then tmp\<lparr>fu_initial_state :=
                                             set_mode_bits (fi_mode (fuu_initial_state u'))
                                               (fi_mode_mask (fuu_initial_state u')) (fu_initial_state tmp)\<rparr>
                                      else tmp)
                             in t\<lparr>fu_mode_changed := fuu_mode_changed u'\<rparr>)
                          else tmp);
                  tmp2 = (if \<not> fu_tmp_file this \<and> fuu_tmp_file u' then tmp1\<lparr>fu_tmp_file := True\<rparr> else tmp1)
              in (db', u', Some (tmp2\<lparr>fu_propagated := propagated,
                                     fu_timestamp_source := fuu_timestamp_source u'\<rparr>))))"

section \<open>Merging as a meet of informations\<close>

text \<open>The merge of two known informations, without the lazy computations.\<close>

definition take_hash :: "file_info \<Rightarrow> file_info \<Rightarrow> file_info \<Rightarrow> file_info" where
  "take_hash ui this tmp =
     (if \<not> fi_hash_known this \<and> fi_hash_known ui then set_hash (fi_hash ui) tmp else tmp)"

definition take_size :: "file_info \<Rightarrow> file_info \<Rightarrow> file_info \<Rightarrow> file_info" where
  "take_size ui this tmp =
     (if \<not> size_known this \<and> size_known ui then tmp\<lparr>fi_size := fi_size ui\<rparr> else tmp)"

definition meet_info :: "file_info \<Rightarrow> file_info \<Rightarrow> file_info option" where
  "meet_info i ui =
     (let ut = fi_type ui in
      case fi_type i of
        DONTKNOW \<Rightarrow> Some (take_hash ui i (take_size ui i (i\<lparr>fi_type := ut\<rparr>)))
      | EXIST \<Rightarrow>
          if ut = NOTEXIST then None
          else if ut = NOTEXIST_OR_ISREG then Some (take_size ui i (i\<lparr>fi_type := ISREG\<rparr>))
          else Some (take_hash ui i (take_size ui i (i\<lparr>fi_type := ut\<rparr>)))
      | NOTEXIST \<Rightarrow> if ut \<notin> {DONTKNOW, NOTEXIST, NOTEXIST_OR_ISREG} then None else Some i
      | NOTEXIST_OR_ISREG \<Rightarrow> Some i
      | ISREG \<Rightarrow> if ut \<notin> {DONTKNOW, EXIST, NOTEXIST_OR_ISREG, ISREG} then None
                 else Some (take_hash ui i (take_size ui i i))
      | ISDIR \<Rightarrow> if ut \<notin> {DONTKNOW, EXIST, ISDIR} then None else Some (take_hash ui i i))"

text \<open>An update after a lazy computation: only its hash may differ.\<close>

definition same_but_hash :: "file_info \<Rightarrow> file_info \<Rightarrow> bool" where
  "same_but_hash a b \<longleftrightarrow> fi_type a = fi_type b \<and> fi_size a = fi_size b \<and> fi_mode a = fi_mode b \<and>
     fi_mode_mask a = fi_mode_mask b"

lemma get_initial_hash_law:
  assumes "get_initial_hash env db u = (db', u', r)" "fuu_unknown_err u = 0" "env_errno env \<noteq> 0"
    and "initial_hash_known u"
  shows "same_but_hash (fuu_initial_state u') (fuu_initial_state u) \<and>
    fuu_written u' = fuu_written u \<and> fuu_generation u' = fuu_generation u \<and>
    (case r of
       Some h \<Rightarrow> fi_hash_known (fuu_initial_state u') \<and> h = fi_hash (fuu_initial_state u') \<and> fuu_unknown_err u' = 0
     | None \<Rightarrow> fuu_unknown_err u' \<noteq> 0)"
  using assms
  by (auto simp: get_initial_hash_def hash_computer_def initial_hash_known_def same_but_hash_def set_hash_def
      split: prod.splits option.splits if_splits)

lemma learn_hash_law:
  assumes "learn_hash env db u this tmp = (db', u', r)" "fuu_unknown_err u = 0" "env_errno env \<noteq> 0"
  shows "same_but_hash (fuu_initial_state u') (fuu_initial_state u) \<and>
    fuu_written u' = fuu_written u \<and> fuu_generation u' = fuu_generation u \<and>
    (case r of
       Some t \<Rightarrow> t = take_hash (fuu_initial_state u') this tmp \<and> fuu_unknown_err u' = 0
     | None \<Rightarrow> fuu_unknown_err u' \<noteq> 0)"
proof (cases "\<not> fi_hash_known this \<and> initial_hash_known u")
  case False
  then show ?thesis
    using assms by (auto simp: learn_hash_def take_hash_def same_but_hash_def initial_hash_known_def)
next
  case True
  obtain db1 u1 r1 where g: "get_initial_hash env db u = (db1, u1, r1)" by (metis prod_cases3)
  from get_initial_hash_law [OF g assms(2,3)] True assms(1) g show ?thesis
    by (cases r1) (auto simp: learn_hash_def take_hash_def)
qed

lemma take_size_same: "same_but_hash a b \<Longrightarrow> take_size a i t = take_size b i t"
  by (simp add: take_size_def same_but_hash_def size_known_def)

lemma learn_size_take: "learn_size u i t = take_size (fuu_initial_state u) i t"
  by (simp add: learn_size_def take_size_def)

lemma same_but_hash_type: "same_but_hash a b \<Longrightarrow> fi_type a = fi_type b"
  by (simp add: same_but_hash_def)

text \<open>The branches of the switch that do not look at the hash.\<close>

definition merges_without_hash :: "file_info \<Rightarrow> file_info \<Rightarrow> bool" where
  "merges_without_hash i ui \<longleftrightarrow>
     (case fi_type i of
        DONTKNOW \<Rightarrow> False
      | EXIST \<Rightarrow> fi_type ui = NOTEXIST \<or> fi_type ui = NOTEXIST_OR_ISREG
      | NOTEXIST \<Rightarrow> True
      | NOTEXIST_OR_ISREG \<Rightarrow> True
      | ISREG \<Rightarrow> fi_type ui = NOTEXIST \<or> fi_type ui = ISDIR
      | ISDIR \<Rightarrow> fi_type ui = NOTEXIST \<or> fi_type ui = NOTEXIST_OR_ISREG \<or> fi_type ui = ISREG)"

definition merge_type_size :: "file_info \<Rightarrow> file_info \<Rightarrow> file_info" where
  "merge_type_size i ui =
     (case fi_type i of
        ISREG \<Rightarrow> take_size ui i i
      | ISDIR \<Rightarrow> i
      | _ \<Rightarrow> take_size ui i (i\<lparr>fi_type := fi_type ui\<rparr>))"

lemma merge_initial_state_law:
  assumes "merge_initial_state env db u (fi_type (fuu_initial_state u)) i = (db', u', r)"
    and "fuu_unknown_err u = 0" "env_errno env \<noteq> 0" "wf_info i"
  shows "same_but_hash (fuu_initial_state u') (fuu_initial_state u) \<and>
    fuu_written u' = fuu_written u \<and> fuu_generation u' = fuu_generation u \<and>
    (case r of
       Some t \<Rightarrow> meet_info i (fuu_initial_state u') = Some t \<and> fuu_unknown_err u' = 0
     | None \<Rightarrow> fuu_unknown_err u' \<noteq> 0 \<or> meet_info i (fuu_initial_state u') = None)"
proof -
  define ui where "ui = fuu_initial_state u"
  define ui' where "ui' = fuu_initial_state u'"
  have ex: "\<not> size_known i" if "fi_type i = EXIST" using assms(4) that by (simp add: wf_info_def size_known_def)
  show ?thesis
  proof (cases "merges_without_hash i ui")
    case True
    then have "u' = u" "r = meet_info i ui"
      using assms(1) ex
      by (auto simp: merges_without_hash_def merge_initial_state_def meet_info_def take_size_def Let_def
          simp flip: ui_def split: file_type.splits if_splits)
    then show ?thesis
      using assms(2) by (auto simp: same_but_hash_def ui_def split: option.splits)
  next
    case False
    have m: "learn_hash env db u i (merge_type_size i ui) = (db', u', r)"
      using assms(1) False
      by (cases "fi_type i"; cases "fi_type ui")
        (simp_all add: merges_without_hash_def merge_initial_state_def merge_type_size_def learn_size_take
          flip: ui_def)
    note l = learn_hash_law [OF m assms(2,3)]
    then have s: "same_but_hash ui' ui" by (simp add: ui_def ui'_def)
    have "meet_info i ui' = Some (take_hash ui' i (merge_type_size i ui'))"
      using False same_but_hash_type [OF s]
      by (cases "fi_type i"; cases "fi_type ui")
        (simp_all add: merges_without_hash_def meet_info_def merge_type_size_def Let_def)
    moreover have "merge_type_size i ui' = merge_type_size i ui"
      using same_but_hash_type [OF s] take_size_same [OF s] by (simp add: merge_type_size_def split: file_type.splits)
    ultimately show ?thesis using l by (simp add: ui'_def split: option.splits)
  qed
qed


text \<open>The mode bits are added to the merged information.\<close>

definition meet_modes :: "file_info \<Rightarrow> file_info \<Rightarrow> file_info \<Rightarrow> file_info" where
  "meet_modes i ui t =
     (if fi_mode i \<noteq> fi_mode ui \<or> fi_mode_mask i \<noteq> fi_mode_mask ui
      then set_mode_bits (fi_mode ui) (fi_mode_mask ui) t else t)"

lemma mode_ok_subset: "fi_mode ui AND NOT (fi_mode_mask ui) = 0 \<Longrightarrow>
    mode_ok ui m \<longleftrightarrow> fi_mode ui AND fi_mode_mask ui = m AND fi_mode_mask ui"
  by (simp add: mode_ok_def)

lemma mode_ok_cong: "fi_mode a = fi_mode b \<Longrightarrow> fi_mode_mask a = fi_mode_mask b \<Longrightarrow> mode_ok a m = mode_ok b m"
  by (simp add: mode_ok_def)

lemma meet_modes_other:
  "fi_type (meet_modes i ui t) = fi_type t" "fi_size (meet_modes i ui t) = fi_size t"
  "fi_hash_known (meet_modes i ui t) = fi_hash_known t" "fi_hash (meet_modes i ui t) = fi_hash t"
  by (simp_all add: meet_modes_def set_mode_bits_def)

lemma mode_ok_meet_modes:
  assumes "fi_mode t = fi_mode i" "fi_mode_mask t = fi_mode_mask i" "mode_ok i m0" "mode_ok ui m0"
  shows "mode_ok (meet_modes i ui t) m \<longleftrightarrow> mode_ok i m \<and> mode_ok ui m"
proof -
  have ti: "mode_ok t x = mode_ok i x" for x using assms(1,2) by (rule mode_ok_cong)
  show ?thesis
  proof (cases "fi_mode i \<noteq> fi_mode ui \<or> fi_mode_mask i \<noteq> fi_mode_mask ui")
    case True
    have "mode_ok (set_mode_bits (fi_mode ui) (fi_mode_mask ui) t) m \<longleftrightarrow>
        mode_ok t m \<and> fi_mode ui AND fi_mode_mask ui = m AND fi_mode_mask ui"
      using assms(3,4) ti by (intro mode_ok_set_mode_bits [of t m0]) (simp_all add: mode_ok_def)
    with True ti show ?thesis by (simp add: meet_modes_def mode_ok_def [of ui])
  next
    case False
    then show ?thesis using ti mode_ok_cong [of i ui] by (simp add: meet_modes_def)
  qed
qed

lemma mode_ok_mask0: "fi_mode_mask i = 0 \<Longrightarrow> mode_ok i m"
  by (simp add: mode_ok_def)

lemma meet_info_modes: "meet_info i ui = Some t \<Longrightarrow> fi_mode t = fi_mode i \<and> fi_mode_mask t = fi_mode_mask i"
  by (cases "fi_type i"; cases "fi_type ui")
    (auto simp: meet_info_def Let_def take_hash_def take_size_def set_hash_def split: if_splits)

lemma wf_mask0: "wf_info i \<Longrightarrow> fi_type i \<in> {DONTKNOW, NOTEXIST, NOTEXIST_OR_ISREG} \<Longrightarrow> fi_mode_mask i = 0"
  by (auto simp: wf_info_def)

lemma describes_mode: "describes i st \<Longrightarrow> st \<noteq> Absent \<Longrightarrow> wf_info i \<Longrightarrow> mode_ok i (fs_mode st)"
  using wf_mask0 [of i] mode_ok_mask0 [of i]
  by (cases st; cases "fi_type i") (auto simp: reg_ok_def dir_ok_def)

lemma agree_hash:
  assumes "wf_info i" "wf_info ui" "describes i st0" "describes ui st0"
  shows "fi_hash_known i \<Longrightarrow> fi_hash_known ui \<Longrightarrow> fi_hash i = fi_hash ui"
  using assms
  by (cases st0; cases "fi_type i"; cases "fi_type ui") (simp_all add: wf_info_def reg_ok_def dir_ok_def)

lemma agree_size:
  assumes "wf_info i" "wf_info ui" "describes i st0" "describes ui st0" "fi_type i \<noteq> NOTEXIST_OR_ISREG"
  shows "fi_size i \<ge> 0 \<Longrightarrow> fi_size ui \<ge> 0 \<Longrightarrow> fi_size i = fi_size ui"
  using assms
  by (cases st0; cases "fi_type i"; cases "fi_type ui") (simp_all add: wf_info_def reg_ok_def dir_ok_def)

lemma take_hash_proj [fu_simps]:
  "fi_type (take_hash ui i t) = fi_type t" "fi_size (take_hash ui i t) = fi_size t"
  "fi_hash_known (take_hash ui i t) \<longleftrightarrow> fi_hash_known t \<or> (\<not> fi_hash_known i \<and> fi_hash_known ui)"
  "fi_hash (take_hash ui i t) = (if \<not> fi_hash_known i \<and> fi_hash_known ui then fi_hash ui else fi_hash t)"
  by (auto simp: take_hash_def set_hash_def)

lemma take_size_proj [fu_simps]:
  "fi_type (take_size ui i t) = fi_type t"
  "fi_size (take_size ui i t) = (if fi_size i < 0 \<and> fi_size ui \<ge> 0 then fi_size ui else fi_size t)"
  "fi_hash_known (take_size ui i t) = fi_hash_known t" "fi_hash (take_size ui i t) = fi_hash t"
  by (auto simp: take_size_def size_known_def)

text \<open>The type of a merge, and that its details are those of either side.\<close>

definition meet_type :: "file_type \<Rightarrow> file_type \<Rightarrow> file_type" where
  "meet_type a b =
     (if a = DONTKNOW then b
      else if a = EXIST then (if b = NOTEXIST_OR_ISREG then ISREG else b)
      else a)"

lemma meet_shape:
  assumes "wf_info i" "wf_info ui" "meet_info i ui = Some t" "fi_type i \<noteq> NOTEXIST_OR_ISREG"
  shows "fi_type t = meet_type (fi_type i) (fi_type ui) \<and>
    (fi_hash_known t \<longleftrightarrow> fi_hash_known i \<or> fi_hash_known ui) \<and>
    (fi_hash_known i \<longrightarrow> fi_hash t = fi_hash i) \<and>
    (\<not> fi_hash_known i \<longrightarrow> fi_hash_known ui \<longrightarrow> fi_hash t = fi_hash ui) \<and>
    (fi_type i \<noteq> NOTEXIST \<longrightarrow> fi_size t = (if fi_size i < 0 \<and> fi_size ui \<ge> 0 then fi_size ui else fi_size i))"
  using assms
  by (cases "fi_type i"; cases "fi_type ui")
    (auto simp: meet_info_def Let_def fu_simps meet_type_def wf_info_def)

lemma describes_meet:
  assumes w: "wf_info i" "wf_info ui" and n: "meet_info i ui \<noteq> None"
    and x: "fi_type i \<noteq> NOTEXIST_OR_ISREG" "\<not> (fi_type i = EXIST \<and> fi_type ui = DONTKNOW)"
    and r: "fi_type r = meet_type (fi_type i) (fi_type ui)"
    and mm: "\<And>x. mode_ok r x \<longleftrightarrow> mode_ok i x \<and> mode_ok ui x"
    and z: "\<And>x. fi_type i \<in> {DONTKNOW, NOTEXIST} \<Longrightarrow> mode_ok i x"
      "\<And>x. fi_type ui \<in> {DONTKNOW, NOTEXIST, NOTEXIST_OR_ISREG} \<Longrightarrow> mode_ok ui x"
    and h: "\<And>x. (fi_hash_known r \<longrightarrow> fi_hash r = x) \<longleftrightarrow>
        (fi_hash_known i \<longrightarrow> fi_hash i = x) \<and> (fi_hash_known ui \<longrightarrow> fi_hash ui = x)"
    and s: "\<And>x. fi_type i \<noteq> NOTEXIST \<Longrightarrow> (fi_size r \<ge> 0 \<longrightarrow> fi_size r = x) \<longleftrightarrow>
        (fi_size i \<ge> 0 \<longrightarrow> fi_size i = x) \<and> (fi_size ui \<ge> 0 \<longrightarrow> fi_size ui = x)"
  shows "describes r st \<longleftrightarrow> describes i st \<and> describes ui st"
proof -
  have d: "\<not> fi_hash_known i" if "fi_type i \<in> {DONTKNOW, EXIST, NOTEXIST}" using w(1) that by (auto simp: wf_info_def)
  have d': "\<not> fi_hash_known ui" if "fi_type ui \<in> {DONTKNOW, EXIST, NOTEXIST, NOTEXIST_OR_ISREG}"
    using w(2) that by (auto simp: wf_info_def)
  have e: "\<not> 0 \<le> fi_size i" if "fi_type i \<in> {DONTKNOW, EXIST, NOTEXIST, ISDIR}" using w(1) that by (auto simp: wf_info_def)
  have e': "\<not> 0 \<le> fi_size ui" if "fi_type ui \<in> {DONTKNOW, EXIST, NOTEXIST, ISDIR}" using w(2) that by (auto simp: wf_info_def)
  show ?thesis
    using n x r z d d' e e'
    by (cases st; cases "fi_type i"; cases "fi_type ui")
      (simp_all add: meet_info_def meet_type_def reg_ok_def dir_ok_def mm h s conj_ac)
qed

lemma meet_info_describes:
  assumes "wf_info i" "wf_info ui" "meet_info i ui = Some t"
    and "fi_type i \<noteq> NOTEXIST_OR_ISREG" "\<not> (fi_type i = EXIST \<and> fi_type ui = DONTKNOW)"
    and "describes i st0" "describes ui st0"
  shows "describes (meet_modes i ui t) st \<longleftrightarrow> describes i st \<and> describes ui st"
proof -
  note m = meet_info_modes [OF assms(3)]
  have mm: "mode_ok (meet_modes i ui t) x \<longleftrightarrow> mode_ok i x \<and> mode_ok ui x" for x
  proof (cases "st0 = Absent")
    case True
    then have "fi_mode_mask i = 0" "fi_mode_mask ui = 0"
      using assms(1,2,6,7) wf_mask0 by auto
    then show ?thesis
      using mode_ok_meet_modes [of t i x ui x] m mode_ok_mask0 by blast
  next
    case False
    then show ?thesis
      using mode_ok_meet_modes [of t i "fs_mode st0" ui x] m describes_mode [OF assms(6)]
        describes_mode [OF assms(7)] assms(1,2) by blast
  qed
  have z: "fi_type i \<in> {DONTKNOW, NOTEXIST} \<Longrightarrow> mode_ok i x"
    "fi_type ui \<in> {DONTKNOW, NOTEXIST, NOTEXIST_OR_ISREG} \<Longrightarrow> mode_ok ui x" for x
    using wf_mask0 assms(1,2) by (auto simp: mode_ok_mask0)
  note sh = meet_shape [OF assms(1-4)]
  have c: "fi_hash_known i \<Longrightarrow> fi_hash_known ui \<Longrightarrow> fi_hash i = fi_hash ui"
    "fi_size i \<ge> 0 \<Longrightarrow> fi_size ui \<ge> 0 \<Longrightarrow> fi_size i = fi_size ui"
    using agree_hash [OF assms(1,2,6,7)] agree_size [OF assms(1,2,6,7)] assms(4) by blast+
  show ?thesis
  proof (rule describes_meet [OF assms(1,2) _ assms(4,5) _ mm z])
    show "meet_info i ui \<noteq> None" using assms(3) by simp
    show "fi_type (meet_modes i ui t) = meet_type (fi_type i) (fi_type ui)"
      using sh by (simp add: meet_modes_other)
    show "(fi_hash_known (meet_modes i ui t) \<longrightarrow> fi_hash (meet_modes i ui t) = x) \<longleftrightarrow>
        (fi_hash_known i \<longrightarrow> fi_hash i = x) \<and> (fi_hash_known ui \<longrightarrow> fi_hash ui = x)" for x
      using sh c(1) by (cases "fi_hash_known i") (auto simp: meet_modes_other)
    show "(fi_size (meet_modes i ui t) \<ge> 0 \<longrightarrow> fi_size (meet_modes i ui t) = x) \<longleftrightarrow>
        (fi_size i \<ge> 0 \<longrightarrow> fi_size i = x) \<and> (fi_size ui \<ge> 0 \<longrightarrow> fi_size ui = x)"
      if "fi_type i \<noteq> NOTEXIST" for x
      using sh c(2) that by (auto simp: meet_modes_other)
  qed
qed

lemma meet_None_contradiction:
  "meet_info i ui = None \<Longrightarrow> \<not> (describes i st \<and> describes ui st)"
  by (cases st; cases "fi_type i"; cases "fi_type ui") (simp_all add: meet_info_def)

lemma get_initial_type_law:
  assumes "get_initial_type env db u = (db', u', r)" "fuu_unknown_err u = 0"
  shows "fuu_written u' = fuu_written u \<and> fuu_generation u' = fuu_generation u \<and>
    (case r of
       Some t \<Rightarrow> t = fi_type (fuu_initial_state u') \<and> fuu_unknown_err u' = 0
     | None \<Rightarrow> fuu_unknown_err u' \<noteq> 0)"
  using assms
  by (auto simp: get_initial_type_def type_computer_open_rdonly_def split: prod.splits option.splits if_splits)

text \<open>The initial state of a merge into a usage whose file was not yet written or \<open>chmod\<close>ed.\<close>

lemma merge_unwritten:
  assumes "merge env db this u propagated = (db', u', r)" "\<not> fu_written this" "\<not> fu_mode_changed this"
    and "fuu_unknown_err u = 0" "env_errno env \<noteq> 0" "wf_info (fu_initial_state this)"
  shows "case r of
      Some fu \<Rightarrow> (\<exists>t. meet_info (fu_initial_state this) (fuu_initial_state u') = Some t \<and>
          fu_initial_state fu = meet_modes (fu_initial_state this) (fuu_initial_state u') t) \<and>
        fu_written fu = fuu_written u' \<and> fu_mode_changed fu = fuu_mode_changed u' \<and>
        fu_generation fu = fuu_generation u'
    | None \<Rightarrow> fuu_unknown_err u' \<noteq> 0 \<or>
        meet_info (fu_initial_state this) (fuu_initial_state u') = None"
proof -
  obtain db1 u1 r1 where g: "get_initial_type env db u = (db1, u1, r1)" by (metis prod_cases3)
  note t = get_initial_type_law [OF g assms(4)]
  show ?thesis
  proof (cases r1)
    case None
    then show ?thesis using assms(1,2) g t by (auto simp: merge_def Let_def)
  next
    case (Some ut)
    then have u1: "ut = fi_type (fuu_initial_state u1)" "fuu_unknown_err u1 = 0" using t by auto
    obtain db2 u2 r2 where m: "merge_initial_state env db1 u1 (fi_type (fuu_initial_state u1))
        (fu_initial_state this) = (db2, u2, r2)" by (metis prod_cases3)
    note l = merge_initial_state_law [OF m u1(2) assms(5,6)]
    show ?thesis
    proof (cases r2)
      case None
      then show ?thesis using assms(1,2) g Some u1 m l by (auto simp: merge_def Let_def)
    next
      case (Some i')
      then show ?thesis
        using assms(1,2,3) g \<open>r1 = Some ut\<close> u1 m l t
        by (auto simp: merge_def Let_def meet_modes_def)
    qed
  qed
qed

definition plain_env :: "os \<Rightarrow> fb_env" where
  "plain_env w = \<lparr>env_locs = no_locations, env_os = w, env_errno = 5, env_generation = (\<lambda>_. 0)\<rparr>"

section \<open>Properties\<close>



text \<open>
  C17: \<open>merge\<close> returns null only for a reason: a lazy computation failed, or no state of the file is
  compatible with both the old usage and the new observation.
\<close>

theorem merge_null_reason:
  assumes "merge env db this u propagated = (db', u', None)"
    and "\<not> fu_written this" "\<not> fu_mode_changed this" "fuu_unknown_err u = 0" "env_errno env \<noteq> 0"
    and "wf_info (fu_initial_state this)" "fuu_unknown_err u' = 0"
  shows "\<not> (\<exists>st. describes (fu_initial_state this) st \<and> describes (fuu_initial_state u') st)"
  using merge_unwritten [OF assms(1-6)] assms(7) meet_None_contradiction by auto

theorem merge_null_reason_witness:
  "snd (snd (merge (plain_env (one_file_os ''/f'' 0x1A4 ''hello'')) (\<lambda>_. None) (FileUsage_of_type NOTEXIST)
     (get_from_mkdir_params (plain_env (one_file_os ''/f'' 0x1A4 ''hello'')) ''/f'' EEXIST False) True)) = None \<and>
   \<not> (\<exists>st. describes (file_info_of_type NOTEXIST) st \<and> describes (file_info_of_type ISDIR) st)"
proof -
  let ?env = "plain_env (one_file_os ''/f'' 0x1A4 ''hello'')"
  let ?u = "get_from_mkdir_params ?env ''/f'' EEXIST False"
  have u: "fuu_initial_state ?u = file_info_of_type ISDIR" "\<not> fuu_type_computer ?u" "fuu_unknown_err ?u = 0"
    by (simp_all add: get_from_mkdir_params_def Let_def FileUsageUpdate_def FileUsageUpdate_info_def
        set_initial_type_def file_info_of_type_def mk_file_info_def)
  have ti: "fu_initial_state (FileUsage_of_type NOTEXIST) = file_info_of_type NOTEXIST"
    "\<not> fu_written (FileUsage_of_type NOTEXIST)" "\<not> fu_mode_changed (FileUsage_of_type NOTEXIST)"
    by (simp_all add: FileUsage_of_type_def)
  have w: "wf_info (fu_initial_state (FileUsage_of_type NOTEXIST))" "env_errno ?env \<noteq> 0"
    by (simp_all add: ti wf_info_def file_info_of_type_def mk_file_info_def plain_env_def)
  have m: "merge ?env (\<lambda>_. None) (FileUsage_of_type NOTEXIST) ?u True = ((\<lambda>_. None), ?u, None)"
    using u ti by (simp add: merge_def get_initial_type_def merge_initial_state_def file_info_of_type_def
        mk_file_info_def)
  show ?thesis
    using merge_null_reason [OF m ti(2,3) u(3) w(2,1) u(3)] m unfolding ti u by simp
qed

text \<open>
  Knowledge is lost when an observation without information is merged into a usage that only
  knows that the file exists: the result knows nothing, and admits that the file was absent.
\<close>

theorem merge_forgets_existence:
  assumes "fi_type (fu_initial_state this) = EXIST" "\<not> fu_written this"
    and "\<not> fuu_type_computer u" "fuu_unknown_err u = 0" "fi_type (fuu_initial_state u) = DONTKNOW"
    and "\<not> initial_hash_known u"
  shows "\<exists>fu. merge env db this u propagated = (db, u, Some fu) \<and>
    fi_type (fu_initial_state fu) = DONTKNOW \<and>
    \<not> describes (fu_initial_state this) Absent \<and> describes (fu_initial_state fu) Absent"
proof -
  have g: "get_initial_type env db u = (db, u, Some DONTKNOW)"
    using assms(3-5) by (simp add: get_initial_type_def)
  have m: "merge_initial_state env db u DONTKNOW (fu_initial_state this) =
      (db, u, Some (learn_size u (fu_initial_state this) ((fu_initial_state this)\<lparr>fi_type := DONTKNOW\<rparr>)))"
    using assms(1,6) by (simp add: merge_initial_state_def learn_hash_def)
  have t: "fi_type (learn_size u i (i\<lparr>fi_type := DONTKNOW\<rparr>)) = DONTKNOW" for i
    by (simp add: learn_size_def)
  show ?thesis using assms(1,2) g m t
    by (simp add: merge_def Let_def set_mode_bits_def)
qed

theorem merge_forgets_existence_witness:
  "\<exists>fu. merge (plain_env (one_file_os ''/f'' 0x1A4 ''hello'')) (\<lambda>_. None) (FileUsage_of_type EXIST)
      (get_newfile_usage_from_rename_params (plain_env (one_file_os ''/f'' 0x1A4 ''hello'')) ''/f'' 0) True =
      ((\<lambda>_. None), get_newfile_usage_from_rename_params (plain_env (one_file_os ''/f'' 0x1A4 ''hello'')) ''/f'' 0,
       Some fu) \<and> describes (fu_initial_state fu) Absent"
proof -
  let ?env = "plain_env (one_file_os ''/f'' 0x1A4 ''hello'')"
  let ?u = "get_newfile_usage_from_rename_params ?env ''/f'' 0"
  have u: "\<not> fuu_type_computer ?u" "fuu_unknown_err ?u = 0" "fi_type (fuu_initial_state ?u) = DONTKNOW"
    "\<not> initial_hash_known ?u"
    by (simp_all add: get_newfile_usage_from_rename_params_def FileUsageUpdate_def FileUsageUpdate_info_def
        initial_hash_known_def file_info_of_type_def mk_file_info_def)
  have t: "fi_type (fu_initial_state (FileUsage_of_type EXIST)) = EXIST" "\<not> fu_written (FileUsage_of_type EXIST)"
    by (simp_all add: FileUsage_of_type_def file_info_of_type_def mk_file_info_def)
  show ?thesis using merge_forgets_existence [OF t u, of ?env "\<lambda>_. None" True] by blast
qed

text \<open>
  The source of a timestamp copied with \<open>touch -r\<close> does not survive the next observation of the
  file: every merge overwrites it with that of the update, which is null for all other calls.
\<close>

theorem merge_overwrites_timestamp_source:
  assumes "merge env db this u propagated = (db', u', Some fu)"
  shows "fu_timestamp_source fu = fuu_timestamp_source u'"
  using assms by (auto simp: merge_def Let_def split: prod.splits option.splits if_splits)

theorem merge_overwrites_timestamp_source_witness:
  "\<exists>fu. snd (snd (merge (plain_env (one_file_os ''/f'' 0x1A4 ''hello'')) (\<lambda>_. None)
      ((FileUsage_of_type DONTKNOW)\<lparr>fu_timestamp_source := Some ''/src'', fu_written := True\<rparr>)
      (get_from_stat_params (plain_env (one_file_os ''/f'' 0x1A4 ''hello'')) ''/f'' 0x81A4 5 0) True)) = Some fu \<and>
    fu_timestamp_source fu = None"
proof -
  let ?env = "plain_env (one_file_os ''/f'' 0x1A4 ''hello'')"
  let ?old = "(FileUsage_of_type DONTKNOW)\<lparr>fu_timestamp_source := Some ''/src'', fu_written := True\<rparr>"
  let ?u = "get_from_stat_params ?env ''/f'' 0x81A4 5 0"
  have "\<exists>fu. merge ?env (\<lambda>_. None) ?old ?u True = ((\<lambda>_. None), ?u, Some fu)"
    by (simp add: merge_def Let_def)
  then obtain fu where m: "merge ?env (\<lambda>_. None) ?old ?u True = ((\<lambda>_. None), ?u, Some fu)" ..
  have "fuu_timestamp_source ?u = None"
    by (simp add: get_from_stat_params_def S_ISREG_def set_initial_size_def set_initial_mode_bits_def
        set_initial_type_def FileUsageUpdate_def FileUsageUpdate_info_def)
  then show ?thesis using merge_overwrites_timestamp_source [OF m] m by simp
qed

text \<open>
  A failed hash lookup is reported through \<open>errno\<close>, which \<open>HashCache::get_hash\<close> does not set when it
  refuses a file with writers: with \<open>errno\<close> zero the failure is taken for success, and a file that
  was opened for reading counts as not observed.
\<close>

theorem get_initial_type_unset_errno:
  assumes "fuu_type_computer u" "fuu_unknown_err u = 0" "env_errno env = 0"
    and "os_writers (env_os env) (fuu_filename u) > fuu_max_writers u"
    and "\<not> in_ignore_location (env_locs env) (fuu_filename u)"
  shows "get_initial_type env db u = (db, u, Some (fi_type (fuu_initial_state u)))"
proof -
  have "get_hash (env_locs env) (env_os env) db (fuu_filename u) (fuu_max_writers u) (-1) None = (db, None)"
    using assms(4,5)
    by (simp add: get_hash_def get_entry_with_statinfo_and_hash_def dontknow_entry_def new_entry_def
        file_info_of_type_def mk_file_info_def)
  then show ?thesis using assms(1-3) by (simp add: get_initial_type_def type_computer_open_rdonly_def)
qed

theorem get_initial_type_unset_errno_witness:
  "snd (snd (get_initial_type
     ((plain_env ((one_file_os ''/f'' 0x1A4 ''hello'')\<lparr>os_writers := (\<lambda>_. 1)\<rparr>))\<lparr>env_errno := 0\<rparr>) (\<lambda>_. None)
     ((FileUsageUpdate (plain_env (one_file_os ''/f'' 0x1A4 ''hello'')) ''/f'' DONTKNOW False False)
        \<lparr>fuu_type_computer := True\<rparr>))) = Some DONTKNOW"
  by (subst get_initial_type_unset_errno)
    (simp_all add: plain_env_def FileUsageUpdate_def FileUsageUpdate_info_def file_info_of_type_def mk_file_info_def)

end
