(* ===== verification/FB_ExecTree.thy ===== *)
theory FB_ExecTree
  imports FB_FileUsage
begin

text \<open>
  \<^verbatim>\<open>src/firebuild/execed_process.cc\<close> and the writer and generation tables of \<^verbatim>\<open>file_name.cc\<close>: the tree of
  exec()-ed processes, on which file usages are registered and from which shortcutting is disabled.

  An \<open>ExecedProcess*\<close> is an index into \<open>x_nodes\<close>, in the order of creation.  The field
  \<open>maybe_shortcutable_ancestor_\<close> caches the closest ancestor that can be shortcut, lazily moved
  upwards; \<open>tree_inv\<close> says what it promises, and the interface \<open>upward_walk\<close> what the registration of
  file usages needs of it.  Pointers to ancestors are followed only to older processes
  (\<open>parent_exec_point\<close>, \<open>maybe_ancestor\<close>), which \<open>tree_inv\<close> shows to be no restriction and which
  makes every walk terminate.
\<close>

section \<open>State\<close>

datatype fd_type =
  FD_UNINITIALIZED | FD_IGNORED | FD_FILE | FD_PIPE_IN | FD_PIPE_OUT | FD_SPECIAL | FD_SCM_RIGHTS

record inherited_file =
  if_type :: fd_type
  if_fds :: "int list"
  if_recorder :: "nat option"
  if_filename :: "string option"
  if_flags :: "32 word"
  if_start_offset :: int

record exec_node =
  en_parent :: "nat option"
  en_ancestor :: "nat option"
  en_can_shortcut :: bool
  en_reason :: "string option"
  en_reason_proc :: "nat option"
  en_usages :: "string \<Rightarrow> file_usage option"
  en_jobserver_fifo :: "string option"
  en_inherited_files :: "inherited_file list"

text \<open>
  The supervisor's state as far as exec()-ed processes see it: the report option, the configured
  locations, the operating system, \<open>errno\<close>, the hash cache, the processes, the tables
  \<open>write_ofds_db_\<close> and \<open>generation_db_\<close>, and which pipe recorders are active.
\<close>

record exec_state =
  x_report :: bool
  x_locs :: locations
  x_os :: os
  x_errno :: int
  x_cache :: hash_cache
  x_nodes :: "exec_node list"
  x_writers :: "string \<Rightarrow> (nat \<times> nat option) option"
  x_generation :: "string \<Rightarrow> nat option"
  x_recorders :: "nat \<Rightarrow> bool"

definition writers_count :: "exec_state \<Rightarrow> string \<Rightarrow> nat" where
  "writers_count s name = (case x_writers s name of Some (n, _) \<Rightarrow> n | None \<Rightarrow> 0)"

definition generation :: "exec_state \<Rightarrow> string \<Rightarrow> nat" where
  "generation s name = (case x_generation s name of Some g \<Rightarrow> g | None \<Rightarrow> 0)"

definition env_of :: "exec_state \<Rightarrow> fb_env" where
  "env_of s = \<lparr>env_locs = x_locs s, env_os = (x_os s)\<lparr>os_writers := (\<lambda>n. int (writers_count s n))\<rparr>,
     env_errno = x_errno s, env_generation = generation s\<rparr>"

definition node :: "exec_state \<Rightarrow> nat \<Rightarrow> exec_node" where
  "node s i = x_nodes s ! i"

definition set_node :: "nat \<Rightarrow> exec_node \<Rightarrow> exec_state \<Rightarrow> exec_state" where
  "set_node i n s = s\<lparr>x_nodes := (x_nodes s)[i := n]\<rparr>"

definition older :: "nat \<Rightarrow> nat option \<Rightarrow> nat option" where
  "older i p = (case p of Some a \<Rightarrow> if a < i then Some a else None | None \<Rightarrow> None)"

definition parent_exec_point :: "exec_node list \<Rightarrow> nat \<Rightarrow> nat option" where
  "parent_exec_point ns i = older i (en_parent (ns ! i))"

definition maybe_ancestor :: "exec_node list \<Rightarrow> nat \<Rightarrow> nat option" where
  "maybe_ancestor ns i = older i (en_ancestor (ns ! i))"

definition opt_rank :: "nat option \<Rightarrow> nat" where
  "opt_rank p = (case p of None \<Rightarrow> 0 | Some a \<Rightarrow> Suc a)"

lemma opt_rank_simps [simp]: "opt_rank None = 0" "opt_rank (Some a) = Suc a"
  by (simp_all add: opt_rank_def)

lemma older_less: "older i p = Some a \<Longrightarrow> a < i"
  by (auto simp: older_def split: option.splits if_splits)

lemma older_rank [simp]: "opt_rank (older i p) < Suc i"
  by (auto simp: older_def split: option.splits)

lemma parent_rank [simp]: "opt_rank (parent_exec_point ns i) < Suc i"
  by (simp add: parent_exec_point_def)

lemma maybe_rank [simp]: "opt_rank (maybe_ancestor ns i) < Suc i"
  by (simp add: maybe_ancestor_def)

lemma parent_less: "parent_exec_point ns i = Some a \<Longrightarrow> a < i"
  by (simp add: parent_exec_point_def older_less)

section \<open>The closest ancestor that can be shortcut\<close>

text \<open>The loop \<open>while (next != nullptr && !next->can_shortcut_)\<close>.\<close>

function closest_shortcutable :: "exec_node list \<Rightarrow> nat option \<Rightarrow> nat option" where
  "closest_shortcutable ns None = None"
| "closest_shortcutable ns (Some a) =
     (if en_can_shortcut (ns ! a) then Some a else closest_shortcutable ns (maybe_ancestor ns a))"
  by pat_completeness auto
termination
  by (relation "measure (\<lambda>(ns, p). opt_rank p)") simp_all

definition next_shortcutable_ancestor :: "exec_state \<Rightarrow> nat \<Rightarrow> exec_state \<times> nat option" where
  "next_shortcutable_ancestor s i =
     (case maybe_ancestor (x_nodes s) i of
        None \<Rightarrow> (s, None)
      | Some a \<Rightarrow>
          if en_can_shortcut (node s a) then (s, Some a)
          else let nxt = closest_shortcutable (x_nodes s) (maybe_ancestor (x_nodes s) a)
               in (set_node i ((node s i)\<lparr>en_ancestor := nxt\<rparr>) s, nxt))"

definition closest_shortcut_point :: "exec_state \<Rightarrow> nat \<Rightarrow> exec_state \<times> nat option" where
  "closest_shortcut_point s i =
     (if en_can_shortcut (node s i) then (s, Some i) else next_shortcutable_ancestor s i)"

text \<open>A new exec()-ed process below the exec point \<open>parent\<close>, and \<open>set_parent\<close> after \<open>posix_spawn()\<close>.\<close>

definition new_exec_node :: "exec_state \<Rightarrow> nat option \<Rightarrow> exec_state \<times> nat" where
  "new_exec_node s parent =
     (case (case parent of Some p \<Rightarrow> closest_shortcut_point s p | None \<Rightarrow> (s, None)) of
        (s', a) \<Rightarrow>
          (s'\<lparr>x_nodes := x_nodes s' @
               [\<lparr>en_parent = parent, en_ancestor = a, en_can_shortcut = True, en_reason = None,
                 en_reason_proc = None, en_usages = (\<lambda>_. None), en_jobserver_fifo = None,
                 en_inherited_files = []\<rparr>]\<rparr>, length (x_nodes s')))"

definition set_parent :: "exec_state \<Rightarrow> nat \<Rightarrow> nat \<Rightarrow> exec_state" where
  "set_parent s i parent =
     (case closest_shortcut_point s parent of
        (s', a) \<Rightarrow> set_node i ((node s' i)\<lparr>en_parent := Some parent, en_ancestor := a\<rparr>) s')"

text \<open>\<open>common_exec_ancestor\<close>: both branches are walked in turns.\<close>

definition visited :: "nat option \<Rightarrow> nat list \<Rightarrow> bool" where
  "visited p xs = (case p of Some a \<Rightarrow> List.member xs a | None \<Rightarrow> False)"

definition visit :: "nat option \<Rightarrow> nat list \<Rightarrow> nat list" where
  "visit p xs = (case p of Some a \<Rightarrow> a # xs | None \<Rightarrow> xs)"

definition step_up :: "exec_node list \<Rightarrow> nat option \<Rightarrow> nat option" where
  "step_up ns p = (case p of Some a \<Rightarrow> parent_exec_point ns a | None \<Rightarrow> None)"

lemma step_up_less: "p \<noteq> None \<Longrightarrow> opt_rank (step_up ns p) < opt_rank p"
  using parent_rank [of ns "the p"] by (cases p) (simp_all add: step_up_def)

lemma step_up_le: "opt_rank (step_up ns p) \<le> opt_rank p"
  using step_up_less [of p ns] by (cases "p = None") (simp_all add: step_up_def)

lemma step_up_both:
  assumes "\<not> (step_up ns t = None \<and> step_up ns u = None)"
  shows "opt_rank (step_up ns t) + opt_rank (step_up ns u) < opt_rank t + opt_rank u"
proof -
  have "t \<noteq> None \<or> u \<noteq> None" using assms by (auto simp: step_up_def)
  then show ?thesis
    using step_up_less [of t ns] step_up_less [of u ns] step_up_le [of ns t] step_up_le [of ns u] by linarith
qed

function common_ancestor_loop ::
    "exec_node list \<Rightarrow> nat option \<Rightarrow> nat option \<Rightarrow> nat list \<Rightarrow> nat list \<Rightarrow> nat option" where
  "common_ancestor_loop ns curr_this curr_other my_ancestors others_ancestors =
     (if visited curr_this others_ancestors then curr_this
      else if visited curr_other (visit curr_this my_ancestors) then curr_other
      else if step_up ns curr_this = None \<and> step_up ns curr_other = None then None
      else common_ancestor_loop ns (step_up ns curr_this) (step_up ns curr_other)
             (visit curr_this my_ancestors) (visit curr_other others_ancestors))"
  by pat_completeness auto
termination
  by (relation "measure (\<lambda>(ns, t, u, _, _). opt_rank t + opt_rank u)") (simp_all add: step_up_both)

declare common_ancestor_loop.simps [simp del]

definition common_exec_ancestor :: "exec_node list \<Rightarrow> nat \<Rightarrow> nat option \<Rightarrow> nat option" where
  "common_exec_ancestor ns i other = common_ancestor_loop ns (Some i) other [] []"

section \<open>Disabling shortcutting\<close>

definition recorders_of :: "exec_node \<Rightarrow> nat list" where
  "recorders_of n = concat (map (\<lambda>f. case if_recorder f of Some r \<Rightarrow> [r] | None \<Rightarrow> []) (en_inherited_files n))"

definition disable_shortcutting_only_this :: "exec_state \<Rightarrow> nat \<Rightarrow> string \<Rightarrow> nat option \<Rightarrow> exec_state" where
  "disable_shortcutting_only_this s i reason p =
     (if en_can_shortcut (node s i) then
        (set_node i ((node s i)\<lparr>en_can_shortcut := False, en_reason := Some reason,
                       en_reason_proc := Some (case p of Some q \<Rightarrow> q | None \<Rightarrow> i)\<rparr>) s)
          \<lparr>x_recorders := (\<lambda>r. if List.member (recorders_of (node s i)) r then False else x_recorders s r)\<rparr>
      else s)"

text \<open>
  The last argument is \<open>None\<close> while \<open>shortcutable_ancestor_is_set\<close> is false.
\<close>

function disable_shortcutting_bubble_up_to_excl ::
    "exec_state \<Rightarrow> nat \<Rightarrow> nat option \<Rightarrow> string \<Rightarrow> nat option \<Rightarrow> nat option option \<Rightarrow> exec_state" where
  "disable_shortcutting_bubble_up_to_excl s i stop reason p ancestor =
     (if Some i = stop then s
      else
        let src = (case p of None \<Rightarrow> i | Some q \<Rightarrow> q);
            s1 = disable_shortcutting_only_this s i reason (Some src)
        in case next_shortcutable_ancestor s1 i of
             (s2, None) \<Rightarrow> s2
           | (s2, Some _) \<Rightarrow>
               (let shortcutable_ancestor =
                      (case ancestor of Some a \<Rightarrow> a | None \<Rightarrow> closest_shortcutable (x_nodes s2) stop);
                    s3 = set_node i ((node s2 i)\<lparr>en_ancestor := shortcutable_ancestor\<rparr>) s2
                in case parent_exec_point (x_nodes s) i of
                     None \<Rightarrow> s3
                   | Some q \<Rightarrow>
                       disable_shortcutting_bubble_up_to_excl s3 q stop reason (Some src)
                         (Some shortcutable_ancestor)))"
  by pat_completeness auto
termination
  by (relation "measure (\<lambda>(s, i, _). i)") (auto dest: parent_less)

declare disable_shortcutting_bubble_up_to_excl.simps [simp del]

definition disable_shortcutting_bubble_up :: "exec_state \<Rightarrow> nat \<Rightarrow> string \<Rightarrow> exec_state" where
  "disable_shortcutting_bubble_up s i reason =
     disable_shortcutting_bubble_up_to_excl s i None reason None None"

section \<open>Registering file usages\<close>

lemma closest_shortcutable_rank: "closest_shortcutable ns p = Some a \<Longrightarrow> Suc a \<le> opt_rank p"
proof (induction ns p rule: closest_shortcutable.induct)
  case (2 ns b)
  show ?case
  proof (cases "en_can_shortcut (ns ! b)")
    case True
    with 2 show ?thesis by simp
  next
    case False
    with 2 have "Suc a \<le> opt_rank (maybe_ancestor ns b)" by simp
    with maybe_rank [of ns b] have "a < Suc b" by linarith
    then show ?thesis by simp
  qed
qed simp

lemma next_shortcutable_ancestor_less:
  assumes "next_shortcutable_ancestor s i = (s', Some a)"
  shows "a < i"
proof (cases "maybe_ancestor (x_nodes s) i")
  case None
  with assms show ?thesis by (simp add: next_shortcutable_ancestor_def)
next
  case (Some b)
  then have "b < i" by (simp add: maybe_ancestor_def older_less)
  moreover have "closest_shortcutable (x_nodes s) (maybe_ancestor (x_nodes s) b) = Some a \<Longrightarrow> a < b"
    using closest_shortcutable_rank [of "x_nodes s" "maybe_ancestor (x_nodes s) b" a]
      maybe_rank [of "x_nodes s" b] by linarith
  ultimately show ?thesis
    using assms Some by (auto simp: next_shortcutable_ancestor_def Let_def split: if_splits)
qed

text \<open>
  \<open>register_file_usage_update\<close> and its loop.  \<open>fu_old\<close> is \<open>None\<close> for the initial invalid pointer and
  \<open>Some None\<close> for the null pointer; file usages are interned, so comparing pointers is comparing
  values.  \<open>reg_parent\<close> registers what the update says about the parent directory of the name.  It is
  a parameter because that registration is itself a call of this function with an update that says
  nothing about a parent directory.
\<close>

definition set_usage :: "nat \<Rightarrow> string \<Rightarrow> file_usage option \<Rightarrow> exec_state \<Rightarrow> exec_state" where
  "set_usage q name fu s = set_node q ((node s q)\<lparr>en_usages := (en_usages (node s q))(name := fu)\<rparr>) s"

definition wrong_generation :: "file_usage option \<Rightarrow> file_usage_update \<Rightarrow> bool" where
  "wrong_generation fu u =
     (case fu of
        None \<Rightarrow> False
      | Some f \<Rightarrow> fu_generation f \<noteq> fuu_generation u \<and> fu_generation f + 1 \<noteq> fuu_generation u)"

definition usage_or_default :: "file_usage option \<Rightarrow> file_usage" where
  "usage_or_default fu = (case fu of None \<Rightarrow> FileUsage_of_type DONTKNOW | Some f \<Rightarrow> f)"

function register_with ::
      "(exec_state \<Rightarrow> nat \<Rightarrow> exec_state) \<Rightarrow> exec_state \<Rightarrow> nat \<Rightarrow> string \<Rightarrow> file_usage_update
         \<Rightarrow> exec_state \<times> file_usage_update \<times> bool"
  and register_loop ::
      "(exec_state \<Rightarrow> nat \<Rightarrow> exec_state) \<Rightarrow> exec_state \<Rightarrow> nat \<Rightarrow> nat \<Rightarrow> string \<Rightarrow> file_usage_update
         \<Rightarrow> file_usage option option \<Rightarrow> file_usage option \<Rightarrow> bool \<Rightarrow> exec_state \<times> file_usage_update \<times> bool" where
  "register_with reg_parent s i name u =
     (if in_ignore_location (x_locs s) name \<or> en_jobserver_fifo (node s i) = Some name then (s, u, True)
      else if \<not> en_can_shortcut (node s i) \<and> \<not> x_report s then
        (case next_shortcutable_ancestor s i of
           (s1, None) \<Rightarrow> (s1, u, True)
         | (s1, Some q) \<Rightarrow> register_loop reg_parent (reg_parent s1 q) i q name u None None True)
      else register_loop reg_parent (reg_parent s i) i i name u None None False)"
| "register_loop reg_parent s i q name u fu_old fu_new propagated =
     (if Some fu_new = fu_old then (s, u, True)
      else let fu = en_usages (node s q) name
      in if Some fu = fu_old then
           (case next_shortcutable_ancestor (set_usage q name fu_new s) q of
              (s1, None) \<Rightarrow> (s1, u, True)
            | (s1, Some q') \<Rightarrow> register_loop reg_parent s1 i q' name u fu_old fu_new True)
         else if wrong_generation fu u then
           (case next_shortcutable_ancestor
                   (disable_shortcutting_only_this s q ''A parallel process modified the file'' None) q of
              (s1, None) \<Rightarrow> (s1, u, True)
            | (s1, Some q') \<Rightarrow> register_with reg_parent s1 q' name u)
         else
           (case merge (env_of s) (x_cache s) (usage_or_default fu) u propagated of
              (db, u1, None) \<Rightarrow>
                (disable_shortcutting_bubble_up (s\<lparr>x_cache := db\<rparr>) i
                   ''Could not register unsupported file usage combination'', u1, False)
            | (db, u1, Some f) \<Rightarrow>
                (case next_shortcutable_ancestor (set_usage q name (Some f) (s\<lparr>x_cache := db\<rparr>)) q of
                   (s1, None) \<Rightarrow> (s1, u1, True)
                 | (s1, Some q') \<Rightarrow> register_loop reg_parent s1 i q' name u1 (Some fu) (Some f) True)))"
  by pat_completeness auto
termination
  by (relation "measure (\<lambda>x. case x of Inl (_, _, i, _) \<Rightarrow> 2 * i + 1 | Inr (_, _, _, q, _) \<Rightarrow> 2 * q)")
    (auto dest: next_shortcutable_ancestor_less next_shortcutable_ancestor_less [OF sym])

declare register_with.simps [simp del] register_loop.simps [simp del]

definition register_parent_directory ::
    "exec_state \<Rightarrow> nat \<Rightarrow> string \<Rightarrow> file_type \<Rightarrow> exec_state \<times> bool" where
  "register_parent_directory s i name parent_type =
     (case GetParentDir name (length name) of
        None \<Rightarrow> (s, False)
      | Some parent_dir \<Rightarrow>
          if length parent_dir = 1 \<and> cget parent_dir 0 = SLASH then (s, True)
          else (case register_with (\<lambda>s _. s) s i parent_dir
                       (FileUsageUpdate (env_of s) parent_dir parent_type False False) of
                  (s', _, ok) \<Rightarrow> (s', ok)))"

definition register_file_usage_update ::
    "exec_state \<Rightarrow> nat \<Rightarrow> string \<Rightarrow> file_usage_update \<Rightarrow> exec_state \<times> bool" where
  "register_file_usage_update s i name u =
     (case register_with
             (\<lambda>s q. if fuu_parent_type u \<noteq> DONTKNOW
                    then fst (register_parent_directory s q name (fuu_parent_type u)) else s) s i name u of
        (s', _, ok) \<Rightarrow> (s', ok))"

section \<open>Writers and generations of files\<close>

text \<open>
  The second component of a \<open>write_ofds_db_\<close> entry is the process all writers are below, null once
  two writers have no common ancestor; a common ancestor with null is null, so a null owner is never
  asked to disable anything.  The reasons are given without the names and pids the code adds to them.
\<close>

definition open_for_writing :: "exec_state \<Rightarrow> string \<Rightarrow> nat \<Rightarrow> exec_state" where
  "open_for_writing s name proc =
     (if in_ignore_location (x_locs s) name then s
      else case x_writers s name of
        Some (n, owner) \<Rightarrow>
          (let s1 = s\<lparr>x_writers := (x_writers s)(name \<mapsto> (n + 1, owner))\<rparr>
           in if Some proc \<noteq> owner \<and> en_jobserver_fifo (node s proc) \<noteq> Some name then
                (let a = common_exec_ancestor (x_nodes s) proc owner;
                     s2 = (if a \<noteq> Some proc
                           then disable_shortcutting_bubble_up_to_excl s1 proc a
                                  ''Opened for writing which file is already opened for writing'' None None
                           else s1)
                 in if a \<noteq> owner then
                      (case owner of
                         Some other \<Rightarrow>
                           disable_shortcutting_bubble_up_to_excl s2 other a
                             ''An other process opened for writing'' None None
                       | None \<Rightarrow> s2)
                        \<lparr>x_writers := (x_writers s1)(name \<mapsto> (n + 1, a))\<rparr>
                    else s2)
              else s1)
      | None \<Rightarrow>
          (let s1 = s\<lparr>x_writers := (x_writers s)(name \<mapsto> (1, Some proc))\<rparr>
           in case x_generation s name of
                Some g \<Rightarrow>
                  (let s2 = s1\<lparr>x_generation := (x_generation s)(name \<mapsto> g + 1)\<rparr>
                   in fst (register_file_usage_update s2 proc name
                             (FileUsageUpdate (env_of s2) name DONTKNOW False False)))
              | None \<Rightarrow> s1\<lparr>x_generation := (x_generation s)(name \<mapsto> 1)\<rparr>))"

definition close_for_writing :: "exec_state \<Rightarrow> string \<Rightarrow> exec_state" where
  "close_for_writing s name =
     (if in_ignore_location (x_locs s) name then s
      else case x_writers s name of
        Some (n, owner) \<Rightarrow>
          if n > 1 then s\<lparr>x_writers := (x_writers s)(name \<mapsto> (n - 1, owner))\<rparr>
          else s\<lparr>x_writers := (x_writers s)(name := None)\<rparr>
      | None \<Rightarrow> s)"

section \<open>What the cached ancestor promises\<close>

abbreviation can :: "exec_node list \<Rightarrow> nat \<Rightarrow> bool" where
  "can ns i \<equiv> en_can_shortcut (ns ! i)"

function ancestors :: "exec_node list \<Rightarrow> nat \<Rightarrow> nat list" where
  "ancestors ns i = (case parent_exec_point ns i of None \<Rightarrow> [] | Some p \<Rightarrow> p # ancestors ns p)"
  by pat_completeness auto
termination
  by (relation "measure snd") (auto dest: parent_less)

declare ancestors.simps [simp del]

definition tree_wf :: "exec_node list \<Rightarrow> bool" where
  "tree_wf ns \<longleftrightarrow> (\<forall>i < length ns. \<forall>p. en_parent (ns ! i) = Some p \<longrightarrow> p < i)"

definition anc_good :: "exec_node list \<Rightarrow> nat \<Rightarrow> nat option \<Rightarrow> bool" where
  "anc_good ns i b =
     (case b of
        None \<Rightarrow> \<forall>a \<in> set (ancestors ns i). \<not> can ns a
      | Some b \<Rightarrow> \<exists>xs ys. ancestors ns i = xs @ b # ys \<and> (\<forall>a \<in> set xs. \<not> can ns a))"

definition tree_inv :: "exec_state \<Rightarrow> bool" where
  "tree_inv s \<longleftrightarrow> tree_wf (x_nodes s) \<and>
     (\<forall>i < length (x_nodes s). anc_good (x_nodes s) i (en_ancestor (x_nodes s ! i)))"

definition nearest :: "exec_node list \<Rightarrow> nat \<Rightarrow> nat option" where
  "nearest ns i = List.find (can ns) (ancestors ns i)"

definition chain_good :: "exec_node list \<Rightarrow> nat \<Rightarrow> bool" where
  "chain_good ns i \<longleftrightarrow> (\<forall>j \<in> set (i # ancestors ns i). anc_good ns j (en_ancestor (ns ! j)))"

lemma ancestors_Some: "parent_exec_point ns i = Some p \<Longrightarrow> ancestors ns i = p # ancestors ns p"
  by (simp add: ancestors.simps)

lemma ancestors_None: "parent_exec_point ns i = None \<Longrightarrow> ancestors ns i = []"
  by (simp add: ancestors.simps)

lemma ancestors_less: "a \<in> set (ancestors ns i) \<Longrightarrow> a < i"
proof (induction i rule: less_induct)
  case (less i)
  show ?case
  proof (cases "parent_exec_point ns i")
    case None
    with less.prems show ?thesis by (simp add: ancestors_None)
  next
    case (Some p)
    then have "p < i" by (rule parent_less)
    with less Some show ?thesis by (auto simp: ancestors_Some dest: less_trans)
  qed
qed

lemma ancestors_split: "ancestors ns i = xs @ b # ys \<Longrightarrow> ys = ancestors ns b"
proof (induction xs arbitrary: i)
  case Nil
  then show ?case by (cases "parent_exec_point ns i") (auto simp: ancestors_None ancestors_Some)
next
  case (Cons x xs)
  then show ?case by (cases "parent_exec_point ns i") (auto simp: ancestors_None ancestors_Some)
qed

lemma ancestors_trans: "b \<in> set (ancestors ns i) \<Longrightarrow> \<exists>xs. ancestors ns i = xs @ b # ancestors ns b"
  using ancestors_split by (metis split_list)

lemma ancestors_subset: "b \<in> set (ancestors ns i) \<Longrightarrow> set (ancestors ns b) \<subseteq> set (ancestors ns i)"
  using ancestors_trans [of b ns i] by auto

lemma parent_wf: "tree_wf ns \<Longrightarrow> i < length ns \<Longrightarrow> parent_exec_point ns i = en_parent (ns ! i)"
  by (auto simp: tree_wf_def parent_exec_point_def older_def split: option.splits)

lemma ancestors_cong:
  assumes "tree_wf ns" "i < length ns" "length ns' = length ns"
    and "\<And>j. j < length ns \<Longrightarrow> en_parent (ns' ! j) = en_parent (ns ! j)"
  shows "ancestors ns' i = ancestors ns i"
  using assms(2)
proof (induction i rule: less_induct)
  case (less i)
  have wf': "tree_wf ns'" using assms by (auto simp: tree_wf_def)
  have p: "parent_exec_point ns' i = parent_exec_point ns i"
    using less.prems assms parent_wf [OF wf', of i] parent_wf [OF assms(1), of i] by simp
  show ?case
  proof (cases "parent_exec_point ns i")
    case None
    then show ?thesis using p by (simp add: ancestors_None)
  next
    case (Some q)
    then have "q < i" by (rule parent_less)
    with less have "ancestors ns' q = ancestors ns q" by simp
    then show ?thesis using p Some by (simp add: ancestors_Some)
  qed
qed

lemma anc_good_less: "anc_good ns i (Some b) \<Longrightarrow> b < i"
  using ancestors_less [of b ns i] by (auto simp: anc_good_def)

lemma anc_good_older: "anc_good ns i b \<Longrightarrow> older i b = b"
  using anc_good_less [of ns i] by (auto simp: older_def split: option.splits)

lemma find_append: "List.find P (xs @ ys) = (case List.find P xs of None \<Rightarrow> List.find P ys | Some x \<Rightarrow> Some x)"
  by (induction xs) auto

lemma find_none [simp]: "(\<forall>x \<in> set xs. \<not> P x) \<Longrightarrow> List.find P xs = None"
  by (simp add: find_None_iff)

lemma anc_good_nearest:
  assumes "anc_good ns i b"
  shows "nearest ns i = (case b of None \<Rightarrow> None | Some a \<Rightarrow> List.find (can ns) (a # ancestors ns a))"
proof (cases b)
  case None
  with assms show ?thesis by (simp add: anc_good_def nearest_def)
next
  case (Some a)
  with assms obtain xs ys where x: "ancestors ns i = xs @ a # ys" "\<forall>a \<in> set xs. \<not> can ns a"
    by (auto simp: anc_good_def)
  moreover have "ys = ancestors ns a" using x(1) by (rule ancestors_split)
  ultimately show ?thesis using Some by (simp add: nearest_def find_append)
qed

lemma find_Some_split: "List.find P xs = Some x \<Longrightarrow> \<exists>ys zs. xs = ys @ x # zs \<and> P x \<and> (\<forall>y \<in> set ys. \<not> P y)"
proof (induction xs)
  case (Cons y xs)
  show ?case
  proof (cases "P y")
    case True
    with Cons.prems show ?thesis by (intro exI [of _ "[]"] exI [of _ xs]) auto
  next
    case False
    with Cons obtain ys zs where "xs = ys @ x # zs" "P x" "\<forall>y \<in> set ys. \<not> P y" by auto
    with False show ?thesis by (intro exI [of _ "y # ys"] exI [of _ zs]) auto
  qed
qed simp

lemma nearest_good: "anc_good ns i (nearest ns i)"
proof (cases "nearest ns i")
  case None
  then show ?thesis by (simp add: anc_good_def nearest_def find_None_iff)
next
  case (Some b)
  then show ?thesis using find_Some_split [of "can ns" "ancestors ns i" b]
    by (auto simp: anc_good_def nearest_def)
qed

text \<open>The cached pointers lead to the closest ancestor that can be shortcut.\<close>

lemma closest_shortcutable_correct:
  assumes "\<And>j. j \<in> set (a # ancestors ns a) \<Longrightarrow> anc_good ns j (en_ancestor (ns ! j))"
  shows "closest_shortcutable ns (Some a) = List.find (can ns) (a # ancestors ns a)"
  using assms
proof (induction a rule: less_induct)
  case (less a)
  show ?case
  proof (cases "can ns a")
    case True
    then show ?thesis by simp
  next
    case False
    have g: "anc_good ns a (en_ancestor (ns ! a))" using less.prems by simp
    then have m: "maybe_ancestor ns a = en_ancestor (ns ! a)"
      by (simp add: maybe_ancestor_def anc_good_older)
    have n: "List.find (can ns) (a # ancestors ns a) = nearest ns a" using False by (simp add: nearest_def)
    show ?thesis
    proof (cases "en_ancestor (ns ! a)")
      case None
      then show ?thesis using anc_good_nearest [OF g] m n False by simp
    next
      case (Some b)
      then have "b \<in> set (ancestors ns a)" using g by (auto simp: anc_good_def)
      then have "b < a" "set (b # ancestors ns b) \<subseteq> set (ancestors ns a)"
        by (auto intro: ancestors_less dest: ancestors_subset)
      then have "closest_shortcutable ns (Some b) = List.find (can ns) (b # ancestors ns b)"
        using less.IH less.prems by (metis list.set_intros(2) subsetD)
      then show ?thesis using anc_good_nearest [OF g] m n False Some by simp
    qed
  qed
qed

text \<open>Changes of nodes that keep the shape of the tree.\<close>

definition same_shape :: "exec_state \<Rightarrow> exec_state \<Rightarrow> bool" where
  "same_shape s s' \<longleftrightarrow>
     x_report s' = x_report s \<and> x_locs s' = x_locs s \<and> x_os s' = x_os s \<and> x_errno s' = x_errno s \<and>
     x_writers s' = x_writers s \<and> x_generation s' = x_generation s \<and>
     length (x_nodes s') = length (x_nodes s) \<and>
     (\<forall>j < length (x_nodes s). en_parent (x_nodes s' ! j) = en_parent (x_nodes s ! j) \<and>
        en_jobserver_fifo (x_nodes s' ! j) = en_jobserver_fifo (x_nodes s ! j) \<and>
        en_inherited_files (x_nodes s' ! j) = en_inherited_files (x_nodes s ! j))"

definition same_usages :: "exec_state \<Rightarrow> exec_state \<Rightarrow> bool" where
  "same_usages s s' \<longleftrightarrow> x_cache s' = x_cache s \<and>
     (\<forall>j < length (x_nodes s). en_usages (x_nodes s' ! j) = en_usages (x_nodes s ! j))"

lemma same_shape_refl [simp]: "same_shape s s" "same_usages s s"
  by (simp_all add: same_shape_def same_usages_def)

lemma same_shape_trans: "same_shape s t \<Longrightarrow> same_shape t u \<Longrightarrow> same_shape s u"
  by (simp add: same_shape_def)

lemma same_usages_trans: "same_shape s t \<Longrightarrow> same_usages s t \<Longrightarrow> same_usages t u \<Longrightarrow> same_usages s u"
  by (simp add: same_shape_def same_usages_def)

lemma same_shape_wf: "same_shape s s' \<Longrightarrow> tree_wf (x_nodes s) \<Longrightarrow> tree_wf (x_nodes s')"
  by (simp add: same_shape_def tree_wf_def)

lemma same_shape_ancestors:
  "same_shape s s' \<Longrightarrow> tree_wf (x_nodes s) \<Longrightarrow> i < length (x_nodes s) \<Longrightarrow>
   ancestors (x_nodes s') i = ancestors (x_nodes s) i"
  by (rule ancestors_cong) (simp_all add: same_shape_def)

lemma same_shape_env [simp]: "same_shape s s' \<Longrightarrow> env_of s' = env_of s"
  by (simp add: same_shape_def env_of_def writers_count_def [abs_def] generation_def [abs_def])

lemma node_set_node:
  "i < length (x_nodes s) \<Longrightarrow> x_nodes (set_node i n s) ! j = (if j = i then n else x_nodes s ! j)"
  by (simp add: set_node_def nth_list_update)

lemma anc_good_mono:
  assumes "tree_wf (x_nodes s)" "same_shape s s'" "i < length (x_nodes s)" "anc_good (x_nodes s) i b"
    and "\<And>j. j < length (x_nodes s) \<Longrightarrow> can (x_nodes s') j \<Longrightarrow> can (x_nodes s) j"
  shows "anc_good (x_nodes s') i b"
proof -
  have *: "j < length (x_nodes s)" if "j \<in> set (ancestors (x_nodes s) i)" for j
    using ancestors_less [OF that] assms(3) by simp
  show ?thesis
  proof (cases b)
    case None
    then show ?thesis using assms(4,5) * same_shape_ancestors [OF assms(2,1,3)]
      by (auto simp: anc_good_def)
  next
    case (Some a)
    with assms(4) obtain xs ys where x: "ancestors (x_nodes s) i = xs @ a # ys" "\<forall>a \<in> set xs. \<not> can (x_nodes s) a"
      by (auto simp: anc_good_def)
    with * assms(5) have "\<forall>a \<in> set xs. \<not> can (x_nodes s') a" by auto
    then show ?thesis using x(1) same_shape_ancestors [OF assms(2,1,3)] Some by (auto simp: anc_good_def)
  qed
qed

lemma next_shortcutable_ancestor_law:
  assumes "tree_wf (x_nodes s)" "i < length (x_nodes s)"
    and "chain_good (x_nodes s) i"
  shows "snd (next_shortcutable_ancestor s i) = nearest (x_nodes s) i \<and>
    (fst (next_shortcutable_ancestor s i) = s \<or>
     fst (next_shortcutable_ancestor s i) =
       set_node i ((node s i)\<lparr>en_ancestor := nearest (x_nodes s) i\<rparr>) s)"
proof -
  let ?ns = "x_nodes s"
  have g: "anc_good ?ns i (en_ancestor (?ns ! i))" using assms(3) by (simp add: chain_good_def)
  have m: "maybe_ancestor ?ns i = en_ancestor (?ns ! i)"
    using g by (simp add: maybe_ancestor_def anc_good_older)
  show ?thesis
  proof (cases "en_ancestor (?ns ! i)")
    case None
    then show ?thesis using anc_good_nearest [OF g] m by (simp add: next_shortcutable_ancestor_def)
  next
    case (Some a)
    have a: "a \<in> set (ancestors ?ns i)" using g Some by (auto simp: anc_good_def)
    have n: "nearest ?ns i = List.find (can ?ns) (a # ancestors ?ns a)"
      using anc_good_nearest [OF g] Some by simp
    show ?thesis
    proof (cases "can ?ns a")
      case True
      then show ?thesis using Some m n by (simp add: next_shortcutable_ancestor_def node_def)
    next
      case False
      have "closest_shortcutable ?ns (Some a) = List.find (can ?ns) (a # ancestors ?ns a)"
        using assms(3) a ancestors_subset [OF a]
        by (intro closest_shortcutable_correct) (auto simp: chain_good_def)
      then show ?thesis using Some m n False
        by (simp add: next_shortcutable_ancestor_def node_def Let_def)
    qed
  qed
qed

lemma set_ancestor_law:
  assumes "tree_wf (x_nodes s)" "i < length (x_nodes s)"
  shows "same_shape s (set_node i ((node s i)\<lparr>en_ancestor := b\<rparr>) s)"
    "same_usages s (set_node i ((node s i)\<lparr>en_ancestor := b\<rparr>) s)"
    "j < length (x_nodes s) \<Longrightarrow>
       can (x_nodes (set_node i ((node s i)\<lparr>en_ancestor := b\<rparr>) s)) j = can (x_nodes s) j"
    "j < length (x_nodes s) \<Longrightarrow>
       en_ancestor (x_nodes (set_node i ((node s i)\<lparr>en_ancestor := b\<rparr>) s) ! j) =
         (if j = i then b else en_ancestor (x_nodes s ! j))"
    "x_recorders (set_node i ((node s i)\<lparr>en_ancestor := b\<rparr>) s) = x_recorders s"
    "j < length (x_nodes s) \<Longrightarrow>
       en_reason (x_nodes (set_node i ((node s i)\<lparr>en_ancestor := b\<rparr>) s) ! j) = en_reason (x_nodes s ! j)"
  using assms
  by (auto simp: same_shape_def same_usages_def set_node_def node_def nth_list_update)

lemma disable_only_this_law:
  assumes "i < length (x_nodes s)"
  shows "same_shape s (disable_shortcutting_only_this s i reason p)"
    "same_usages s (disable_shortcutting_only_this s i reason p)"
    "j < length (x_nodes s) \<Longrightarrow>
       can (x_nodes (disable_shortcutting_only_this s i reason p)) j = (can (x_nodes s) j \<and> j \<noteq> i)"
    "j < length (x_nodes s) \<Longrightarrow>
       en_ancestor (x_nodes (disable_shortcutting_only_this s i reason p) ! j) = en_ancestor (x_nodes s ! j)"
  using assms
  by (auto simp: disable_shortcutting_only_this_def same_shape_def same_usages_def set_node_def node_def
      nth_list_update)

lemma length_set_node [simp]: "length (x_nodes (set_node i n s)) = length (x_nodes s)"
  by (simp add: set_node_def)

lemma same_shape_length: "same_shape s s' \<Longrightarrow> length (x_nodes s') = length (x_nodes s)"
  by (simp add: same_shape_def)

text \<open>All of \<open>next_shortcutable_ancestor\<close> in one rule: it may only move the cached pointer of \<open>i\<close>.\<close>

lemma next_shortcutable_ancestor_frame:
  assumes "tree_wf (x_nodes s)" "i < length (x_nodes s)"
    and "chain_good (x_nodes s) i"
    and "next_shortcutable_ancestor s i = (s', r)"
  shows "r = nearest (x_nodes s) i" "same_shape s s'" "same_usages s s'"
    "\<And>j. j < length (x_nodes s) \<Longrightarrow> can (x_nodes s') j = can (x_nodes s) j"
    "\<And>j. j < length (x_nodes s) \<Longrightarrow> j \<noteq> i \<Longrightarrow> en_ancestor (x_nodes s' ! j) = en_ancestor (x_nodes s ! j)"
    "anc_good (x_nodes s') i (en_ancestor (x_nodes s' ! i))"
proof -
  let ?n = "set_node i ((node s i)\<lparr>en_ancestor := nearest (x_nodes s) i\<rparr>) s"
  have l: "r = nearest (x_nodes s) i" "s' = s \<or> s' = ?n"
    using next_shortcutable_ancestor_law [OF assms(1-3)] assms(4) by auto
  note u = set_ancestor_law [OF assms(1,2), where b = "nearest (x_nodes s) i"]
  have g: "anc_good (x_nodes ?n) i (nearest (x_nodes s) i)"
    using anc_good_mono [OF assms(1) u(1) assms(2) nearest_good] u(3) by simp
  show "r = nearest (x_nodes s) i" by (fact l)
  show "same_shape s s'" "same_usages s s'"
    "\<And>j. j < length (x_nodes s) \<Longrightarrow> can (x_nodes s') j = can (x_nodes s) j"
    "\<And>j. j < length (x_nodes s) \<Longrightarrow> j \<noteq> i \<Longrightarrow> en_ancestor (x_nodes s' ! j) = en_ancestor (x_nodes s ! j)"
    using l u by auto
  show "anc_good (x_nodes s') i (en_ancestor (x_nodes s' ! i))"
    using l(2) g u(4) [OF assms(2)] assms(3) by (auto simp: chain_good_def)
qed

text \<open>The processes that bubbling up to (excluding) \<open>stop\<close> disables.\<close>

definition below :: "exec_node list \<Rightarrow> nat \<Rightarrow> nat option \<Rightarrow> nat set" where
  "below ns i stop = set (takeWhile (\<lambda>a. Some a \<noteq> stop) (i # ancestors ns i))"

definition from_stop :: "exec_node list \<Rightarrow> nat option \<Rightarrow> nat list" where
  "from_stop ns stop = (case stop of None \<Rightarrow> [] | Some t \<Rightarrow> t # ancestors ns t)"

definition stop_ok :: "exec_node list \<Rightarrow> nat \<Rightarrow> nat option \<Rightarrow> bool" where
  "stop_ok ns i stop \<longleftrightarrow> (case stop of None \<Rightarrow> True | Some t \<Rightarrow> t \<in> set (i # ancestors ns i))"

lemma below_stop [simp]: "below ns i (Some i) = {}"
  by (simp add: below_def)

lemma below_parent:
  "Some i \<noteq> stop \<Longrightarrow> parent_exec_point ns i = Some q \<Longrightarrow> below ns i stop = insert i (below ns q stop)"
  by (simp add: below_def ancestors_Some)

lemma below_subset: "below ns i stop \<subseteq> set (i # ancestors ns i)"
  unfolding below_def using set_takeWhileD by fastforce

lemma below_self: "Some i \<noteq> stop \<Longrightarrow> i \<in> below ns i stop"
  by (simp add: below_def)

lemma closest_above:
  assumes "\<And>j. j \<in> set (from_stop ns stop) \<Longrightarrow> anc_good ns j (en_ancestor (ns ! j))"
  shows "closest_shortcutable ns stop = List.find (can ns) (from_stop ns stop)"
  using assms closest_shortcutable_correct by (cases stop) (auto simp: from_stop_def)

lemma find_cong': "(\<And>x. x \<in> set xs \<Longrightarrow> P x = Q x) \<Longrightarrow> List.find P xs = List.find Q xs"
  by (induction xs) auto

text \<open>
  While bubbling up, the processes already visited (\<open>B\<close>) may point past processes that are still to
  be disabled; all other pointers are good.
\<close>

definition bubble_pre :: "exec_state \<Rightarrow> nat \<Rightarrow> nat option \<Rightarrow> nat option option \<Rightarrow> nat set \<Rightarrow> bool" where
  "bubble_pre s i stop ancestor B \<longleftrightarrow>
     tree_wf (x_nodes s) \<and> i < length (x_nodes s) \<and> stop_ok (x_nodes s) i stop \<and>
     (\<forall>j < length (x_nodes s). j \<notin> B \<longrightarrow> anc_good (x_nodes s) j (en_ancestor (x_nodes s ! j))) \<and>
     (\<forall>j \<in> B. j < length (x_nodes s) \<and> ancestor = Some (en_ancestor (x_nodes s ! j)) \<and>
        (\<exists>xs. ancestors (x_nodes s) j = xs @ i # ancestors (x_nodes s) i \<and> (\<forall>a \<in> set xs. \<not> can (x_nodes s) a))) \<and>
     (\<forall>a. ancestor = Some a \<longrightarrow> a = List.find (can (x_nodes s)) (from_stop (x_nodes s) stop))"

definition bubble_post :: "exec_state \<Rightarrow> nat \<Rightarrow> nat option \<Rightarrow> exec_state \<Rightarrow> bool" where
  "bubble_post s i stop s' \<longleftrightarrow>
     same_shape s s' \<and> same_usages s s' \<and> tree_inv s' \<and>
     (\<forall>j < length (x_nodes s). can (x_nodes s') j \<longleftrightarrow> can (x_nodes s) j \<and> j \<notin> below (x_nodes s) i stop)"

lemma above_subset: "stop_ok ns i stop \<Longrightarrow> Some i \<noteq> stop \<Longrightarrow> set (from_stop ns stop) \<subseteq> set (ancestors ns i)"
  using ancestors_subset [of "the stop" ns i] by (auto simp: stop_ok_def from_stop_def split: option.splits)

lemma split_good:
  assumes "ancestors ns j = xs @ i # ancestors ns i" "\<forall>a \<in> set xs. \<not> can ns a"
  shows "\<not> can ns i \<Longrightarrow> anc_good ns i b \<Longrightarrow> anc_good ns j b"
    "can ns i \<Longrightarrow> anc_good ns j (Some i)"
proof -
  assume i: "\<not> can ns i" and g: "anc_good ns i b"
  show "anc_good ns j b"
  proof (cases b)
    case None
    then show ?thesis using assms i g by (auto simp: anc_good_def)
  next
    case (Some c)
    with g obtain us vs where "ancestors ns i = us @ c # vs" "\<forall>a \<in> set us. \<not> can ns a" by (auto simp: anc_good_def)
    with assms i have "ancestors ns j = (xs @ i # us) @ c # vs" "\<forall>a \<in> set (xs @ i # us). \<not> can ns a" by auto
    then show ?thesis unfolding anc_good_def Some option.case by blast
  qed
next
  assume "can ns i"
  then show "anc_good ns j (Some i)" using assms by (auto simp: anc_good_def)
qed

lemma find_from: "List.find (can ns) (i # ancestors ns i) = (if can ns i then Some i else nearest ns i)"
  by (simp add: nearest_def)

lemma bubble_stop:
  assumes "bubble_pre s i (Some i) ancestor B"
  shows "bubble_post s i (Some i) s"
proof -
  let ?ns = "x_nodes s"
  have "anc_good ?ns j (en_ancestor (?ns ! j))" if j: "j < length ?ns" for j
  proof (cases "j \<in> B")
    case False
    then show ?thesis using assms j by (simp add: bubble_pre_def)
  next
    case True
    with assms obtain xs where x: "ancestors ?ns j = xs @ i # ancestors ?ns i" "\<forall>a \<in> set xs. \<not> can ?ns a"
      by (auto simp: bubble_pre_def)
    have "en_ancestor (?ns ! j) = List.find (can ?ns) (i # ancestors ?ns i)"
      using assms True unfolding bubble_pre_def from_stop_def by (simp del: find.simps)
    then show ?thesis using split_good [OF x] nearest_good [of ?ns i] unfolding find_from by (simp split: if_splits)
  qed
  then show ?thesis using assms by (simp add: bubble_post_def bubble_pre_def tree_inv_def)
qed


text \<open>Disabling \<open>i\<close> and asking for its closest shortcutable ancestor.\<close>

definition visited_post :: "exec_state \<Rightarrow> nat \<Rightarrow> exec_state \<Rightarrow> nat option \<Rightarrow> bool" where
  "visited_post s i s2 r \<longleftrightarrow>
     same_shape s s2 \<and> same_usages s s2 \<and> r = nearest (x_nodes s2) i \<and>
     (\<forall>j < length (x_nodes s). can (x_nodes s2) j \<longleftrightarrow> can (x_nodes s) j \<and> j \<noteq> i) \<and>
     (\<forall>j < length (x_nodes s). j \<noteq> i \<longrightarrow> en_ancestor (x_nodes s2 ! j) = en_ancestor (x_nodes s ! j)) \<and>
     anc_good (x_nodes s2) i (en_ancestor (x_nodes s2 ! i))"

lemma bubble_visit:
  assumes wf: "tree_wf (x_nodes s)" and il: "i < length (x_nodes s)"
    and g: "chain_good (x_nodes s) i"
    and n: "next_shortcutable_ancestor (disable_shortcutting_only_this s i reason p) i = (s2, r)"
  shows "visited_post s i s2 r"
proof -
  let ?s1 = "disable_shortcutting_only_this s i reason p"
  note d = disable_only_this_law [OF il, where reason = reason and p = p]
  have il1: "i < length (x_nodes ?s1)" using il same_shape_length [OF d(1)] by simp
  have wf1: "tree_wf (x_nodes ?s1)" using same_shape_wf [OF d(1) wf] .
  have "anc_good (x_nodes ?s1) j (en_ancestor (x_nodes ?s1 ! j))"
    if j: "j \<in> set (i # ancestors (x_nodes ?s1) i)" for j
  proof -
    have j': "j \<in> set (i # ancestors (x_nodes s) i)" using j same_shape_ancestors [OF d(1) wf il] by simp
    then have jl: "j < length (x_nodes s)" using ancestors_less [of j "x_nodes s" i] il by auto
    have "anc_good (x_nodes s) j (en_ancestor (x_nodes s ! j))" using g j' by (auto simp: chain_good_def)
    from anc_good_mono [OF wf d(1) jl this] show ?thesis using d(3,4) jl by simp
  qed
  then have g1: "chain_good (x_nodes ?s1) i" by (simp add: chain_good_def)
  note f = next_shortcutable_ancestor_frame [OF wf1 il1 g1 n]
  have l: "length (x_nodes ?s1) = length (x_nodes s)" by (rule same_shape_length [OF d(1)])
  have "nearest (x_nodes s2) i = nearest (x_nodes ?s1) i"
    unfolding nearest_def same_shape_ancestors [OF f(2) wf1 il1]
    by (rule find_cong') (use f(4) ancestors_less [of _ "x_nodes ?s1" i] il1 in fastforce)
  then show ?thesis
    using f d l same_shape_trans [OF d(1) f(2)] same_usages_trans [OF d(1,2) f(3)]
    by (simp add: visited_post_def)
qed

lemma visited_post_good:
  assumes "visited_post s i s2 r" "tree_wf (x_nodes s)" "j < length (x_nodes s)" "j \<noteq> i"
    and "anc_good (x_nodes s) j (en_ancestor (x_nodes s ! j))"
  shows "anc_good (x_nodes s2) j (en_ancestor (x_nodes s2 ! j))"
  using assms anc_good_mono [of s s2 j "en_ancestor (x_nodes s ! j)"] by (simp add: visited_post_def)

lemma bubble_pre_good:
  assumes "bubble_pre s i stop ancestor B"
  shows "chain_good (x_nodes s) i"
  unfolding chain_good_def
proof
  fix j assume "j \<in> set (i # ancestors (x_nodes s) i)"
  note assms = assms this
  have le: "j \<le> i" using assms(2) ancestors_less [of j "x_nodes s" i] by auto
  have "j \<notin> B"
  proof
    assume "j \<in> B"
    with assms(1) obtain xs where "ancestors (x_nodes s) j = xs @ i # ancestors (x_nodes s) i"
      by (auto simp: bubble_pre_def)
    then have "i < j" using ancestors_less [of i "x_nodes s" j] by simp
    with le show False by simp
  qed
  with assms(1) le show "anc_good (x_nodes s) j (en_ancestor (x_nodes s ! j))" by (simp add: bubble_pre_def)
qed

lemma bubble_last:
  assumes pre: "bubble_pre s i stop ancestor B" and i: "Some i \<noteq> stop"
    and v: "visited_post s i s2 None"
  shows "bubble_post s i stop s2"
proof -
  let ?ns = "x_nodes s"
  have wf: "tree_wf ?ns" and il: "i < length ?ns" using pre by (simp_all add: bubble_pre_def)
  have sh: "same_shape s s2" using v by (simp add: visited_post_def)
  have a2: "ancestors (x_nodes s2) j = ancestors ?ns j" if "j < length ?ns" for j
    using same_shape_ancestors [OF sh wf that] .
  have none: "\<not> can ?ns a" if a: "a \<in> set (ancestors ?ns i)" for a
  proof -
    have "nearest (x_nodes s2) i = None" using v by (simp add: visited_post_def)
    then have "\<not> can (x_nodes s2) a" using a a2 [OF il] by (auto simp: nearest_def find_None_iff)
    then show ?thesis using v ancestors_less [OF a] il by (simp add: visited_post_def)
  qed
  have c2: "can (x_nodes s2) j \<longleftrightarrow> can ?ns j \<and> j \<notin> below ?ns i stop" if "j < length ?ns" for j
    using v that none below_subset [of ?ns i stop] below_self [OF i] by (auto simp: visited_post_def)
  have "anc_good (x_nodes s2) j (en_ancestor (x_nodes s2 ! j))" if j: "j < length ?ns" for j
  proof (cases "j \<in> B \<and> j \<noteq> i")
    case False
    then show ?thesis
      using pre v j visited_post_good [OF v wf j] by (cases "j = i") (auto simp: bubble_pre_def visited_post_def)
  next
    case True
    with pre obtain xs where x: "ancestors ?ns j = xs @ i # ancestors ?ns i" "\<forall>a \<in> set xs. \<not> can ?ns a"
      and e: "ancestor = Some (en_ancestor (?ns ! j))" by (auto simp: bubble_pre_def)
    have "en_ancestor (?ns ! j) = List.find (can ?ns) (from_stop ?ns stop)" using pre e by (simp add: bubble_pre_def)
    also have "\<dots> = None" using none above_subset [of ?ns i stop] pre i by (auto simp: bubble_pre_def find_None_iff)
    finally have "en_ancestor (x_nodes s2 ! j) = None" using v j True by (simp add: visited_post_def)
    moreover have "\<not> can (x_nodes s2) a" if "a \<in> set (ancestors ?ns j)" for a
      using that x none v ancestors_less [OF that] j by (auto simp: visited_post_def)
    ultimately show ?thesis using a2 [OF j] by (simp add: anc_good_def)
  qed
  then show ?thesis using sh v c2 same_shape_wf [OF sh wf] same_shape_length [OF sh]
    by (simp add: bubble_post_def tree_inv_def visited_post_def)
qed

lemma bubble_step:
  assumes pre: "bubble_pre s i stop ancestor B" and i: "Some i \<noteq> stop"
    and v: "visited_post s i s2 (Some r)"
    and sa: "sa = (case ancestor of Some a \<Rightarrow> a | None \<Rightarrow> closest_shortcutable (x_nodes s2) stop)"
    and s3: "s3 = set_node i ((node s2 i)\<lparr>en_ancestor := sa\<rparr>) s2"
    and q: "parent_exec_point (x_nodes s) i = Some q"
  shows "bubble_pre s3 q stop (Some sa) (insert i B)" "same_shape s s3" "same_usages s s3"
    "\<forall>j < length (x_nodes s). can (x_nodes s3) j \<longleftrightarrow> can (x_nodes s) j \<and> j \<noteq> i"
proof -
  let ?ns = "x_nodes s"
  have wf: "tree_wf ?ns" and il: "i < length ?ns" and st: "stop_ok ?ns i stop"
    using pre by (simp_all add: bubble_pre_def)
  have sh: "same_shape s s2" using v by (simp add: visited_post_def)
  have wf2: "tree_wf (x_nodes s2)" and il2: "i < length (x_nodes s2)"
    using same_shape_wf [OF sh wf] same_shape_length [OF sh] il by simp_all
  note u = set_ancestor_law [OF wf2 il2, where b = sa, folded s3]
  show sh3: "same_shape s s3" using same_shape_trans [OF sh u(1)] .
  show "same_usages s s3" using same_usages_trans [OF sh _ u(2)] v by (simp add: visited_post_def)
  have l3: "length (x_nodes s3) = length ?ns" using same_shape_length [OF sh3] .
  show can3: "\<forall>j < length ?ns. can (x_nodes s3) j \<longleftrightarrow> can ?ns j \<and> j \<noteq> i"
    using v u(3) same_shape_length [OF sh] by (simp add: visited_post_def)
  have anc3: "ancestors (x_nodes s3) j = ancestors ?ns j" if "j < length ?ns" for j
    using same_shape_ancestors [OF sh3 wf that] .
  have ai: "ancestors ?ns i = q # ancestors ?ns q" using q by (rule ancestors_Some)
  have qi: "q < i" using q by (rule parent_less)
  have above3: "from_stop (x_nodes s3) stop = from_stop ?ns stop" "from_stop (x_nodes s2) stop = from_stop ?ns stop"
    "set (from_stop ?ns stop) \<subseteq> set (ancestors ?ns i)"
  proof -
    show sub: "set (from_stop ?ns stop) \<subseteq> set (ancestors ?ns i)" using above_subset [OF st i] .
    show "from_stop (x_nodes s3) stop = from_stop ?ns stop"
      using sub anc3 ancestors_less [of "the stop" ?ns i] il by (cases stop) (auto simp: from_stop_def)
    show "from_stop (x_nodes s2) stop = from_stop ?ns stop"
      using sub same_shape_ancestors [OF sh wf] ancestors_less [of "the stop" ?ns i] il
      by (cases stop) (auto simp: from_stop_def)
  qed
  have lt: "a < i" "a < length ?ns" if "a \<in> set (from_stop ?ns stop)" for a
    using that above3(3) ancestors_less [of a ?ns i] il by auto
  have find3: "List.find (can (x_nodes s3)) (from_stop ?ns stop) = List.find (can ?ns) (from_stop ?ns stop)"
    using can3 lt by (intro find_cong') auto
  have sa': "sa = List.find (can ?ns) (from_stop ?ns stop)"
  proof (cases ancestor)
    case (Some a)
    then show ?thesis using sa pre by (simp add: bubble_pre_def)
  next
    case None
    have "anc_good (x_nodes s2) j (en_ancestor (x_nodes s2 ! j))" if j: "j \<in> set (from_stop ?ns stop)" for j
      using visited_post_good [OF v wf lt(2) [OF j]] lt(1) [OF j] bubble_pre_good [OF pre] above3(3) j
      by (auto simp: chain_good_def)
    then have "closest_shortcutable (x_nodes s2) stop = List.find (can (x_nodes s2)) (from_stop ?ns stop)"
      using closest_above [of "x_nodes s2" stop] above3(2) by simp
    also have "\<dots> = List.find (can ?ns) (from_stop ?ns stop)"
      using v lt by (intro find_cong') (auto simp: visited_post_def)
    finally show ?thesis using None sa by simp
  qed
  have good: "anc_good (x_nodes s3) j (en_ancestor (x_nodes s3 ! j))" if j: "j < length ?ns" "j \<notin> insert i B" for j
  proof -
    have "anc_good (x_nodes s2) j (en_ancestor (x_nodes s2 ! j))"
      using visited_post_good [OF v wf j(1)] pre j by (simp add: bubble_pre_def)
    then have "anc_good (x_nodes s3) j (en_ancestor (x_nodes s2 ! j))"
      using anc_good_mono [OF wf2 u(1)] u(3) j(1) same_shape_length [OF sh] by simp
    then show ?thesis using u(4) j same_shape_length [OF sh] by simp
  qed
  have visitedB: "Some sa = Some (en_ancestor (x_nodes s3 ! j)) \<and>
      (\<exists>xs. ancestors (x_nodes s3) j = xs @ q # ancestors (x_nodes s3) q \<and> (\<forall>a \<in> set xs. \<not> can (x_nodes s3) a))"
    if j: "j \<in> insert i B" "j < length ?ns" for j
  proof (cases "j = i")
    case True
    then show ?thesis using u(4) [OF il2] anc3 [OF il] anc3 [of q] ai qi il by (auto intro: exI [of _ "[]"])
  next
    case False
    with j pre obtain xs where x: "ancestors ?ns j = xs @ i # ancestors ?ns i" "\<forall>a \<in> set xs. \<not> can ?ns a"
      and e: "ancestor = Some (en_ancestor (?ns ! j))" by (auto simp: bubble_pre_def)
    have "en_ancestor (x_nodes s3 ! j) = en_ancestor (?ns ! j)"
      using u(4) [of j] v j False same_shape_length [OF sh] by (simp add: visited_post_def)
    then have 1: "sa = en_ancestor (x_nodes s3 ! j)" using e sa by simp
    have "a < length ?ns" if "a \<in> set (xs @ [i])" for a
      using that x ancestors_less [of a ?ns j] j(2) by auto
    with x can3 have "\<forall>a \<in> set (xs @ [i]). \<not> can (x_nodes s3) a" by auto
    moreover have "ancestors (x_nodes s3) j = (xs @ [i]) @ q # ancestors (x_nodes s3) q"
      using anc3 [OF j(2)] anc3 [of q] qi il x(1) ai by simp
    ultimately show ?thesis using 1 by blast
  qed
  have "stop_ok (x_nodes s3) q stop"
    using st i anc3 [of q] qi il ai by (cases stop) (auto simp: stop_ok_def)
  moreover have lB: "j < length ?ns" if "j \<in> insert i B" for j using that pre il by (auto simp: bubble_pre_def)
  moreover have "\<forall>j \<in> insert i B. j < length (x_nodes s3) \<and> Some sa = Some (en_ancestor (x_nodes s3 ! j)) \<and>
      (\<exists>xs. ancestors (x_nodes s3) j = xs @ q # ancestors (x_nodes s3) q \<and> (\<forall>a \<in> set xs. \<not> can (x_nodes s3) a))"
    unfolding l3 using visitedB lB by blast
  moreover have "\<forall>j < length (x_nodes s3). j \<notin> insert i B \<longrightarrow> anc_good (x_nodes s3) j (en_ancestor (x_nodes s3 ! j))"
    unfolding l3 using good by blast
  moreover have "\<forall>a. Some sa = Some a \<longrightarrow> a = List.find (can (x_nodes s3)) (from_stop (x_nodes s3) stop)"
    using find3 sa' above3(1) by simp
  moreover have "q < length (x_nodes s3)" using qi il l3 by simp
  ultimately show "bubble_pre s3 q stop (Some sa) (insert i B)"
    unfolding bubble_pre_def using same_shape_wf [OF sh3 wf] by blast
qed

lemma bubble_law:
  assumes "bubble_pre s i stop ancestor B"
  shows "bubble_post s i stop (disable_shortcutting_bubble_up_to_excl s i stop reason p ancestor)"
  using assms
proof (induction i arbitrary: s p ancestor B rule: less_induct)
  case (less i)
  show ?case
  proof (cases "Some i = stop")
    case True
    then show ?thesis using bubble_stop [of s i ancestor B] less.prems
      by (simp add: disable_shortcutting_bubble_up_to_excl.simps)
  next
    case False
    let ?src = "case p of None \<Rightarrow> i | Some q \<Rightarrow> q"
    obtain s2 r where n: "next_shortcutable_ancestor (disable_shortcutting_only_this s i reason (Some ?src)) i = (s2, r)"
      by fastforce
    have v: "visited_post s i s2 r"
      using bubble_visit [OF _ _ bubble_pre_good [OF less.prems] n] less.prems by (simp add: bubble_pre_def)
    show ?thesis
    proof (cases r)
      case None
      then show ?thesis using bubble_last [OF less.prems False] v n False
        by (simp add: disable_shortcutting_bubble_up_to_excl.simps [of s i])
    next
      case (Some b)
      define sa where "sa = (case ancestor of Some a \<Rightarrow> a | None \<Rightarrow> closest_shortcutable (x_nodes s2) stop)"
      define s3 where "s3 = set_node i ((node s2 i)\<lparr>en_ancestor := sa\<rparr>) s2"
      have sh: "same_shape s s2" and b: "nearest (x_nodes s2) i = Some b"
        using v Some by (auto simp: visited_post_def)
      have "ancestors (x_nodes s) i \<noteq> []"
        using b same_shape_ancestors [OF sh] less.prems by (auto simp: nearest_def bubble_pre_def)
      then obtain q where q: "parent_exec_point (x_nodes s) i = Some q"
        by (cases "parent_exec_point (x_nodes s) i") (auto simp: ancestors_None)
      note st = bubble_step [OF less.prems False v [unfolded Some] sa_def s3_def q]
      have "bubble_post s3 q stop
          (disable_shortcutting_bubble_up_to_excl s3 q stop reason (Some ?src) (Some sa))"
        using less.IH [OF parent_less [OF q] st(1)] .
      moreover have "below (x_nodes s3) q stop = below (x_nodes s) q stop"
        using same_shape_ancestors [OF st(2), of q] parent_less [OF q] less.prems
        by (simp add: below_def bubble_pre_def)
      ultimately have "bubble_post s i stop
          (disable_shortcutting_bubble_up_to_excl s3 q stop reason (Some ?src) (Some sa))"
        using st(2-4) below_parent [OF False q] same_shape_length [OF st(2)]
        by (auto simp: bubble_post_def intro: same_shape_trans same_usages_trans)
      then show ?thesis using n False Some q
        by (simp add: disable_shortcutting_bubble_up_to_excl.simps [of s i] Let_def sa_def s3_def)
    qed
  qed
qed

lemma tree_inv_chain_good: "tree_inv s \<Longrightarrow> i < length (x_nodes s) \<Longrightarrow> chain_good (x_nodes s) i"
  using ancestors_less [of _ "x_nodes s" i] by (fastforce simp: tree_inv_def chain_good_def)

lemma bubble_correct:
  assumes "tree_inv s" "i < length (x_nodes s)" "stop_ok (x_nodes s) i stop"
  shows "bubble_post s i stop (disable_shortcutting_bubble_up_to_excl s i stop reason p None)"
  using assms by (intro bubble_law [where B = "{}"]) (simp add: bubble_pre_def tree_inv_def)

lemma next_correct:
  assumes "tree_inv s" "i < length (x_nodes s)" "next_shortcutable_ancestor s i = (s', r)"
  shows "r = nearest (x_nodes s) i" "same_shape s s'" "same_usages s s'" "tree_inv s'"
    "\<And>j. j < length (x_nodes s) \<Longrightarrow> can (x_nodes s') j = can (x_nodes s) j"
proof -
  have wf: "tree_wf (x_nodes s)" using assms(1) by (simp add: tree_inv_def)
  note f = next_shortcutable_ancestor_frame [OF wf assms(2) tree_inv_chain_good [OF assms(1,2)] assms(3)]
  show "r = nearest (x_nodes s) i" "same_shape s s'" "same_usages s s'"
    "\<And>j. j < length (x_nodes s) \<Longrightarrow> can (x_nodes s') j = can (x_nodes s) j" using f by auto
  have "anc_good (x_nodes s') j (en_ancestor (x_nodes s' ! j))" if j: "j < length (x_nodes s)" for j
  proof (cases "j = i")
    case False
    then show ?thesis using anc_good_mono [OF wf f(2) j] f(4,5) j assms(1) by (simp add: tree_inv_def)
  qed (use f(6) in simp)
  then show "tree_inv s'" using same_shape_wf [OF f(2) wf] same_shape_length [OF f(2)] by (simp add: tree_inv_def)
qed

section \<open>The closest common ancestor\<close>

abbreviation chain :: "exec_node list \<Rightarrow> nat \<Rightarrow> nat list" where
  "chain ns i \<equiv> i # ancestors ns i"

definition nth_opt :: "nat list \<Rightarrow> nat \<Rightarrow> nat option" where
  "nth_opt xs k = (if k < length xs then Some (xs ! k) else None)"

lemma chain_split: "chain ns i = xs @ b # ys \<Longrightarrow> ys = ancestors ns b"
  by (cases xs) (auto dest: ancestors_split)

lemma chain_suffix: "b \<in> set (chain ns i) \<Longrightarrow> \<exists>xs. chain ns i = xs @ chain ns b"
  by (metis chain_split split_list)

lemma ancestors_distinct: "distinct (chain ns i)"
proof (induction i rule: less_induct)
  case (less i)
  show ?case
  proof (cases "parent_exec_point ns i")
    case None
    then show ?thesis by (simp add: ancestors_None)
  next
    case (Some p)
    have "i \<notin> set (ancestors ns i)" using ancestors_less by blast
    then show ?thesis using less.IH [OF parent_less [OF Some]] Some by (simp add: ancestors_Some)
  qed
qed

lemma step_up_chain: "step_up ns (nth_opt (chain ns i) k) = nth_opt (chain ns i) (Suc k)"
proof (cases "k < length (chain ns i)")
  case False
  then show ?thesis by (simp add: nth_opt_def step_up_def)
next
  case True
  let ?a = "chain ns i ! k"
  have "chain ns i = take k (chain ns i) @ ?a # drop (Suc k) (chain ns i)"
    using True by (rule id_take_nth_drop)
  then have d: "ancestors ns ?a = drop (Suc k) (chain ns i)" using chain_split by metis
  show ?thesis
  proof (cases "parent_exec_point ns ?a")
    case None
    then have "drop (Suc k) (chain ns i) = []" using d ancestors_None by simp
    then have "length (chain ns i) \<le> Suc k" by (simp only: drop_eq_Nil)
    then show ?thesis using None True by (simp add: nth_opt_def step_up_def)
  next
    case (Some p)
    then have e: "drop (Suc k) (chain ns i) = p # ancestors ns p" using d ancestors_Some by simp
    then have l: "Suc k < length (chain ns i)" by (metis drop_eq_Nil list.distinct(1) not_le)
    have "chain ns i ! Suc k = p" using e l by (metis hd_drop_conv_nth list.sel(1))
    then show ?thesis using Some True l by (simp add: nth_opt_def step_up_def)
  qed
qed

lemma visit_nth_opt: "set xs = set (take k L) \<Longrightarrow> set (visit (nth_opt L k) xs) = set (take (Suc k) L)"
  by (simp add: visit_def nth_opt_def take_Suc_conv_app_nth)

lemma visited_iff: "visited p xs \<longleftrightarrow> (\<exists>a. p = Some a \<and> a \<in> set xs)"
  by (simp add: visited_def split: option.splits)

text \<open>Two lists that meet and stay together: where an element of one occurs in the other.\<close>

lemma shared_index:
  assumes "A = xs @ zs" "B = ys @ zs" "set xs \<inter> set B = {}" "distinct B"
    and "r < length A" "A ! r \<in> set (take k B)"
  shows "length xs \<le> r \<and> length ys + (r - length xs) < k"
proof -
  from assms(6) obtain j where j: "j < k" "j < length B" "A ! r = B ! j"
    by (auto simp: in_set_conv_nth)
  have r: "length xs \<le> r"
  proof (rule ccontr)
    assume "\<not> length xs \<le> r"
    then have "A ! r \<in> set xs" using assms(1) by (simp add: nth_append)
    moreover have "A ! r \<in> set B" using j by simp
    ultimately show False using assms(3) by blast
  qed
  then have "A ! r = B ! (length ys + (r - length xs))" "length ys + (r - length xs) < length B"
    using assms(1,2,5) by (auto simp: nth_append)
  then have "j = length ys + (r - length xs)" using j assms(4) nth_eq_iff_index_eq by metis
  then show ?thesis using r j by simp
qed

definition upward :: "exec_node list \<Rightarrow> nat list \<Rightarrow> bool" where
  "upward ns A \<longleftrightarrow> distinct A \<and> (\<forall>k. step_up ns (nth_opt A k) = nth_opt A (Suc k))"

lemma upward_chain: "upward ns (chain ns i)"
  using ancestors_distinct [of i ns] step_up_chain [of ns i] by (simp add: upward_def)

lemma common_ancestor_step:
  assumes "upward ns A" "upward ns B" "\<not> visited (nth_opt A k) others"
    and "\<not> visited (nth_opt B k) (visit (nth_opt A k) mine)"
  shows "common_ancestor_loop ns (nth_opt A k) (nth_opt B k) mine others =
    (if nth_opt A (Suc k) = None \<and> nth_opt B (Suc k) = None then None
     else common_ancestor_loop ns (nth_opt A (Suc k)) (nth_opt B (Suc k))
            (visit (nth_opt A k) mine) (visit (nth_opt B k) others))"
  using assms by (subst common_ancestor_loop.simps) (simp add: upward_def)

lemma common_ancestor_meet:
  assumes up: "upward ns A" "upward ns B" and A: "A = xs @ c # zs" and B: "B = ys @ c # zs"
    and dis: "set xs \<inter> set B = {}" "set ys \<inter> set A = {}"
    and k: "k \<le> max (length xs) (length ys)"
    and m: "set mine = set (take k A)" "set others = set (take k B)"
  shows "common_ancestor_loop ns (nth_opt A k) (nth_opt B k) mine others = Some c"
  using k m
proof (induction "max (length xs) (length ys) - k" arbitrary: k mine others)
  case (0 k)
  then have k: "k = max (length xs) (length ys)" by linarith
  have dB: "distinct B" using up by (simp add: upward_def)
  show ?case
  proof (cases "length ys < length xs")
    case True
    with k have k': "k = length xs" by simp
    then have "nth_opt A k = Some c" using A by (simp add: nth_opt_def nth_append)
    moreover have "c \<in> set (take k B)" using True k' B by (simp add: take_Cons')
    ultimately show ?thesis using 0 by (subst common_ancestor_loop.simps) (simp add: visited_iff)
  next
    case False
    with k have k': "k = length ys" by simp
    then have c: "nth_opt B k = Some c" using B by (simp add: nth_opt_def nth_append)
    have "\<not> visited (nth_opt A k) others"
      using shared_index [OF A B dis(1) dB, of k k] k' False 0(4)
      by (auto simp: visited_iff nth_opt_def split: if_splits)
    moreover have "c \<in> set (take (Suc k) A)" using False k' A by (simp add: take_Cons')
    ultimately show ?thesis using c visit_nth_opt [OF 0(3)]
      by (subst common_ancestor_loop.simps) (auto simp: visited_iff)
  qed
next
  case (Suc n k)
  then have k: "k < max (length xs) (length ys)" by linarith
  have d: "distinct A" "distinct B" using up by (simp_all add: upward_def)
  have "\<not> visited (nth_opt A k) others"
    using shared_index [OF A B dis(1) d(2), of k k] k Suc.prems(3)
    by (auto simp: visited_iff nth_opt_def max_def split: if_splits)
  moreover have "\<not> visited (nth_opt B k) (visit (nth_opt A k) mine)"
    using shared_index [OF B A dis(2) d(1), of k "Suc k"] k visit_nth_opt [OF Suc.prems(2)]
    by (auto simp: visited_iff nth_opt_def max_def split: if_splits)
  moreover have "\<not> (nth_opt A (Suc k) = None \<and> nth_opt B (Suc k) = None)"
    using k unfolding A B by (auto simp: nth_opt_def max_def split: if_splits)
  moreover have "common_ancestor_loop ns (nth_opt A (Suc k)) (nth_opt B (Suc k))
      (visit (nth_opt A k) mine) (visit (nth_opt B k) others) = Some c"
    using Suc.hyps(2) k Suc.prems visit_nth_opt by (intro Suc.hyps(1)) auto
  ultimately show ?case using common_ancestor_step [OF up] by simp
qed

lemma common_ancestor_apart:
  assumes up: "upward ns A" "upward ns B" and dis: "set A \<inter> set B = {}"
    and m: "set mine = set (take k A)" "set others = set (take k B)"
  shows "common_ancestor_loop ns (nth_opt A k) (nth_opt B k) mine others = None"
  using m
proof (induction "max (length A) (length B) - k" arbitrary: k mine others rule: less_induct)
  case less
  have sub: "set (take n A) \<subseteq> set A" "set (take n B) \<subseteq> set B" for n
    by (simp_all add: set_take_subset)
  have "\<not> visited (nth_opt A k) others"
    using less.prems sub(2) [of k] dis nth_mem [of k A] by (force simp: visited_iff nth_opt_def split: if_splits)
  moreover have "\<not> visited (nth_opt B k) (visit (nth_opt A k) mine)"
    using visit_nth_opt [OF less.prems(1)] sub(1) [of "Suc k"] dis nth_mem [of k B]
    by (force simp: visited_iff nth_opt_def split: if_splits)
  moreover have "nth_opt A (Suc k) = None \<and> nth_opt B (Suc k) = None \<or>
      common_ancestor_loop ns (nth_opt A (Suc k)) (nth_opt B (Suc k))
        (visit (nth_opt A k) mine) (visit (nth_opt B k) others) = None"
  proof (cases "Suc k < max (length A) (length B)")
    case True
    then show ?thesis using less visit_nth_opt by (intro disjI2 less.hyps) auto
  next
    case False
    then show ?thesis by (simp add: nth_opt_def max_def split: if_splits)
  qed
  ultimately show ?case using common_ancestor_step [OF up] by auto
qed

lemma chains_meet:
  assumes "set (chain ns i) \<inter> set (chain ns j) \<noteq> {}"
  shows "\<exists>c xs ys. chain ns i = xs @ chain ns c \<and> chain ns j = ys @ chain ns c \<and>
    set xs \<inter> set (chain ns j) = {} \<and> set ys \<inter> set (chain ns i) = {}"
proof -
  from assms obtain c where "List.find (\<lambda>a. a \<in> set (chain ns j)) (chain ns i) = Some c"
    by (metis disjoint_iff find_None_iff not_None_eq)
  then obtain xs zs where x: "chain ns i = xs @ c # zs" "c \<in> set (chain ns j)" "\<forall>y \<in> set xs. y \<notin> set (chain ns j)"
    using find_Some_split by metis
  have zs: "zs = ancestors ns c" using x(1) by (rule chain_split)
  obtain ys where y: "chain ns j = ys @ chain ns c" using chain_suffix [OF x(2)] by blast
  have "set ys \<inter> set (chain ns i) = {}"
  proof (rule ccontr)
    assume "set ys \<inter> set (chain ns i) \<noteq> {}"
    then obtain d where d: "d \<in> set ys" "d \<in> set (chain ns i)" by blast
    then have "d \<notin> set xs" using x(3) y by auto
    then have "d \<in> set (chain ns c)" using d(2) x(1) zs by auto
    then show False using d(1) ancestors_distinct [of j ns] y by auto
  qed
  then show ?thesis using x(1,3) y zs by blast
qed

text \<open>The common ancestors of two processes are the chain upwards from the one that is found.\<close>

lemma common_exec_ancestor_iff:
  "common_exec_ancestor ns i (Some j) = Some c \<longleftrightarrow> set (chain ns i) \<inter> set (chain ns j) = set (chain ns c)"
  "common_exec_ancestor ns i (Some j) = None \<longleftrightarrow> set (chain ns i) \<inter> set (chain ns j) = {}"
proof -
  have eq: "common_exec_ancestor ns i (Some j) =
      common_ancestor_loop ns (nth_opt (chain ns i) 0) (nth_opt (chain ns j) 0) [] []"
    by (simp add: common_exec_ancestor_def nth_opt_def)
  have same: "c = d" if "set (chain ns c) = set (chain ns d)" for c d
    using that ancestors_less [of c ns d] ancestors_less [of d ns c] by fastforce
  have "common_exec_ancestor ns i (Some j) = None" if "set (chain ns i) \<inter> set (chain ns j) = {}"
    unfolding eq using that by (intro common_ancestor_apart upward_chain) simp_all
  moreover have "\<exists>d. common_exec_ancestor ns i (Some j) = Some d \<and> set (chain ns i) \<inter> set (chain ns j) = set (chain ns d)"
    if ne: "set (chain ns i) \<inter> set (chain ns j) \<noteq> {}"
  proof -
    from chains_meet [OF ne] obtain d xs ys where d: "chain ns i = xs @ chain ns d" "chain ns j = ys @ chain ns d"
      "set xs \<inter> set (chain ns j) = {}" "set ys \<inter> set (chain ns i) = {}" by blast
    have "common_exec_ancestor ns i (Some j) = Some d"
      unfolding eq using d by (intro common_ancestor_meet [OF upward_chain upward_chain d]) simp_all
    moreover have "set (chain ns i) \<inter> set (chain ns j) = set (chain ns d)"
    proof -
      have "set (chain ns i) = set xs \<union> set (chain ns d)" "set (chain ns j) = set ys \<union> set (chain ns d)"
        unfolding d(1,2) set_append by (rule refl)+
      then show ?thesis using d(3,4) by blast
    qed
    ultimately show ?thesis by blast
  qed
  ultimately show "common_exec_ancestor ns i (Some j) = Some c \<longleftrightarrow> set (chain ns i) \<inter> set (chain ns j) = set (chain ns c)"
    "common_exec_ancestor ns i (Some j) = None \<longleftrightarrow> set (chain ns i) \<inter> set (chain ns j) = {}"
    using same by (metis list.discI option.inject set_empty option.distinct(1))+
qed

end
