(* ===== verification/FB_Register.thy ===== *)
theory FB_Register
  imports FB_ExecTree
begin

text \<open>
  What \<open>ExecedProcess::register_file_usage_update\<close> does to the tree of processes, and the interface
  \<open>upward_walk\<close> it relies on: asking for the next shortcutable ancestor again and again visits the
  shortcutable ancestors, closest first, and changes nothing else.
\<close>

section \<open>Walking up the shortcutable ancestors\<close>

fun climb :: "('s \<Rightarrow> nat \<Rightarrow> 's \<times> nat option) \<Rightarrow> nat \<Rightarrow> 's \<Rightarrow> nat \<Rightarrow> 's \<times> nat list" where
  "climb next 0 s i = (s, [])"
| "climb next (Suc n) s i =
     (case next s i of
        (s', None) \<Rightarrow> (s', [])
      | (s', Some a) \<Rightarrow> (case climb next n s' a of (s'', as) \<Rightarrow> (s'', a # as)))"

locale upward_walk =
  fixes "next" :: "'s \<Rightarrow> nat \<Rightarrow> 's \<times> nat option"
    and pts :: "'s \<Rightarrow> nat \<Rightarrow> nat list"
    and invar :: "'s \<Rightarrow> bool"
    and valid :: "'s \<Rightarrow> nat \<Rightarrow> bool"
  assumes next_law: "invar s \<Longrightarrow> valid s i \<Longrightarrow> next s i = (s', r) \<Longrightarrow>
      invar s' \<and> (\<forall>j. valid s j \<longrightarrow> valid s' j \<and> pts s' j = pts s j) \<and>
      r = (case pts s i of [] \<Rightarrow> None | a # _ \<Rightarrow> Some a)"
    and pts_law: "invar s \<Longrightarrow> valid s i \<Longrightarrow> pts s i = a # as \<Longrightarrow> valid s a \<and> pts s a = as"
begin

lemma climb_visits:
  assumes "invar s" "valid s i" "length (pts s i) \<le> n" "climb next n s i = (s', as)"
  shows "as = pts s i \<and> invar s' \<and> (\<forall>j. valid s j \<longrightarrow> pts s' j = pts s j)"
  using assms
proof (induction n arbitrary: s i as)
  case 0
  then show ?case by simp
next
  case (Suc n)
  obtain s1 r where n: "next s i = (s1, r)" by fastforce
  note l = next_law [OF Suc.prems(1,2) n]
  show ?case
  proof (cases "pts s i")
    case Nil
    then show ?thesis using Suc.prems n l by auto
  next
    case (Cons a as')
    obtain as'' where c: "climb next n s1 a = (s', as'')" "as = a # as''"
      using Suc.prems(4) n l Cons by (auto split: prod.splits)
    have a: "valid s a" "pts s a = as'" using pts_law [OF Suc.prems(1,2) Cons] by auto
    have "as'' = pts s1 a \<and> invar s' \<and> (\<forall>j. valid s1 j \<longrightarrow> pts s' j = pts s1 j)"
      using Suc.prems(3) Cons l a c(1) by (intro Suc.IH) auto
    then show ?thesis using l a c(2) Cons by auto
  qed
qed

end

definition shortcut_points :: "exec_state \<Rightarrow> nat \<Rightarrow> nat list" where
  "shortcut_points s i = filter (can (x_nodes s)) (ancestors (x_nodes s) i)"

lemma nearest_filter: "List.find P xs = (case filter P xs of [] \<Rightarrow> None | a # _ \<Rightarrow> Some a)"
  by (induction xs) auto

lemma shortcut_points_same:
  assumes "tree_wf (x_nodes s)" "same_shape s s'" "\<And>j. j < length (x_nodes s) \<Longrightarrow> can (x_nodes s') j = can (x_nodes s) j"
    and "i < length (x_nodes s)"
  shows "shortcut_points s' i = shortcut_points s i"
  unfolding shortcut_points_def same_shape_ancestors [OF assms(2,1,4)]
  by (rule filter_cong [OF refl]) (metis assms(3,4) ancestors_less less_trans)

lemma filter_split:
  "filter P xs = a # as \<Longrightarrow> \<exists>us vs. xs = us @ a # vs \<and> filter P vs = as"
proof (induction xs)
  case (Cons x xs)
  show ?case
  proof (cases "P x")
    case True
    with Cons.prems show ?thesis by (intro exI [of _ "[]"] exI [of _ xs]) simp
  next
    case False
    with Cons obtain us vs where "xs = us @ a # vs" "filter P vs = as" by auto
    then show ?thesis by (intro exI [of _ "x # us"] exI [of _ vs]) simp
  qed
qed simp

lemma shortcut_points_Cons:
  assumes "shortcut_points s i = a # as"
  shows "shortcut_points s a = as" "a < i" "can (x_nodes s) a"
proof -
  obtain us vs where u: "ancestors (x_nodes s) i = us @ a # vs" "filter (can (x_nodes s)) vs = as"
    using filter_split [of "can (x_nodes s)"] assms unfolding shortcut_points_def by blast
  then show "shortcut_points s a = as" using ancestors_split [OF u(1)] by (simp add: shortcut_points_def)
  show "a < i" using u(1) ancestors_less [of a "x_nodes s" i] by simp
  have "a \<in> set (filter (can (x_nodes s)) (ancestors (x_nodes s) i))"
    using assms by (simp add: shortcut_points_def)
  then show "can (x_nodes s) a" by simp
qed

lemma next_points:
  assumes "tree_inv s" "i < length (x_nodes s)" "next_shortcutable_ancestor s i = (s', r)"
  shows "r = (case shortcut_points s i of [] \<Rightarrow> None | a # _ \<Rightarrow> Some a)"
    "j < length (x_nodes s) \<Longrightarrow> shortcut_points s' j = shortcut_points s j"
  using next_correct [OF assms] nearest_filter [of "can (x_nodes s)" "ancestors (x_nodes s) i"]
    shortcut_points_same [of s s' j] assms(1)
  by (simp_all add: nearest_def shortcut_points_def [of s i] tree_inv_def)

interpretation up: upward_walk next_shortcutable_ancestor shortcut_points tree_inv "\<lambda>s i. i < length (x_nodes s)"
proof (unfold_locales, goal_cases)
  case (1 s i s' r)
  then show ?case using next_correct [OF 1] next_points [OF 1] same_shape_length [of s s'] by auto
next
  case (2 s i a as)
  then show ?case using shortcut_points_Cons [OF 2(3)] by auto
qed

section \<open>Storing a usage\<close>

lemma set_usage_law:
  assumes "q < length (x_nodes s)"
  shows "same_shape s (set_usage q name fu s)"
    "x_cache (set_usage q name fu s) = x_cache s"
    "\<And>j. can (x_nodes (set_usage q name fu s)) j = can (x_nodes s) j"
    "\<And>j. en_ancestor (x_nodes (set_usage q name fu s) ! j) = en_ancestor (x_nodes s ! j)"
    "\<And>j n. en_usages (x_nodes (set_usage q name fu s) ! j) n =
       (if j = q \<and> n = name then fu else en_usages (x_nodes s ! j) n)"
  using assms by (auto simp: set_usage_def set_node_def node_def same_shape_def nth_list_update)

lemma tree_inv_same:
  assumes "tree_inv s" "same_shape s s'"
    and "\<And>j. j < length (x_nodes s) \<Longrightarrow> can (x_nodes s') j = can (x_nodes s) j"
    and "\<And>j. j < length (x_nodes s) \<Longrightarrow> en_ancestor (x_nodes s' ! j) = en_ancestor (x_nodes s ! j)"
  shows "tree_inv s'"
proof -
  have wf: "tree_wf (x_nodes s)" using assms(1) by (simp add: tree_inv_def)
  have "anc_good (x_nodes s') j (en_ancestor (x_nodes s' ! j))" if j: "j < length (x_nodes s)" for j
    using anc_good_mono [OF wf assms(2) j] assms(1,3,4) j by (simp add: tree_inv_def)
  then show ?thesis using same_shape_wf [OF assms(2) wf] same_shape_length [OF assms(2)] by (simp add: tree_inv_def)
qed

text \<open>Steps that keep the tree, the ability to shortcut and all usages but those of \<open>name\<close>.\<close>

definition same_but_usage :: "string \<Rightarrow> exec_state \<Rightarrow> exec_state \<Rightarrow> bool" where
  "same_but_usage name s s' \<longleftrightarrow> same_shape s s' \<and> tree_inv s' \<and>
     (\<forall>j < length (x_nodes s). can (x_nodes s') j = can (x_nodes s) j \<and>
        (\<forall>n. n \<noteq> name \<longrightarrow> en_usages (x_nodes s' ! j) n = en_usages (x_nodes s ! j) n))"

lemma same_but_usage_trans: "same_but_usage n s t \<Longrightarrow> same_but_usage n t u \<Longrightarrow> same_but_usage n s u"
  using same_shape_length [of s t] by (auto simp: same_but_usage_def intro: same_shape_trans)

text \<open>Storing the usage of \<open>q\<close> and moving on: the body of the loop after the merge.\<close>

lemma store_and_next:
  assumes "tree_inv s" "q < length (x_nodes s)"
    and "next_shortcutable_ancestor (set_usage q name fu (s\<lparr>x_cache := db\<rparr>)) q = (s1, r)"
  shows "same_but_usage name s s1" "r = (case shortcut_points s q of [] \<Rightarrow> None | a # _ \<Rightarrow> Some a)"
    "\<And>j. j < length (x_nodes s) \<Longrightarrow> shortcut_points s1 j = shortcut_points s j"
    "\<And>j. j < length (x_nodes s) \<Longrightarrow>
       en_usages (x_nodes s1 ! j) name = (if j = q then fu else en_usages (x_nodes s ! j) name)"
    "x_cache s1 = db"
proof -
  let ?s0 = "s\<lparr>x_cache := db\<rparr>" and ?t = "set_usage q name fu (s\<lparr>x_cache := db\<rparr>)"
  have q0: "q < length (x_nodes ?s0)" using assms(2) by simp
  note u = set_usage_law [OF q0, where name = name and fu = fu]
  have sh: "same_shape s ?t" using u(1) by (simp add: same_shape_def)
  have inv: "tree_inv ?t" using tree_inv_same [OF assms(1) sh] u(3,4) by simp
  have qt: "q < length (x_nodes ?t)" using assms(2) same_shape_length [OF sh] by simp
  note n = next_correct [OF inv qt assms(3)] and p = next_points [OF inv qt assms(3)]
  have lt: "length (x_nodes ?t) = length (x_nodes s)" by (rule same_shape_length [OF sh])
  have wf: "tree_wf (x_nodes s)" using assms(1) by (simp add: tree_inv_def)
  have pt: "shortcut_points ?t j = shortcut_points s j" if "j < length (x_nodes s)" for j
    using shortcut_points_same [OF wf sh _ that] u(3) by simp
  show "same_but_usage name s s1"
    using same_shape_trans [OF sh n(2)] n(3-5) u lt by (simp add: same_but_usage_def same_usages_def)
  show "r = (case shortcut_points s q of [] \<Rightarrow> None | a # _ \<Rightarrow> Some a)"
    using p(1) pt [OF assms(2)] by simp
  show "\<And>j. j < length (x_nodes s) \<Longrightarrow> shortcut_points s1 j = shortcut_points s j"
    using p(2) pt lt by simp
  show "\<And>j. j < length (x_nodes s) \<Longrightarrow>
       en_usages (x_nodes s1 ! j) name = (if j = q then fu else en_usages (x_nodes s ! j) name)"
    using n(3) u(5) lt by (simp add: same_usages_def)
  show "x_cache s1 = db" using n(3) u(2) by (simp add: same_usages_def)
qed

section \<open>The loop of \<open>register_file_usage_update\<close>\<close>

text \<open>The stages of evaluation of an update, whose lazy members are computed by the merges it takes part in.\<close>

inductive evaluates :: "fb_env \<Rightarrow> file_usage_update \<Rightarrow> file_usage_update \<Rightarrow> bool" for env u where
  evaluates_refl: "evaluates env u u"
| evaluates_merge: "evaluates env u v \<Longrightarrow> merge env db fo v p = (db', w, r) \<Longrightarrow> evaluates env u w"

definition merged :: "fb_env \<Rightarrow> file_usage_update \<Rightarrow> file_usage option \<Rightarrow> file_usage option \<Rightarrow> bool" where
  "merged env u fo fn \<longleftrightarrow>
     (\<exists>db v p db' w f. evaluates env u v \<and> merge env db (usage_or_default fo) v p = (db', w, Some f) \<and> fn = Some f)"

abbreviation usage :: "exec_state \<Rightarrow> nat \<Rightarrow> string \<Rightarrow> file_usage option" where
  "usage s j name \<equiv> en_usages (x_nodes s ! j) name"

lemma get_initial_type_generation:
  "get_initial_type env db u = (db', u', r) \<Longrightarrow> fuu_generation u' = fuu_generation u"
  by (auto simp: get_initial_type_def type_computer_open_rdonly_def split: prod.splits option.splits if_splits)

lemma get_initial_hash_generation:
  "get_initial_hash env db u = (db', u', r) \<Longrightarrow> fuu_generation u' = fuu_generation u"
  by (auto simp: get_initial_hash_def hash_computer_def split: prod.splits option.splits if_splits)

lemma learn_hash_generation:
  "learn_hash env db u i t = (db', u', r) \<Longrightarrow> fuu_generation u' = fuu_generation u"
  by (auto simp: learn_hash_def split: prod.splits option.splits if_splits dest: get_initial_hash_generation)

lemma merge_initial_state_generation:
  "merge_initial_state env db u ut i = (db', u', r) \<Longrightarrow> fuu_generation u' = fuu_generation u"
  by (cases "fi_type i") (auto simp: merge_initial_state_def split: if_splits dest: learn_hash_generation)

lemma merge_generation:
  assumes "merge env db fo u p = (db', u', r)"
  shows "fuu_generation u' = fuu_generation u"
proof (cases "fu_written fo")
  case True
  with assms show ?thesis by (auto simp: merge_def Let_def)
next
  case False
  obtain db1 u1 t where g: "get_initial_type env db u = (db1, u1, t)" by (metis prod_cases3)
  show ?thesis
  proof (cases t)
    case None
    with False g assms show ?thesis by (auto simp: merge_def Let_def dest: get_initial_type_generation)
  next
    case (Some ut)
    obtain db2 u2 k where m: "merge_initial_state env db1 u1 ut (fu_initial_state fo) = (db2, u2, k)"
      by (metis prod_cases3)
    have "u' = u2" using assms False g Some m by (cases k) (auto simp: merge_def Let_def)
    then show ?thesis using get_initial_type_generation [OF g] merge_initial_state_generation [OF m] by simp
  qed
qed

lemma evaluates_generation: "evaluates env u v \<Longrightarrow> fuu_generation v = fuu_generation u"
  by (induction rule: evaluates.induct) (auto dest: merge_generation)

text \<open>
  What registering at the points \<open>L\<close> does when \<open>n\<close> of them were visited: they have the merged usage, the
  others keep theirs, and the walk stopped early only after a point whose usage did not change.
\<close>

definition registered ::
    "fb_env \<Rightarrow> file_usage_update \<Rightarrow> string \<Rightarrow> nat list \<Rightarrow> nat \<Rightarrow> exec_state \<Rightarrow> exec_state \<Rightarrow> bool" where
  "registered env u name L n s s' \<longleftrightarrow>
     n \<le> length L \<and> same_but_usage name s s' \<and>
     (\<forall>k < n. merged env u (usage s (L ! k) name) (usage s' (L ! k) name)) \<and>
     (\<forall>j < length (x_nodes s). j \<notin> set (take n L) \<longrightarrow> usage s' j name = usage s j name) \<and>
     (0 < n \<longrightarrow> n < length L \<longrightarrow> usage s' (L ! (n - 1)) name = usage s (L ! (n - 1)) name)"

lemma registered_none:
  "tree_inv s \<Longrightarrow> registered env u name L 0 s s"
  by (simp add: registered_def same_but_usage_def)

lemma registered_Cons:
  assumes "tree_inv s" "same_but_usage name s s1" "q < length (x_nodes s)"
    and "\<And>j. j < length (x_nodes s) \<Longrightarrow> usage s1 j name = (if j = q then fn else usage s j name)"
    and "merged env u (usage s q name) fn"
    and "registered env u name L n s1 s'"
    and "\<forall>j \<in> set L. j < q"
    and "n = 0 \<Longrightarrow> L \<noteq> [] \<Longrightarrow> fn = usage s q name"
  shows "registered env u name (q # L) (Suc n) s s'"
proof -
  have len: "length (x_nodes s1) = length (x_nodes s)"
    using assms(2) same_shape_length by (simp add: same_but_usage_def)
  have L: "j < length (x_nodes s)" "j \<noteq> q" if "j \<in> set L" for j using assms(3,7) that by auto
  have r: "n \<le> length L" "same_but_usage name s1 s'"
    "\<And>k. k < n \<Longrightarrow> merged env u (usage s1 (L ! k) name) (usage s' (L ! k) name)"
    "\<And>j. j < length (x_nodes s) \<Longrightarrow> j \<notin> set (take n L) \<Longrightarrow> usage s' j name = usage s1 j name"
    "0 < n \<Longrightarrow> n < length L \<Longrightarrow> usage s' (L ! (n - 1)) name = usage s1 (L ! (n - 1)) name"
    using assms(6) len by (auto simp: registered_def)
  have q': "usage s' q name = fn"
    using r(4) [OF assms(3)] assms(4) [OF assms(3)] L(2) by (metis in_set_takeD)
  have old: "usage s1 (L ! k) name = usage s (L ! k) name" if "k < length L" for k
    using assms(4) L [OF nth_mem [OF that]] by simp
  have "merged env u (usage s ((q # L) ! k) name) (usage s' ((q # L) ! k) name)" if k: "k < Suc n" for k
  proof (cases k)
    case 0
    then show ?thesis using assms(5) q' by simp
  next
    case (Suc m)
    then show ?thesis using r(1) r(3) [of m] old [of m] k by simp
  qed
  moreover have "usage s' j name = usage s j name" if "j < length (x_nodes s)" "j \<notin> set (take (Suc n) (q # L))" for j
    using that r(4) assms(4) by simp
  moreover have "usage s' ((q # L) ! n) name = usage s ((q # L) ! n) name" if n: "Suc n < length (q # L)"
  proof (cases n)
    case 0
    then show ?thesis using assms(8) n q' by auto
  next
    case (Suc m)
    then show ?thesis using r(5) old [of m] n by simp
  qed
  ultimately show ?thesis
    using r(1) same_but_usage_trans [OF assms(2) r(2)] by (simp add: registered_def)
qed

text \<open>The invariant of the pair \<open>fu_old\<close>, \<open>fu_new\<close>.\<close>

definition carried :: "fb_env \<Rightarrow> file_usage_update \<Rightarrow> file_usage option option \<Rightarrow> file_usage option \<Rightarrow> bool" where
  "carried env u fu_old fu_new \<longleftrightarrow>
     (case fu_old of None \<Rightarrow> fu_new = None | Some fo \<Rightarrow> merged env u fo fu_new)"

lemma shortcut_points_less: "j \<in> set (shortcut_points s q) \<Longrightarrow> j < q"
  by (auto simp: shortcut_points_def dest: ancestors_less)

lemma register_loop_quick:
  assumes "Some fu_new \<noteq> fu_old" "fu_old = Some (usage s q name)"
    and "next_shortcutable_ancestor (set_usage q name fu_new s) q = (s1, r)"
  shows "register_loop rp s i q name u fu_old fu_new p =
    (case r of None \<Rightarrow> (s1, u, True) | Some q' \<Rightarrow> register_loop rp s1 i q' name u fu_old fu_new True)"
  using assms by (subst register_loop.simps) (simp add: Let_def node_def split: option.split)

lemma register_loop_fail:
  assumes "Some fu_new \<noteq> fu_old" "fu_old \<noteq> Some (usage s q name)" "\<not> wrong_generation (usage s q name) u"
    and "merge (env_of s) (x_cache s) (usage_or_default (usage s q name)) u p = (db, u1, None)"
  shows "register_loop rp s i q name u fu_old fu_new p =
    (disable_shortcutting_bubble_up (s\<lparr>x_cache := db\<rparr>) i
       ''Could not register unsupported file usage combination'', u1, False)"
  using assms by (subst register_loop.simps) (auto simp: Let_def node_def)

lemma register_loop_merge:
  assumes "Some fu_new \<noteq> fu_old" "fu_old \<noteq> Some (usage s q name)" "\<not> wrong_generation (usage s q name) u"
    and "merge (env_of s) (x_cache s) (usage_or_default (usage s q name)) u p = (db, u1, Some f)"
    and "next_shortcutable_ancestor (set_usage q name (Some f) (s\<lparr>x_cache := db\<rparr>)) q = (s1, r)"
  shows "register_loop rp s i q name u fu_old fu_new p =
    (case r of None \<Rightarrow> (s1, u1, True)
     | Some q' \<Rightarrow> register_loop rp s1 i q' name u1 (Some (usage s q name)) (Some f) True)"
  using assms by (subst register_loop.simps) (auto simp: Let_def node_def split: option.split)

lemma wrong_generation_cong: "fuu_generation u = fuu_generation v \<Longrightarrow> wrong_generation f u = wrong_generation f v"
  by (cases f) (simp_all add: wrong_generation_def)

definition register_pre :: "exec_state \<Rightarrow> nat \<Rightarrow> nat \<Rightarrow> string \<Rightarrow> file_usage_update \<Rightarrow> bool" where
  "register_pre s i q name u \<longleftrightarrow> tree_inv s \<and> q < length (x_nodes s) \<and> i < length (x_nodes s) \<and>
     (\<forall>j \<in> set (q # shortcut_points s q). \<not> wrong_generation (usage s j name) u)"

definition loop_post ::
    "fb_env \<Rightarrow> file_usage_update \<Rightarrow> string \<Rightarrow> nat \<Rightarrow> nat list \<Rightarrow> bool \<Rightarrow> exec_state \<Rightarrow> exec_state \<Rightarrow> bool \<Rightarrow> bool" where
  "loop_post env u name i L stopped s s' ok \<longleftrightarrow>
     (if ok then \<exists>n. registered env u name L n s s' \<and> (n = 0 \<longrightarrow> stopped)
      else tree_inv s' \<and> same_shape s s' \<and> (\<forall>j \<in> set (chain (x_nodes s) i). \<not> can (x_nodes s') j))"

lemma takeWhile_all: "takeWhile (\<lambda>a. True) xs = xs"
  by (induction xs) auto

lemma below_None: "below ns i None = set (chain ns i)"
  by (simp add: below_def takeWhile_all)

lemma bubble_up_disables:
  assumes "tree_inv s" "i < length (x_nodes s)"
  shows "tree_inv (disable_shortcutting_bubble_up s i reason)"
    "same_shape s (disable_shortcutting_bubble_up s i reason)"
    "same_usages s (disable_shortcutting_bubble_up s i reason)"
    "\<And>j. j < length (x_nodes s) \<Longrightarrow>
      can (x_nodes (disable_shortcutting_bubble_up s i reason)) j = (can (x_nodes s) j \<and> j \<notin> set (chain (x_nodes s) i))"
  using bubble_correct [OF assms, of None reason None]
  by (simp_all add: disable_shortcutting_bubble_up_def bubble_post_def stop_ok_def below_None)

lemma tree_inv_cache [simp]: "tree_inv (s\<lparr>x_cache := db\<rparr>) = tree_inv s"
  by (simp add: tree_inv_def)

lemma chain_in_range: "i < length ns \<Longrightarrow> j \<in> set (chain ns i) \<Longrightarrow> j < length ns"
  using ancestors_less [of j ns i] by auto

lemma loop_continue:
  assumes pre: "register_pre s i q name u0" and m: "merged (env_of s) u0 (usage s q name) fn"
    and n: "next_shortcutable_ancestor (set_usage q name fn (s\<lparr>x_cache := db\<rparr>)) q = (s1, r)"
    and rest: "case r of None \<Rightarrow> s' = s1 \<and> ok
      | Some q' \<Rightarrow> register_pre s1 i q' name u0 \<longrightarrow> env_of s1 = env_of s \<longrightarrow> q' < q \<longrightarrow>
          loop_post (env_of s) u0 name i (q' # shortcut_points s1 q') (fn = usage s q name) s1 s' ok"
  shows "loop_post (env_of s) u0 name i (q # shortcut_points s q) False s s' ok"
proof -
  have inv: "tree_inv s" and q: "q < length (x_nodes s)" and i: "i < length (x_nodes s)"
    and g: "\<And>j. j \<in> set (q # shortcut_points s q) \<Longrightarrow> \<not> wrong_generation (usage s j name) u0"
    using pre by (auto simp: register_pre_def)
  note sn = store_and_next [OF inv q n]
  have sh: "same_shape s s1" and inv1: "tree_inv s1" using sn(1) by (auto simp: same_but_usage_def)
  have len: "length (x_nodes s1) = length (x_nodes s)" by (rule same_shape_length [OF sh])
  note cons = registered_Cons [OF inv sn(1) q sn(4) m]
  show ?thesis
  proof (cases "shortcut_points s q")
    case Nil
    then have "s' = s1" ok using rest sn(2) by auto
    then show ?thesis using cons [of "[]" 0 s1] registered_none [OF inv1] Nil
      by (auto simp: loop_post_def)
  next
    case (Cons q' as)
    note c = shortcut_points_Cons [OF Cons]
    have pts: "shortcut_points s1 q' = as" using sn(3) [of q'] c q by simp
    have less: "\<forall>j \<in> set (q' # as). j < q" using shortcut_points_less [of _ s q] Cons by auto
    have "register_pre s1 i q' name u0"
      using inv1 q i c len pts sn(4) g less Cons by (auto simp: register_pre_def)
    then have p: "loop_post (env_of s) u0 name i (q' # as) (fn = usage s q name) s1 s' ok"
      using rest sn(2) Cons pts sh c(2) by simp
    show ?thesis
    proof (cases ok)
      case True
      with p obtain k where k: "registered (env_of s) u0 name (q' # as) k s1 s'" "k = 0 \<longrightarrow> fn = usage s q name"
        by (auto simp: loop_post_def)
      then have "registered (env_of s) u0 name (q # q' # as) (Suc k) s s'" using less by (intro cons) auto
      then show ?thesis using True Cons by (auto simp: loop_post_def)
    next
      case False
      have "ancestors (x_nodes s1) i = ancestors (x_nodes s) i"
        using same_shape_ancestors [OF sh _ i] inv by (simp add: tree_inv_def)
      with p False show ?thesis using same_shape_trans [OF sh] by (simp add: loop_post_def)
    qed
  qed
qed

lemma register_loop_law:
  assumes "register_pre s i q name u0" "env_of s = env" "evaluates env u0 u" "carried env u0 fu_old fu_new"
    and "register_loop rp s i q name u fu_old fu_new p = (s', u', ok)"
  shows "loop_post env u0 name i (q # shortcut_points s q) (Some fu_new = fu_old) s s' ok"
  using assms
proof (induction q arbitrary: s u fu_old fu_new p rule: less_induct)
  case (less q)
  have inv: "tree_inv s" and i: "i < length (x_nodes s)"
    and "\<not> wrong_generation (usage s q name) u0" using less.prems(1) by (auto simp: register_pre_def)
  then have gu: "\<not> wrong_generation (usage s q name) u"
    using wrong_generation_cong [OF evaluates_generation [OF less.prems(3)]] by simp
  note env = less.prems(2)
  have rec: "case r of None \<Rightarrow> s' = s1 \<and> ok
      | Some q' \<Rightarrow> register_pre s1 i q' name u0 \<longrightarrow> env_of s1 = env_of s \<longrightarrow> q' < q \<longrightarrow>
          loop_post (env_of s) u0 name i (q' # shortcut_points s1 q') (fn = usage s q name) s1 s' ok"
    if e: "(s', u', ok) = (case r of None \<Rightarrow> (s1, u1, True)
        | Some q' \<Rightarrow> register_loop rp s1 i q' name u1 (Some (usage s q name)) fn True)"
      and ev: "evaluates env u0 u1" and m: "merged env u0 (usage s q name) fn" for r s1 u1 fn
  proof (cases r)
    case None
    with e show ?thesis by simp
  next
    case (Some q')
    have "carried env u0 (Some (usage s q name)) fn" using m by (simp add: carried_def)
    from less.IH [OF _ _ _ ev this] show ?thesis using e Some env by (auto simp: eq_commute)
  qed
  show ?case
  proof (cases "Some fu_new = fu_old")
    case True
    then have "s' = s" ok using less.prems(5) by (simp_all add: register_loop.simps [of rp s])
    then show ?thesis unfolding loop_post_def using registered_none [OF inv] True by (metis (full_types))
  next
    case stop: False
    show ?thesis
    proof (cases "fu_old = Some (usage s q name)")
      case True
      obtain s1 r where n: "next_shortcutable_ancestor (set_usage q name fu_new (s\<lparr>x_cache := x_cache s\<rparr>)) q = (s1, r)"
        by fastforce
      have m: "merged (env_of s) u0 (usage s q name) fu_new" using less.prems(4) True env by (simp add: carried_def)
      have e: "(s', u', ok) = (case r of None \<Rightarrow> (s1, u, True)
          | Some q' \<Rightarrow> register_loop rp s1 i q' name u (Some (usage s q name)) fu_new True)"
        using register_loop_quick [OF stop True, of s1 r rp i u p] n less.prems(5) unfolding True [symmetric] by simp
      have "loop_post (env_of s) u0 name i (q # shortcut_points s q) False s s' ok"
        by (rule loop_continue [OF less.prems(1) m n rec [OF e less.prems(3) m [unfolded env]]])
      then show ?thesis using env stop by simp
    next
      case quick: False
      obtain db u1 fn where m: "merge (env_of s) (x_cache s) (usage_or_default (usage s q name)) u p = (db, u1, fn)"
        by (metis prod_cases3)
      have ev: "evaluates env u0 u1" using evaluates_merge [OF less.prems(3)] m env by blast
      show ?thesis
      proof (cases fn)
        case None
        have "s' = disable_shortcutting_bubble_up (s\<lparr>x_cache := db\<rparr>) i
            ''Could not register unsupported file usage combination''" "\<not> ok"
          using register_loop_fail [OF stop quick gu] m None less.prems(5) by simp_all
        then show ?thesis
          using bubble_up_disables [of "s\<lparr>x_cache := db\<rparr>" i] inv i chain_in_range [of i "x_nodes s"]
          by (auto simp: loop_post_def same_shape_def)
      next
        case (Some f)
        obtain s1 r where n: "next_shortcutable_ancestor (set_usage q name (Some f) (s\<lparr>x_cache := db\<rparr>)) q = (s1, r)"
          by fastforce
        have mm: "merged (env_of s) u0 (usage s q name) (Some f)"
          using less.prems(3) m Some env unfolding merged_def by blast
        have e: "(s', u', ok) = (case r of None \<Rightarrow> (s1, u1, True)
            | Some q' \<Rightarrow> register_loop rp s1 i q' name u1 (Some (usage s q name)) (Some f) True)"
          using register_loop_merge [OF stop quick gu _ n] m Some less.prems(5) by simp
        have "loop_post (env_of s) u0 name i (q # shortcut_points s q) False s s' ok"
          by (rule loop_continue [OF less.prems(1) mm n rec [OF e ev mm [unfolded env]]])
        then show ?thesis using env stop by simp
      qed
    qed
  qed
qed

section \<open>Operations that keep the shape of the tree, in any state\<close>

lemma set_node_shape:
  "en_parent n = en_parent (node s i) \<Longrightarrow> en_jobserver_fifo n = en_jobserver_fifo (node s i) \<Longrightarrow>
   en_inherited_files n = en_inherited_files (node s i) \<Longrightarrow> same_shape s (set_node i n s)"
  by (cases "i < length (x_nodes s)") (auto simp: same_shape_def set_node_def node_def nth_list_update)

lemma next_shape: "same_shape s (fst (next_shortcutable_ancestor s i))"
  by (auto simp: next_shortcutable_ancestor_def Let_def split: option.splits intro: set_node_shape)

lemma disable_only_shape: "same_shape s (disable_shortcutting_only_this s i reason p)"
  using set_node_shape [of "(node s i)\<lparr>en_can_shortcut := False, en_reason := Some reason,
    en_reason_proc := Some (case p of Some q \<Rightarrow> q | None \<Rightarrow> i)\<rparr>" s i]
  by (auto simp: disable_shortcutting_only_this_def same_shape_def)

lemma bubble_shape: "same_shape s (disable_shortcutting_bubble_up_to_excl s i stop reason p a)"
proof (induction s i stop reason p a rule: disable_shortcutting_bubble_up_to_excl.induct)
  case (1 s i stop reason p a)
  let ?src = "case p of None \<Rightarrow> i | Some q \<Rightarrow> q"
  let ?s1 = "disable_shortcutting_only_this s i reason (Some ?src)"
  show ?case
  proof (cases "Some i = stop")
    case True
    then show ?thesis by (simp add: disable_shortcutting_bubble_up_to_excl.simps)
  next
    case stop: False
    obtain s2 r where n: "next_shortcutable_ancestor ?s1 i = (s2, r)" by fastforce
    have sh2: "same_shape s s2"
      using same_shape_trans [OF disable_only_shape [of s i reason "Some ?src"] next_shape [of ?s1 i]] n by simp
    show ?thesis
    proof (cases r)
      case None
      then show ?thesis using stop n sh2 by (simp add: disable_shortcutting_bubble_up_to_excl.simps [of s])
    next
      case (Some b)
      let ?sa = "case a of Some a \<Rightarrow> a | None \<Rightarrow> closest_shortcutable (x_nodes s2) stop"
      let ?s3 = "set_node i ((node s2 i)\<lparr>en_ancestor := ?sa\<rparr>) s2"
      have sh3: "same_shape s ?s3" by (rule same_shape_trans [OF sh2 set_node_shape]) simp_all
      show ?thesis
      proof (cases "parent_exec_point (x_nodes s) i")
        case None
        then show ?thesis using stop n sh3 Some
          by (simp add: disable_shortcutting_bubble_up_to_excl.simps [of s] Let_def)
      next
        case (Some q)
        have "same_shape ?s3 (disable_shortcutting_bubble_up_to_excl ?s3 q stop reason (Some ?src) (Some ?sa))"
          using "1.IH" [OF stop refl refl n [symmetric] \<open>r = Some b\<close> refl refl Some] .
        from same_shape_trans [OF sh3 this] show ?thesis using stop n Some \<open>r = Some b\<close>
          by (simp add: disable_shortcutting_bubble_up_to_excl.simps [of s] Let_def)
      qed
    qed
  qed
qed

lemma bubble_up_shape: "same_shape s (disable_shortcutting_bubble_up s i reason)"
  by (simp add: disable_shortcutting_bubble_up_def bubble_shape)

lemma set_usage_shape: "same_shape s (set_usage q name fu s)"
  by (simp add: set_usage_def set_node_shape)

lemma cache_shape: "same_shape (s\<lparr>x_cache := db\<rparr>) s' \<Longrightarrow> same_shape s s'"
  by (simp add: same_shape_def)

text \<open>They keep the invariant of the tree, and never make a process shortcutable.\<close>

definition keeps :: "exec_state \<Rightarrow> exec_state \<Rightarrow> bool" where
  "keeps s t \<longleftrightarrow> same_shape s t \<and>
     (tree_inv s \<longrightarrow> tree_inv t \<and> (\<forall>j < length (x_nodes s). can (x_nodes t) j \<longrightarrow> can (x_nodes s) j))"

lemma keeps_refl [simp]: "keeps s s"
  by (simp add: keeps_def)

lemma keeps_trans: "keeps s t \<Longrightarrow> keeps t u \<Longrightarrow> keeps s u"
  by (auto simp: keeps_def same_shape_length intro: same_shape_trans)

lemma keeps_cache: "keeps (s\<lparr>x_cache := db\<rparr>) s' \<Longrightarrow> keeps s s'"
  by (simp add: keeps_def same_shape_def)

lemma keeps_length: "keeps s t \<Longrightarrow> length (x_nodes t) = length (x_nodes s)"
  by (simp add: keeps_def same_shape_length)

lemma next_keeps: "i < length (x_nodes s) \<Longrightarrow> keeps s (fst (next_shortcutable_ancestor s i))"
  using next_shape [of s i] next_correct [of s i] by (auto simp: keeps_def prod_eq_iff)

lemma disable_only_keeps: "i < length (x_nodes s) \<Longrightarrow> keeps s (disable_shortcutting_only_this s i reason p)"
proof -
  assume i: "i < length (x_nodes s)"
  note d = disable_only_this_law [OF i, where reason = reason and p = p]
  have "tree_inv (disable_shortcutting_only_this s i reason p)" if inv: "tree_inv s"
    using inv d anc_good_mono [OF _ d(1)] same_shape_wf [OF d(1)] same_shape_length [OF d(1)]
    by (simp add: tree_inv_def)
  with d show ?thesis by (simp add: keeps_def)
qed

lemma bubble_keeps:
  assumes "i < length (x_nodes s)" "tree_inv s \<Longrightarrow> stop_ok (x_nodes s) i stop"
  shows "keeps s (disable_shortcutting_bubble_up_to_excl s i stop reason p None)"
  using assms bubble_shape bubble_correct [of s i stop reason p] by (auto simp: keeps_def bubble_post_def)

lemma bubble_up_keeps: "i < length (x_nodes s) \<Longrightarrow> keeps s (disable_shortcutting_bubble_up s i reason)"
  using bubble_keeps [of i s None] by (simp add: disable_shortcutting_bubble_up_def stop_ok_def)

lemma set_usage_keeps: "q < length (x_nodes s) \<Longrightarrow> keeps s (set_usage q name fu s)"
  using set_usage_law [of q s name fu] tree_inv_same [of s "set_usage q name fu s"] by (simp add: keeps_def)

lemma next_case_keeps:
  assumes "keeps s t" "q < length (x_nodes s)"
    and "\<And>s1 q'. q' < q \<Longrightarrow> q' < length (x_nodes s1) \<Longrightarrow> length (x_nodes s1) = length (x_nodes s) \<Longrightarrow> keeps s1 (fst (K s1 q'))"
  shows "keeps s (fst (case next_shortcutable_ancestor t q of (s1, None) \<Rightarrow> (s1, v) | (s1, Some q') \<Rightarrow> K s1 q'))"
proof -
  obtain s1 r where n: "next_shortcutable_ancestor t q = (s1, r)" by fastforce
  have sh: "keeps s s1" using keeps_trans [OF assms(1) next_keeps] n keeps_length [OF assms(1)] assms(2) by (metis fst_conv)
  show ?thesis
  proof (cases r)
    case None
    then show ?thesis using n sh by simp
  next
    case (Some q')
    then show ?thesis
      using n keeps_trans [OF sh assms(3)] next_shortcutable_ancestor_less [of t q s1 q'] keeps_length [OF sh] assms(2)
      by simp
  qed
qed

lemma register_keeps_upto:
  assumes rp: "\<And>s q. q < length (x_nodes s) \<Longrightarrow> keeps s (rp s q)"
  shows "(2 * i < n \<longrightarrow> i < length (x_nodes s) \<longrightarrow> keeps s (fst (register_with rp s i name u))) \<and>
    (2 * q \<le> n \<longrightarrow> q < length (x_nodes s) \<longrightarrow> j < length (x_nodes s) \<longrightarrow>
       keeps s (fst (register_loop rp s j q name u fu_old fu_new p)))"
proof (induction n arbitrary: s i j q u fu_old fu_new p rule: less_induct)
  case (less n)
  have W: "keeps s' (fst (register_with rp s' q' name u'))" if "Suc (2 * q') < n" "q' < length (x_nodes s')" for s' q' u'
    using less.IH [of "Suc (2 * q')"] that by simp
  have L: "keeps s' (fst (register_loop rp s' j' q' name u' fo fn p'))"
    if "2 * q' < n" "q' < length (x_nodes s')" "j' < length (x_nodes s')" for s' j' q' u' fo fn p'
    using less.IH [of "2 * q'"] that by simp
  have "keeps s (fst (register_with rp s i name u))" if i: "2 * i < n" "i < length (x_nodes s)"
  proof -
    have rl: "keeps s1 (fst (register_loop rp (rp s1 q') i q' name u None None p))"
      if "q' \<le> i" "length (x_nodes s1) = length (x_nodes s)" for s1 q' p
      using that i keeps_length [OF rp [of q' s1]] by (intro keeps_trans [OF rp L]) simp_all
    have "keeps s (fst (case next_shortcutable_ancestor s i of (s1, None) \<Rightarrow> (s1, u, True)
        | (s1, Some q') \<Rightarrow> register_loop rp (rp s1 q') i q' name u None None True))"
      using rl i by (intro next_case_keeps) auto
    then show ?thesis unfolding register_with.simps using rl by simp
  qed
  moreover have "keeps s (fst (register_loop rp s j q name u fu_old fu_new p))"
    if q: "2 * q \<le> n" "q < length (x_nodes s)" "j < length (x_nodes s)"
  proof -
    have quick: "keeps s (fst (case next_shortcutable_ancestor (set_usage q name fn s) q of
        (s1, None) \<Rightarrow> (s1, u, True) | (s1, Some q') \<Rightarrow> register_loop rp s1 j q' name u fo fn True))" for fo fn
      using L q set_usage_keeps by (intro next_case_keeps) auto
    have conflict: "keeps s (fst (case next_shortcutable_ancestor (disable_shortcutting_only_this s q r None) q of
        (s1, None) \<Rightarrow> (s1, u, True) | (s1, Some q') \<Rightarrow> register_with rp s1 q' name u))" for r
      using W q disable_only_keeps by (intro next_case_keeps) auto
    have merged: "keeps s (fst (case next_shortcutable_ancestor (set_usage q name fn (s\<lparr>x_cache := db\<rparr>)) q of
        (s1, None) \<Rightarrow> (s1, u1, True) | (s1, Some q') \<Rightarrow> register_loop rp s1 j q' name u1 fo fn True))" for fo fn db u1
      by (rule keeps_cache [where db = db], rule next_case_keeps) (use L q set_usage_keeps in auto)
    have fail: "keeps s (disable_shortcutting_bubble_up (s\<lparr>x_cache := db\<rparr>) j r)" for db r
      by (rule keeps_cache [OF bubble_up_keeps]) (use q in simp)
    obtain db u1 fn where m: "merge (env_of s) (x_cache s) (usage_or_default (en_usages (node s q) name)) u p = (db, u1, fn)"
      by (metis prod_cases3)
    show ?thesis
      unfolding register_loop.simps [of rp s] Let_def m
      using quick conflict merged fail by (cases fn) simp_all
  qed
  ultimately show ?case by blast
qed

lemma register_with_keeps:
  "(\<And>s q. q < length (x_nodes s) \<Longrightarrow> keeps s (rp s q)) \<Longrightarrow> i < length (x_nodes s) \<Longrightarrow>
   keeps s (fst (register_with rp s i name u))"
  using register_keeps_upto [of rp i "Suc (2 * i)" s name u 0 0 None None False] by simp

lemma register_parent_keeps: "i < length (x_nodes s) \<Longrightarrow> keeps s (fst (register_parent_directory s i name t))"
proof -
  assume "i < length (x_nodes s)"
  then have "keeps s (fst (register_with (\<lambda>s _. s) s i d u))" for d u by (intro register_with_keeps) auto
  then show ?thesis
    by (simp add: register_parent_directory_def case_prod_beta split: option.splits)
qed

lemma register_usage_keeps:
  assumes "i < length (x_nodes s)"
  shows "keeps s (fst (register_file_usage_update s i name u))"
proof -
  have "keeps s (fst (register_with (\<lambda>s q. if fuu_parent_type u \<noteq> DONTKNOW
      then fst (register_parent_directory s q name (fuu_parent_type u)) else s) s i name u))"
    using assms by (intro register_with_keeps) (simp_all add: register_parent_keeps)
  then show ?thesis by (simp add: register_file_usage_update_def case_prod_beta)
qed

section \<open>New processes\<close>

lemma ancestors_snoc:
  assumes "tree_wf ns" "i < length ns"
  shows "ancestors (ns @ [n]) i = ancestors ns i"
  using assms(2)
proof (induction i rule: less_induct)
  case (less i)
  have p: "parent_exec_point (ns @ [n]) i = parent_exec_point ns i"
    using less.prems by (simp add: parent_exec_point_def nth_append)
  show ?case
  proof (cases "parent_exec_point ns i")
    case None
    then show ?thesis using p by (simp add: ancestors_None)
  next
    case (Some q)
    then show ?thesis using p less parent_less [OF Some] by (simp add: ancestors_Some)
  qed
qed

lemma anc_good_snoc:
  assumes "tree_wf ns" "i < length ns" "anc_good ns i b"
  shows "anc_good (ns @ [n]) i b"
proof -
  have "can (ns @ [n]) a = can ns a" if "a \<in> set (ancestors ns i)" for a
    using ancestors_less [OF that] assms(2) by (simp add: nth_append)
  note c = this
  show ?thesis
  proof (cases b)
    case None
    then show ?thesis using assms c by (auto simp: anc_good_def ancestors_snoc)
  next
    case (Some a)
    with assms(3) obtain xs ys where x: "ancestors ns i = xs @ a # ys" "\<forall>a \<in> set xs. \<not> can ns a"
      by (auto simp: anc_good_def)
    with c have "\<forall>a \<in> set xs. \<not> can (ns @ [n]) a" by auto
    then show ?thesis using x(1) Some ancestors_snoc [OF assms(1,2)] by (auto simp: anc_good_def)
  qed
qed

lemma closest_shortcut_point_law:
  assumes "tree_inv s" "p < length (x_nodes s)" "closest_shortcut_point s p = (s', a)"
  shows "a = List.find (can (x_nodes s)) (chain (x_nodes s) p)" "keeps s s'"
    "\<And>j. j < length (x_nodes s) \<Longrightarrow> can (x_nodes s') j = can (x_nodes s) j"
proof -
  have "a = List.find (can (x_nodes s)) (chain (x_nodes s) p) \<and> keeps s s' \<and>
    (\<forall>j < length (x_nodes s). can (x_nodes s') j = can (x_nodes s) j)"
  proof (cases "can (x_nodes s) p")
    case True
    then show ?thesis using assms(3) by (simp add: closest_shortcut_point_def node_def)
  next
    case False
    then have n: "next_shortcutable_ancestor s p = (s', a)"
      using assms(3) by (simp add: closest_shortcut_point_def node_def)
    then show ?thesis using next_correct [OF assms(1,2) n] next_keeps [OF assms(2)] False
      by (simp add: nearest_def)
  qed
  then show "a = List.find (can (x_nodes s)) (chain (x_nodes s) p)" "keeps s s'"
    "\<And>j. j < length (x_nodes s) \<Longrightarrow> can (x_nodes s') j = can (x_nodes s) j" by auto
qed

lemma find_good: "List.find (can ns) xs = Some b \<Longrightarrow> \<exists>us vs. xs = us @ b # vs \<and> (\<forall>a \<in> set us. \<not> can ns a)"
  using find_Some_split [of "can ns" xs b] by blast

lemma tree_inv_snoc:
  assumes inv: "tree_inv s" and t: "x_nodes t = x_nodes s @ [n]"
    and p: "\<And>p. en_parent n = Some p \<Longrightarrow> p < length (x_nodes s)"
    and a: "en_ancestor n = (case en_parent n of None \<Rightarrow> None | Some p \<Rightarrow> List.find (can (x_nodes s)) (chain (x_nodes s) p))"
  shows "tree_inv t"
proof -
  let ?ns = "x_nodes s" and ?n = "length (x_nodes s)"
  have wf: "tree_wf ?ns" using inv by (simp add: tree_inv_def)
  have wft: "tree_wf (?ns @ [n])"
    using wf p by (auto simp: tree_wf_def nth_append less_Suc_eq)
  have old: "anc_good (?ns @ [n]) i (en_ancestor ((?ns @ [n]) ! i))" if "i < ?n" for i
    using anc_good_snoc [OF wf that] inv that by (simp add: tree_inv_def nth_append)
  have "anc_good (?ns @ [n]) ?n (en_ancestor n)"
  proof (cases "en_parent n")
    case None
    then have "parent_exec_point (?ns @ [n]) ?n = None" using parent_wf [OF wft, of ?n] by (simp add: nth_append)
    then show ?thesis using None a by (simp add: anc_good_def ancestors_None)
  next
    case (Some q)
    then have "parent_exec_point (?ns @ [n]) ?n = Some q" using parent_wf [OF wft, of ?n] by (simp add: nth_append)
    then have an: "ancestors (?ns @ [n]) ?n = chain ?ns q"
      using ancestors_snoc [OF wf] p [OF Some] by (simp add: ancestors_Some)
    have c: "can (?ns @ [n]) b = can ?ns b" if "b \<in> set (chain ?ns q)" for b
      using chain_in_range [OF p [OF Some] that] by (simp add: nth_append)
    have an_eq: "en_ancestor n = List.find (can (?ns @ [n])) (chain ?ns q)"
      unfolding a Some option.case by (rule find_cong' [symmetric]) (rule c)
    show ?thesis
    proof (cases "en_ancestor n")
      case None
      then have "\<forall>b \<in> set (chain ?ns q). \<not> can (?ns @ [n]) b"
        using an_eq find_None_iff [of "can (?ns @ [n])" "chain ?ns q"] by (auto simp del: find.simps)
      then show ?thesis unfolding anc_good_def an None by simp
    next
      case (Some b)
      then show ?thesis using find_good [of "?ns @ [n]" "chain ?ns q" b] an_eq unfolding anc_good_def an by (simp del: find.simps)
    qed
  qed
  with old wft show ?thesis by (auto simp: tree_inv_def t less_Suc_eq)
qed

lemma new_exec_node_inv:
  assumes "tree_inv s" "\<And>p. parent = Some p \<Longrightarrow> p < length (x_nodes s)"
    and "new_exec_node s parent = (s', i)"
  shows "tree_inv s' \<and> i = length (x_nodes s) \<and> length (x_nodes s') = Suc (length (x_nodes s)) \<and>
    can (x_nodes s') i \<and> en_parent (x_nodes s' ! i) = parent"
proof -
  obtain t a where t: "(case parent of Some p \<Rightarrow> closest_shortcut_point s p | None \<Rightarrow> (s, None)) = (t, a)"
    by fastforce
  have l: "keeps s t" "a = (case parent of None \<Rightarrow> None | Some p \<Rightarrow> List.find (can (x_nodes t)) (chain (x_nodes t) p))"
  proof -
    have "keeps s t \<and> a = (case parent of None \<Rightarrow> None | Some p \<Rightarrow> List.find (can (x_nodes t)) (chain (x_nodes t) p))"
    proof (cases parent)
      case None
      then show ?thesis using t by simp
    next
      case (Some p)
      have p: "p < length (x_nodes s)" using assms(2) Some by simp
      note c = closest_shortcut_point_law [OF assms(1) p, of t a]
      have ct: "closest_shortcut_point s p = (t, a)" using t Some by simp
      have sh: "same_shape s t" using c(2) [OF ct] by (simp add: keeps_def)
      have wf: "tree_wf (x_nodes s)" using assms(1) by (simp add: tree_inv_def)
      have "List.find (can (x_nodes t)) (chain (x_nodes s) p) = List.find (can (x_nodes s)) (chain (x_nodes s) p)"
        using c(3) [OF ct] chain_in_range [OF p] by (intro find_cong') auto
      then show ?thesis using c(1,2) [OF ct] same_shape_ancestors [OF sh wf p] Some by simp
    qed
    then show "keeps s t" "a = (case parent of None \<Rightarrow> None | Some p \<Rightarrow> List.find (can (x_nodes t)) (chain (x_nodes t) p))"
      by auto
  qed
  have inv: "tree_inv t" and len: "length (x_nodes t) = length (x_nodes s)"
    using l(1) assms(1) keeps_length [OF l(1)] by (auto simp: keeps_def)
  have s': "s' = fst (new_exec_node s parent)" "i = snd (new_exec_node s parent)" using assms(3) by simp_all
  have "tree_inv s'"
    using l(2) assms(2) len unfolding s' new_exec_node_def t by (intro tree_inv_snoc [OF inv]) auto
  then show ?thesis using len unfolding s' new_exec_node_def t by (simp add: nth_append)
qed

section \<open>Writers\<close>

lemma below_chain:
  assumes "a \<in> set (chain ns i)"
  shows "below ns i (Some a) = set (chain ns i) - set (chain ns a)"
proof -
  obtain xs where x: "chain ns i = xs @ chain ns a" using chain_suffix [OF assms] by blast
  have d: "set xs \<inter> set (chain ns a) = {}" using ancestors_distinct [of i ns] unfolding x distinct_append by blast
  have "takeWhile (\<lambda>b. Some b \<noteq> Some a) (xs @ chain ns a) = xs @ takeWhile (\<lambda>b. Some b \<noteq> Some a) (chain ns a)"
    using d by (intro takeWhile_append2) auto
  also have "\<dots> = xs" by simp
  finally have "below ns i (Some a) = set xs" unfolding below_def x by simp
  moreover have "set (chain ns i) = set xs \<union> set (chain ns a)" unfolding x by simp
  ultimately show ?thesis using d by blast
qed

lemma bubble_self: "disable_shortcutting_bubble_up_to_excl s i (Some i) reason p x = s"
  by (simp add: disable_shortcutting_bubble_up_to_excl.simps)

lemma tree_inv_writers [simp]: "tree_inv (s\<lparr>x_writers := w\<rparr>) = tree_inv s"
  by (simp add: tree_inv_def)

lemma common_ancestor_stop_ok:
  assumes "common_exec_ancestor ns i (Some j) = Some a"
  shows "a \<in> set (chain ns i)" "a \<in> set (chain ns j)"
  using assms unfolding common_exec_ancestor_iff(1) by auto

lemma bubble_to_common:
  assumes "tree_inv s" "i < length (x_nodes s)" "a \<in> set (chain (x_nodes s) i)"
    and "s' = disable_shortcutting_bubble_up_to_excl s i (Some a) reason None None"
  shows "tree_inv s'" "same_shape s s'" "same_usages s s'"
    "\<And>j. j < length (x_nodes s) \<Longrightarrow>
       can (x_nodes s') j = (can (x_nodes s) j \<and> \<not> (j \<in> set (chain (x_nodes s) i) \<and> j \<notin> set (chain (x_nodes s) a)))"
  using bubble_correct [OF assms(1,2), of "Some a" reason None] assms(3,4) below_chain [OF assms(3)]
  by (auto simp: bubble_post_def stop_ok_def)

lemma open_for_writing_shared:
  assumes "tree_inv s" "proc < length (x_nodes s)" "owner < length (x_nodes s)"
    and "\<not> in_ignore_location (x_locs s) name" "x_writers s name = Some (n, Some owner)"
    and "proc \<noteq> owner" "en_jobserver_fifo (node s proc) \<noteq> Some name"
    and "common_exec_ancestor (x_nodes s) proc (Some owner) = Some a"
    and "s' = open_for_writing s name proc"
  shows "tree_inv s'" "x_writers s' = (x_writers s)(name \<mapsto> (n + 1, Some a))"
    "x_generation s' = x_generation s" "length (x_nodes s') = length (x_nodes s)"
    "\<And>j. j < length (x_nodes s) \<Longrightarrow> can (x_nodes s') j =
       (can (x_nodes s) j \<and> \<not> ((j \<in> set (chain (x_nodes s) proc) \<or> j \<in> set (chain (x_nodes s) owner)) \<and>
                               j \<notin> set (chain (x_nodes s) a)))"
proof -
  let ?ns = "x_nodes s"
  define s1 where "s1 = s\<lparr>x_writers := (x_writers s)(name \<mapsto> (n + 1, Some owner))\<rparr>"
  define s2 where "s2 = disable_shortcutting_bubble_up_to_excl s1 proc (Some a)
      ''Opened for writing which file is already opened for writing'' None None"
  define s3 where "s3 = disable_shortcutting_bubble_up_to_excl s2 owner (Some a)
      ''An other process opened for writing'' None None"
  note a = common_ancestor_stop_ok [OF assms(8)]
  have n1: "x_nodes s1 = ?ns" "x_generation s1 = x_generation s" by (simp_all add: s1_def)
  have inv1: "tree_inv s1" using assms(1) by (simp add: s1_def)
  note b2 = bubble_to_common [OF inv1 assms(2) [folded n1(1)] a(1) [folded n1(1)] s2_def, unfolded n1]
  have wf1: "tree_wf (x_nodes s1)" using inv1 by (simp add: tree_inv_def)
  have l2: "length (x_nodes s2) = length ?ns" using same_shape_length [OF b2(2)] n1 by simp
  have anc2: "ancestors (x_nodes s2) j = ancestors ?ns j" if "j < length ?ns" for j
    using same_shape_ancestors [OF b2(2) wf1] that n1 by simp
  have al: "a < length ?ns" using chain_in_range [OF assms(2) a(1)] .
  have a2: "a \<in> set (chain (x_nodes s2) owner)" using a(2) anc2 [OF assms(3)] by simp
  have o2: "owner < length (x_nodes s2)" using assms(3) l2 by simp
  note b3 = bubble_to_common [OF b2(1) o2 a2 s3_def]
  have l3: "length (x_nodes s3) = length ?ns" using same_shape_length [OF b3(2)] l2 by simp
  have w: "x_writers s3 = x_writers s1" "x_writers s2 = x_writers s1" "x_generation s3 = x_generation s"
    "x_generation s2 = x_generation s"
    using b2(2) b3(2) n1 by (simp_all add: same_shape_def)
  have eq: "s' = (if a \<noteq> owner then s3\<lparr>x_writers := (x_writers s1)(name \<mapsto> (n + 1, Some a))\<rparr> else s3)"
    unfolding assms(9) open_for_writing_def using assms(4-8) bubble_self
    by (auto simp: Let_def s1_def s2_def s3_def)
  show "tree_inv s'" using eq b3(1) by simp
  show "x_writers s' = (x_writers s)(name \<mapsto> (n + 1, Some a))" using eq w by (auto simp: s1_def)
  show "x_generation s' = x_generation s" using eq w by simp
  show "length (x_nodes s') = length ?ns" using eq l3 by simp
  show "can (x_nodes s') j =
       (can ?ns j \<and> \<not> ((j \<in> set (chain ?ns proc) \<or> j \<in> set (chain ?ns owner)) \<and> j \<notin> set (chain ?ns a)))"
    if j: "j < length ?ns" for j
    using eq b3(4) [of j] b2(4) [of j] j l2 anc2 [OF assms(3)] anc2 [OF al] by auto
qed

section \<open>Registration from its entry\<close>

definition first_point :: "exec_state \<Rightarrow> nat \<Rightarrow> exec_state \<times> nat option" where
  "first_point s i =
     (if \<not> en_can_shortcut (node s i) \<and> \<not> x_report s then next_shortcutable_ancestor s i else (s, Some i))"

definition with_parent :: "exec_state \<Rightarrow> nat \<Rightarrow> string \<Rightarrow> file_usage_update \<Rightarrow> exec_state" where
  "with_parent s q name u =
     (if fuu_parent_type u \<noteq> DONTKNOW then fst (register_parent_directory s q name (fuu_parent_type u)) else s)"

lemma with_parent_keeps: "q < length (x_nodes s) \<Longrightarrow> keeps s (with_parent s q name u)"
  by (simp add: with_parent_def register_parent_keeps)

lemma first_point_law:
  assumes "tree_inv s" "i < length (x_nodes s)" "first_point s i = (s1, r)"
  shows "keeps s s1" "\<And>q. r = Some q \<Longrightarrow> q \<le> i"
proof -
  have "keeps s s1 \<and> (\<forall>q. r = Some q \<longrightarrow> q \<le> i)"
    using assms next_keeps [OF assms(2)] next_shortcutable_ancestor_less [of s i s1]
    by (auto simp: first_point_def split: if_splits dest: less_imp_le_nat)
  then show "keeps s s1" "\<And>q. r = Some q \<Longrightarrow> q \<le> i" by auto
qed

lemma keeps_env: "keeps s t \<Longrightarrow> env_of t = env_of s"
  by (simp add: keeps_def)

lemma register_entry:
  assumes "\<not> in_ignore_location (x_locs s) name" "en_jobserver_fifo (node s i) \<noteq> Some name"
    and "first_point s i = (s1, r)"
  shows "register_file_usage_update s i name u =
    (case r of
       None \<Rightarrow> (s1, True)
     | Some q \<Rightarrow>
         (case register_loop (\<lambda>s q. with_parent s q name u) (with_parent s1 q name u) i q name u None None
                 (\<not> en_can_shortcut (node s i) \<and> \<not> x_report s) of (s', _, ok) \<Rightarrow> (s', ok)))"
proof -
  have rp: "(\<lambda>s q. if fuu_parent_type u \<noteq> DONTKNOW
      then fst (register_parent_directory s q name (fuu_parent_type u)) else s) = (\<lambda>s q. with_parent s q name u)"
    by (simp add: with_parent_def fun_eq_iff)
  show ?thesis
    unfolding register_file_usage_update_def rp register_with.simps [of _ s]
    using assms by (auto simp: first_point_def split: option.splits)
qed

lemma register_law:
  assumes inv: "tree_inv s" and i: "i < length (x_nodes s)"
    and no: "\<not> in_ignore_location (x_locs s) name" "en_jobserver_fifo (node s i) \<noteq> Some name"
    and fp: "first_point s i = (s1, Some q)" and s0: "s0 = with_parent s1 q name u"
    and g: "\<forall>j \<in> set (q # shortcut_points s0 q). \<not> wrong_generation (usage s0 j name) u"
    and reg: "register_file_usage_update s i name u = (s', ok)"
  shows "if ok then \<exists>n > 0. registered (env_of s) u name (q # shortcut_points s0 q) n s0 s'
    else tree_inv s' \<and> (\<forall>j \<in> set (chain (x_nodes s) i). \<not> can (x_nodes s') j)"
proof -
  note f = first_point_law [OF inv i fp]
  have l1: "length (x_nodes s1) = length (x_nodes s)" using keeps_length [OF f(1)] .
  have q1: "q < length (x_nodes s1)" using f(2) i l1 by fastforce
  have k: "keeps s s0" unfolding s0 by (rule keeps_trans [OF f(1) with_parent_keeps [OF q1]])
  have l0: "length (x_nodes s0) = length (x_nodes s)" using keeps_length [OF k] .
  have pre: "register_pre s0 i q name u"
    using k inv q1 l1 l0 i g by (simp add: register_pre_def keeps_def)
  obtain u' where loop: "register_loop (\<lambda>s q. with_parent s q name u) s0 i q name u None None
      (\<not> en_can_shortcut (node s i) \<and> \<not> x_report s) = (s', u', ok)"
    using register_entry [OF no fp] reg s0 by (auto split: prod.splits)
  have "loop_post (env_of s0) u name i (q # shortcut_points s0 q) False s0 s' ok"
    using register_loop_law [OF pre refl evaluates_refl _ loop] by (simp add: carried_def)
  moreover have "ancestors (x_nodes s0) i = ancestors (x_nodes s) i"
    using k inv i same_shape_ancestors by (simp add: keeps_def tree_inv_def)
  ultimately show ?thesis using keeps_env [OF k] by (auto simp: loop_post_def)
qed

lemma ancestors_length: "length (ancestors ns i) \<le> i"
proof -
  have "distinct (ancestors ns i)" using ancestors_distinct [of i ns] by simp
  then have "length (ancestors ns i) = card (set (ancestors ns i))" by (simp add: distinct_card)
  also have "\<dots> \<le> card {..<i}" using ancestors_less [of _ ns i] by (intro card_mono) auto
  finally show ?thesis by simp
qed

section \<open>Properties\<close>

text \<open>A root process with two children, as the exec()s create them.\<close>

definition empty_state :: "os \<Rightarrow> exec_state" where
  "empty_state w = \<lparr>x_report = False, x_locs = no_locations, x_os = w, x_errno = 5, x_cache = (\<lambda>_. None),
     x_nodes = [], x_writers = (\<lambda>_. None), x_generation = (\<lambda>_. None), x_recorders = (\<lambda>_. True)\<rparr>"

definition three_procs :: "os \<Rightarrow> exec_state" where
  "three_procs w =
     (let s0 = fst (new_exec_node (empty_state w) None);
          s1 = fst (new_exec_node s0 (Some 0))
      in fst (new_exec_node s1 (Some 0)))"

abbreviation the_os :: os where "the_os \<equiv> one_file_os ''/f'' 0x1A4 ''hello''"

lemma empty_inv: "tree_inv (empty_state w)"
  by (simp add: tree_inv_def empty_state_def tree_wf_def)

lemma three_procs_nodes:
  "x_nodes (three_procs w) =
    [\<lparr>en_parent = None, en_ancestor = None, en_can_shortcut = True, en_reason = None, en_reason_proc = None,
      en_usages = (\<lambda>_. None), en_jobserver_fifo = None, en_inherited_files = []\<rparr>,
     \<lparr>en_parent = Some 0, en_ancestor = Some 0, en_can_shortcut = True, en_reason = None, en_reason_proc = None,
      en_usages = (\<lambda>_. None), en_jobserver_fifo = None, en_inherited_files = []\<rparr>,
     \<lparr>en_parent = Some 0, en_ancestor = Some 0, en_can_shortcut = True, en_reason = None, en_reason_proc = None,
      en_usages = (\<lambda>_. None), en_jobserver_fifo = None, en_inherited_files = []\<rparr>]"
  by (simp add: three_procs_def empty_state_def new_exec_node_def closest_shortcut_point_def node_def)

lemma three_procs_inv: "tree_inv (three_procs w)"
proof -
  let ?a = "new_exec_node (empty_state w) None" and ?b = "new_exec_node (fst (new_exec_node (empty_state w) None)) (Some 0)"
  have a: "tree_inv (fst ?a)" "length (x_nodes (fst ?a)) = 1"
    using new_exec_node_inv [OF empty_inv, of None w "fst ?a" "snd ?a"] by (simp_all add: empty_state_def)
  have b: "tree_inv (fst ?b)" "length (x_nodes (fst ?b)) = 2"
    using new_exec_node_inv [OF a(1), of "Some 0" "fst ?b" "snd ?b"] a(2) by simp_all
  show ?thesis
    using new_exec_node_inv [OF b(1), of "Some 0" "three_procs w" "snd (new_exec_node (fst ?b) (Some 0))"] b(2)
    by (simp add: three_procs_def Let_def)
qed

lemma three_procs_ancestors:
  "ancestors (x_nodes (three_procs w)) 0 = []" "ancestors (x_nodes (three_procs w)) (Suc 0) = [0]"
  "ancestors (x_nodes (three_procs w)) 2 = [0]"
  by (simp_all add: three_procs_nodes ancestors.simps parent_exec_point_def older_def)


text \<open>
  C29: the lazily moved pointers always lead to the closest ancestor that can still be shortcut:
  following \<open>next_shortcutable_ancestor\<close> from a process visits exactly its shortcutable ancestors, closest
  first, ends after at most as many steps as there are processes, and keeps the pointers good.
\<close>

theorem next_shortcutable_ancestor_visits:
  assumes "tree_inv s" "i < length (x_nodes s)"
    and "climb next_shortcutable_ancestor (length (x_nodes s)) s i = (s', as)"
  shows "as = filter (\<lambda>a. en_can_shortcut (x_nodes s ! a)) (ancestors (x_nodes s) i) \<and> tree_inv s'"
proof -
  have "length (shortcut_points s i) \<le> length (x_nodes s)"
    using ancestors_length [of "x_nodes s" i] assms(2) length_filter_le [of "can (x_nodes s)" "ancestors (x_nodes s) i"]
    unfolding shortcut_points_def by linarith
  from up.climb_visits [OF assms(1,2) this assms(3)] show ?thesis by (simp add: shortcut_points_def)
qed

theorem next_shortcutable_ancestor_visits_witness:
  "snd (climb next_shortcutable_ancestor (length (x_nodes (three_procs the_os))) (three_procs the_os) 2) = [0]"
proof -
  obtain s' as where c: "climb next_shortcutable_ancestor (length (x_nodes (three_procs the_os))) (three_procs the_os) 2 = (s', as)"
    by fastforce
  have "(2 :: nat) < length (x_nodes (three_procs the_os))" by (simp add: three_procs_nodes)
  from next_shortcutable_ancestor_visits [OF three_procs_inv this c] c show ?thesis
    unfolding three_procs_ancestors by (simp add: three_procs_nodes)
qed

text \<open>
  C30: disabling shortcutting up to an ancestor disables the process and its ancestors below that one
  and no other process, keeps what all processes know about files, and keeps the pointers good although
  it moves them past processes that are only disabled later.
\<close>

theorem disable_shortcutting_bubble_up_to_excl_correct:
  assumes "tree_inv s" "i < length (x_nodes s)" "a \<in> set (i # ancestors (x_nodes s) i)"
    and "s' = disable_shortcutting_bubble_up_to_excl s i (Some a) reason None None"
    and "j < length (x_nodes s)"
  shows "tree_inv s' \<and> en_usages (x_nodes s' ! j) = en_usages (x_nodes s ! j) \<and>
    (en_can_shortcut (x_nodes s' ! j) \<longleftrightarrow> en_can_shortcut (x_nodes s ! j) \<and>
       (j \<in> set (i # ancestors (x_nodes s) i) \<longrightarrow> j \<in> set (a # ancestors (x_nodes s) a)))"
  using bubble_to_common [OF assms(1-4)] assms(5) by (auto simp: same_usages_def)

theorem disable_shortcutting_bubble_up_to_excl_correct_witness:
  "\<not> en_can_shortcut (x_nodes (disable_shortcutting_bubble_up_to_excl (three_procs the_os) 2 (Some 0) ''r'' None None) ! 2) \<and>
   en_can_shortcut (x_nodes (disable_shortcutting_bubble_up_to_excl (three_procs the_os) 2 (Some 0) ''r'' None None) ! 0)"
proof -
  have l: "(2 :: nat) < length (x_nodes (three_procs the_os))" "(0 :: nat) < length (x_nodes (three_procs the_os))"
    by (simp_all add: three_procs_nodes)
  have a: "(0 :: nat) \<in> set (2 # ancestors (x_nodes (three_procs the_os)) 2)" by (simp add: three_procs_ancestors)
  show ?thesis
    using disable_shortcutting_bubble_up_to_excl_correct [OF three_procs_inv l(1) a refl l(1), of "''r''"]
      disable_shortcutting_bubble_up_to_excl_correct [OF three_procs_inv l(1) a refl l(2), of "''r''"]
    unfolding three_procs_ancestors by (simp add: three_procs_nodes)
qed

lemma merge_propagated: "merge env db fo u p = (db', u', Some f) \<Longrightarrow> fu_propagated f = p"
  by (auto simp: merge_def Let_def split: prod.splits option.splits if_splits)

lemma two_level_run:
  assumes inv: "tree_inv s" and i: "i < length (x_nodes s)" "en_can_shortcut (x_nodes s ! i)"
    and no: "\<not> in_ignore_location (x_locs s) name" "en_jobserver_fifo (node s i) \<noteq> Some name"
    and u: "fuu_parent_type u = DONTKNOW" and p: "shortcut_points s i = [p]"
    and n: "usage s i name = None" "usage s p name = None"
    and m: "merge (env_of s) (x_cache s) (FileUsage_of_type DONTKNOW) u False = (db, u1, Some f)"
  shows "\<exists>s'. register_file_usage_update s i name u = (s', True) \<and>
    usage s' i name = Some f \<and> usage s' p name = Some f"
proof -
  let ?rp = "\<lambda>s q. with_parent s q name u"
  obtain s1 r1 where n1: "next_shortcutable_ancestor (set_usage i name (Some f) (s\<lparr>x_cache := db\<rparr>)) i = (s1, r1)"
    by fastforce
  note st1 = store_and_next [OF inv i(1) n1]
  have c: "p < i" using shortcut_points_Cons [OF p] by simp
  have inv1: "tree_inv s1" and sh1: "same_shape s s1" using st1(1) by (auto simp: same_but_usage_def)
  have l1: "length (x_nodes s1) = length (x_nodes s)" using same_shape_length [OF sh1] .
  have pl: "p < length (x_nodes s1)" using c i l1 by simp
  obtain s2 r2 where n2: "next_shortcutable_ancestor (set_usage p name (Some f) (s1\<lparr>x_cache := x_cache s1\<rparr>)) p = (s2, r2)"
    by fastforce
  note st2 = store_and_next [OF inv1 pl n2]
  have r: "r1 = Some p" "r2 = None"
    using st1(2) st2(2) st1(3) [of p] shortcut_points_Cons(1) [OF p] p pl l1 by simp_all
  have m': "merge (env_of s) (x_cache s) (usage_or_default (usage s i name)) u False = (db, u1, Some f)"
    using m n by (simp add: usage_or_default_def)
  have "register_loop ?rp s i i name u None None False = register_loop ?rp s1 i p name u1 (Some None) (Some f) True"
    using register_loop_merge [OF _ _ _ m' n1, of None None ?rp i] n r by (simp add: wrong_generation_def)
  also have "\<dots> = (s2, u1, True)"
  proof -
    have e: "Some None = Some (usage s1 p name)" using st1(4) [of p] n(2) c i(1) by simp
    have n2': "next_shortcutable_ancestor (set_usage p name (Some f) s1) p = (s2, r2)" using n2 by simp
    show ?thesis using register_loop_quick [OF _ e n2', of ?rp i u1 True] r(2) by simp
  qed
  finally have run: "register_loop ?rp s i i name u None None False = (s2, u1, True)" .
  have fp: "first_point s i = (s, Some i)" using i(2) by (simp add: first_point_def node_def)
  have wp: "with_parent s i name u = s" using u by (simp add: with_parent_def)
  have "(\<not> en_can_shortcut (node s i) \<and> \<not> x_report s) = False" using i(2) by (simp add: node_def)
  then have "register_file_usage_update s i name u = (s2, True)"
    unfolding register_entry [OF no fp] option.case wp by (simp only: run prod.case)
  moreover have "usage s2 i name = Some f" "usage s2 p name = Some f"
    using st2(4) [of i] st2(4) [of p] st1(4) [of i] i c l1 by simp_all
  ultimately show ?thesis by blast
qed

definition plain_update :: "exec_state \<Rightarrow> file_usage_update" where
  "plain_update s = FileUsageUpdate (env_of s) ''/f'' ISREG False False"

lemma plain_update_merge:
  "\<exists>f. merge (env_of s) (x_cache s) (FileUsage_of_type DONTKNOW) (plain_update s) False =
     (x_cache s, plain_update s, Some f)"
  by (simp add: merge_def Let_def plain_update_def FileUsageUpdate_def FileUsageUpdate_info_def
      get_initial_type_def merge_initial_state_def learn_hash_def initial_hash_known_def learn_size_def
      file_info_of_type_def mk_file_info_def FileUsage_of_type_def size_known_def)

lemma three_procs_points: "shortcut_points (three_procs w) (Suc 0) = [0]" "shortcut_points (three_procs w) 0 = []"
  by (simp_all add: shortcut_points_def three_procs_ancestors) (simp add: three_procs_nodes)

lemma three_procs_plain:
  "\<not> in_ignore_location (x_locs (three_procs w)) ''/f''" "en_jobserver_fifo (node (three_procs w) (Suc 0)) \<noteq> Some ''/f''"
  "fuu_parent_type (plain_update s) = DONTKNOW"
  by (simp_all add: node_def three_procs_nodes plain_update_def FileUsageUpdate_def FileUsageUpdate_info_def)
    (simp add: three_procs_def empty_state_def new_exec_node_def closest_shortcut_point_def node_def)



text \<open>
  An ancestor that knew as little about a file as the process itself takes the usage of the process
  as it is, including the mark that it was not propagated from a descendant.
\<close>

theorem register_quick_path_not_propagated:
  assumes "tree_inv s" "i < length (x_nodes s)" "en_can_shortcut (x_nodes s ! i)"
    and "\<not> in_ignore_location (x_locs s) name" "en_jobserver_fifo (node s i) \<noteq> Some name"
    and "fuu_parent_type u = DONTKNOW" "shortcut_points s i = [p]"
    and "usage s i name = None" "usage s p name = None"
    and "merge (env_of s) (x_cache s) (FileUsage_of_type DONTKNOW) u False = (db, u1, Some f)"
  shows "\<exists>s' g. register_file_usage_update s i name u = (s', True) \<and> usage s' p name = Some g \<and> \<not> fu_propagated g"
  using two_level_run [OF assms] merge_propagated [OF assms(10)] by blast

theorem register_quick_path_not_propagated_witness:
  "\<exists>s' g. register_file_usage_update (three_procs the_os) (Suc 0) ''/f'' (plain_update (three_procs the_os)) = (s', True) \<and>
     usage s' 0 ''/f'' = Some g \<and> \<not> fu_propagated g"
proof -
  let ?s = "three_procs the_os" and ?u = "plain_update (three_procs the_os)"
  obtain f where f: "merge (env_of ?s) (x_cache ?s) (FileUsage_of_type DONTKNOW) ?u False = (x_cache ?s, ?u, Some f)"
    using plain_update_merge by blast
  have i: "Suc 0 < length (x_nodes ?s)" "en_can_shortcut (x_nodes ?s ! Suc 0)" by (simp_all add: three_procs_nodes)
  have n: "usage ?s (Suc 0) ''/f'' = None" "usage ?s 0 ''/f'' = None" by (simp_all add: three_procs_nodes)
  show ?thesis
    by (rule register_quick_path_not_propagated [OF three_procs_inv i three_procs_plain three_procs_points(1) n f])
qed

text \<open>
  C31: when a process opens a file for writing that another process has open for writing, exactly the
  processes on the two branches below their closest common ancestor lose the ability to be shortcut,
  and the common ancestor becomes the owner of the open file.
\<close>

theorem open_for_writing_disables_branches:
  assumes "tree_inv s" "proc < length (x_nodes s)" "owner < length (x_nodes s)"
    and "\<not> in_ignore_location (x_locs s) name" "x_writers s name = Some (n, Some owner)"
    and "proc \<noteq> owner" "en_jobserver_fifo (node s proc) \<noteq> Some name"
    and "common_exec_ancestor (x_nodes s) proc (Some owner) = Some a"
    and "j < length (x_nodes s)"
  shows "tree_inv (open_for_writing s name proc) \<and> x_writers (open_for_writing s name proc) name = Some (n + 1, Some a) \<and>
    (en_can_shortcut (x_nodes (open_for_writing s name proc) ! j) \<longleftrightarrow> en_can_shortcut (x_nodes s ! j) \<and>
       \<not> ((j \<in> set (proc # ancestors (x_nodes s) proc) \<or> j \<in> set (owner # ancestors (x_nodes s) owner)) \<and>
          j \<notin> set (a # ancestors (x_nodes s) a)))"
  using open_for_writing_shared [OF assms(1-8) refl] assms(9) by simp

theorem open_for_writing_disables_branches_witness:
  "map en_can_shortcut (x_nodes (open_for_writing
     ((three_procs the_os)\<lparr>x_writers := [''/f'' \<mapsto> (1, Some (Suc 0))]\<rparr>) ''/f'' 2)) = [True, False, False]"
proof -
  let ?s = "(three_procs the_os)\<lparr>x_writers := [''/f'' \<mapsto> (1, Some (Suc 0))]\<rparr>"
  have inv: "tree_inv ?s" by (simp add: three_procs_inv)
  have ns: "x_nodes ?s = x_nodes (three_procs the_os)" by simp
  have l: "length (x_nodes ?s) = 3" by (simp add: three_procs_nodes)
  have lo: "(2 :: nat) < length (x_nodes ?s)" "Suc 0 < length (x_nodes ?s)" using l by simp_all
  have ig: "\<not> in_ignore_location (x_locs ?s) ''/f''" using three_procs_plain(1) by simp
  have ff: "en_jobserver_fifo (node ?s 2) \<noteq> Some ''/f''" by (simp add: node_def three_procs_nodes)
  have c: "common_exec_ancestor (x_nodes ?s) 2 (Some (Suc 0)) = Some 0"
    unfolding common_exec_ancestor_iff(1) ns three_procs_ancestors by auto
  have w: "x_writers ?s ''/f'' = Some (1, Some (Suc 0))" "(2 :: nat) \<noteq> Suc 0" by simp_all
  note t = open_for_writing_disables_branches [OF inv lo ig w ff c]
  have len: "length (x_nodes (open_for_writing ?s ''/f'' 2)) = 3"
    using open_for_writing_shared(4) [OF inv lo ig w ff c refl] l by simp
  have e: "en_can_shortcut (x_nodes (open_for_writing ?s ''/f'' 2) ! 0)"
    "\<not> en_can_shortcut (x_nodes (open_for_writing ?s ''/f'' 2) ! 1)"
    "\<not> en_can_shortcut (x_nodes (open_for_writing ?s ''/f'' 2) ! 2)"
    using t [of 0] t [of 1] t [of 2] l unfolding ns by (simp_all add: three_procs_ancestors) (simp_all add: three_procs_nodes)
  show ?thesis
    using len e by (auto simp: list_eq_iff_nth_eq less_Suc_eq numeral_3_eq_3 numeral_2_eq_2)
qed

text \<open>
  C32: closing a file for writing undoes the count of opening it for writing, whoever else has it open.
\<close>

theorem close_undoes_open_for_writing:
  assumes "proc < length (x_nodes s)" "\<forall>n owner. x_writers s name = Some (n, owner) \<longrightarrow> 0 < n"
  shows "writers_count (close_for_writing (open_for_writing s name proc) name) name = writers_count s name"
proof (cases "in_ignore_location (x_locs s) name")
  case True
  then show ?thesis by (simp add: open_for_writing_def close_for_writing_def)
next
  case ign: False
  show ?thesis
  proof (cases "x_writers s name")
    case None
    define s1 where "s1 = s\<lparr>x_writers := (x_writers s)(name \<mapsto> (1, Some proc))\<rparr>"
    define s2 where "s2 g = s1\<lparr>x_generation := (x_generation s)(name \<mapsto> g + 1)\<rparr>" for g
    have "keeps (s2 g) (fst (register_file_usage_update (s2 g) proc name u))" for g u
      using assms(1) by (intro register_usage_keeps) (simp add: s2_def s1_def)
    then have sh: "x_writers (fst (register_file_usage_update (s2 g) proc name u)) = x_writers s1"
      "x_locs (fst (register_file_usage_update (s2 g) proc name u)) = x_locs s" for g u
      by (simp_all add: keeps_def same_shape_def s2_def s1_def)
    show ?thesis using ign None sh
      by (auto simp: open_for_writing_def close_for_writing_def writers_count_def Let_def s1_def s2_def split: option.splits)
  next
    case (Some w)
    obtain n owner where w: "x_writers s name = Some (n, owner)" using Some by (cases w) auto
    then have n: "0 < n" using assms(2) by simp
    have "\<exists>a. x_writers (open_for_writing s name proc) name = Some (n + 1, a)"
      "x_locs (open_for_writing s name proc) = x_locs s"
      using ign w bubble_shape
      by (auto simp: open_for_writing_def Let_def same_shape_def split: option.splits)
    then show ?thesis using ign w n by (auto simp: close_for_writing_def writers_count_def)
  qed
qed

theorem close_undoes_open_for_writing_witness:
  "writers_count (close_for_writing (open_for_writing (three_procs the_os) ''/f'' 2) ''/f'') ''/f'' = 0"
proof -
  have "(2 :: nat) < length (x_nodes (three_procs the_os))" by (simp add: three_procs_nodes)
  moreover have w: "x_writers (three_procs the_os) ''/f'' = None"
    by (simp add: three_procs_def empty_state_def new_exec_node_def closest_shortcut_point_def node_def)
  ultimately show ?thesis using close_undoes_open_for_writing [of 2 "three_procs the_os" "''/f''"]
    by (simp add: writers_count_def)
qed

end
