(* ===== verification/FB_Epoll.thy ===== *)
theory FB_Epoll
  imports FB_Prelude
begin

text \<open>
  \<^verbatim>\<open>src/firebuild/epoll.cc\<close> and \<^verbatim>\<open>epoll.h\<close>: the supervisor's own bookkeeping of watched descriptors and
  timers.  A callback is any value of type \<open>'c\<close>, its user data any value of type \<open>'u\<close>; the null
  pointer is \<open>None\<close>.  Times are in nanoseconds of the monotonic clock, which is an argument.  A failed
  assertion, an index outside a vector and a call of a null callback is \<open>None\<close>.
\<close>

section \<open>State\<close>

record ('c, 'u) fd_context =
  ctx_callback :: "'c option"
  ctx_user_data :: "'u option"

record ('c, 'u) timer_context =
  tm_callback :: "'c option"
  tm_user_data :: "'u option"
  tm_when :: int

record ('c, 'u) epoll =
  ep_fds :: nat
  ep_fd_contexts :: "('c, 'u) fd_context list"
  ep_closed_context_fds :: "int list"
  ep_timer_contexts :: "('c, 'u) timer_context list"
  ep_largest_timer_id :: int
  ep_next_timer :: int
  ep_events :: "int list"
  ep_event_current :: nat

definition empty_context :: "('c, 'u) fd_context" where
  "empty_context = \<lparr>ctx_callback = None, ctx_user_data = None\<rparr>"

definition empty_timer :: "('c, 'u) timer_context" where
  "empty_timer = \<lparr>tm_callback = None, tm_user_data = None, tm_when = 0\<rparr>"

definition epoll_init :: "('c, 'u) epoll" where
  "epoll_init = \<lparr>ep_fds = 0, ep_fd_contexts = [], ep_closed_context_fds = [], ep_timer_contexts = [],
     ep_largest_timer_id = -1, ep_next_timer = -1, ep_events = [], ep_event_current = 0\<rparr>"

section \<open>Watched descriptors\<close>

definition ensure_room_fd :: "int \<Rightarrow> ('c, 'u) epoll \<Rightarrow> ('c, 'u) epoll" where
  "ensure_room_fd fd e =
     (if fd \<ge> int (length (ep_fd_contexts e))
      then e\<lparr>ep_fd_contexts := ep_fd_contexts e @ replicate (nat fd + 1 - length (ep_fd_contexts e)) empty_context\<rparr>
      else e)"

definition is_added_fd :: "('c, 'u) epoll \<Rightarrow> int \<Rightarrow> bool option" where
  "is_added_fd e fd =
     (if fd < int (length (ep_fd_contexts e))
      then (if fd < 0 then None else Some (ctx_callback (ep_fd_contexts e ! nat fd) \<noteq> None))
      else Some False)"

definition add_fd :: "('c, 'u) epoll \<Rightarrow> int \<Rightarrow> 'c \<Rightarrow> 'u option \<Rightarrow> ('c, 'u) epoll option" where
  "add_fd e fd callback user_data =
     (if fd < 0 then None
      else
        let e1 = ensure_room_fd fd e in
        if ctx_callback (ep_fd_contexts e1 ! nat fd) \<noteq> None then None
        else Some (e1\<lparr>ep_fd_contexts := (ep_fd_contexts e1)[nat fd :=
                        \<lparr>ctx_callback = Some callback, ctx_user_data = user_data\<rparr>],
                      ep_fds := ep_fds e1 + 1\<rparr>))"

text \<open>The events after the current one that are for \<open>fd\<close>: the first of them is cancelled.\<close>

fun cancel_event :: "int \<Rightarrow> int list \<Rightarrow> int list" where
  "cancel_event fd [] = []"
| "cancel_event fd (x # xs) = (if x = fd then -1 # xs else x # cancel_event fd xs)"

definition del_fd :: "('c, 'u) epoll \<Rightarrow> int \<Rightarrow> ('c, 'u) epoll option" where
  "del_fd e fd =
     (if fd < 0 then None
      else
        let e1 = ensure_room_fd fd e; ctx = ep_fd_contexts e1 ! nat fd in
        if ctx_callback ctx = None \<or> ep_fds e1 = 0 then None
        else Some (e1\<lparr>ep_fd_contexts := (ep_fd_contexts e1)[nat fd := ctx\<lparr>ctx_callback := None\<rparr>],
                      ep_fds := ep_fds e1 - 1,
                      ep_events := take (Suc (ep_event_current e1)) (ep_events e1) @
                                   cancel_event fd (drop (Suc (ep_event_current e1)) (ep_events e1))\<rparr>))"

definition maybe_del_fd :: "('c, 'u) epoll \<Rightarrow> int \<Rightarrow> ('c, 'u) epoll option" where
  "maybe_del_fd e fd =
     (case is_added_fd e fd of
        None \<Rightarrow> None
      | Some added \<Rightarrow> if added then del_fd e fd else Some e)"

text \<open>The result of \<open>dup(fd)\<close> is the argument \<open>ret\<close>.\<close>

definition remap_to_not_added_fd :: "('c, 'u) epoll \<Rightarrow> int \<Rightarrow> int \<Rightarrow> (('c, 'u) epoll \<times> int) option" where
  "remap_to_not_added_fd e fd ret =
     (if is_added_fd e fd \<noteq> Some True then None
      else case is_added_fd e ret of
        None \<Rightarrow> None
      | Some True \<Rightarrow> Some (e, -1)
      | Some False \<Rightarrow> Some (e\<lparr>ep_closed_context_fds := ep_closed_context_fds e @ [fd]\<rparr>, ret))"

text \<open>The callback to call with a fake hangup event for a descriptor whose closing was missed, if any.\<close>

definition delete_closed_fd_context :: "('c, 'u) epoll \<Rightarrow> int \<Rightarrow> ('c \<times> 'u) option option" where
  "delete_closed_fd_context e fd =
     (if fd < 0 \<or> int (length (ep_fd_contexts e)) \<le> fd then None
      else
        let ctx = ep_fd_contexts e ! nat fd in
        case ctx_user_data ctx of
          None \<Rightarrow> Some None
        | Some u \<Rightarrow> (case ctx_callback ctx of None \<Rightarrow> None | Some c \<Rightarrow> Some (Some (c, u))))"

section \<open>Timers\<close>

definition timer_active :: "('c, 'u) epoll \<Rightarrow> nat \<Rightarrow> bool" where
  "timer_active e i \<longleftrightarrow> i < length (ep_timer_contexts e) \<and> tm_callback (ep_timer_contexts e ! i) \<noteq> None"

definition timer_when :: "('c, 'u) epoll \<Rightarrow> nat \<Rightarrow> int" where
  "timer_when e i = tm_when (ep_timer_contexts e ! i)"

text \<open>The first slot from \<open>i\<close> up to the largest used one that is empty, or the one behind it.\<close>

fun first_empty :: "('c, 'u) timer_context list \<Rightarrow> nat \<Rightarrow> nat" where
  "first_empty [] i = i"
| "first_empty (t # ts) i = (if tm_callback t = None then i else first_empty ts (Suc i))"

definition add_timer :: "('c, 'u) epoll \<Rightarrow> int \<Rightarrow> int \<Rightarrow> 'c \<Rightarrow> 'u option \<Rightarrow> ('c, 'u) epoll \<times> nat" where
  "add_timer e now ms callback user_data =
     (let timer_id = first_empty (take (nat (ep_largest_timer_id e + 1)) (ep_timer_contexts e)) 0;
          e1 = (if int timer_id > ep_largest_timer_id e
                then e\<lparr>ep_largest_timer_id := ep_largest_timer_id e + 1,
                       ep_timer_contexts := ep_timer_contexts e @
                         (if timer_id = length (ep_timer_contexts e) then [empty_timer] else [])\<rparr>
                else e);
          e2 = e1\<lparr>ep_timer_contexts := (ep_timer_contexts e1)[timer_id :=
                 \<lparr>tm_callback = Some callback, tm_user_data = user_data, tm_when = now + ms * 1000 * 1000\<rparr>]\<rparr>;
          e3 = (if ep_next_timer e2 < 0 \<or> timer_when e2 timer_id < timer_when e2 (nat (ep_next_timer e2))
                then e2\<lparr>ep_next_timer := int timer_id\<rparr> else e2)
      in (e3, timer_id))"

text \<open>\<open>cap_largest\<close> and \<open>earliest\<close> are the two loops of \<open>del_timer\<close>; the first counts with \<open>largest_timer_id_ + 1\<close>.\<close>

fun cap_largest :: "('c, 'u) timer_context list \<Rightarrow> nat \<Rightarrow> nat" where
  "cap_largest ts 0 = 0"
| "cap_largest ts (Suc i) = (if tm_callback (ts ! i) = None then cap_largest ts i else Suc i)"

fun earliest :: "('c, 'u) timer_context list \<Rightarrow> nat \<Rightarrow> int" where
  "earliest ts 0 = -1"
| "earliest ts (Suc i) =
     (let nxt = earliest ts i in
      if tm_callback (ts ! i) \<noteq> None \<and> (nxt < 0 \<or> tm_when (ts ! i) < tm_when (ts ! nat nxt)) then int i else nxt)"

definition del_timer :: "('c, 'u) epoll \<Rightarrow> nat \<Rightarrow> ('c, 'u) epoll option" where
  "del_timer e timer_id =
     (if \<not> timer_active e timer_id then None
      else
        let ts = (ep_timer_contexts e)[timer_id := (ep_timer_contexts e ! timer_id)\<lparr>tm_callback := None\<rparr>];
            largest1 = cap_largest ts (nat (ep_largest_timer_id e + 1))
        in Some (e\<lparr>ep_timer_contexts := ts,
                   ep_largest_timer_id := int largest1 - 1,
                   ep_next_timer := (if int timer_id = ep_next_timer e then earliest ts largest1
                                     else ep_next_timer e)\<rparr>))"

text \<open>The timeout of \<open>wait\<close> in milliseconds, \<open>None\<close> when it returns without waiting.\<close>

definition wait_timeout :: "('c, 'u) epoll \<Rightarrow> int \<Rightarrow> int option" where
  "wait_timeout e now =
     (if ep_next_timer e \<ge> 0 then
        (let w = timer_when e (nat (ep_next_timer e)) in
         if w < now then None else Some ((w - now) div (1000 * 1000)))
      else Some (-1))"

section \<open>Laws\<close>

definition timers_inv :: "('c, 'u) epoll \<Rightarrow> bool" where
  "timers_inv e \<longleftrightarrow>
     -1 \<le> ep_largest_timer_id e \<and> ep_largest_timer_id e < int (length (ep_timer_contexts e)) \<and>
     (\<forall>i. timer_active e i \<longrightarrow> int i \<le> ep_largest_timer_id e) \<and>
     (ep_largest_timer_id e \<ge> 0 \<longrightarrow> timer_active e (nat (ep_largest_timer_id e))) \<and>
     (if ep_largest_timer_id e < 0 then ep_next_timer e = -1
      else ep_next_timer e \<ge> 0 \<and> timer_active e (nat (ep_next_timer e)) \<and>
           (\<forall>i. timer_active e i \<longrightarrow> timer_when e (nat (ep_next_timer e)) \<le> timer_when e i))"

lemma first_empty_ge: "i \<le> first_empty ts i"
  by (induction ts i rule: first_empty.induct) (auto intro: Suc_leD)

lemma first_empty_law:
  "first_empty ts i \<le> i + length ts \<and>
   (\<forall>k < first_empty ts i - i. tm_callback (ts ! k) \<noteq> None) \<and>
   (first_empty ts i < i + length ts \<longrightarrow> tm_callback (ts ! (first_empty ts i - i)) = None)"
proof (induction ts i rule: first_empty.induct)
  case (2 t ts i)
  show ?case
  proof (cases "tm_callback t = None")
    case False
    have g: "Suc i \<le> first_empty ts (Suc i)" by (rule first_empty_ge)
    have d: "first_empty ts (Suc i) - i = Suc (first_empty ts (Suc i) - Suc i)" using g by simp
    show ?thesis using 2 [OF False] False g unfolding first_empty.simps if_not_P [OF False] d
      by (auto simp: nth_Cons less_Suc_eq_0_disj split: nat.splits)
  qed simp
qed simp

lemma cap_largest_le: "cap_largest ts n \<le> n"
  by (induction ts n rule: cap_largest.induct) auto

lemma cap_largest_law:
  "(\<forall>i < n. tm_callback (ts ! i) \<noteq> None \<longrightarrow> i < cap_largest ts n) \<and>
   (0 < cap_largest ts n \<longrightarrow> tm_callback (ts ! (cap_largest ts n - 1)) \<noteq> None)"
  by (induction ts n rule: cap_largest.induct) (auto simp: less_Suc_eq)

lemma earliest_law:
  "(earliest ts n = -1 \<and> (\<forall>i < n. tm_callback (ts ! i) = None)) \<or>
   (0 \<le> earliest ts n \<and> earliest ts n < int n \<and> tm_callback (ts ! nat (earliest ts n)) \<noteq> None \<and>
    (\<forall>i < n. tm_callback (ts ! i) \<noteq> None \<longrightarrow> tm_when (ts ! nat (earliest ts n)) \<le> tm_when (ts ! i)))"
proof (induction n)
  case (Suc n)
  then show ?case by (auto simp: Let_def less_Suc_eq)
qed simp

lemma timers_inv_bounds:
  assumes "timers_inv e"
  shows "nat (ep_largest_timer_id e + 1) \<le> length (ep_timer_contexts e)"
    "timer_active e k \<Longrightarrow> k < nat (ep_largest_timer_id e + 1)"
proof -
  have l: "ep_largest_timer_id e < int (length (ep_timer_contexts e))"
    "timer_active e k \<Longrightarrow> int k \<le> ep_largest_timer_id e" using assms by (auto simp: timers_inv_def)
  show "nat (ep_largest_timer_id e + 1) \<le> length (ep_timer_contexts e)" using l(1) by linarith
  show "timer_active e k \<Longrightarrow> k < nat (ep_largest_timer_id e + 1)" using l(2) by linarith
qed

lemma add_timer_slot:
  assumes "timers_inv e" "add_timer e now ms c u = (e', i)"
  shows "\<not> timer_active e i" "i \<le> nat (ep_largest_timer_id e + 1)"
    "int i \<le> ep_largest_timer_id e \<Longrightarrow> i < length (ep_timer_contexts e)"
proof -
  let ?n = "nat (ep_largest_timer_id e + 1)"
  let ?ts = "take ?n (ep_timer_contexts e)"
  have i: "i = first_empty ?ts 0" using assms(2) by (auto simp: add_timer_def Let_def)
  have n: "?n \<le> length (ep_timer_contexts e)" using timers_inv_bounds [OF assms(1)] by simp
  have l: "length ?ts = ?n" using n by simp
  note f = first_empty_law [of ?ts 0, folded i, simplified, unfolded l]
  show "i \<le> ?n" using f l by simp
  show "int i \<le> ep_largest_timer_id e \<Longrightarrow> i < length (ep_timer_contexts e)" using n by linarith
  show "\<not> timer_active e i"
  proof
    assume a: "timer_active e i"
    then have "i < ?n" using timers_inv_bounds [OF assms(1)] by simp
    then show False using f l a by (auto simp: timer_active_def)
  qed
qed

lemma add_timer_law:
  assumes "timers_inv e" "add_timer e now ms c u = (e', i)"
  shows "timers_inv e' \<and> \<not> timer_active e i \<and> (\<forall>k. timer_active e' k \<longleftrightarrow> timer_active e k \<or> k = i) \<and>
    timer_when e' i = now + ms * 1000 * 1000 \<and> (\<forall>k. k \<noteq> i \<longrightarrow> timer_active e k \<longrightarrow> timer_when e' k = timer_when e k)"
proof -
  note s = add_timer_slot [OF assms]
  let ?L = "ep_largest_timer_id e" and ?ts = "ep_timer_contexts e"
  let ?t = "\<lparr>tm_callback = Some c, tm_user_data = u, tm_when = now + ms * 1000 * 1000\<rparr>"
  have L: "-1 \<le> ?L" "?L < int (length ?ts)" using assms(1) by (simp_all add: timers_inv_def)
  define ts1 where "ts1 = (if int i > ?L then ?ts @ (if i = length ?ts then [empty_timer] else []) else ?ts)"
  define ts2 where "ts2 = ts1[i := ?t]"
  define L' where "L' = (if int i > ?L then ?L + 1 else ?L)"
  have il: "i \<le> length ?ts" using s(2) L by linarith
  have l1: "i < length ts1" using s(3) il by (auto simp: ts1_def)
  have i0: "first_empty (take (nat (?L + 1)) ?ts) 0 = i" using assms(2) by (simp add: add_timer_def Let_def)
  have e0: "e' = fst (add_timer e now ms c u)" using assms(2) by simp
  have e': "ep_timer_contexts e' = ts2" "ep_largest_timer_id e' = L'"
    "ep_next_timer e' = (if ep_next_timer e < 0 \<or> tm_when (ts2 ! i) < tm_when (ts2 ! nat (ep_next_timer e)) then int i else ep_next_timer e)"
    unfolding e0 add_timer_def Let_def i0 by (simp_all add: ts1_def ts2_def L'_def timer_when_def)
  have n1: "ts1 ! k = ?ts ! k" if "k < length ?ts" for k using that by (simp add: ts1_def nth_append)
  have ex: "k = i" if "k < length ts1" "\<not> k < length ?ts" for k
    using that il by (auto simp: ts1_def split: if_splits)
  have act: "timer_active e' k \<longleftrightarrow> timer_active e k \<or> k = i" for k
  proof (cases "k = i")
    case True
    then show ?thesis using l1 by (simp add: timer_active_def e' ts2_def)
  next
    case False
    have "length ?ts \<le> length ts1" by (simp add: ts1_def)
    then show ?thesis using False n1 [of k] ex [of k]
      by (cases "k < length ?ts") (auto simp: timer_active_def e' ts2_def)
  qed
  have wi: "timer_when e' i = now + ms * 1000 * 1000" using l1 by (simp add: timer_when_def e' ts2_def)
  have wk: "timer_when e' k = timer_when e k" if "k \<noteq> i" "timer_active e k" for k
    using that n1 [of k] by (simp add: timer_when_def timer_active_def e' ts2_def)
  have Li: "int i \<le> L'" using s(2) L by (auto simp: L'_def)
  have Lact: "timer_active e' (nat L')"
  proof (cases "int i > ?L")
    case True
    then have "nat L' = i" using s(2) L by (simp add: L'_def)
    then show ?thesis using act by simp
  next
    case False
    then show ?thesis using act [of "nat ?L"] assms(1) by (auto simp: L'_def timers_inv_def)
  qed
  have "timers_inv e'"
  proof -
    have b: "L' < int (length ts2)" using Lact e' by (auto simp: timer_active_def)
    have bound: "timer_active e' k \<longrightarrow> int k \<le> L'" for k
      using act [of k] Li assms(1) L by (auto simp: timers_inv_def L'_def split: if_splits)
    have nxt: "ep_next_timer e' \<ge> 0 \<and> timer_active e' (nat (ep_next_timer e')) \<and>
        (\<forall>k. timer_active e' k \<longrightarrow> timer_when e' (nat (ep_next_timer e')) \<le> timer_when e' k)"
    proof (cases "?L < 0")
      case True
      then have "ep_next_timer e = -1" "\<forall>k. \<not> timer_active e k" using assms(1) by (auto simp: timers_inv_def)
      then show ?thesis using act e' by auto
    next
      case False
      then have nn: "ep_next_timer e \<ge> 0" "timer_active e (nat (ep_next_timer e))"
        "\<forall>k. timer_active e k \<longrightarrow> timer_when e (nat (ep_next_timer e)) \<le> timer_when e k"
        using assms(1) by (auto simp: timers_inv_def)
      have ne: "nat (ep_next_timer e) \<noteq> i" using nn(2) s(1) by auto
      have w: "timer_when e' (nat (ep_next_timer e)) = timer_when e (nat (ep_next_timer e))" using wk [OF ne nn(2)] .
      show ?thesis
      proof (cases "timer_when e' i < timer_when e' (nat (ep_next_timer e))")
        case True
        then have "ep_next_timer e' = int i" using e' by (simp add: timer_when_def)
        moreover have "timer_when e' i \<le> timer_when e' k" if "timer_active e' k" for k
          using that act wk [of k] nn(3) w True by (cases "k = i") fastforce+
        ultimately show ?thesis using act by simp
      next
        case False
        then have "ep_next_timer e' = ep_next_timer e" using e' nn(1) by (simp add: timer_when_def)
        moreover have "timer_when e' (nat (ep_next_timer e)) \<le> timer_when e' k" if "timer_active e' k" for k
          using that act wk [of k] nn(3) w False by (cases "k = i") fastforce+
        ultimately show ?thesis using act nn by simp
      qed
    qed
    show ?thesis using b bound nxt Lact L e' Li unfolding timers_inv_def
      by (auto simp: L'_def)
  qed
  then show ?thesis using s(1) act wi wk by blast
qed

lemma del_timer_law:
  assumes "timers_inv e" "timer_active e i"
  shows "\<exists>e'. del_timer e i = Some e' \<and> timers_inv e' \<and> (\<forall>k. timer_active e' k \<longleftrightarrow> timer_active e k \<and> k \<noteq> i) \<and>
    (\<forall>k. timer_when e' k = timer_when e k)"
proof -
  let ?ts = "(ep_timer_contexts e)[i := (ep_timer_contexts e ! i)\<lparr>tm_callback := None\<rparr>]"
  let ?n = "nat (ep_largest_timer_id e + 1)"
  obtain e' where e': "del_timer e i = Some e'" using assms(2) by (simp add: del_timer_def Let_def)
  then have f: "ep_timer_contexts e' = ?ts" "ep_largest_timer_id e' = int (cap_largest ?ts ?n) - 1"
    "ep_next_timer e' = (if int i = ep_next_timer e then earliest ?ts (cap_largest ?ts ?n) else ep_next_timer e)"
    using assms(2) by (auto simp: del_timer_def Let_def)
  have il: "i < length (ep_timer_contexts e)" using assms(2) by (simp add: timer_active_def)
  have act: "timer_active e' k \<longleftrightarrow> timer_active e k \<and> k \<noteq> i" for k
    using il by (cases "k = i") (auto simp: timer_active_def f)
  have w: "timer_when e' k = timer_when e k" for k
    using il by (cases "k = i") (auto simp: timer_when_def f)
  have bn: "k < ?n" if "timer_active e k" for k
    using that timers_inv_bounds [OF assms(1)] by simp
  have cl: "k < cap_largest ?ts ?n" if "timer_active e' k" for k
    using that cap_largest_law [of ?n ?ts] bn act by (auto simp: timer_active_def f)
  have nl: "?n \<le> length ?ts" using timers_inv_bounds [OF assms(1)] by simp
  have ca: "0 < cap_largest ?ts ?n \<Longrightarrow> timer_active e' (cap_largest ?ts ?n - 1)"
    using cap_largest_law [of ?n ?ts] cap_largest_le [of ?ts ?n] nl by (auto simp: timer_active_def f)
  have "timers_inv e'"
  proof -
    have nxt: "if ep_largest_timer_id e' < 0 then ep_next_timer e' = -1
      else ep_next_timer e' \<ge> 0 \<and> timer_active e' (nat (ep_next_timer e')) \<and>
           (\<forall>k. timer_active e' k \<longrightarrow> timer_when e' (nat (ep_next_timer e')) \<le> timer_when e' k)"
    proof (cases "int i = ep_next_timer e")
      case True
      let ?m = "cap_largest ?ts ?n"
      have r: "ep_next_timer e' = earliest ?ts ?m" using True f by simp
      have m: "?m \<le> length ?ts" using cap_largest_le [of ?ts ?n] nl by simp
      have a: "timer_active e' k \<longleftrightarrow> k < ?m \<and> tm_callback (?ts ! k) \<noteq> None" for k
        using cl [of k] m by (auto simp: timer_active_def f)
      show ?thesis
        using earliest_law [of ?ts ?m] ca a f(2) unfolding r timer_when_def f(1) by (cases "?m = 0") auto
    next
      case False
      have nx: "ep_next_timer e \<ge> 0" "timer_active e (nat (ep_next_timer e))"
        "\<forall>k. timer_active e k \<longrightarrow> timer_when e (nat (ep_next_timer e)) \<le> timer_when e k"
        using assms by (auto simp: timers_inv_def split: if_splits)
      have "timer_active e' (nat (ep_next_timer e))" using act nx False by auto
      with cl have "\<not> ep_largest_timer_id e' < 0" using f(2) by fastforce
      then show ?thesis using False f(3) nx act w \<open>timer_active e' (nat (ep_next_timer e))\<close> by simp
    qed
    have "cap_largest ?ts ?n \<le> length ?ts" using cap_largest_le [of ?ts ?n] nl by simp
    moreover have "timer_active e' k \<longrightarrow> int k \<le> ep_largest_timer_id e'" for k using cl [of k] f(2) by auto
    moreover have "ep_largest_timer_id e' \<ge> 0 \<longrightarrow> timer_active e' (nat (ep_largest_timer_id e'))"
      using ca f(2) by (auto simp: nat_diff_distrib)
    ultimately show ?thesis using nxt f unfolding timers_inv_def by auto
  qed
  then show ?thesis using e' act w by blast
qed

section \<open>Properties\<close>

text \<open>The timer operations in any order.\<close>

inductive timer_reach :: "('c, 'u) epoll \<Rightarrow> bool" where
  start: "timer_reach epoll_init"
| add: "timer_reach e \<Longrightarrow> add_timer e now ms c u = (e', i) \<Longrightarrow> timer_reach e'"
| del: "timer_reach e \<Longrightarrow> del_timer e i = Some e' \<Longrightarrow> timer_reach e'"

lemma timers_inv_init: "timers_inv epoll_init"
  by (simp add: timers_inv_def epoll_init_def timer_active_def)

lemma timer_reach_inv: "timer_reach e \<Longrightarrow> timers_inv e"
proof (induction rule: timer_reach.induct)
  case start
  show ?case by (rule timers_inv_init)
next
  case (add e now ms c u e' i)
  show ?case using add_timer_law [OF add.IH add.hyps(2)] by simp
next
  case (del e i e')
  then have "timer_active e i" by (auto simp: del_timer_def split: if_splits)
  from del_timer_law [OF del.IH this] del.hyps(2) show ?case by auto
qed

text \<open>
  C35: after any sequence of timer additions and deletions \<open>next_timer_\<close> is the active timer that fires
  first, or negative when there is none, and \<open>largest_timer_id_\<close> the largest active one.
\<close>

theorem next_timer_is_earliest:
  assumes "timer_reach e"
  shows "if \<exists>i. timer_active e i
    then ep_next_timer e \<ge> 0 \<and> timer_active e (nat (ep_next_timer e)) \<and> timer_active e (nat (ep_largest_timer_id e)) \<and>
      (\<forall>i. timer_active e i \<longrightarrow> timer_when e (nat (ep_next_timer e)) \<le> timer_when e i \<and> int i \<le> ep_largest_timer_id e)
    else ep_next_timer e = -1 \<and> ep_largest_timer_id e = -1"
  using timer_reach_inv [OF assms] unfolding timers_inv_def by (auto split: if_splits)

theorem next_timer_is_earliest_witness:
  "ep_next_timer (fst (add_timer (fst (add_timer epoll_init 5 2 () (None :: unit option))) 6 1 () None)) = 1"
proof -
  define e1 where "e1 = fst (add_timer epoll_init 5 2 () (None :: unit option))"
  define e2 where "e2 = fst (add_timer e1 6 1 () None)"
  have "timer_reach e1" unfolding e1_def
    by (rule timer_reach.add [OF timer_reach.start]) (rule prod.collapse [symmetric])
  then have r: "timer_reach e2" unfolding e2_def by (rule timer_reach.add) (rule prod.collapse [symmetric])
  have e: "timer_active e2 1" "timer_when e2 0 = 2000005" "timer_when e2 1 = 1000006" "length (ep_timer_contexts e2) = 2"
    by (simp_all add: e1_def e2_def add_timer_def epoll_init_def timer_active_def timer_when_def empty_timer_def Let_def)
  have x: "\<exists>i. timer_active e2 i" using e(1) by blast
  note t = next_timer_is_earliest [OF r, unfolded if_P [OF x]]
  have n: "ep_next_timer e2 \<ge> 0" "nat (ep_next_timer e2) < 2" using t e(4) by (simp_all add: timer_active_def)
  have "timer_when e2 (nat (ep_next_timer e2)) \<le> timer_when e2 1" using t e(1) by blast
  then have "nat (ep_next_timer e2) \<noteq> 0" using e(2,3) by (cases "nat (ep_next_timer e2)") auto
  then have "ep_next_timer e2 = 1" using n by linarith
  then show ?thesis by (simp add: e2_def e1_def)
qed

definition fds_inv :: "('c, 'u) epoll \<Rightarrow> bool" where
  "fds_inv e \<longleftrightarrow> ep_fds e = length (filter (\<lambda>c. ctx_callback c \<noteq> None) (ep_fd_contexts e))"

lemma ensure_room_law:
  "fds_inv e \<Longrightarrow> fds_inv (ensure_room_fd fd e)"
  "fd \<ge> 0 \<Longrightarrow> nat fd < length (ep_fd_contexts (ensure_room_fd fd e))"
  by (auto simp: fds_inv_def ensure_room_fd_def empty_context_def is_added_fd_def nth_append split: if_splits)

lemma length_filter_update:
  "i < length xs \<Longrightarrow>
   length (filter P (xs[i := x])) + (if P (xs ! i) then 1 else 0) = length (filter P xs) + (if P x then 1 else 0)"
proof (induction xs arbitrary: i)
  case (Cons y ys)
  then show ?case by (cases i) auto
qed simp

lemma is_added_room: "k \<ge> 0 \<Longrightarrow> is_added_fd (ensure_room_fd fd e) k = is_added_fd e k"
  by (auto simp: ensure_room_fd_def is_added_fd_def empty_context_def nth_append)

lemma watched_fds_law:
  assumes "fds_inv e" "fd \<ge> 0"
  shows "is_added_fd e fd = Some False \<Longrightarrow>
      \<exists>e'. add_fd e fd c u = Some e' \<and> fds_inv e' \<and> ep_fds e' = ep_fds e + 1 \<and>
         (\<forall>k \<ge> 0. is_added_fd e' k = (if k = fd then Some True else is_added_fd e k))"
    "is_added_fd e fd = Some True \<Longrightarrow>
      \<exists>e'. del_fd e fd = Some e' \<and> fds_inv e' \<and> ep_fds e' + 1 = ep_fds e \<and>
         (\<forall>k \<ge> 0. is_added_fd e' k = (if k = fd then Some False else is_added_fd e k))"
proof -
  define e1 where "e1 = ensure_room_fd fd e"
  have i1: "fds_inv e1" "nat fd < length (ep_fd_contexts e1)" "ep_fds e1 = ep_fds e"
    unfolding e1_def by (rule ensure_room_law(1) [OF assms(1)], rule ensure_room_law(2) [OF assms(2)])
      (simp add: ensure_room_fd_def)
  have a: "is_added_fd e k = is_added_fd e1 k" if "k \<ge> 0" for k using that by (simp add: e1_def is_added_room)
  have fl: "fd < int (length (ep_fd_contexts e1))" using i1(2) assms(2) by linarith
  have at: "is_added_fd e fd = Some (ctx_callback (ep_fd_contexts e1 ! nat fd) \<noteq> None)"
    using fl assms(2) by (subst a [OF assms(2)]) (simp add: is_added_fd_def)
  note upd = length_filter_update [OF i1(2), of "\<lambda>c. ctx_callback c \<noteq> None"]
  have other: "is_added_fd (e1\<lparr>ep_fd_contexts := (ep_fd_contexts e1)[nat fd := x], ep_fds := n, ep_events := v\<rparr>) k =
      (if k = fd then Some (ctx_callback x \<noteq> None) else is_added_fd e1 k)" if "k \<ge> 0" for k x n v
    using that i1(2) assms(2) by (auto simp: is_added_fd_def nth_list_update)
  {
    assume "is_added_fd e fd = Some False"
    then have n: "ctx_callback (ep_fd_contexts e1 ! nat fd) = None" using at by simp
    let ?x = "\<lparr>ctx_callback = Some c, ctx_user_data = u\<rparr>"
    let ?e = "e1\<lparr>ep_fd_contexts := (ep_fd_contexts e1)[nat fd := ?x], ep_fds := ep_fds e1 + 1\<rparr>"
    have "add_fd e fd c u = Some ?e" using assms(2) n by (simp add: add_fd_def Let_def e1_def)
    moreover have "fds_inv ?e" using upd [of ?x] i1(1) n by (simp add: fds_inv_def)
    moreover have "\<forall>k \<ge> 0. is_added_fd ?e k = (if k = fd then Some True else is_added_fd e k)"
      using other [where x = ?x and n = "ep_fds e1 + 1" and v = "ep_events e1"] a by simp
    ultimately show "\<exists>e'. add_fd e fd c u = Some e' \<and> fds_inv e' \<and> ep_fds e' = ep_fds e + 1 \<and>
         (\<forall>k \<ge> 0. is_added_fd e' k = (if k = fd then Some True else is_added_fd e k))"
      using i1(3) by (intro exI [of _ ?e]) simp
  }
  {
    assume "is_added_fd e fd = Some True"
    then have n: "ctx_callback (ep_fd_contexts e1 ! nat fd) \<noteq> None" using at by simp
    let ?x = "(ep_fd_contexts e1 ! nat fd)\<lparr>ctx_callback := None\<rparr>"
    let ?v = "take (Suc (ep_event_current e1)) (ep_events e1) @ cancel_event fd (drop (Suc (ep_event_current e1)) (ep_events e1))"
    let ?e = "e1\<lparr>ep_fd_contexts := (ep_fd_contexts e1)[nat fd := ?x], ep_fds := ep_fds e1 - 1, ep_events := ?v\<rparr>"
    have u: "length (filter (\<lambda>c. ctx_callback c \<noteq> None) ((ep_fd_contexts e1)[nat fd := ?x])) + 1 = ep_fds e1"
      using upd [of ?x] n i1(1) by (simp add: fds_inv_def)
    then have "del_fd e fd = Some ?e" using assms(2) n by (simp add: del_fd_def Let_def e1_def [symmetric])
    moreover have "fds_inv ?e" using u by (simp add: fds_inv_def)
    moreover have "\<forall>k \<ge> 0. is_added_fd ?e k = (if k = fd then Some False else is_added_fd e k)"
      using other [where x = ?x and n = "ep_fds e1 - 1" and v = ?v] a by simp
    moreover have "ep_fds ?e + 1 = ep_fds e" using u i1(3) by simp
    ultimately show "\<exists>e'. del_fd e fd = Some e' \<and> fds_inv e' \<and> ep_fds e' + 1 = ep_fds e \<and>
         (\<forall>k \<ge> 0. is_added_fd e' k = (if k = fd then Some False else is_added_fd e k))" by blast
  }
qed

text \<open>
  A descriptor that is not watched can be added and one that is watched can be deleted, each
  changes the state of that descriptor only, and \<open>fds_\<close> stays the number of watched descriptors.
\<close>

theorem watched_fds_correct:
  assumes "fds_inv e" "fd \<ge> 0"
  shows "(is_added_fd e fd = Some False \<longrightarrow>
      (\<exists>e'. add_fd e fd c u = Some e' \<and> fds_inv e' \<and> ep_fds e' = ep_fds e + 1 \<and>
         (\<forall>k \<ge> 0. is_added_fd e' k = (if k = fd then Some True else is_added_fd e k)))) \<and>
    (is_added_fd e fd = Some True \<longrightarrow>
      (\<exists>e'. del_fd e fd = Some e' \<and> fds_inv e' \<and> ep_fds e' + 1 = ep_fds e \<and>
         (\<forall>k \<ge> 0. is_added_fd e' k = (if k = fd then Some False else is_added_fd e k))))"
  using watched_fds_law [OF assms] by blast

theorem watched_fds_correct_witness:
  "\<exists>e'. add_fd epoll_init 3 () (Some ()) = Some e' \<and> ep_fds e' = 1 \<and> is_added_fd e' 3 = Some True"
proof -
  have "fds_inv (epoll_init :: (unit, unit) epoll)" "is_added_fd (epoll_init :: (unit, unit) epoll) 3 = Some False"
    by (simp_all add: fds_inv_def epoll_init_def is_added_fd_def)
  then show ?thesis
    using watched_fds_correct [of "epoll_init :: (unit, unit) epoll" 3 "()" "Some ()"] by (auto simp: epoll_init_def)
qed

text \<open>
  A descriptor whose closing was missed and that is deleted before its turn comes makes the
  clean up call a null callback: \<open>delete_closed_fd_context\<close> looks at the user data, which
  \<open>del_fd\<close> leaves in place.
\<close>

theorem delete_closed_calls_null:
  assumes "is_added_fd e fd = Some True" "ctx_user_data (ep_fd_contexts e ! nat fd) = Some u" "fds_inv e"
    and "is_added_fd e ret = Some False" "remap_to_not_added_fd e fd ret = Some (e1, r)"
  shows "fd \<in> set (ep_closed_context_fds e1) \<and>
    (\<exists>e2. del_fd e1 fd = Some e2 \<and> ep_closed_context_fds e2 = ep_closed_context_fds e1 \<and>
          delete_closed_fd_context e2 fd = None)"
proof -
  have fd: "fd \<ge> 0" "nat fd < length (ep_fd_contexts e)" "ctx_callback (ep_fd_contexts e ! nat fd) \<noteq> None"
    using assms(1) by (auto simp: is_added_fd_def split: if_splits)
  have e1: "e1 = e\<lparr>ep_closed_context_fds := ep_closed_context_fds e @ [fd]\<rparr>"
    using assms(1,4,5) by (simp add: remap_to_not_added_fd_def)
  have room: "ensure_room_fd fd e1 = e1" using fd by (simp add: ensure_room_fd_def e1)
  have "ep_fds e \<noteq> 0" using assms(3) fd by (auto simp: fds_inv_def filter_empty_conv)
  then show ?thesis using fd assms(2) room by (simp add: del_fd_def Let_def e1 delete_closed_fd_context_def)
qed

theorem delete_closed_calls_null_witness:
  "\<exists>e e1 e2. add_fd epoll_init 3 () (Some ()) = Some e \<and> remap_to_not_added_fd e 3 4 = Some (e1, 4) \<and>
     del_fd e1 3 = Some e2 \<and> delete_closed_fd_context e2 3 = None"
proof -
  let ?e = "\<lparr>ep_fds = 1, ep_fd_contexts = [empty_context, empty_context, empty_context,
     \<lparr>ctx_callback = Some (), ctx_user_data = Some ()\<rparr>], ep_closed_context_fds = [], ep_timer_contexts = [],
     ep_largest_timer_id = -1, ep_next_timer = -1, ep_events = [], ep_event_current = 0\<rparr>"
  let ?e1 = "?e\<lparr>ep_closed_context_fds := [3]\<rparr>"
  have a: "add_fd epoll_init 3 () (Some ()) = Some ?e"
    by (simp add: add_fd_def ensure_room_fd_def epoll_init_def empty_context_def Let_def eval_nat_numeral)
  have b: "remap_to_not_added_fd ?e 3 4 = Some (?e1, 4)" "is_added_fd ?e 3 = Some True" "is_added_fd ?e 4 = Some False"
    "ctx_user_data (ep_fd_contexts ?e ! nat 3) = Some ()" "fds_inv ?e"
    by (simp_all add: remap_to_not_added_fd_def is_added_fd_def fds_inv_def empty_context_def)
  from delete_closed_calls_null [OF b(2) b(4) b(5) b(3) b(1)] a b(1) show ?thesis by blast
qed

end
