(* ===== verification/FB_PipeRecorder.thy ===== *)
theory FB_PipeRecorder
  imports FB_LinearBuffer
begin

text \<open>
  \<^verbatim>\<open>src/firebuild/pipe_recorder.cc\<close>: the recorders of what a process wrote to an inherited pipe.  A
  recorder keeps the data in memory until it exceeds the size of an inline blob, then in a backing
  file.  The open backing file is its contents; \<open>write\<close>, \<open>splice\<close> and \<open>copy_file_range\<close> to it append,
  because it is a regular file that only the recorder writes.  A failed assertion, \<open>abort()\<close> or an
  access outside a block is \<open>None\<close>.  \<open>max_inline_blob_size\<close> is the argument \<open>mx\<close>; the argument \<open>alloc\<close>
  tells which sizes \<open>realloc\<close> can provide.
\<close>

section \<open>A recorder\<close>

record pipe_recorder =
  rec_file :: "string option"
  rec_offset :: nat
  rec_mem :: "string option"
  rec_use_memory_buffer :: bool
  rec_deactivated :: bool
  rec_abandoned :: bool

definition new_recorder :: pipe_recorder where
  "new_recorder = \<lparr>rec_file = None, rec_offset = 0, rec_mem = None, rec_use_memory_buffer = True,
     rec_deactivated = False, rec_abandoned = False\<rparr>"

text \<open>\<open>mem_buffer_capacity_\<close> is the length of the block \<open>rec_mem\<close>.\<close>

definition mem_capacity :: "pipe_recorder \<Rightarrow> nat" where
  "mem_capacity r = (case rec_mem r of None \<Rightarrow> 0 | Some b \<Rightarrow> length b)"

definition grow_mem :: "(nat \<Rightarrow> bool) \<Rightarrow> pipe_recorder \<Rightarrow> nat \<Rightarrow> pipe_recorder" where
  "grow_mem alloc r needed =
     (if mem_capacity r < needed then
        (if alloc needed
         then r\<lparr>rec_mem := Some (lb_realloc (case rec_mem r of None \<Rightarrow> [] | Some b \<Rightarrow> b) needed)\<rparr>
         else r\<lparr>rec_use_memory_buffer := False, rec_mem := None\<rparr>)
      else r)"

definition prepare_for_append ::
    "nat \<Rightarrow> (nat \<Rightarrow> bool) \<Rightarrow> pipe_recorder \<Rightarrow> nat \<Rightarrow> (pipe_recorder \<times> bool) option" where
  "prepare_for_append mx alloc r len =
     (if rec_deactivated r \<or> rec_abandoned r \<or> len = 0 then None
      else
        let r1 = (if rec_use_memory_buffer r then
                    (if rec_offset r + len \<le> mx then grow_mem alloc r (rec_offset r + len)
                     else r\<lparr>rec_use_memory_buffer := False\<rparr>)
                  else r)
        in if rec_use_memory_buffer r1 then Some (r1, True)
           else case rec_file r1 of
             Some _ \<Rightarrow> Some (r1, False)
           | None \<Rightarrow>
               (case rec_mem r1 of
                  Some b \<Rightarrow>
                    if 0 < rec_offset r1
                    then (if rec_offset r1 \<le> length b
                          then Some (r1\<lparr>rec_file := Some (take (rec_offset r1) b), rec_mem := None\<rparr>, False)
                          else None)
                    else Some (r1\<lparr>rec_file := Some []\<rparr>, False)
                | None \<Rightarrow> Some (r1\<lparr>rec_file := Some []\<rparr>, False)))"

text \<open>The common tail of the three \<open>add_data_*\<close> functions, once the new bytes are known.\<close>

definition append_data :: "pipe_recorder \<times> bool \<Rightarrow> string \<Rightarrow> pipe_recorder option" where
  "append_data p d =
     (case p of (r, to_memory) \<Rightarrow>
        if to_memory then
          (case rec_mem r of
             None \<Rightarrow> None
           | Some b \<Rightarrow>
               (case blit b (rec_offset r) d of
                  None \<Rightarrow> None
                | Some b' \<Rightarrow> Some (r\<lparr>rec_mem := Some b', rec_offset := rec_offset r + length d\<rparr>)))
        else
          (case rec_file r of
             None \<Rightarrow> None
           | Some c \<Rightarrow> Some (r\<lparr>rec_file := Some (c @ d), rec_offset := rec_offset r + length d\<rparr>)))"

definition rec_add_data_from_buffer ::
    "nat \<Rightarrow> (nat \<Rightarrow> bool) \<Rightarrow> pipe_recorder \<Rightarrow> string \<Rightarrow> pipe_recorder option" where
  "rec_add_data_from_buffer mx alloc r buf =
     (case prepare_for_append mx alloc r (length buf) of
        None \<Rightarrow> None
      | Some p \<Rightarrow> append_data p buf)"

text \<open>The argument and result \<open>pipe\<close> is the data waiting in the Unix pipe.\<close>

definition rec_add_data_from_unix_pipe ::
    "nat \<Rightarrow> (nat \<Rightarrow> bool) \<Rightarrow> pipe_recorder \<Rightarrow> string \<Rightarrow> nat \<Rightarrow> (pipe_recorder \<times> string) option" where
  "rec_add_data_from_unix_pipe mx alloc r pipe len =
     (case prepare_for_append mx alloc r len of
        None \<Rightarrow> None
      | Some p \<Rightarrow>
          if length pipe < len then None
          else (case append_data p (take len pipe) of
                  None \<Rightarrow> None
                | Some r' \<Rightarrow> Some (r', drop len pipe)))"

definition rec_add_data_from_regular_fd ::
    "nat \<Rightarrow> (nat \<Rightarrow> bool) \<Rightarrow> pipe_recorder \<Rightarrow> string \<Rightarrow> nat \<Rightarrow> nat \<Rightarrow> pipe_recorder option" where
  "rec_add_data_from_regular_fd mx alloc r file off_in len =
     (case prepare_for_append mx alloc r len of
        None \<Rightarrow> None
      | Some p \<Rightarrow>
          if length file < off_in + len then None else append_data p (take len (drop off_in file)))"

text \<open>
  The result of \<open>store\<close>: nothing was seen, the data itself, or what the blob cache made of the backing
  file and its size.
\<close>

datatype 'k stored = Stored_empty | Stored_inline string | Stored_blob "'k option"

definition rec_store :: "(string \<Rightarrow> nat \<Rightarrow> 'k option) \<Rightarrow> pipe_recorder \<Rightarrow> (pipe_recorder \<times> 'k stored) option" where
  "rec_store move_store_file r =
     (if rec_deactivated r \<or> rec_abandoned r then None
      else if rec_use_memory_buffer r \<and> 0 < rec_offset r then
        (case rec_mem r of
           None \<Rightarrow> None
         | Some b \<Rightarrow> Some (r\<lparr>rec_abandoned := True\<rparr>, Stored_inline (take (rec_offset r) b)))
      else
        (case rec_file r of
           Some c \<Rightarrow> Some (r\<lparr>rec_file := None, rec_abandoned := True\<rparr>, Stored_blob (move_store_file c (rec_offset r)))
         | None \<Rightarrow> Some (r\<lparr>rec_abandoned := True\<rparr>, Stored_empty)))"

definition rec_abandon :: "pipe_recorder \<Rightarrow> pipe_recorder option" where
  "rec_abandon r =
     (if rec_abandoned r then None
      else Some (r\<lparr>rec_file := None, rec_mem := None, rec_abandoned := True\<rparr>))"

definition rec_deactivate :: "pipe_recorder \<Rightarrow> pipe_recorder option" where
  "rec_deactivate r =
     (if rec_deactivated r then None
      else Some (r\<lparr>rec_file := None, rec_mem := None, rec_deactivated := True\<rparr>))"

section \<open>The recorders of a pipe end\<close>

text \<open>A vector of recorders is a list of keys of the table of all recorders.\<close>

type_synonym recorders = "nat \<Rightarrow> pipe_recorder"

definition has_active_recorder :: "recorders \<Rightarrow> nat list \<Rightarrow> bool" where
  "has_active_recorder R is = list_ex (\<lambda>i. \<not> rec_deactivated (R i)) is"

fun record_data_from_buffer :: "nat \<Rightarrow> (nat \<Rightarrow> bool) \<Rightarrow> recorders \<Rightarrow> nat list \<Rightarrow> string \<Rightarrow> recorders option" where
  "record_data_from_buffer mx alloc R [] buf = Some R"
| "record_data_from_buffer mx alloc R (i # is) buf =
     (if rec_deactivated (R i) then record_data_from_buffer mx alloc R is buf
      else case rec_add_data_from_buffer mx alloc (R i) buf of
             None \<Rightarrow> None
           | Some r \<Rightarrow> record_data_from_buffer mx alloc (R(i := r)) is buf)"

fun record_data_from_regular_fd ::
    "nat \<Rightarrow> (nat \<Rightarrow> bool) \<Rightarrow> recorders \<Rightarrow> nat list \<Rightarrow> string \<Rightarrow> nat \<Rightarrow> recorders option" where
  "record_data_from_regular_fd mx alloc R [] file len = Some R"
| "record_data_from_regular_fd mx alloc R (i # is) file len =
     (if rec_deactivated (R i) then record_data_from_regular_fd mx alloc R is file len
      else case rec_add_data_from_regular_fd mx alloc (R i) file 0 len of
             None \<Rightarrow> None
           | Some r \<Rightarrow> record_data_from_regular_fd mx alloc (R(i := r)) is file len)"

text \<open>The recorders behind the first active one copy its last \<open>len\<close> bytes.\<close>

definition copy_one :: "nat \<Rightarrow> (nat \<Rightarrow> bool) \<Rightarrow> pipe_recorder \<Rightarrow> pipe_recorder \<Rightarrow> nat \<Rightarrow> pipe_recorder option" where
  "copy_one mx alloc first r len =
     (if rec_offset first < len then None
      else if rec_use_memory_buffer first then
        (case rec_mem first of
           None \<Rightarrow> None
         | Some b \<Rightarrow> rec_add_data_from_buffer mx alloc r (take len (drop (rec_offset first - len) b)))
      else
        (case rec_file first of
           None \<Rightarrow> None
         | Some c \<Rightarrow> rec_add_data_from_regular_fd mx alloc r c (rec_offset first - len) len))"

fun copy_from_first :: "nat \<Rightarrow> (nat \<Rightarrow> bool) \<Rightarrow> recorders \<Rightarrow> nat \<Rightarrow> nat list \<Rightarrow> nat \<Rightarrow> recorders option" where
  "copy_from_first mx alloc R a [] len = Some R"
| "copy_from_first mx alloc R a (i # is) len =
     (if rec_deactivated (R i) then copy_from_first mx alloc R a is len
      else case copy_one mx alloc (R a) (R i) len of
             None \<Rightarrow> None
           | Some r \<Rightarrow> copy_from_first mx alloc (R(i := r)) a is len)"

fun record_data_from_unix_pipe ::
    "nat \<Rightarrow> (nat \<Rightarrow> bool) \<Rightarrow> recorders \<Rightarrow> nat list \<Rightarrow> string \<Rightarrow> nat \<Rightarrow> (recorders \<times> string) option" where
  "record_data_from_unix_pipe mx alloc R [] pipe len = None"
| "record_data_from_unix_pipe mx alloc R (i # is) pipe len =
     (if rec_deactivated (R i) then record_data_from_unix_pipe mx alloc R is pipe len
      else case rec_add_data_from_unix_pipe mx alloc (R i) pipe len of
             None \<Rightarrow> None
           | Some (r, rest) \<Rightarrow>
               map_option (\<lambda>R'. (R', rest)) (copy_from_first mx alloc (R(i := r)) i is len))"

section \<open>What a recorder holds\<close>

definition rec_data :: "pipe_recorder \<Rightarrow> string" where
  "rec_data r =
     (if rec_use_memory_buffer r then take (rec_offset r) (case rec_mem r of None \<Rightarrow> [] | Some b \<Rightarrow> b)
      else (case rec_file r of None \<Rightarrow> [] | Some c \<Rightarrow> c))"

definition rec_inv :: "pipe_recorder \<Rightarrow> bool" where
  "rec_inv r \<longleftrightarrow> \<not> rec_deactivated r \<and> \<not> rec_abandoned r \<and>
     (if rec_use_memory_buffer r
      then rec_file r = None \<and> rec_offset r \<le> mem_capacity r
      else \<exists>c. rec_file r = Some c \<and> length c = rec_offset r)"

text \<open>A recorder that \<open>prepare_for_append\<close> has made ready for \<open>len\<close> more bytes.\<close>

definition ready_for :: "pipe_recorder \<times> bool \<Rightarrow> nat \<Rightarrow> bool" where
  "ready_for p len \<longleftrightarrow> 0 < len \<and> rec_inv (fst p) \<and> snd p = rec_use_memory_buffer (fst p) \<and>
     (snd p \<longrightarrow> rec_offset (fst p) + len \<le> mem_capacity (fst p))"

lemma length_rec_data: "rec_inv r \<Longrightarrow> length (rec_data r) = rec_offset r"
  by (auto simp: rec_inv_def rec_data_def mem_capacity_def split: if_splits option.splits)

lemma new_recorder_law: "rec_inv new_recorder \<and> rec_data new_recorder = []"
  by (simp add: new_recorder_def rec_inv_def rec_data_def)

lemma take_lb_realloc: "n \<le> length b \<Longrightarrow> length b \<le> m \<Longrightarrow> take n (lb_realloc b m) = take n b"
  by (simp add: lb_realloc_def)

lemma grow_mem_law:
  assumes "rec_inv r" "rec_use_memory_buffer r" "alloc needed" "rec_offset r \<le> needed"
  shows "rec_inv (grow_mem alloc r needed) \<and> rec_use_memory_buffer (grow_mem alloc r needed) \<and>
    rec_data (grow_mem alloc r needed) = rec_data r \<and> rec_offset (grow_mem alloc r needed) = rec_offset r \<and>
    needed \<le> mem_capacity (grow_mem alloc r needed)"
proof (cases "mem_capacity r < needed")
  case False
  then show ?thesis using assms by (simp add: grow_mem_def)
next
  case True
  let ?b = "case rec_mem r of None \<Rightarrow> [] | Some b \<Rightarrow> b"
  have b: "length ?b = mem_capacity r" "rec_offset r \<le> mem_capacity r"
    using assms(1,2) by (auto simp: mem_capacity_def rec_inv_def split: option.splits)
  then have t: "take (rec_offset r) (lb_realloc ?b needed) = take (rec_offset r) ?b"
    using True by (intro take_lb_realloc) simp_all
  show ?thesis using assms True t b
    by (simp add: grow_mem_def rec_inv_def rec_data_def mem_capacity_def)
qed

lemma prepare_law:
  assumes "rec_inv r" "0 < len" "\<forall>n. alloc n"
  shows "\<exists>p. prepare_for_append mx alloc r len = Some p \<and> ready_for p len \<and> rec_data (fst p) = rec_data r"
proof -
  have act: "\<not> rec_deactivated r" "\<not> rec_abandoned r" using assms(1) by (simp_all add: rec_inv_def)
  consider (inmem) "rec_use_memory_buffer r" "rec_offset r + len \<le> mx"
    | (toswitch) "rec_use_memory_buffer r" "\<not> rec_offset r + len \<le> mx" | (infile) "\<not> rec_use_memory_buffer r" by blast
  then show ?thesis
  proof cases
    case inmem
    define q where "q = grow_mem alloc r (rec_offset r + len)"
    have q: "rec_inv q" "rec_use_memory_buffer q" "rec_data q = rec_data r" "rec_offset q = rec_offset r"
      "rec_offset r + len \<le> mem_capacity q"
      using grow_mem_law [OF assms(1) inmem(1), of alloc "rec_offset r + len"] assms(3) unfolding q_def by simp_all
    have "prepare_for_append mx alloc r len = Some (q, True)"
      using act assms(2) inmem q(2) by (simp add: prepare_for_append_def Let_def q_def)
    then show ?thesis using q assms(2) by (simp add: ready_for_def)
  next
    case toswitch
    have f: "rec_file r = None" "rec_offset r \<le> mem_capacity r" using toswitch assms(1) by (simp_all add: rec_inv_def)
    let ?c = "rec_data r"
    define q where "q = r\<lparr>rec_use_memory_buffer := False, rec_file := Some ?c,
      rec_mem := if 0 < rec_offset r then None else rec_mem r\<rparr>"
    have l: "length ?c = rec_offset r" using assms(1) by (rule length_rec_data)
    have "prepare_for_append mx alloc r len = Some (q, False)"
    proof (cases "rec_mem r")
      case None
      then have "rec_offset r = 0" using f by (simp add: mem_capacity_def)
      then show ?thesis using act assms(2) toswitch f None
        by (simp add: prepare_for_append_def q_def rec_data_def)
    next
      case (Some b)
      then have "rec_offset r \<le> length b" using f by (simp add: mem_capacity_def)
      then show ?thesis using act assms(2) toswitch f Some
        by (simp add: prepare_for_append_def q_def rec_data_def)
    qed
    moreover have "ready_for (q, False) len" "rec_data q = rec_data r"
      using act l assms(2) by (simp_all add: ready_for_def rec_inv_def q_def) (simp add: rec_data_def)
    ultimately show ?thesis by (intro exI [of _ "(q, False)"]) simp
  next
    case infile
    then obtain c where "rec_file r = Some c" using assms(1) by (auto simp: rec_inv_def)
    then have "prepare_for_append mx alloc r len = Some (r, False)"
      using act assms(2) infile by (simp add: prepare_for_append_def)
    then show ?thesis using assms(1,2) infile by (simp add: ready_for_def)
  qed
qed

lemma append_law:
  assumes "ready_for p (length d)"
  shows "\<exists>r. append_data p d = Some r \<and> rec_inv r \<and> rec_data r = rec_data (fst p) @ d \<and>
    rec_offset r = rec_offset (fst p) + length d"
proof -
  obtain q m where p: "p = (q, m)" by (cases p)
  have i: "rec_inv q" "0 < length d" using assms by (auto simp: ready_for_def p)
  show ?thesis
  proof (cases m)
    case False
    then have u: "\<not> rec_use_memory_buffer q" using assms by (simp add: ready_for_def p)
    with i obtain c where "rec_file q = Some c" "length c = rec_offset q" by (auto simp: rec_inv_def)
    then show ?thesis using u i False by (simp add: append_data_def p rec_inv_def rec_data_def)
  next
    case True
    then have u: "rec_use_memory_buffer q" "rec_offset q + length d \<le> mem_capacity q"
      using assms by (simp_all add: ready_for_def p)
    with i(2) obtain b where b: "rec_mem q = Some b" by (cases "rec_mem q") (simp_all add: mem_capacity_def)
    then show ?thesis using u i True
      by (simp add: append_data_def p blit_def mem_capacity_def rec_inv_def rec_data_def)
  qed
qed

lemma add_from_buffer_law:
  assumes "rec_inv r" "d \<noteq> []" "\<forall>n. alloc n"
  shows "\<exists>r'. rec_add_data_from_buffer mx alloc r d = Some r' \<and> rec_inv r' \<and> rec_data r' = rec_data r @ d"
proof -
  obtain p where "prepare_for_append mx alloc r (length d) = Some p" "ready_for p (length d)" "rec_data (fst p) = rec_data r"
    using prepare_law [OF assms(1), of "length d" alloc mx] assms(2,3) by auto
  then show ?thesis using append_law [of p d] by (auto simp: rec_add_data_from_buffer_def)
qed

lemma add_from_file_law:
  assumes "rec_inv r" "d \<noteq> []" "\<forall>n. alloc n" "off + length d \<le> length file" "take (length d) (drop off file) = d"
  shows "\<exists>r'. rec_add_data_from_regular_fd mx alloc r file off (length d) = Some r' \<and> rec_inv r' \<and>
    rec_data r' = rec_data r @ d"
proof -
  obtain p where "prepare_for_append mx alloc r (length d) = Some p" "ready_for p (length d)" "rec_data (fst p) = rec_data r"
    using prepare_law [OF assms(1), of "length d" alloc mx] assms(2,3) by auto
  then show ?thesis using append_law [of p d] assms(4,5) by (auto simp: rec_add_data_from_regular_fd_def)
qed

lemma add_from_pipe_law:
  assumes "rec_inv r" "d \<noteq> []" "\<forall>n. alloc n"
  shows "\<exists>r'. rec_add_data_from_unix_pipe mx alloc r (d @ rest) (length d) = Some (r', rest) \<and> rec_inv r' \<and>
    rec_data r' = rec_data r @ d"
proof -
  obtain p where "prepare_for_append mx alloc r (length d) = Some p" "ready_for p (length d)" "rec_data (fst p) = rec_data r"
    using prepare_law [OF assms(1), of "length d" alloc mx] assms(2,3) by auto
  then show ?thesis using append_law [of p d] by (auto simp: rec_add_data_from_unix_pipe_def)
qed

text \<open>The recorder that consumed the data from the pipe serves it to the others.\<close>

lemma copy_one_law:
  assumes "rec_inv first" "rec_data first = old @ d" "rec_inv r" "d \<noteq> []" "\<forall>n. alloc n"
  shows "\<exists>r'. copy_one mx alloc first r (length d) = Some r' \<and> rec_inv r' \<and> rec_data r' = rec_data r @ d"
proof -
  have off: "rec_offset first = length old + length d" using length_rec_data [OF assms(1)] assms(2) by simp
  show ?thesis
  proof (cases "rec_use_memory_buffer first")
    case True
    obtain b where b: "rec_mem first = Some b"
      using True off assms(1,4) by (cases "rec_mem first") (simp_all add: rec_inv_def mem_capacity_def)
    have "take (rec_offset first) b = old @ d" using assms(2) True b by (simp add: rec_data_def)
    then have "take (length d) (drop (length old) b) = d"
      unfolding off by (metis append_eq_conv_conj drop_take diff_add_inverse)
    then have "copy_one mx alloc first r (length d) = rec_add_data_from_buffer mx alloc r d"
      using True b off by (simp add: copy_one_def)
    with add_from_buffer_law [OF assms(3,4,5)] show ?thesis by simp
  next
    case False
    then obtain c where c: "rec_file first = Some c" using assms(1) by (auto simp: rec_inv_def)
    then have "c = old @ d" using assms(2) False by (simp add: rec_data_def)
    with add_from_file_law [OF assms(3,4,5), of "length old" "old @ d"] show ?thesis
      using False c off by (simp add: copy_one_def)
  qed
qed

section \<open>Recording into several recorders\<close>

text \<open>
  The interface of the three loops over the recorders of a pipe end: each active recorder in turn is
  replaced by the result of a step that appends the bytes \<open>d\<close>, under a condition \<open>ok\<close> on the table
  that the loop does not break as long as it stays away from the keys in \<open>avoid\<close>.
\<close>

locale recording_loop =
  fixes loop :: "recorders \<Rightarrow> nat list \<Rightarrow> recorders option"
    and step :: "recorders \<Rightarrow> nat \<Rightarrow> pipe_recorder option"
    and ok :: "recorders \<Rightarrow> bool"
    and avoid :: "nat set"
    and d :: string
  assumes loop_end: "loop R [] = Some R"
    and loop_step: "loop R (i # is) =
      (if rec_deactivated (R i) then loop R is
       else case step R i of None \<Rightarrow> None | Some r \<Rightarrow> loop (R(i := r)) is)"
    and step_law: "ok R \<Longrightarrow> rec_inv (R i) \<Longrightarrow>
      \<exists>r. step R i = Some r \<and> rec_inv r \<and> rec_data r = rec_data (R i) @ d"
    and ok_law: "ok R \<Longrightarrow> i \<notin> avoid \<Longrightarrow> ok (R(i := r))"
begin

lemma loop_records:
  assumes "ok R" "distinct is" "set is \<inter> avoid = {}" "\<forall>i\<in>set is. rec_deactivated (R i) \<or> rec_inv (R i)"
  shows "\<exists>R'. loop R is = Some R' \<and>
    (\<forall>i. if i \<in> set is \<and> \<not> rec_deactivated (R i)
         then rec_inv (R' i) \<and> rec_data (R' i) = rec_data (R i) @ d else R' i = R i)"
  using assms
proof (induction "is" arbitrary: R)
  case Nil
  then show ?case by (simp add: loop_end)
next
  case (Cons i "is")
  show ?case
  proof (cases "rec_deactivated (R i)")
    case True
    then show ?thesis using Cons.IH [of R] Cons.prems by (auto simp: loop_step)
  next
    case False
    then have "rec_inv (R i)" using Cons.prems by simp
    then obtain r where r: "step R i = Some r" "rec_inv r" "rec_data r = rec_data (R i) @ d"
      using step_law [OF Cons.prems(1)] by blast
    have k: "ok (R(i := r))" using ok_law Cons.prems(1,3) by simp
    have v: "distinct is" "set is \<inter> avoid = {}" using Cons.prems(2,3) by simp_all
    have "\<forall>k\<in>set is. rec_deactivated ((R(i := r)) k) \<or> rec_inv ((R(i := r)) k)"
      using Cons.prems(4) r(2) by auto
    from Cons.IH [OF k v this] obtain R' where R': "loop (R(i := r)) is = Some R'"
      "\<forall>k. if k \<in> set is \<and> \<not> rec_deactivated ((R(i := r)) k)
         then rec_inv (R' k) \<and> rec_data (R' k) = rec_data ((R(i := r)) k) @ d else R' k = (R(i := r)) k"
      by blast
    have "loop R (i # is) = Some R'" using False r(1) R'(1) by (simp add: loop_step)
    moreover have "if k \<in> set (i # is) \<and> \<not> rec_deactivated (R k)
         then rec_inv (R' k) \<and> rec_data (R' k) = rec_data (R k) @ d else R' k = R k" for k
      using R'(2) [rule_format, of k] r False Cons.prems(2) by (cases "k = i") auto
    ultimately show ?thesis by blast
  qed
qed

end

interpretation from_buffer: recording_loop
  "\<lambda>R is. record_data_from_buffer mx alloc R is d" "\<lambda>R i. rec_add_data_from_buffer mx alloc (R i) d"
  "\<lambda>_. d \<noteq> [] \<and> (\<forall>n. alloc n)" "{}" d
  for mx alloc d
  by unfold_locales (use add_from_buffer_law in \<open>auto split: option.splits\<close>)

interpretation from_file: recording_loop
  "\<lambda>R is. record_data_from_regular_fd mx alloc R is (d @ rest) (length d)"
  "\<lambda>R i. rec_add_data_from_regular_fd mx alloc (R i) (d @ rest) 0 (length d)"
  "\<lambda>_. d \<noteq> [] \<and> (\<forall>n. alloc n)" "{}" d
  for mx alloc d rest
  by unfold_locales (use add_from_file_law [where off = 0] in \<open>auto split: option.splits\<close>)

interpretation from_first: recording_loop
  "\<lambda>R is. copy_from_first mx alloc R a is (length d)"
  "\<lambda>R i. copy_one mx alloc (R a) (R i) (length d)"
  "\<lambda>R. d \<noteq> [] \<and> (\<forall>n. alloc n) \<and> rec_inv (R a) \<and> rec_data (R a) = old @ d" "{a}" d
  for mx alloc a d old
  by unfold_locales (use copy_one_law in \<open>auto split: option.splits\<close>)

section \<open>Properties\<close>

definition recorded :: "nat list \<Rightarrow> string \<Rightarrow> recorders \<Rightarrow> recorders \<Rightarrow> bool" where
  "recorded is d R R' \<longleftrightarrow>
     (\<forall>i. if i \<in> set is \<and> \<not> rec_deactivated (R i)
          then rec_inv (R' i) \<and> rec_data (R' i) = rec_data (R i) @ d else R' i = R i)"

lemma unix_pipe_records:
  assumes "distinct is" "\<forall>i\<in>set is. rec_deactivated (R i) \<or> rec_inv (R i)" "has_active_recorder R is"
    and "d \<noteq> []" "\<forall>n. alloc n"
  shows "\<exists>R'. record_data_from_unix_pipe mx alloc R is (d @ rest) (length d) = Some (R', rest) \<and> recorded is d R R'"
  using assms(1-3)
proof (induction "is")
  case Nil
  then show ?case by (simp add: has_active_recorder_def)
next
  case (Cons i "is")
  show ?case
  proof (cases "rec_deactivated (R i)")
    case True
    then show ?thesis using Cons by (auto simp: has_active_recorder_def recorded_def)
  next
    case False
    then have "rec_inv (R i)" using Cons.prems by simp
    from add_from_pipe_law [OF this assms(4,5), of mx rest] obtain r where
      r: "rec_add_data_from_unix_pipe mx alloc (R i) (d @ rest) (length d) = Some (r, rest)"
        "rec_inv r" "rec_data r = rec_data (R i) @ d" by blast
    let ?R = "R(i := r)"
    have "d \<noteq> [] \<and> (\<forall>n. alloc n) \<and> rec_inv (?R i) \<and> rec_data (?R i) = rec_data (R i) @ d" using r assms(4,5) by simp
    moreover have "distinct is" "set is \<inter> {i} = {}" "\<forall>k\<in>set is. rec_deactivated (?R k) \<or> rec_inv (?R k)"
      using Cons.prems r by auto
    ultimately obtain R' where R': "copy_from_first mx alloc ?R i is (length d) = Some R'"
      "\<forall>k. if k \<in> set is \<and> \<not> rec_deactivated (?R k)
         then rec_inv (R' k) \<and> rec_data (R' k) = rec_data (?R k) @ d else R' k = ?R k"
      using from_first.loop_records [of d alloc ?R i "rec_data (R i)" "is" mx] by blast
    have "recorded (i # is) d R R'"
      unfolding recorded_def
    proof
      fix k
      show "if k \<in> set (i # is) \<and> \<not> rec_deactivated (R k)
          then rec_inv (R' k) \<and> rec_data (R' k) = rec_data (R k) @ d else R' k = R k"
        using R'(2) [rule_format, of k] r False Cons.prems(1) by (cases "k = i") auto
    qed
    then show ?thesis using False r(1) R'(1) by simp
  qed
qed

text \<open>
  C33: the three ways of recording traffic agree.  Whether the bytes come from a buffer, from the start
  of a regular file or, with only the first active recorder reading and the others copying from it, from a
  Unix pipe, every active recorder of the pipe end ends up with the bytes appended to what it had, all
  other recorders are untouched, and the pipe loses exactly these bytes.
\<close>

theorem recording_correct:
  assumes "distinct is" "\<forall>i\<in>set is. rec_deactivated (R i) \<or> rec_inv (R i)" "has_active_recorder R is"
    and "d \<noteq> []" "\<forall>n. alloc n"
  shows "(\<exists>R'. record_data_from_unix_pipe mx alloc R is (d @ rest) (length d) = Some (R', rest) \<and> recorded is d R R') \<and>
    (\<exists>R'. record_data_from_buffer mx alloc R is d = Some R' \<and> recorded is d R R') \<and>
    (\<exists>R'. record_data_from_regular_fd mx alloc R is (d @ rest) (length d) = Some R' \<and> recorded is d R R')"
  using unix_pipe_records [OF assms] from_buffer.loop_records [of d alloc "is" R mx]
    from_file.loop_records [of d alloc "is" R mx rest] assms
  unfolding recorded_def by blast

theorem recording_correct_witness:
  "\<exists>R'. record_data_from_unix_pipe 4 (\<lambda>_. True) (\<lambda>_. new_recorder) [0, 1] ''hello!'' 5 = Some (R', ''!'') \<and>
     rec_data (R' 1) = ''hello'' \<and> rec_use_memory_buffer (R' 1) = False"
proof -
  let ?R = "\<lambda>_. new_recorder"
  have "has_active_recorder ?R [0, 1]" by (simp add: has_active_recorder_def new_recorder_def)
  then obtain R' where "record_data_from_unix_pipe 4 (\<lambda>_. True) ?R [0, 1] (''hello'' @ ''!'') (length ''hello'') = Some (R', ''!'')"
    "recorded [0, 1] ''hello'' ?R R'"
    using recording_correct [of "[0, 1]" ?R "''hello''" "\<lambda>_. True" 4 "''!''"] new_recorder_law by auto
  then show ?thesis
    by (auto simp: recorded_def new_recorder_def rec_data_def rec_add_data_from_unix_pipe_def
        prepare_for_append_def append_data_def copy_one_def rec_add_data_from_regular_fd_def)
qed

fun add_chunks :: "nat \<Rightarrow> (nat \<Rightarrow> bool) \<Rightarrow> pipe_recorder \<Rightarrow> string list \<Rightarrow> pipe_recorder option" where
  "add_chunks mx alloc r [] = Some r"
| "add_chunks mx alloc r (d # ds) =
     (case rec_add_data_from_buffer mx alloc r d of None \<Rightarrow> None | Some r' \<Rightarrow> add_chunks mx alloc r' ds)"

lemma add_use_memory:
  assumes "rec_add_data_from_buffer mx alloc r d = Some r'" "\<forall>n. alloc n"
  shows "rec_use_memory_buffer r' \<longleftrightarrow> rec_use_memory_buffer r \<and> rec_offset r + length d \<le> mx"
  using assms
  by (auto simp: rec_add_data_from_buffer_def prepare_for_append_def append_data_def grow_mem_def Let_def
      split: if_splits option.splits)

lemma add_chunks_law:
  assumes "rec_inv r" "[] \<notin> set ds" "\<forall>n. alloc n" "rec_use_memory_buffer r \<longleftrightarrow> rec_offset r \<le> mx"
  shows "\<exists>r'. add_chunks mx alloc r ds = Some r' \<and> rec_inv r' \<and> rec_data r' = rec_data r @ concat ds \<and>
    (rec_use_memory_buffer r' \<longleftrightarrow> rec_offset r' \<le> mx)"
  using assms
proof (induction ds arbitrary: r)
  case (Cons d ds)
  from add_from_buffer_law [OF Cons.prems(1), of d alloc mx] Cons.prems obtain r1 where
    r1: "rec_add_data_from_buffer mx alloc r d = Some r1" "rec_inv r1" "rec_data r1 = rec_data r @ d" by auto
  have "rec_offset r1 = rec_offset r + length d"
    using length_rec_data [OF r1(2)] length_rec_data [OF Cons.prems(1)] r1(3) by simp
  then have u: "rec_use_memory_buffer r1 \<longleftrightarrow> rec_offset r1 \<le> mx"
    using add_use_memory [OF r1(1) Cons.prems(3)] Cons.prems(4) by auto
  have "[] \<notin> set ds" using Cons.prems(2) by simp
  from Cons.IH [OF r1(2) this Cons.prems(3) u] show ?case using r1 by auto
qed simp

text \<open>
  C34: what a recorder stores is exactly the traffic it saw: nothing if there was none, the data inline
  when all of it fits into an inline blob, and otherwise a backing file that holds all of it, with its
  size, however the data was cut into chunks and at whatever point the recorder moved from memory to the file.
\<close>

theorem rec_store_correct:
  assumes "[] \<notin> set ds" "\<forall>n. alloc n"
  shows "\<exists>r r'. add_chunks mx alloc new_recorder ds = Some r \<and>
    rec_store mv r = Some (r', if ds = [] then Stored_empty
                               else if length (concat ds) \<le> mx then Stored_inline (concat ds)
                               else Stored_blob (mv (concat ds) (length (concat ds)))) \<and>
    rec_abandoned r'"
proof -
  have "rec_use_memory_buffer new_recorder \<longleftrightarrow> rec_offset new_recorder \<le> mx" by (simp add: new_recorder_def)
  from add_chunks_law [OF conjunct1 [OF new_recorder_law] assms this] new_recorder_law obtain r where
    r: "add_chunks mx alloc new_recorder ds = Some r" "rec_inv r" "rec_data r = concat ds"
      "rec_use_memory_buffer r \<longleftrightarrow> rec_offset r \<le> mx" by auto
  have l: "rec_offset r = length (concat ds)" using length_rec_data [OF r(2)] r(3) by simp
  have e: "rec_offset r = 0 \<longleftrightarrow> ds = []" unfolding l using assms(1) by (cases ds) auto
  have act: "\<not> rec_deactivated r" "\<not> rec_abandoned r" using r(2) by (simp_all add: rec_inv_def)
  show ?thesis
  proof (cases "rec_use_memory_buffer r")
    case True
    then have f: "rec_file r = None" "rec_offset r \<le> mem_capacity r" using r(2) by (simp_all add: rec_inv_def)
    then have "ds \<noteq> [] \<Longrightarrow> \<exists>b. rec_mem r = Some b" using e by (cases "rec_mem r") (simp_all add: mem_capacity_def)
    then show ?thesis using True f act r e l by (auto simp: rec_store_def rec_data_def)
  next
    case False
    then have "rec_file r = Some (concat ds)" using r(2,3) by (auto simp: rec_inv_def rec_data_def)
    moreover have "ds \<noteq> []" "\<not> length (concat ds) \<le> mx" using False r(4) l e by auto
    ultimately show ?thesis using False act r(1) l by (auto simp: rec_store_def)
  qed
qed

theorem rec_store_correct_witness:
  "\<exists>r r'. add_chunks 4 (\<lambda>_. True) new_recorder [''ab'', ''cde''] = Some r \<and>
     rec_store (\<lambda>c n. Some (c, n)) r = Some (r', Stored_blob (Some (''abcde'', 5)))"
  using rec_store_correct [of "[''ab'', ''cde'']" "\<lambda>_. True" 4 "\<lambda>c n. Some (c, n)"] by (simp add: eval_nat_numeral) blast

text \<open>
  When \<open>realloc\<close> cannot enlarge the buffer, the fall back to the backing file frees the buffer before
  its contents are written there: the data recorded so far is lost, while the offset, which is passed on
  as the size of the file, still counts it.
\<close>

theorem failed_realloc_loses_data:
  assumes "rec_inv r" "rec_use_memory_buffer r" "0 < length d" "rec_offset r + length d \<le> mx"
    and "mem_capacity r < rec_offset r + length d" "\<not> alloc (rec_offset r + length d)"
  shows "\<exists>r' r''. rec_add_data_from_buffer mx alloc r d = Some r' \<and>
    rec_store mv r' = Some (r'', Stored_blob (mv d (length (rec_data r) + length d)))"
  using assms length_rec_data [OF assms(1)]
  by (simp add: rec_add_data_from_buffer_def prepare_for_append_def grow_mem_def append_data_def rec_inv_def
      rec_store_def)

theorem failed_realloc_loses_data_witness:
  "\<exists>r r' r''. rec_add_data_from_buffer 9 (\<lambda>n. n \<le> 2) new_recorder ''ab'' = Some r \<and>
     rec_add_data_from_buffer 9 (\<lambda>n. n \<le> 2) r ''cde'' = Some r' \<and>
     rec_store (\<lambda>c n. Some (c, n)) r' = Some (r'', Stored_blob (Some (''cde'', 5)))"
proof -
  let ?r = "new_recorder\<lparr>rec_mem := Some ''ab'', rec_offset := 2\<rparr>"
  have a: "rec_add_data_from_buffer 9 (\<lambda>n. n \<le> 2) new_recorder ''ab'' = Some ?r"
    by (simp add: rec_add_data_from_buffer_def prepare_for_append_def grow_mem_def append_data_def new_recorder_def
        mem_capacity_def lb_realloc_def blit_def numeral_2_eq_2)
  have "rec_inv ?r" "rec_use_memory_buffer ?r" "rec_data ?r = ''ab''" "mem_capacity ?r = 2" "rec_offset ?r = 2"
    by (simp_all add: rec_inv_def new_recorder_def mem_capacity_def rec_data_def)
  with a show ?thesis
    using failed_realloc_loses_data [of ?r "''cde''" 9 "\<lambda>n. n \<le> 2" "\<lambda>c n. Some (c, n)"] by auto
qed

end
