(* ===== verification/FB_Pipe.thy ===== *)
theory FB_Pipe
  imports FB_PipeRecorder FB_Epoll
begin

text \<open>
  \<^verbatim>\<open>src/firebuild/pipe.cc\<close>: the pipes between the processes, which lead through the supervisor so that
  it can record the traffic.  A \<open>pipe_end*\<close> is a key of the table \<open>p_ends\<close>, shared by the maps
  \<open>conn2fd1_ends\<close> and \<open>ffd2fd1_ends\<close>; a \<open>FileFD*\<close> and a \<open>PipeRecorder*\<close> are numbers.  The world of a
  pipe is the epoll set, the recorders and the kernel: the data waiting in each fd1 connection, what
  has been written to fd0, and a list of answers to the system calls whose result the data does not
  determine.  When the list is used up every call would block.  A failed assertion is \<open>None\<close>.
\<close>

section \<open>State\<close>

record pipe_end =
  pe_fd :: int
  pe_file_fds :: "nat list"
  pe_recorders :: "nat list"

datatype pipe_op_result =
  FB_PIPE_WOULDBLOCK | FB_PIPE_FD0_EPIPE | FB_PIPE_FD1_EOF | FB_PIPE_SUCCESS | FB_PIPE_FINISHED

record pipe =
  p_id :: nat
  p_fd0_conn :: int
  p_conn2fd1_ends :: "(int \<times> nat) list"
  p_ffd2fd1_ends :: "(nat \<times> nat) list"
  p_ends :: "nat \<Rightarrow> pipe_end"
  p_next_end :: nat
  p_proc2recorders :: "nat \<Rightarrow> nat list option"
  p_send_only_mode :: bool
  p_fd1_timeout_round :: nat
  p_buf :: linear_buffer
  p_fd1_timeout_id :: "nat option"
  p_fd0_ptrs_held :: bool
  p_fd1_ptrs_held :: bool
  p_self_held :: bool

datatype pipe_callback = Pipe_fd1_read_cb | Pipe_fd0_write_cb | Pipe_fd1_timeout_cb | Other_cb nat

datatype fd1_state = Fd1_open | Fd1_hangup | Fd1_error

datatype sys_answer = Sys_err int | Sys_ok nat

record pipe_world =
  w_epoll :: "(pipe_callback, nat) epoll"
  w_recorders :: recorders
  w_max_inline :: nat
  w_alloc :: "nat \<Rightarrow> bool"
  w_in :: "int \<Rightarrow> string"
  w_fd1_state :: "int \<Rightarrow> fd1_state"
  w_out :: string
  w_sys :: "sys_answer list"
  w_dups :: "int list"
  w_now :: int
  w_closed :: "int list"

abbreviation EAGAIN :: int where "EAGAIN \<equiv> 11"
abbreviation kFd1ReopenTimeoutMs :: int where "kFd1ReopenTimeoutMs \<equiv> 100"

definition finished :: "pipe \<Rightarrow> bool" where
  "finished p \<longleftrightarrow> p_fd0_conn p = -1"

definition buffer_empty :: "pipe \<Rightarrow> bool" where
  "buffer_empty p \<longleftrightarrow> lb_length (p_buf p) = 0"

definition new_pipe :: "nat \<Rightarrow> int \<Rightarrow> pipe" where
  "new_pipe i fd0_conn = \<lparr>p_id = i, p_fd0_conn = fd0_conn, p_conn2fd1_ends = [], p_ffd2fd1_ends = [],
     p_ends = (\<lambda>_. \<lparr>pe_fd = 0, pe_file_fds = [], pe_recorders = []\<rparr>), p_next_end = 0,
     p_proc2recorders = (\<lambda>_. None), p_send_only_mode = False, p_fd1_timeout_round = 0, p_buf = lb_init,
     p_fd1_timeout_id = None, p_fd0_ptrs_held = False, p_fd1_ptrs_held = False, p_self_held = True\<rparr>"

definition fd0_shared_ptr :: "pipe \<Rightarrow> pipe" where
  "fd0_shared_ptr p = p\<lparr>p_fd0_ptrs_held := p_self_held p\<rparr>"

definition fd1_shared_ptr :: "pipe \<Rightarrow> pipe" where
  "fd1_shared_ptr p = p\<lparr>p_fd1_ptrs_held := p_self_held p\<rparr>"

definition get_fd1_end :: "pipe \<Rightarrow> nat \<Rightarrow> nat option" where
  "get_fd1_end p ffd = map_of (p_ffd2fd1_ends p) ffd"

definition erase_key :: "'k \<Rightarrow> ('k \<times> 'v) list \<Rightarrow> ('k \<times> 'v) list" where
  "erase_key k xs = filter (\<lambda>x. fst x \<noteq> k) xs"

section \<open>Epoll and timer helpers\<close>

fun del_fds :: "(pipe_callback, nat) epoll \<Rightarrow> int list \<Rightarrow> (pipe_callback, nat) epoll option" where
  "del_fds e [] = Some e"
| "del_fds e (fd # fds) = (case del_fd e fd of None \<Rightarrow> None | Some e' \<Rightarrow> del_fds e' fds)"

fun maybe_del_fds :: "(pipe_callback, nat) epoll \<Rightarrow> int list \<Rightarrow> (pipe_callback, nat) epoll option" where
  "maybe_del_fds e [] = Some e"
| "maybe_del_fds e (fd # fds) = (case maybe_del_fd e fd of None \<Rightarrow> None | Some e' \<Rightarrow> maybe_del_fds e' fds)"

text \<open>The first loop of \<open>set_send_only_mode(false)\<close>: the connections that were added and those to remap first.\<close>

fun add_conns ::
    "nat \<Rightarrow> (pipe_callback, nat) epoll \<Rightarrow> (int \<times> nat) list \<Rightarrow> ((pipe_callback, nat) epoll \<times> (int \<times> nat) list) option" where
  "add_conns i e [] = Some (e, [])"
| "add_conns i e ((fd, en) # cs) =
     (case is_added_fd e fd of
        None \<Rightarrow> None
      | Some True \<Rightarrow> map_option (\<lambda>(e', r). (e', (fd, en) # r)) (add_conns i e cs)
      | Some False \<Rightarrow>
          (case add_fd e fd Pipe_fd1_read_cb (Some i) of
             None \<Rightarrow> None
           | Some e' \<Rightarrow> add_conns i e' cs))"

definition next_dup :: "pipe_world \<Rightarrow> int" where
  "next_dup w = (case w_dups w of [] \<Rightarrow> -1 | d # _ \<Rightarrow> d)"

definition remap :: "pipe_world \<Rightarrow> int \<Rightarrow> (pipe_world \<times> int) option" where
  "remap w fd =
     (case remap_to_not_added_fd (w_epoll w) fd (next_dup w) of
        None \<Rightarrow> None
      | Some (e, r) \<Rightarrow> Some (w\<lparr>w_epoll := e, w_dups := tl (w_dups w)\<rparr>, r))"

fun remap_conns :: "pipe \<Rightarrow> pipe_world \<Rightarrow> (int \<times> nat) list \<Rightarrow> (pipe \<times> pipe_world) option" where
  "remap_conns p w [] = Some (p, w)"
| "remap_conns p w ((fd, en) # cs) =
     (case remap w fd of
        None \<Rightarrow> None
      | Some (w1, new_conn) \<Rightarrow>
          (case add_fd (w_epoll w1) new_conn Pipe_fd1_read_cb (Some (p_id p)) of
             None \<Rightarrow> None
           | Some e \<Rightarrow>
               remap_conns
                 (p\<lparr>p_conn2fd1_ends := (new_conn, en) # erase_key new_conn (erase_key fd (p_conn2fd1_ends p))\<rparr>)
                 (w1\<lparr>w_epoll := e\<rparr>) cs))"

definition set_send_only_mode :: "pipe \<Rightarrow> pipe_world \<Rightarrow> bool \<Rightarrow> (pipe \<times> pipe_world) option" where
  "set_send_only_mode p w mode =
     (if finished p then None
      else if mode = p_send_only_mode p then Some (p, w)
      else if mode then
        (case del_fds (w_epoll w) (map fst (p_conn2fd1_ends p)) of
           None \<Rightarrow> None
         | Some e \<Rightarrow>
             (case is_added_fd e (p_fd0_conn p) of
                None \<Rightarrow> None
              | Some watched \<Rightarrow>
                  (case (if watched then remap (w\<lparr>w_epoll := e\<rparr>) (p_fd0_conn p)
                         else Some (w\<lparr>w_epoll := e\<rparr>, p_fd0_conn p)) of
                     None \<Rightarrow> None
                   | Some (w1, fd0) \<Rightarrow>
                       (case add_fd (w_epoll w1) fd0 Pipe_fd0_write_cb (Some (p_id p)) of
                          None \<Rightarrow> None
                        | Some e' \<Rightarrow>
                            Some (p\<lparr>p_fd0_conn := fd0, p_send_only_mode := True\<rparr>, w1\<lparr>w_epoll := e'\<rparr>)))))
      else
        (case add_conns (p_id p) (w_epoll w) (p_conn2fd1_ends p) of
           None \<Rightarrow> None
         | Some (e, to_remap) \<Rightarrow>
             (case remap_conns p (w\<lparr>w_epoll := e\<rparr>) to_remap of
                None \<Rightarrow> None
              | Some (p1, w1) \<Rightarrow>
                  (case del_fd (w_epoll w1) (p_fd0_conn p1) of
                     None \<Rightarrow> None
                   | Some e' \<Rightarrow> Some (p1\<lparr>p_send_only_mode := False\<rparr>, w1\<lparr>w_epoll := e'\<rparr>)))))"

section \<open>Sending the buffer\<close>

text \<open>One answer of the kernel: \<open>Inl errno\<close> or \<open>Inr n\<close> for at most \<open>limit\<close> transferred bytes.\<close>

definition sys_call :: "pipe_world \<Rightarrow> nat \<Rightarrow> pipe_world \<times> (int + nat)" where
  "sys_call w limit =
     (case w_sys w of
        [] \<Rightarrow> (w, Inl EAGAIN)
      | Sys_err e # r \<Rightarrow> (w\<lparr>w_sys := r\<rparr>, Inl e)
      | Sys_ok n # r \<Rightarrow> (w\<lparr>w_sys := r\<rparr>, Inr (min n limit)))"

lemma remap_conns_sys: "remap_conns p w cs = Some (p', w') \<Longrightarrow> w_sys w' = w_sys w"
  by (induction p w cs rule: remap_conns.induct) (auto simp: remap_def split: option.splits)

lemma set_send_only_mode_sys: "set_send_only_mode p w m = Some (p', w') \<Longrightarrow> w_sys w' = w_sys w"
  by (auto simp: set_send_only_mode_def remap_def split: option.splits if_splits dest!: remap_conns_sys)

function send_loop :: "pipe \<Rightarrow> pipe_world \<Rightarrow> (pipe \<times> pipe_world \<times> pipe_op_result) option" where
  "send_loop p w =
     (if buffer_empty p then Some (p, w, FB_PIPE_SUCCESS)
      else
        case sys_call w (lb_length (p_buf p)) of
          (w1, Inl e) \<Rightarrow>
            if e = EAGAIN
            then map_option (\<lambda>(p', w'). (p', w', FB_PIPE_WOULDBLOCK)) (set_send_only_mode p w1 True)
            else Some (p, w1, FB_PIPE_FD0_EPIPE)
        | (w1, Inr sent) \<Rightarrow>
            if sent = 0 then None
            else
              (case lb_discard (p_buf p) sent of
                 None \<Rightarrow> None
               | Some b \<Rightarrow>
                   (let p1 = p\<lparr>p_buf := b\<rparr>; w2 = w1\<lparr>w_out := w_out w1 @ take sent (lb_data (p_buf p))\<rparr> in
                    case (if buffer_empty p1 \<and> p_send_only_mode p1 then set_send_only_mode p1 w2 False
                          else Some (p1, w2)) of
                      None \<Rightarrow> None
                    | Some (p2, w3) \<Rightarrow> send_loop p2 w3)))"
  by pat_completeness auto
termination
  by (relation "measure (\<lambda>(p, w). length (w_sys w))")
    (auto simp: sys_call_def Let_def split: list.splits sys_answer.splits if_splits dest!: set_send_only_mode_sys sym [of "Some _"])

declare send_loop.simps [simp del]

definition send_buf :: "pipe \<Rightarrow> pipe_world \<Rightarrow> (pipe \<times> pipe_world \<times> pipe_op_result) option" where
  "send_buf p w = (if finished p then None else send_loop p w)"

section \<open>Forwarding\<close>

text \<open>
  \<open>buf_.read(fd1, -1)\<close>.  A read from a Unix pipe returns what is there; from an empty one it returns
  end of file or an error, \<open>EAGAIN\<close> as long as it is open.
\<close>

definition fd1_read :: "linear_buffer \<Rightarrow> string \<Rightarrow> fd1_state \<Rightarrow> (int \<times> linear_buffer) option" where
  "fd1_read b inp st =
     (let attempt1 = (case ensure_space b (8 * 1024) of
                        None \<Rightarrow> 0
                      | Some b1 \<Rightarrow> lb_size b1 - lb_data_start_offset b1 - lb_length b1)
      in lb_read (\<lambda>n. if inp = [] then (if st = Fd1_hangup then ReadOk [] else ReadErr) else ReadOk (take n inp))
           (int (length inp - attempt1)) (\<lambda>n. ReadOk (take n (drop attempt1 inp))) b (-1))"

definition consume :: "pipe_world \<Rightarrow> int \<Rightarrow> nat \<Rightarrow> pipe_world" where
  "consume w fd n = w\<lparr>w_in := (w_in w)(fd := drop n (w_in w fd))\<rparr>"

text \<open>The loop over \<open>tee()\<close> or \<open>splice()\<close>; \<open>recs\<close> are the recorders of the pipe end.\<close>

function splice_loop :: "pipe_world \<Rightarrow> nat list \<Rightarrow> int \<Rightarrow> pipe_world option" where
  "splice_loop w recs fd1 =
     (case sys_call w (length (w_in w fd1)) of
        (w1, Inl e) \<Rightarrow> Some w1
      | (w1, Inr n) \<Rightarrow>
          if n = 0 then Some w1
          else
            (let w2 = w1\<lparr>w_out := w_out w1 @ take n (w_in w1 fd1)\<rparr> in
             if has_active_recorder (w_recorders w2) recs then
               (case record_data_from_unix_pipe (w_max_inline w2) (w_alloc w2) (w_recorders w2) recs (w_in w2 fd1) n of
                  None \<Rightarrow> None
                | Some (R, rest) \<Rightarrow> splice_loop (w2\<lparr>w_recorders := R, w_in := (w_in w2)(fd1 := rest)\<rparr>) recs fd1)
             else splice_loop (consume w2 fd1 n) recs fd1))"
  by pat_completeness auto
termination
  by (relation "measure (\<lambda>(w, _). length (w_sys w))")
    (auto simp: sys_call_def consume_def split: list.splits sys_answer.splits)

declare splice_loop.simps [simp del]

text \<open>
  One round of the loop of \<open>forward\<close>: \<open>Inl\<close> is a return, \<open>Inr\<close> the result of \<open>send_buf\<close> after data
  was read.
\<close>

definition forward_round ::
    "pipe \<Rightarrow> pipe_world \<Rightarrow> nat list \<Rightarrow> int \<Rightarrow> (pipe \<times> pipe_world \<times> (pipe_op_result + pipe_op_result)) option" where
  "forward_round p w recs fd1 =
     (case (if buffer_empty p then splice_loop w recs fd1 else Some w) of
        None \<Rightarrow> None
      | Some w1 \<Rightarrow>
          (case fd1_read (p_buf p) (w_in w1 fd1) (w_fd1_state w1 fd1) of
             None \<Rightarrow> None
           | Some (got, b) \<Rightarrow>
               (let p1 = p\<lparr>p_buf := b\<rparr> in
                if got = -1 then
                  (if w_fd1_state w1 fd1 \<noteq> Fd1_error
                   then map_option (\<lambda>(p', w', r). (p', w', Inl r)) (send_buf p1 w1)
                   else map_option (\<lambda>(p', w', r). (p', w', Inl FB_PIPE_FD1_EOF)) (send_buf p1 w1))
                else if got = 0 then
                  map_option (\<lambda>(p', w', r). (p', w', Inl FB_PIPE_FD1_EOF)) (send_buf p1 w1)
                else
                  (let w2 = consume w1 fd1 (nat got);
                       saved = drop (lb_length b - nat got) (lb_data b)
                   in case record_data_from_buffer (w_max_inline w2) (w_alloc w2) (w_recorders w2) recs saved of
                        None \<Rightarrow> None
                      | Some R \<Rightarrow> map_option (\<lambda>(p', w', r). (p', w', Inr r)) (send_buf p1 (w2\<lparr>w_recorders := R\<rparr>))))))"

lemma unix_pipe_rest: "record_data_from_unix_pipe mx alloc R is inp n = Some (R', rest) \<Longrightarrow> rest = drop n inp"
  by (induction mx alloc R "is" inp n rule: record_data_from_unix_pipe.induct)
    (auto simp: rec_add_data_from_unix_pipe_def split: if_splits option.splits)

lemma sys_call_in: "sys_call w n = (w', r) \<Longrightarrow> w_in w' = w_in w"
  by (auto simp: sys_call_def split: list.splits sys_answer.splits)

lemma sys_call_shorter: "sys_call w n = (w', Inr k) \<Longrightarrow> length (w_sys w') < length (w_sys w)"
  by (auto simp: sys_call_def split: list.splits sys_answer.splits)

text \<open>What one round of the \<open>tee()\<close> and \<open>splice()\<close> loop does to the world.\<close>

definition spliced :: "pipe_world \<Rightarrow> nat list \<Rightarrow> int \<Rightarrow> nat \<Rightarrow> pipe_world \<Rightarrow> bool" where
  "spliced w recs fd1 n w' \<longleftrightarrow>
     w_in w' = (w_in w)(fd1 := drop n (w_in w fd1)) \<and> w_out w' = w_out w @ take n (w_in w fd1) \<and>
     (if has_active_recorder (w_recorders w) recs
      then record_data_from_unix_pipe (w_max_inline w) (w_alloc w) (w_recorders w) recs (w_in w fd1) n =
             Some (w_recorders w', drop n (w_in w fd1))
      else w_recorders w' = w_recorders w)"

definition same_but_io :: "pipe_world \<Rightarrow> pipe_world \<Rightarrow> bool" where
  "same_but_io w w' \<longleftrightarrow> w_epoll w' = w_epoll w \<and> w_max_inline w' = w_max_inline w \<and> w_alloc w' = w_alloc w \<and>
     w_fd1_state w' = w_fd1_state w \<and> w_dups w' = w_dups w \<and> w_now w' = w_now w \<and> w_closed w' = w_closed w"

lemma sys_call_same: "sys_call w n = (w', r) \<Longrightarrow>
    same_but_io w w' \<and> w_in w' = w_in w \<and> w_out w' = w_out w \<and> w_recorders w' = w_recorders w \<and>
    (\<forall>k. r = Inr k \<longrightarrow> k \<le> n)"
  by (auto simp: sys_call_def same_but_io_def split: list.splits sys_answer.splits)

lemma splice_loop_cases:
  assumes "splice_loop w recs fd1 = Some w'"
  obtains (stop) "same_but_io w w'" "w_in w' = w_in w" "w_out w' = w_out w" "w_recorders w' = w_recorders w"
    | (step) n w1 where "0 < n" "n \<le> length (w_in w fd1)" "spliced w recs fd1 n w1" "same_but_io w w1"
      "length (w_sys w1) < length (w_sys w)" "splice_loop w1 recs fd1 = Some w'"
proof -
  obtain w0 r where sc: "sys_call w (length (w_in w fd1)) = (w0, r)" by fastforce
  note s0 = sys_call_same [OF sc]
  show ?thesis
  proof (cases "r = Inr 0 \<or> (\<exists>e. r = Inl e)")
    case True
    then have "w' = w0" using assms sc by (subst (asm) splice_loop.simps) auto
    then show ?thesis using s0 stop by simp
  next
    case False
    then obtain n where n: "r = Inr n" "0 < n" by (cases r) auto
    let ?w2 = "w0\<lparr>w_out := w_out w0 @ take n (w_in w0 fd1)\<rparr>"
    have len: "length (w_sys w0) < length (w_sys w)" using sc n sys_call_shorter by simp
    show ?thesis
    proof (cases "has_active_recorder (w_recorders w) recs")
      case True
      obtain R rest where
        u: "record_data_from_unix_pipe (w_max_inline ?w2) (w_alloc ?w2) (w_recorders ?w2) recs (w_in ?w2 fd1) n = Some (R, rest)"
          "splice_loop (?w2\<lparr>w_recorders := R, w_in := (w_in ?w2)(fd1 := rest)\<rparr>) recs fd1 = Some w'"
        using assms sc n True s0 by (subst (asm) splice_loop.simps) (auto simp: Let_def split: option.splits)
      show ?thesis
        using step [of n "?w2\<lparr>w_recorders := R, w_in := (w_in ?w2)(fd1 := rest)\<rparr>"] n s0 u len True unix_pipe_rest [OF u(1)]
        by (simp add: spliced_def same_but_io_def)
    next
      case False
      then have "splice_loop (consume ?w2 fd1 n) recs fd1 = Some w'"
        using assms sc n s0 by (subst (asm) splice_loop.simps) (auto simp: Let_def)
      then show ?thesis
        using step [of n "consume ?w2 fd1 n"] n s0 len False by (simp add: spliced_def same_but_io_def consume_def)
    qed
  qed
qed

lemma splice_loop_suffix: "splice_loop w recs fd1 = Some w' \<Longrightarrow> length (w_in w' fd1) \<le> length (w_in w fd1)"
proof (induction "length (w_sys w)" arbitrary: w rule: less_induct)
  case less
  from less.prems show ?case
  proof (cases rule: splice_loop_cases)
    case (step n w1)
    then show ?thesis using less.hyps [OF step(5,6)] by (simp add: spliced_def)
  qed simp
qed

lemma fd1_read_law:
  assumes "lb_inv b"
  shows "\<exists>b'. fd1_read b inp st =
      Some (if inp = [] then (if st = Fd1_hangup then 0 else -1) else int (length inp), b') \<and>
    lb_inv b' \<and> lb_data b' = lb_data b @ inp"
proof -
  obtain b1 where b1: "ensure_space b (8 * 1024) = Some b1" "lb_inv b1" "lb_data b1 = lb_data b"
    "lb_data_start_offset b1 + lb_length b1 + 8 * 1024 \<le> lb_size b1"
    using ensure_space_law [OF assms, of "8 * 1024"] by auto
  define a where "a = lb_size b1 - lb_data_start_offset b1 - lb_length b1"
  have a: "a \<ge> 8 * 1024" "lb_data_start_offset b1 + lb_length b1 + a \<le> lb_size b1" using b1(4) by (simp_all add: a_def)
  have a': "lb_size b1 - (lb_data_start_offset b1 + lb_length b1) = a"
    "lb_size b1 - lb_data_start_offset b1 - lb_length b1 = a" by (simp_all add: a_def)
  show ?thesis
  proof (cases "inp = []")
    case True
    then show ?thesis using b1 by (simp add: fd1_read_def lb_read_def received_def Let_def)
  next
    case ne: False
    let ?r1 = "ReadOk (take a inp)"
    obtain b2 where b2: "read_into b1 ?r1 = Some b2" "lb_inv b2" "lb_data b2 = lb_data b1 @ take a inp"
      using read_into_law [OF b1(2) a(2), of ?r1] by (auto simp: bytes_of_def)
    show ?thesis
    proof (cases "length inp \<le> a")
      case True
      then have "fd1_read b inp st = Some (int (length inp), b2)"
        using b1(1) b2(1) ne a(1) unfolding fd1_read_def lb_read_def
        by (simp add: Let_def received_def a' del: diff_diff_left)
      then show ?thesis using ne True b1 b2 by simp
    next
      case False
      obtain b3 where b3: "ensure_space b2 (length inp - a) = Some b3" "lb_inv b3" "lb_data b3 = lb_data b2"
        "lb_data_start_offset b3 + lb_length b3 + (length inp - a) \<le> lb_size b3"
        using ensure_space_law [OF b2(2), of "length inp - a"] by auto
      let ?r2 = "ReadOk (take (length inp - a) (drop a inp))"
      obtain b4 where b4: "read_into b3 ?r2 = Some b4" "lb_inv b4" "lb_data b4 = lb_data b3 @ drop a inp"
        using read_into_law [OF b3(2,4), of ?r2] by (auto simp: bytes_of_def)
      have nd: "nat (int (length inp) - int a) = length inp - a" using False by simp
      have "fd1_read b inp st = Some (int (length inp), b4)"
        using b1(1) b2(1) b3(1) b4(1) ne False a(1) nd unfolding fd1_read_def lb_read_def
        by (simp add: Let_def received_def a' del: diff_diff_left)
      then show ?thesis using ne b1 b2 b3 b4 by simp
    qed
  qed
qed

text \<open>Switching the mode of a pipe only touches the epoll set and which descriptors it uses.\<close>

definition same_data :: "pipe_world \<Rightarrow> pipe_world \<Rightarrow> bool" where
  "same_data w w' \<longleftrightarrow> w_recorders w' = w_recorders w \<and> w_max_inline w' = w_max_inline w \<and> w_alloc w' = w_alloc w \<and>
     w_in w' = w_in w \<and> w_fd1_state w' = w_fd1_state w \<and> w_out w' = w_out w \<and> w_sys w' = w_sys w \<and>
     w_now w' = w_now w \<and> w_closed w' = w_closed w"

lemma same_data_refl [simp]: "same_data w w"
  by (simp add: same_data_def)

lemma remap_data: "remap w fd = Some (w', r) \<Longrightarrow> same_data w w'"
  by (auto simp: remap_def same_data_def split: option.splits)

definition same_ends :: "pipe \<Rightarrow> pipe \<Rightarrow> bool" where
  "same_ends p p' \<longleftrightarrow> p_id p' = p_id p \<and> p_ffd2fd1_ends p' = p_ffd2fd1_ends p \<and> p_ends p' = p_ends p \<and>
     p_next_end p' = p_next_end p \<and> p_proc2recorders p' = p_proc2recorders p \<and> p_buf p' = p_buf p \<and>
     p_fd1_timeout_id p' = p_fd1_timeout_id p \<and> p_fd1_timeout_round p' = p_fd1_timeout_round p \<and>
     p_fd1_ptrs_held p' = p_fd1_ptrs_held p \<and> p_fd0_ptrs_held p' = p_fd0_ptrs_held p \<and>
     p_self_held p' = p_self_held p \<and> (p_conn2fd1_ends p \<noteq> [] \<longrightarrow> p_conn2fd1_ends p' \<noteq> [])"

lemma remap_conns_data: "remap_conns p w cs = Some (p', w') \<Longrightarrow> same_data w w' \<and> same_ends p p'"
proof (induction p w cs rule: remap_conns.induct)
  case (1 p w)
  then show ?case by (simp add: same_ends_def)
next
  case (2 p w fd en cs)
  obtain w1 new where r: "remap w fd = Some (w1, new)" using 2(2) by (auto split: option.splits)
  then obtain e where e: "add_fd (w_epoll w1) new Pipe_fd1_read_cb (Some (p_id p)) = Some e"
    using 2(2) by (auto split: option.splits)
  let ?p = "p\<lparr>p_conn2fd1_ends := (new, en) # erase_key new (erase_key fd (p_conn2fd1_ends p))\<rparr>"
  have s: "remap_conns ?p (w1\<lparr>w_epoll := e\<rparr>) cs = Some (p', w')" using 2(2) r e by simp
  have "same_data (w1\<lparr>w_epoll := e\<rparr>) w'" "same_ends ?p p'" using 2(1) [OF r refl e s] by auto
  then show ?case using remap_data [OF r] by (simp add: same_data_def same_ends_def)
qed

lemma set_send_only_mode_data:
  assumes "set_send_only_mode p w m = Some (p', w')"
  shows "same_data w w' \<and> p_send_only_mode p' = m \<and> same_ends p p'"
proof -
  consider (same) "m = p_send_only_mode p" | (on) "m" "\<not> p_send_only_mode p" | (off) "\<not> m" "p_send_only_mode p"
    by blast
  then show ?thesis
  proof cases
    case same
    then have "p' = p" "w' = w" using assms by (simp_all add: set_send_only_mode_def split: if_splits)
    then show ?thesis using same by (simp add: same_ends_def)
  next
    case on
    then show ?thesis using assms
      by (auto simp: set_send_only_mode_def same_data_def same_ends_def split: if_splits option.splits dest!: remap_data)
  next
    case off
    then obtain e r p1 w1 e' where
      x: "remap_conns p (w\<lparr>w_epoll := e\<rparr>) r = Some (p1, w1)"
        "p' = p1\<lparr>p_send_only_mode := False\<rparr>" "w' = w1\<lparr>w_epoll := e'\<rparr>"
      using assms by (auto simp: set_send_only_mode_def split: if_splits option.splits)
    from remap_conns_data [OF x(1)] show ?thesis using x off by (simp add: same_data_def same_ends_def)
  qed
qed

text \<open>What sending guarantees: no byte is lost, duplicated or reordered.\<close>

definition sent_law :: "pipe \<Rightarrow> pipe_world \<Rightarrow> pipe \<Rightarrow> pipe_world \<Rightarrow> pipe_op_result \<Rightarrow> bool" where
  "sent_law p w p' w' r \<longleftrightarrow> lb_inv (p_buf p') \<and>
     w_out w' @ lb_data (p_buf p') = w_out w @ lb_data (p_buf p) \<and>
     w_in w' = w_in w \<and> w_recorders w' = w_recorders w \<and> w_fd1_state w' = w_fd1_state w \<and>
     w_max_inline w' = w_max_inline w \<and> w_alloc w' = w_alloc w \<and> w_closed w' = w_closed w \<and>
     (r = FB_PIPE_SUCCESS \<longleftrightarrow> buffer_empty p') \<and> (r = FB_PIPE_WOULDBLOCK \<longrightarrow> p_send_only_mode p') \<and>
     r \<in> {FB_PIPE_SUCCESS, FB_PIPE_WOULDBLOCK, FB_PIPE_FD0_EPIPE} \<and>
     p_ends p' = p_ends p \<and> p_ffd2fd1_ends p' = p_ffd2fd1_ends p \<and> p_next_end p' = p_next_end p \<and>
     (p_conn2fd1_ends p \<noteq> [] \<longrightarrow> p_conn2fd1_ends p' \<noteq> [])"

lemma send_loop_law:
  "send_loop p w = Some (p', w', r) \<Longrightarrow> lb_inv (p_buf p) \<Longrightarrow> sent_law p w p' w' r"
proof (induction "length (w_sys w)" arbitrary: p w rule: less_induct)
  case less
  show ?case
  proof (cases "buffer_empty p")
    case True
    then have "p' = p" "w' = w" "r = FB_PIPE_SUCCESS" using less.prems(1) by (simp_all add: send_loop.simps [of p w])
    then show ?thesis using True less.prems(2) by (simp add: sent_law_def)
  next
    case ne: False
    obtain w1 a where sc: "sys_call w (lb_length (p_buf p)) = (w1, a)" by fastforce
    note s1 = sys_call_same [OF sc]
    show ?thesis
    proof (cases a)
      case (Inl e)
      show ?thesis
      proof (cases "e = EAGAIN")
        case True
        then have m: "set_send_only_mode p w1 True = Some (p', w')" "r = FB_PIPE_WOULDBLOCK"
          using less.prems(1) ne sc Inl by (auto simp: send_loop.simps [of p w])
        from set_send_only_mode_data [OF m(1)] show ?thesis
          using ne s1 m(2) less.prems(2) by (auto simp: sent_law_def same_data_def same_but_io_def same_ends_def buffer_empty_def)
      next
        case False
        then have "p' = p" "w' = w1" "r = FB_PIPE_FD0_EPIPE" using less.prems(1) ne sc Inl
          by (simp_all add: send_loop.simps [of p w])
        then show ?thesis using ne s1 less.prems(2) by (simp add: sent_law_def same_but_io_def)
      qed
    next
      case (Inr n)
      have n: "n \<le> lb_length (p_buf p)" using s1 Inr by simp
      have ld: "length (lb_data (p_buf p)) = lb_length (p_buf p)" using less.prems(2) by (rule length_lb_data)
      obtain b where b: "lb_discard (p_buf p) n = Some b" "lb_inv b" "lb_data b = drop n (lb_data (p_buf p))"
        using lb_discard_law [OF less.prems(2), of n] n ld by auto
      define p1 where "p1 = p\<lparr>p_buf := b\<rparr>"
      define w2 where "w2 = w1\<lparr>w_out := w_out w1 @ take n (lb_data (p_buf p))\<rparr>"
      define q where "q = (if buffer_empty p1 \<and> p_send_only_mode p1 then set_send_only_mode p1 w2 False else Some (p1, w2))"
      have eq: "send_loop p w = (if n = 0 then None else case q of None \<Rightarrow> None | Some (p2, w3) \<Rightarrow> send_loop p2 w3)"
        using ne sc Inr b(1) by (simp add: send_loop.simps [of p w] Let_def p1_def w2_def q_def)
      then obtain p2 w3 where q: "q = Some (p2, w3)" "send_loop p2 w3 = Some (p', w', r)"
        using less.prems(1) by (auto split: if_splits option.splits)
      have sd: "same_data w2 w3 \<and> p_buf p2 = b \<and> p_ends p2 = p_ends p \<and> p_ffd2fd1_ends p2 = p_ffd2fd1_ends p \<and>
        p_next_end p2 = p_next_end p \<and> (p_conn2fd1_ends p \<noteq> [] \<longrightarrow> p_conn2fd1_ends p2 \<noteq> [])"
        using q(1) set_send_only_mode_data [of p1 w2 False p2 w3] by (auto simp: q_def p1_def same_ends_def split: if_splits)
      have sh: "length (w_sys w3) < length (w_sys w)"
        using sd sys_call_shorter [OF sc [unfolded Inr]] by (simp add: same_data_def w2_def)
      have i: "lb_inv (p_buf p2)" using sd b by simp
      from less.hyps [OF sh q(2) i] show ?thesis
        using sd s1 b(3) by (auto simp: sent_law_def same_data_def same_but_io_def w2_def)
    qed
  qed
qed

lemma send_buf_law: "send_buf p w = Some (p', w', r) \<Longrightarrow> lb_inv (p_buf p) \<Longrightarrow> sent_law p w p' w' r"
  using send_loop_law by (auto simp: send_buf_def split: if_splits)

lemma send_loop_in: "send_loop p w = Some (p', w', r) \<Longrightarrow> w_in w' = w_in w"
proof (induction "length (w_sys w)" arbitrary: p w rule: less_induct)
  case less
  obtain w1 a where sc: "sys_call w (lb_length (p_buf p)) = (w1, a)" by fastforce
  note s1 = sys_call_same [OF sc]
  show ?case
  proof (cases a)
    case (Inl e)
    then show ?thesis using less.prems sc s1
      by (auto simp: send_loop.simps [of p w] same_data_def split: if_splits dest!: set_send_only_mode_data)
  next
    case (Inr n)
    show ?thesis
    proof (cases "buffer_empty p")
      case True
      then show ?thesis using less.prems by (simp add: send_loop.simps [of p w])
    next
      case False
      then obtain b where b: "lb_discard (p_buf p) n = Some b" "n \<noteq> 0"
        using less.prems sc Inr by (cases "lb_discard (p_buf p) n") (auto simp: send_loop.simps [of p w] split: if_splits)
      define p1 where "p1 = p\<lparr>p_buf := b\<rparr>"
      define w2 where "w2 = w1\<lparr>w_out := w_out w1 @ take n (lb_data (p_buf p))\<rparr>"
      define q where "q = (if buffer_empty p1 \<and> p_send_only_mode p1 then set_send_only_mode p1 w2 False else Some (p1, w2))"
      have "send_loop p w = (case q of None \<Rightarrow> None | Some (p2, w3) \<Rightarrow> send_loop p2 w3)"
        using False sc Inr b by (simp add: send_loop.simps [of p w] Let_def p1_def w2_def q_def)
      then obtain p2 w3 where q: "q = Some (p2, w3)" "send_loop p2 w3 = Some (p', w', r)"
        using less.prems(1) by (auto split: option.splits)
      have sd: "same_data w2 w3"
        using q(1) set_send_only_mode_data [of p1 w2 False p2 w3] by (auto simp: q_def split: if_splits)
      then have "length (w_sys w3) < length (w_sys w)"
        using sys_call_shorter [OF sc [unfolded Inr]] by (simp add: same_data_def w2_def)
      from less.hyps [OF this q(2)] show ?thesis using sd s1 by (simp add: same_data_def w2_def)
    qed
  qed
qed

lemma fd1_read_positive:
  assumes "fd1_read b inp st = Some (got, b')" "got \<noteq> -1" "got \<noteq> 0"
  shows "inp \<noteq> []" "0 < nat got"
proof -
  have r: "-1 \<le> received x" for x by (cases x) (simp_all add: received_def)
  show "inp \<noteq> []"
    using assms by (auto simp: fd1_read_def lb_read_def Let_def received_def split: option.splits if_splits)
  have "0 < got \<or> got = received (if inp = [] then (if st = Fd1_hangup then ReadOk [] else ReadErr) else ReadOk (take n inp))
      \<or> got \<le> 0 \<and> got \<ge> -1" for n
    using assms(1) by (auto simp: fd1_read_def lb_read_def Let_def received_def split: option.splits if_splits)
  then show "0 < nat got" using assms(2,3) r by (smt (verit) zero_less_nat_eq)
qed

lemma forward_round_shorter:
  assumes "forward_round p w recs fd1 = Some (p', w', Inr r)"
  shows "length (w_in w' fd1) < length (w_in w fd1)"
proof -
  obtain w1 where w1: "(if buffer_empty p then splice_loop w recs fd1 else Some w) = Some w1"
    using assms by (auto simp: forward_round_def split: option.splits)
  obtain got b where r: "fd1_read (p_buf p) (w_in w1 fd1) (w_fd1_state w1 fd1) = Some (got, b)"
    using assms w1 by (auto simp: forward_round_def split: option.splits)
  have g: "got \<noteq> -1" "got \<noteq> 0" using assms w1 r by (auto simp: forward_round_def Let_def split: if_splits option.splits)
  note pos = fd1_read_positive [OF r g]
  obtain R where s: "send_buf (p\<lparr>p_buf := b\<rparr>) ((consume w1 fd1 (nat got))\<lparr>w_recorders := R\<rparr>) = Some (p', w', r)"
    using assms w1 r g by (auto simp: forward_round_def Let_def split: if_splits option.splits)
  then have "w_in w' = w_in (consume w1 fd1 (nat got))" using send_loop_in by (auto simp: send_buf_def split: if_splits)
  then have "length (w_in w' fd1) < length (w_in w1 fd1)" using pos by (cases "w_in w1 fd1") (simp_all add: consume_def)
  moreover have "length (w_in w1 fd1) \<le> length (w_in w fd1)" using w1 splice_loop_suffix by (auto split: if_splits)
  ultimately show ?thesis by simp
qed

function forward_loop ::
    "pipe \<Rightarrow> pipe_world \<Rightarrow> nat list \<Rightarrow> int \<Rightarrow> bool \<Rightarrow> (pipe \<times> pipe_world \<times> pipe_op_result) option" where
  "forward_loop p w recs fd1 drain =
     (case forward_round p w recs fd1 of
        None \<Rightarrow> None
      | Some (p', w', Inl r) \<Rightarrow> Some (p', w', r)
      | Some (p', w', Inr send_ret) \<Rightarrow>
          if drain \<and> send_ret \<noteq> FB_PIPE_FD0_EPIPE then forward_loop p' w' recs fd1 drain
          else if send_ret = FB_PIPE_FD0_EPIPE \<or> send_ret = FB_PIPE_SUCCESS then Some (p', w', send_ret)
          else if p_conn2fd1_ends p' = [] then None
          else Some (p', w', FB_PIPE_WOULDBLOCK))"
  by pat_completeness auto
termination
  by (relation "measure (\<lambda>(p, w, recs, fd1, drain). length (w_in w fd1))") (auto dest: forward_round_shorter)

declare forward_loop.simps [simp del]

definition forward :: "pipe \<Rightarrow> pipe_world \<Rightarrow> int \<Rightarrow> bool \<Rightarrow> (pipe \<times> pipe_world \<times> pipe_op_result) option" where
  "forward p w fd1 drain =
     (if finished p then Some (p, w, FB_PIPE_FINISHED)
      else case map_of (p_conn2fd1_ends p) fd1 of
        None \<Rightarrow> None
      | Some en \<Rightarrow> forward_loop p w (pe_recorders (p_ends p en)) fd1 drain)"

section \<open>Ends of the pipe\<close>

lemma send_loop_success: "send_loop p w = Some (p', w', FB_PIPE_SUCCESS) \<Longrightarrow> buffer_empty p'"
proof (induction "length (w_sys w)" arbitrary: p w rule: less_induct)
  case less
  show ?case
  proof (cases "buffer_empty p")
    case True
    then show ?thesis using less.prems by (simp add: send_loop.simps [of p w])
  next
    case False
    obtain w1 a where sc: "sys_call w (lb_length (p_buf p)) = (w1, a)" by fastforce
    show ?thesis
    proof (cases a)
      case (Inl e)
      then show ?thesis using less.prems sc False by (auto simp: send_loop.simps [of p w] split: if_splits)
    next
      case (Inr n)
      then obtain b where b: "lb_discard (p_buf p) n = Some b" "n \<noteq> 0"
        using less.prems sc False by (cases "lb_discard (p_buf p) n") (auto simp: send_loop.simps [of p w] split: if_splits)
      define p1 where "p1 = p\<lparr>p_buf := b\<rparr>"
      define w2 where "w2 = w1\<lparr>w_out := w_out w1 @ take n (lb_data (p_buf p))\<rparr>"
      define q where "q = (if buffer_empty p1 \<and> p_send_only_mode p1 then set_send_only_mode p1 w2 False else Some (p1, w2))"
      have "send_loop p w = (case q of None \<Rightarrow> None | Some (p2, w3) \<Rightarrow> send_loop p2 w3)"
        using False sc Inr b by (simp add: send_loop.simps [of p w] Let_def p1_def w2_def q_def)
      then obtain p2 w3 where q: "q = Some (p2, w3)" "send_loop p2 w3 = Some (p', w', FB_PIPE_SUCCESS)"
        using less.prems(1) by (auto split: option.splits)
      have "same_data w2 w3"
        using q(1) set_send_only_mode_data [of p1 w2 False p2 w3] by (auto simp: q_def split: if_splits)
      then have "length (w_sys w3) < length (w_sys w)"
        using sys_call_shorter [OF sc [unfolded Inr]] by (simp add: same_data_def w2_def)
      from less.hyps [OF this q(2)] show ?thesis .
    qed
  qed
qed

text \<open>The loop of \<open>finish\<close> that tries to send what is left.\<close>

function finish_send :: "pipe \<Rightarrow> pipe_world \<Rightarrow> (pipe \<times> pipe_world) option" where
  "finish_send p w =
     (case send_buf p w of
        None \<Rightarrow> None
      | Some (p', w', send_ret) \<Rightarrow>
          if \<not> buffer_empty p' \<and> send_ret = FB_PIPE_SUCCESS then finish_send p' w' else Some (p', w'))"
  by pat_completeness auto
termination
  by (relation "{}") (auto simp: send_buf_def split: if_splits dest: send_loop_success)

declare finish_send.simps [simp del]

definition stop_fd1_timer :: "pipe \<Rightarrow> pipe_world \<Rightarrow> (pipe \<times> pipe_world) option" where
  "stop_fd1_timer p w =
     (case p_fd1_timeout_id p of
        None \<Rightarrow> Some (p, w)
      | Some i \<Rightarrow>
          map_option (\<lambda>e. (p\<lparr>p_fd1_timeout_id := None\<rparr>, w\<lparr>w_epoll := e\<rparr>)) (del_timer (w_epoll w) i))"

definition start_fd1_timer :: "pipe \<Rightarrow> pipe_world \<Rightarrow> pipe \<times> pipe_world" where
  "start_fd1_timer p w =
     (case add_timer (w_epoll w) (w_now w) kFd1ReopenTimeoutMs Pipe_fd1_timeout_cb (Some (p_id p)) of
        (e, i) \<Rightarrow> (p\<lparr>p_fd1_timeout_id := Some i\<rparr>, w\<lparr>w_epoll := e\<rparr>))"

definition finish :: "pipe \<Rightarrow> pipe_world \<Rightarrow> (pipe \<times> pipe_world) option" where
  "finish p w =
     (if finished p then (if p_self_held p then None else Some (p, w))
      else
        let conns = map fst (p_conn2fd1_ends p) in
        case maybe_del_fds (w_epoll w) conns of
          None \<Rightarrow> None
        | Some e \<Rightarrow>
            (case finish_send (p\<lparr>p_conn2fd1_ends := [], p_ffd2fd1_ends := []\<rparr>)
                    (w\<lparr>w_epoll := e, w_closed := w_closed w @ conns\<rparr>) of
               None \<Rightarrow> None
             | Some (p1, w1) \<Rightarrow>
                 (case maybe_del_fd (w_epoll w1) (p_fd0_conn p1) of
                    None \<Rightarrow> None
                  | Some e1 \<Rightarrow>
                      (case stop_fd1_timer (p1\<lparr>p_fd0_conn := -1\<rparr>)
                              (w1\<lparr>w_epoll := e1, w_closed := w_closed w1 @ [p_fd0_conn p1]\<rparr>) of
                         None \<Rightarrow> None
                       | Some (p2, w2) \<Rightarrow> Some (p2\<lparr>p_self_held := False\<rparr>, w2)))))"

text \<open>What happens when the last fd1 end is gone and nothing is left to send.\<close>

definition fd1_reopen_timeout :: "pipe \<Rightarrow> pipe_world \<Rightarrow> (pipe \<times> pipe_world) option" where
  "fd1_reopen_timeout p w =
     (if \<not> p_fd1_ptrs_held p then finish p w
      else if p_fd1_timeout_id p \<noteq> None then None
      else Some (start_fd1_timer (p\<lparr>p_fd1_timeout_round := 0\<rparr>) w))"

definition close_one_fd1 :: "pipe \<Rightarrow> pipe_world \<Rightarrow> int \<Rightarrow> (pipe \<times> pipe_world) option" where
  "close_one_fd1 p w fd =
     (case map_of (p_conn2fd1_ends p) fd of
        None \<Rightarrow> Some (p, w)
      | Some en \<Rightarrow>
          (let p1 = p\<lparr>p_ffd2fd1_ends := filter (\<lambda>x. \<not> List.member (pe_file_fds (p_ends p en)) (fst x)) (p_ffd2fd1_ends p),
                      p_conn2fd1_ends := erase_key fd (p_conn2fd1_ends p)\<rparr>
           in case maybe_del_fd (w_epoll w) fd of
                None \<Rightarrow> None
              | Some e \<Rightarrow>
                  (let w1 = w\<lparr>w_epoll := e, w_closed := w_closed w @ [fd]\<rparr> in
                   if p_conn2fd1_ends p1 = [] then
                     (if buffer_empty p1 then fd1_reopen_timeout p1 w1 else set_send_only_mode p1 w1 True)
                   else Some (p1, w1))))"

definition maybe_finish :: "pipe \<Rightarrow> pipe_world \<Rightarrow> (pipe \<times> pipe_world) option" where
  "maybe_finish p w =
     (if \<not> finished p \<and> p_conn2fd1_ends p = []
      then (if buffer_empty p then finish p w else set_send_only_mode p w True)
      else Some (p, w))"

definition Fd0Deleter :: "pipe \<Rightarrow> pipe_world \<Rightarrow> (pipe \<times> pipe_world) option" where
  "Fd0Deleter p w = map_option (\<lambda>(p', w'). (p'\<lparr>p_fd0_ptrs_held := False\<rparr>, w')) (maybe_finish p w)"

definition Fd1Deleter :: "pipe \<Rightarrow> pipe_world \<Rightarrow> (pipe \<times> pipe_world) option" where
  "Fd1Deleter p w = map_option (\<lambda>(p', w'). (p'\<lparr>p_fd1_ptrs_held := False\<rparr>, w')) (maybe_finish p w)"

text \<open>\<open>fd1_timeout_round_\<close> has three bits.\<close>

definition fd1_timeout_cb :: "pipe \<Rightarrow> pipe_world \<Rightarrow> (pipe \<times> pipe_world) option" where
  "fd1_timeout_cb p w =
     (let p1 = p\<lparr>p_fd1_timeout_id := None, p_fd1_timeout_round := (p_fd1_timeout_round p + 1) mod 8\<rparr> in
      if p_fd1_timeout_round p1 \<ge> 2 then finish p1 w else Some (start_fd1_timer p1 w))"

definition add_fd1_and_proc ::
    "pipe \<Rightarrow> pipe_world \<Rightarrow> int \<Rightarrow> nat \<Rightarrow> nat \<Rightarrow> nat list \<Rightarrow> (pipe \<times> pipe_world) option" where
  "add_fd1_and_proc p w fd1_conn file_fd proc recs =
     (if finished p then None
      else case stop_fd1_timer p w of
        None \<Rightarrow> None
      | Some (p1, w1) \<Rightarrow>
          (let en = p_next_end p1;
               p2 = p1\<lparr>p_ends := (p_ends p1)(en := \<lparr>pe_fd = fd1_conn, pe_file_fds = [file_fd], pe_recorders = recs\<rparr>),
                       p_next_end := en + 1,
                       p_conn2fd1_ends := (fd1_conn, en) # erase_key fd1_conn (p_conn2fd1_ends p1),
                       p_ffd2fd1_ends := (file_fd, en) # erase_key file_fd (p_ffd2fd1_ends p1),
                       p_proc2recorders := (p_proc2recorders p1)(proc \<mapsto> recs)\<rparr>
           in if p_send_only_mode p2 then Some (p2, w1)
              else map_option (\<lambda>e. (p2, w1\<lparr>w_epoll := e\<rparr>))
                     (add_fd (w_epoll w1) fd1_conn Pipe_fd1_read_cb (Some (p_id p2)))))"

definition pipe_fd0_write_cb :: "pipe \<Rightarrow> pipe_world \<Rightarrow> bool \<Rightarrow> (pipe \<times> pipe_world) option" where
  "pipe_fd0_write_cb p w ready_for_write =
     (if \<not> ready_for_write then finish p w
      else case send_buf p w of
        None \<Rightarrow> None
      | Some (p1, w1, FB_PIPE_WOULDBLOCK) \<Rightarrow> if p_send_only_mode p1 then Some (p1, w1) else None
      | Some (p1, w1, FB_PIPE_FD0_EPIPE) \<Rightarrow> finish p1 w1
      | Some (p1, w1, FB_PIPE_SUCCESS) \<Rightarrow>
          if buffer_empty p1 \<and> p_conn2fd1_ends p1 = [] then fd1_reopen_timeout p1 w1 else Some (p1, w1)
      | Some (p1, w1, _) \<Rightarrow> None)"

definition pipe_fd1_read_cb :: "pipe \<Rightarrow> pipe_world \<Rightarrow> bool \<Rightarrow> int \<Rightarrow> (pipe \<times> pipe_world) option" where
  "pipe_fd1_read_cb p w ready_for_read fd =
     (if \<not> ready_for_read then close_one_fd1 p w fd
      else case forward p w fd False of
        None \<Rightarrow> None
      | Some (p1, w1, FB_PIPE_WOULDBLOCK) \<Rightarrow> if p_send_only_mode p1 then Some (p1, w1) else None
      | Some (p1, w1, FB_PIPE_FD0_EPIPE) \<Rightarrow> finish p1 w1
      | Some (p1, w1, FB_PIPE_FD1_EOF) \<Rightarrow> close_one_fd1 p1 w1 fd
      | Some (p1, w1, FB_PIPE_SUCCESS) \<Rightarrow> if p_send_only_mode p1 then None else Some (p1, w1)
      | Some (p1, w1, FB_PIPE_FINISHED) \<Rightarrow> None)"

text \<open>Dropping a file descriptor from its end.\<close>

definition forget_ffd :: "pipe \<Rightarrow> nat \<Rightarrow> nat \<Rightarrow> pipe" where
  "forget_ffd p ffd en =
     p\<lparr>p_ffd2fd1_ends := erase_key ffd (p_ffd2fd1_ends p),
       p_ends := (p_ends p)(en := (p_ends p en)\<lparr>pe_file_fds := removeAll ffd (pe_file_fds (p_ends p en))\<rparr>)\<rparr>"

definition drain_fd1_end :: "pipe \<Rightarrow> pipe_world \<Rightarrow> nat \<Rightarrow> (pipe \<times> pipe_world) option" where
  "drain_fd1_end p w ffd =
     (if finished p then Some (p, w)
      else case get_fd1_end p ffd of
        None \<Rightarrow> Some (p, w)
      | Some en \<Rightarrow>
          (case forward p w (pe_fd (p_ends p en)) True of
             None \<Rightarrow> None
           | Some (p1, w1, FB_PIPE_FD1_EOF) \<Rightarrow> close_one_fd1 p1 w1 (pe_fd (p_ends p en))
           | Some (p1, w1, FB_PIPE_FD0_EPIPE) \<Rightarrow> if p_fd0_conn p1 \<ge> 0 then finish p1 w1 else Some (p1, w1)
           | Some (p1, w1, _) \<Rightarrow> Some (forget_ffd p1 ffd en, w1)))"

definition pipe_handle_close :: "pipe \<Rightarrow> pipe_world \<Rightarrow> nat \<Rightarrow> (pipe \<times> pipe_world) option" where
  "pipe_handle_close p w ffd =
     (case get_fd1_end p ffd of
        None \<Rightarrow> Some (p, w)
      | Some en \<Rightarrow>
          if length (pe_file_fds (p_ends p en)) = 1 then drain_fd1_end p w ffd
          else Some (forget_ffd p ffd en, w))"

definition pipe_handle_dup :: "pipe \<Rightarrow> nat \<Rightarrow> nat \<Rightarrow> pipe" where
  "pipe_handle_dup p old_ffd new_ffd =
     (case get_fd1_end p old_ffd of
        None \<Rightarrow> p
      | Some en \<Rightarrow>
          p\<lparr>p_ffd2fd1_ends := (new_ffd, en) # erase_key new_ffd (p_ffd2fd1_ends p),
            p_ends := (p_ends p)(en := (p_ends p en)\<lparr>pe_file_fds := List.insert new_ffd (pe_file_fds (p_ends p en))\<rparr>)\<rparr>)"

text \<open>
  \<open>drain\<close>: the iteration over \<open>ffd2fd1_ends\<close>, restarted whenever an end was closed.  The map only
  shrinks meanwhile, so this is one pass over its entries that skips those that are gone and those
  whose connection has been visited.
\<close>

fun drain_ends :: "pipe \<Rightarrow> pipe_world \<Rightarrow> (nat \<times> nat) list \<Rightarrow> int list \<Rightarrow> (pipe \<times> pipe_world) option" where
  "drain_ends p w [] visited_fds = Some (p, w)"
| "drain_ends p w ((ffd, en) # xs) visited_fds =
     (let fd = pe_fd (p_ends p en) in
      if get_fd1_end p ffd = None \<or> List.member visited_fds fd then drain_ends p w xs visited_fds
      else case forward p w fd True of
        None \<Rightarrow> None
      | Some (p1, w1, FB_PIPE_FD1_EOF) \<Rightarrow>
          (case close_one_fd1 p1 w1 fd of
             None \<Rightarrow> None
           | Some (p2, w2) \<Rightarrow> drain_ends p2 w2 xs (fd # visited_fds))
      | Some (p1, w1, FB_PIPE_FD0_EPIPE) \<Rightarrow>
          if p_fd0_conn p1 \<ge> 0 then finish p1 w1 else drain_ends p1 w1 xs (fd # visited_fds)
      | Some (p1, w1, _) \<Rightarrow> drain_ends p1 w1 xs (fd # visited_fds))"

definition drain :: "pipe \<Rightarrow> pipe_world \<Rightarrow> (pipe \<times> pipe_world) option" where
  "drain p w = (if finished p then Some (p, w) else drain_ends p w (p_ffd2fd1_ends p) [])"

definition pipe_add_data_from_buffer :: "pipe \<Rightarrow> pipe_world \<Rightarrow> string \<Rightarrow> (pipe \<times> pipe_world) option" where
  "pipe_add_data_from_buffer p w d =
     (if d = [] then Some (p, w)
      else case lb_add (p_buf p) d of
        None \<Rightarrow> None
      | Some b \<Rightarrow> map_option (\<lambda>(p', w', r). (p', w')) (send_buf (p\<lparr>p_buf := b\<rparr>) w))"

text \<open>The argument \<open>rd\<close> answers \<open>read(fd, p, len)\<close>.\<close>

definition pipe_add_data_from_fd :: "pipe \<Rightarrow> pipe_world \<Rightarrow> (nat \<Rightarrow> read_result) \<Rightarrow> nat \<Rightarrow> (pipe \<times> pipe_world) option" where
  "pipe_add_data_from_fd p w rd len =
     (if len = 0 then Some (p, w)
      else case lb_read rd 0 rd (p_buf p) (int len) of
        None \<Rightarrow> None
      | Some (_, b) \<Rightarrow> map_option (\<lambda>(p', w', r). (p', w')) (send_buf (p\<lparr>p_buf := b\<rparr>) w))"

section \<open>Conservation of the data\<close>

definition recs_ok :: "nat list \<Rightarrow> pipe_world \<Rightarrow> bool" where
  "recs_ok recs w \<longleftrightarrow> distinct recs \<and> (\<forall>i\<in>set recs. rec_deactivated (w_recorders w i) \<or> rec_inv (w_recorders w i)) \<and>
     (\<forall>n. w_alloc w n)"

text \<open>The bytes \<open>d\<close> went from the connection into the recorders and to the output or the buffer.\<close>

definition moved :: "nat list \<Rightarrow> int \<Rightarrow> string \<Rightarrow> pipe_world \<Rightarrow> string \<Rightarrow> pipe_world \<Rightarrow> string \<Rightarrow> bool" where
  "moved recs fd1 d w buf w' buf' \<longleftrightarrow>
     w_in w' = (w_in w)(fd1 := drop (length d) (w_in w fd1)) \<and> d = take (length d) (w_in w fd1) \<and>
     w_out w' @ buf' = w_out w @ buf @ d \<and> recorded recs d (w_recorders w) (w_recorders w') \<and>
     w_alloc w' = w_alloc w \<and> w_max_inline w' = w_max_inline w \<and> w_fd1_state w' = w_fd1_state w"

lemma rec_inv_active: "rec_inv r \<Longrightarrow> \<not> rec_deactivated r"
  by (simp add: rec_inv_def)

lemma recorded_trans:
  assumes "recorded is d R R1" "recorded is d' R1 R2"
  shows "recorded is (d @ d') R R2"
  unfolding recorded_def
proof
  fix i
  show "if i \<in> set is \<and> \<not> rec_deactivated (R i)
    then rec_inv (R2 i) \<and> rec_data (R2 i) = rec_data (R i) @ d @ d' else R2 i = R i"
    using assms(1) [unfolded recorded_def, rule_format, of i] assms(2) [unfolded recorded_def, rule_format, of i]
      rec_inv_active [of "R1 i"] by (auto split: if_splits)
qed

lemma recorded_nothing: "recs_ok recs w \<Longrightarrow> recorded recs [] (w_recorders w) (w_recorders w)"
  by (auto simp: recorded_def recs_ok_def)

lemma recs_ok_moved: "recs_ok recs w \<Longrightarrow> moved recs fd1 d w buf w' buf' \<Longrightarrow> recs_ok recs w'"
  by (auto simp: recs_ok_def moved_def recorded_def split: if_splits)

lemma moved_trans:
  assumes "moved recs fd1 d w buf w1 buf1" "moved recs fd1 d' w1 buf1 w2 buf2"
  shows "moved recs fd1 (d @ d') w buf w2 buf2"
proof -
  have "take (length d + length d') (w_in w fd1) = take (length d) (w_in w fd1) @ take (length d') (drop (length d) (w_in w fd1))"
    by (rule take_add)
  then show ?thesis
    using assms recorded_trans unfolding moved_def
    by (auto simp: fun_upd_def add.commute)
qed

lemma moved_nothing: "recs_ok recs w \<Longrightarrow> moved recs fd1 [] w buf w buf"
  using recorded_nothing by (auto simp: moved_def)

text \<open>Recording in both ways.\<close>

lemma record_pipe_moved:
  assumes "recs_ok recs w" "has_active_recorder (w_recorders w) recs" "0 < n" "n \<le> length (w_in w fd1)"
    and "record_data_from_unix_pipe (w_max_inline w) (w_alloc w) (w_recorders w) recs (w_in w fd1) n = Some (R, rest)"
  shows "recorded recs (take n (w_in w fd1)) (w_recorders w) R"
proof -
  let ?d = "take n (w_in w fd1)"
  have d: "length ?d = n" "?d \<noteq> []" "?d @ drop n (w_in w fd1) = w_in w fd1" using assms(3,4) by auto
  have "distinct recs" "\<forall>i\<in>set recs. rec_deactivated (w_recorders w i) \<or> rec_inv (w_recorders w i)" "\<forall>n. w_alloc w n"
    using assms(1) by (simp_all add: recs_ok_def)
  then obtain R' where "record_data_from_unix_pipe (w_max_inline w) (w_alloc w) (w_recorders w) recs (?d @ drop n (w_in w fd1)) (length ?d) =
      Some (R', drop n (w_in w fd1))" "recorded recs ?d (w_recorders w) R'"
    using unix_pipe_records [OF _ _ assms(2) d(2)] by blast
  then show ?thesis using assms(5) unfolding d by simp
qed

lemma record_buffer_moved:
  assumes "recs_ok recs w" "d \<noteq> []"
  shows "\<exists>R. record_data_from_buffer (w_max_inline w) (w_alloc w) (w_recorders w) recs d = Some R \<and>
    recorded recs d (w_recorders w) R"
proof -
  have "d \<noteq> [] \<and> (\<forall>n. w_alloc w n)" "distinct recs" "set recs \<inter> {} = {}"
    "\<forall>i\<in>set recs. rec_deactivated (w_recorders w i) \<or> rec_inv (w_recorders w i)"
    using assms by (simp_all add: recs_ok_def)
  from from_buffer.loop_records [OF this] show ?thesis by (simp add: recorded_def)
qed

lemma no_active_recorded:
  assumes "\<not> has_active_recorder R is"
  shows "recorded is d R R"
  using assms by (auto simp: recorded_def has_active_recorder_def list_ex_iff)

lemma splice_loop_moved:
  "splice_loop w recs fd1 = Some w' \<Longrightarrow> recs_ok recs w \<Longrightarrow> \<exists>d. moved recs fd1 d w [] w' []"
proof (induction "length (w_sys w)" arbitrary: w rule: less_induct)
  case less
  from less.prems(1) show ?case
  proof (cases rule: splice_loop_cases)
    case stop
    then show ?thesis using moved_nothing [OF less.prems(2), of fd1 "[]"]
      by (intro exI [of _ "[]"]) (simp add: moved_def same_but_io_def)
  next
    case (step n w1)
    have r: "recorded recs (take n (w_in w fd1)) (w_recorders w) (w_recorders w1)"
    proof (cases "has_active_recorder (w_recorders w) recs")
      case True
      then show ?thesis using record_pipe_moved [OF less.prems(2) True step(1,2)] step(3) by (simp add: spliced_def)
    next
      case False
      then show ?thesis using no_active_recorded [OF False] step(3) by (simp add: spliced_def)
    qed
    have l: "length (take n (w_in w fd1)) = n" using step(2) by simp
    have m: "moved recs fd1 (take n (w_in w fd1)) w [] w1 []"
      using step(3,4) r l by (simp add: moved_def spliced_def same_but_io_def)
    obtain d where "moved recs fd1 d w1 [] w' []"
      using less.hyps [OF step(5,6) recs_ok_moved [OF less.prems(2) m]] by blast
    from moved_trans [OF m this] show ?thesis by blast
  qed
qed

lemma send_moved:
  assumes "send_buf p w = Some (p', w', r)" "lb_inv (p_buf p)" "recs_ok recs w"
  shows "moved recs fd1 [] w (lb_data (p_buf p)) w' (lb_data (p_buf p')) \<and> lb_inv (p_buf p')"
  using send_buf_law [OF assms(1,2)] recorded_nothing [OF assms(3)] by (simp add: sent_law_def moved_def)

lemma buffer_empty_data: "lb_inv (p_buf p) \<Longrightarrow> buffer_empty p \<Longrightarrow> lb_data (p_buf p) = []"
  using length_lb_data [of "p_buf p"] by (simp add: buffer_empty_def)

lemma forward_round_moved:
  assumes "forward_round p w recs fd1 = Some (p', w', res)" "lb_inv (p_buf p)" "recs_ok recs w"
  shows "\<exists>d. moved recs fd1 d w (lb_data (p_buf p)) w' (lb_data (p_buf p')) \<and> lb_inv (p_buf p')"
proof -
  let ?b = "lb_data (p_buf p)"
  obtain w1 where w1: "(if buffer_empty p then splice_loop w recs fd1 else Some w) = Some w1"
    using assms(1) by (auto simp: forward_round_def split: option.splits)
  obtain d1 where m1: "moved recs fd1 d1 w ?b w1 ?b"
  proof (cases "buffer_empty p")
    case True
    then obtain d where "moved recs fd1 d w [] w1 []" using splice_loop_moved [OF _ assms(3)] w1 by auto
    then show ?thesis using that buffer_empty_data [OF assms(2) True] by simp
  next
    case False
    then show ?thesis using that [of "[]"] moved_nothing [OF assms(3)] w1 by simp
  qed
  note ok1 = recs_ok_moved [OF assms(3) m1]
  let ?in = "w_in w1 fd1"
  obtain b where b: "fd1_read (p_buf p) ?in (w_fd1_state w1 fd1) =
      Some (if ?in = [] then (if w_fd1_state w1 fd1 = Fd1_hangup then 0 else -1) else int (length ?in), b)"
    "lb_inv b" "lb_data b = ?b @ ?in"
    using fd1_read_law [OF assms(2)] by blast
  show ?thesis
  proof (cases "?in = []")
    case True
    then obtain r where "send_buf (p\<lparr>p_buf := b\<rparr>) w1 = Some (p', w', r)"
      using assms(1) w1 b(1) by (auto simp: forward_round_def Let_def split: if_splits)
    from send_moved [OF this _ ok1, of fd1] have
      "moved recs fd1 [] w1 ?b w' (lb_data (p_buf p')) \<and> lb_inv (p_buf p')" using b True by simp
    then show ?thesis using moved_trans [OF m1] by blast
  next
    case False
    define w2 where "w2 = consume w1 fd1 (length ?in)"
    have lb: "lb_length b = length ?b + length ?in" using length_lb_data [OF b(2)] b(3) by simp
    have sv: "drop (lb_length b - nat (int (length ?in))) (lb_data b) = ?in" using lb b(3) by simp
    obtain R where R: "record_data_from_buffer (w_max_inline w1) (w_alloc w1) (w_recorders w1) recs ?in = Some R"
      "recorded recs ?in (w_recorders w1) R" using record_buffer_moved [OF ok1 False] by blast
    obtain r where s: "send_buf (p\<lparr>p_buf := b\<rparr>) (w2\<lparr>w_recorders := R\<rparr>) = Some (p', w', r)"
      using assms(1) w1 b(1) False sv R(1) by (auto simp: forward_round_def Let_def w2_def consume_def)
    have m2: "moved recs fd1 ?in w1 ?b (w2\<lparr>w_recorders := R\<rparr>) (?b @ ?in)"
      using R(2) by (simp add: moved_def w2_def consume_def)
    from send_moved [OF s _ recs_ok_moved [OF ok1 m2], of fd1] have
      "moved recs fd1 [] (w2\<lparr>w_recorders := R\<rparr>) (?b @ ?in) w' (lb_data (p_buf p')) \<and> lb_inv (p_buf p')" using b by simp
    then show ?thesis using moved_trans [OF moved_trans [OF m1 m2]] by blast
  qed
qed

lemma forward_loop_moved:
  "forward_loop p w recs fd1 dr = Some (p', w', res) \<Longrightarrow> lb_inv (p_buf p) \<Longrightarrow> recs_ok recs w \<Longrightarrow>
   \<exists>d. moved recs fd1 d w (lb_data (p_buf p)) w' (lb_data (p_buf p')) \<and> lb_inv (p_buf p')"
proof (induction "length (w_in w fd1)" arbitrary: p w rule: less_induct)
  case less
  obtain p1 w1 r where r: "forward_round p w recs fd1 = Some (p1, w1, r)"
    using less.prems(1) by (subst (asm) forward_loop.simps) (auto split: option.splits)
  obtain d where m: "moved recs fd1 d w (lb_data (p_buf p)) w1 (lb_data (p_buf p1))" "lb_inv (p_buf p1)"
    using forward_round_moved [OF r less.prems(2,3)] by blast
  show ?case
  proof (cases "\<exists>s. r = Inr s \<and> dr \<and> s \<noteq> FB_PIPE_FD0_EPIPE")
    case True
    then obtain s where s: "r = Inr s" "dr" "s \<noteq> FB_PIPE_FD0_EPIPE" by blast
    then have "forward_loop p1 w1 recs fd1 dr = Some (p', w', res)"
      using less.prems(1) r by (subst (asm) forward_loop.simps) simp
    from less.hyps [OF forward_round_shorter [OF r [unfolded s(1)]] this m(2) recs_ok_moved [OF less.prems(3) m(1)]]
    show ?thesis using moved_trans [OF m(1)] by blast
  next
    case False
    then have "p' = p1" "w' = w1"
      using less.prems(1) r by (subst (asm) forward_loop.simps, auto split: sum.splits if_splits)+
    then show ?thesis using m by blast
  qed
qed

section \<open>The epoll set of a pipe\<close>

text \<open>
  What the comment of \<open>set_send_only_mode\<close> promises: in normal mode the fd1 connections are watched and
  fd0 is not, in send only mode it is the other way round.
\<close>

definition watches :: "pipe \<Rightarrow> pipe_world \<Rightarrow> bool" where
  "watches p w \<longleftrightarrow> fds_inv (w_epoll w) \<and> 0 \<le> p_fd0_conn p \<and> distinct (map fst (p_conn2fd1_ends p)) \<and>
     p_fd0_conn p \<notin> fst ` set (p_conn2fd1_ends p) \<and>
     is_added_fd (w_epoll w) (p_fd0_conn p) = Some (p_send_only_mode p) \<and>
     (\<forall>c \<in> fst ` set (p_conn2fd1_ends p). 0 \<le> c \<and> is_added_fd (w_epoll w) c = Some (\<not> p_send_only_mode p))"

lemma add_fd_law:
  assumes "fds_inv e" "0 \<le> fd" "is_added_fd e fd = Some False"
  shows "\<exists>e'. add_fd e fd c u = Some e' \<and> fds_inv e' \<and>
    (\<forall>k \<ge> 0. is_added_fd e' k = (if k = fd then Some True else is_added_fd e k))"
  using watched_fds_law(1) [OF assms(1,2,3)] by blast

lemma del_fds_law:
  "fds_inv e \<Longrightarrow> distinct fds \<Longrightarrow> \<forall>k \<in> set fds. 0 \<le> k \<and> is_added_fd e k = Some True \<Longrightarrow>
   \<exists>e'. del_fds e fds = Some e' \<and> fds_inv e' \<and>
     (\<forall>k \<ge> 0. is_added_fd e' k = (if k \<in> set fds then Some False else is_added_fd e k))"
proof (induction fds arbitrary: e)
  case (Cons fd fds)
  obtain e1 where e1: "del_fd e fd = Some e1" "fds_inv e1"
    "\<forall>k \<ge> 0. is_added_fd e1 k = (if k = fd then Some False else is_added_fd e k)"
    using watched_fds_law(2) [OF Cons.prems(1), of fd] Cons.prems(3) by auto
  have "\<forall>k \<in> set fds. 0 \<le> k \<and> is_added_fd e1 k = Some True" using Cons.prems e1(3) by auto
  from Cons.IH [OF e1(2) _ this] Cons.prems(2) obtain e2 where "del_fds e1 fds = Some e2" "fds_inv e2"
    "\<forall>k \<ge> 0. is_added_fd e2 k = (if k \<in> set fds then Some False else is_added_fd e1 k)" by auto
  then show ?case using e1 by auto
qed simp

lemma add_conns_law:
  "fds_inv e \<Longrightarrow> distinct (map fst cs) \<Longrightarrow> \<forall>k \<in> fst ` set cs. 0 \<le> k \<and> is_added_fd e k = Some False \<Longrightarrow>
   \<exists>e'. add_conns i e cs = Some (e', []) \<and> fds_inv e' \<and>
     (\<forall>k \<ge> 0. is_added_fd e' k = (if k \<in> fst ` set cs then Some True else is_added_fd e k))"
proof (induction i e cs rule: add_conns.induct)
  case (2 i e fd en cs)
  have a: "is_added_fd e fd = Some False" "0 \<le> fd" using "2.prems" by auto
  obtain e1 where e1: "add_fd e fd Pipe_fd1_read_cb (Some i) = Some e1" "fds_inv e1"
    "\<forall>k \<ge> 0. is_added_fd e1 k = (if k = fd then Some True else is_added_fd e k)"
    using add_fd_law [OF "2.prems"(1) a(2,1)] by blast
  have "\<forall>k \<in> fst ` set cs. 0 \<le> k \<and> is_added_fd e1 k = Some False" using "2.prems" e1(3) by force
  from "2.IH"(2) [OF a(1) _ e1(1,2) _ this] "2.prems"(2) obtain e2 where "add_conns i e1 cs = Some (e2, [])" "fds_inv e2"
    "\<forall>k \<ge> 0. is_added_fd e2 k = (if k \<in> fst ` set cs then Some True else is_added_fd e1 k)" by auto
  then show ?case using e1 a by auto
qed simp

lemma set_send_only_mode_law:
  assumes "watches p w"
  shows "\<exists>p' w'. set_send_only_mode p w m = Some (p', w') \<and> watches p' w' \<and> p' = p\<lparr>p_send_only_mode := m\<rparr> \<and>
    (\<exists>e. w' = w\<lparr>w_epoll := e\<rparr>)"
proof -
  let ?c = "map fst (p_conn2fd1_ends p)" and ?e = "w_epoll w" and ?fd0 = "p_fd0_conn p"
  have h: "fds_inv ?e" "0 \<le> ?fd0" "distinct ?c" "?fd0 \<notin> set ?c" "is_added_fd ?e ?fd0 = Some (p_send_only_mode p)"
    "\<forall>k \<in> set ?c. 0 \<le> k \<and> is_added_fd ?e k = Some (\<not> p_send_only_mode p)" "\<not> finished p"
    using assms by (auto simp: watches_def finished_def)
  consider (same) "m = p_send_only_mode p" | (on) m "\<not> p_send_only_mode p" | (off) "\<not> m" "p_send_only_mode p" by blast
  then show ?thesis
  proof cases
    case same
    have "set_send_only_mode p w m = Some (p\<lparr>p_send_only_mode := m\<rparr>, w\<lparr>w_epoll := ?e\<rparr>)"
      using same h(7) by (simp add: set_send_only_mode_def)
    moreover have "watches (p\<lparr>p_send_only_mode := m\<rparr>) (w\<lparr>w_epoll := ?e\<rparr>)" using same assms by simp
    ultimately show ?thesis by blast
  next
    case on
    then obtain e1 where e1: "del_fds ?e ?c = Some e1" "fds_inv e1"
      "\<forall>k \<ge> 0. is_added_fd e1 k = (if k \<in> set ?c then Some False else is_added_fd ?e k)"
      using del_fds_law [OF h(1,3)] h(6) by auto
    have f0: "is_added_fd e1 ?fd0 = Some False" using e1(3) h(2,4,5) on by auto
    obtain e2 where e2: "add_fd e1 ?fd0 Pipe_fd0_write_cb (Some (p_id p)) = Some e2" "fds_inv e2"
      "\<forall>k \<ge> 0. is_added_fd e2 k = (if k = ?fd0 then Some True else is_added_fd e1 k)"
      using add_fd_law [OF e1(2) h(2) f0] by blast
    have "set_send_only_mode p w m = Some (p\<lparr>p_send_only_mode := m\<rparr>, w\<lparr>w_epoll := e2\<rparr>)"
      using on h(7) e1(1) f0 e2(1) by (simp add: set_send_only_mode_def)
    moreover have "watches (p\<lparr>p_send_only_mode := m\<rparr>) (w\<lparr>w_epoll := e2\<rparr>)"
      using on h e1(3) e2 by (force simp: watches_def)
    ultimately show ?thesis by blast
  next
    case off
    have "\<forall>k \<in> fst ` set (p_conn2fd1_ends p). 0 \<le> k \<and> is_added_fd ?e k = Some False" using h(6) off by simp
    from add_conns_law [OF h(1,3) this] obtain e1 where e1: "add_conns (p_id p) ?e (p_conn2fd1_ends p) = Some (e1, [])" "fds_inv e1"
      "\<forall>k \<ge> 0. is_added_fd e1 k = (if k \<in> fst ` set (p_conn2fd1_ends p) then Some True else is_added_fd ?e k)" by blast
    have f0: "is_added_fd e1 ?fd0 = Some True" using e1(3) h(2,4,5) off by auto
    obtain e2 where e2: "del_fd e1 ?fd0 = Some e2" "fds_inv e2"
      "\<forall>k \<ge> 0. is_added_fd e2 k = (if k = ?fd0 then Some False else is_added_fd e1 k)"
      using watched_fds_law(2) [OF e1(2) h(2) f0] by blast
    have "set_send_only_mode p w m = Some (p\<lparr>p_send_only_mode := m\<rparr>, w\<lparr>w_epoll := e2\<rparr>)"
      using off h(7) e1(1) e2(1) by (simp add: set_send_only_mode_def)
    moreover have "watches (p\<lparr>p_send_only_mode := m\<rparr>) (w\<lparr>w_epoll := e2\<rparr>)"
      using off h e1(3) e2 by (force simp: watches_def)
    ultimately show ?thesis by blast
  qed
qed

definition writes_something :: "pipe_world \<Rightarrow> bool" where
  "writes_something w \<longleftrightarrow> Sys_ok 0 \<notin> set (w_sys w)"

lemma sys_call_writes:
  "sys_call w n = (w', r) \<Longrightarrow> writes_something w \<Longrightarrow>
   writes_something w' \<and> w_epoll w' = w_epoll w \<and> (\<forall>k. r = Inr k \<longrightarrow> 0 < n \<longrightarrow> 0 < k)"
  by (auto simp: sys_call_def writes_something_def split: list.splits sys_answer.splits)

lemma watches_upd:
  "watches (p\<lparr>p_buf := b\<rparr>) w = watches p w"
  "w_epoll w' = w_epoll w \<Longrightarrow> watches p w' = watches p w"
  by (simp_all add: watches_def)

definition runs :: "pipe \<Rightarrow> pipe_world \<Rightarrow> pipe \<Rightarrow> pipe_world \<Rightarrow> bool" where
  "runs p w p' w' \<longleftrightarrow> watches p' w' \<and> writes_something w' \<and> (\<exists>b m. p' = p\<lparr>p_buf := b, p_send_only_mode := m\<rparr>)"

lemma runs_refl: "watches p w' \<Longrightarrow> writes_something w' \<Longrightarrow> runs p w p w'"
  unfolding runs_def by (intro conjI exI [of _ "p_buf p"] exI [of _ "p_send_only_mode p"]) simp_all

lemma send_loop_total:
  "watches p w \<Longrightarrow> writes_something w \<Longrightarrow> lb_inv (p_buf p) \<Longrightarrow> \<exists>p' w' r. send_loop p w = Some (p', w', r) \<and> runs p w p' w'"
proof (induction "length (w_sys w)" arbitrary: p w rule: less_induct)
  case less
  show ?case
  proof (cases "buffer_empty p")
    case True
    have "runs p w p w" using less.prems by (intro runs_refl)
    then show ?thesis using True by (simp add: send_loop.simps [of p w])
  next
    case ne: False
    obtain w1 a where sc: "sys_call w (lb_length (p_buf p)) = (w1, a)" by fastforce
    note s1 = sys_call_writes [OF sc less.prems(2)] sys_call_same [OF sc]
    have wa: "watches p w1" using watches_upd(2) [of w1 w p] s1 less.prems(1) by simp
    show ?thesis
    proof (cases a)
      case (Inl e)
      show ?thesis
      proof (cases "e = EAGAIN")
        case True
        obtain p' w' e' where m: "set_send_only_mode p w1 True = Some (p', w')" "watches p' w'"
          "p' = p\<lparr>p_send_only_mode := True\<rparr>" "w' = w1\<lparr>w_epoll := e'\<rparr>" using set_send_only_mode_law [OF wa] by blast
        have "runs p w p' w'" unfolding runs_def using m s1
          by (intro conjI exI [of _ "p_buf p"] exI [of _ True]) (simp_all add: writes_something_def)
        then show ?thesis using ne sc Inl True m(1) by (simp add: send_loop.simps [of p w])
      next
        case False
        have "runs p w p w1" using wa s1 by (intro runs_refl) simp_all
        then show ?thesis using ne sc Inl False by (simp add: send_loop.simps [of p w])
      qed
    next
      case (Inr n)
      have n: "n \<le> lb_length (p_buf p)" "0 < n" using s1 Inr ne by (auto simp: buffer_empty_def)
      have ld: "length (lb_data (p_buf p)) = lb_length (p_buf p)" using less.prems(3) by (rule length_lb_data)
      obtain b where b: "lb_discard (p_buf p) n = Some b" "lb_inv b"
        using lb_discard_law [OF less.prems(3), of n] n ld by auto
      define p1 where "p1 = p\<lparr>p_buf := b\<rparr>"
      define w2 where "w2 = w1\<lparr>w_out := w_out w1 @ take n (lb_data (p_buf p))\<rparr>"
      define q where "q = (if buffer_empty p1 \<and> p_send_only_mode p1 then set_send_only_mode p1 w2 False else Some (p1, w2))"
      have wa2: "watches p1 w2" using wa by (simp add: p1_def w2_def watches_def)
      have "\<exists>p2 w3 m e. q = Some (p2, w3) \<and> watches p2 w3 \<and> p2 = p1\<lparr>p_send_only_mode := m\<rparr> \<and> w3 = w2\<lparr>w_epoll := e\<rparr>"
      proof (cases "buffer_empty p1 \<and> p_send_only_mode p1")
        case True
        then show ?thesis using set_send_only_mode_law [OF wa2, of False] by (auto simp: q_def)
      next
        case False
        have "p1 = p1\<lparr>p_send_only_mode := p_send_only_mode p1\<rparr>" "w2 = w2\<lparr>w_epoll := w_epoll w2\<rparr>" by simp_all
        then show ?thesis using False wa2 unfolding q_def by (metis (no_types))
      qed
      then obtain p2 w3 m e where q: "q = Some (p2, w3)" "watches p2 w3" "p2 = p1\<lparr>p_send_only_mode := m\<rparr>"
        "w3 = w2\<lparr>w_epoll := e\<rparr>" by blast
      have "send_loop p w = (case q of None \<Rightarrow> None | Some (p2, w3) \<Rightarrow> send_loop p2 w3)"
        using ne sc Inr b(1) n(2) by (simp add: send_loop.simps [of p w] Let_def p1_def w2_def q_def)
      then have eq: "send_loop p w = send_loop p2 w3" using q(1) by simp
      have sh: "length (w_sys w3) < length (w_sys w)"
        using sys_call_shorter [OF sc [unfolded Inr]] q(4) by (simp add: w2_def)
      have "writes_something w3" "lb_inv (p_buf p2)" using s1 q(3,4) b by (simp_all add: writes_something_def w2_def p1_def)
      from less.hyps [OF sh q(2) this] obtain p' w' r where r: "send_loop p2 w3 = Some (p', w', r)" "runs p2 w3 p' w'" by blast
      have "runs p w p' w'" using r(2) q(3) by (auto simp: runs_def p1_def)
      then show ?thesis using eq r by auto
    qed
  qed
qed

lemma record_pipe_total:
  assumes "recs_ok recs w" "has_active_recorder (w_recorders w) recs" "0 < n" "n \<le> length (w_in w fd1)"
  shows "record_data_from_unix_pipe (w_max_inline w) (w_alloc w) (w_recorders w) recs (w_in w fd1) n \<noteq> None"
proof -
  let ?d = "take n (w_in w fd1)"
  have d: "length ?d = n" "?d \<noteq> []" "?d @ drop n (w_in w fd1) = w_in w fd1" using assms(3,4) by auto
  have "distinct recs" "\<forall>i\<in>set recs. rec_deactivated (w_recorders w i) \<or> rec_inv (w_recorders w i)" "\<forall>n. w_alloc w n"
    using assms(1) by (simp_all add: recs_ok_def)
  from unix_pipe_records [OF this(1,2) assms(2) d(2) this(3), of "w_max_inline w" "drop n (w_in w fd1)"]
  show ?thesis unfolding d by auto
qed

lemma splice_loop_total:
  "recs_ok recs w \<Longrightarrow> writes_something w \<Longrightarrow> \<exists>w'. splice_loop w recs fd1 = Some w' \<and> writes_something w' \<and> w_epoll w' = w_epoll w"
proof (induction "length (w_sys w)" arbitrary: w rule: less_induct)
  case less
  obtain w1 a where sc: "sys_call w (length (w_in w fd1)) = (w1, a)" by fastforce
  note s1 = sys_call_writes [OF sc less.prems(2)] sys_call_same [OF sc]
  show ?case
  proof (cases "\<exists>n. a = Inr n \<and> 0 < n")
    case False
    then show ?thesis using sc s1 by (cases a) (simp_all add: splice_loop.simps [of w])
  next
    case True
    then obtain n where n: "a = Inr n" "0 < n" "n \<le> length (w_in w fd1)" using s1 by auto
    define w2 where "w2 = w1\<lparr>w_out := w_out w1 @ take n (w_in w1 fd1)\<rparr>"
    have f2: "w_in w2 = w_in w" "w_recorders w2 = w_recorders w" "w_alloc w2 = w_alloc w" "w_max_inline w2 = w_max_inline w"
      "w_epoll w2 = w_epoll w" "writes_something w2"
      using s1 by (simp_all add: w2_def same_but_io_def writes_something_def)
    have sh: "length (w_sys w2) < length (w_sys w)" using sys_call_shorter sc n(1) by (simp add: w2_def)
    have ok2: "recs_ok recs w2" using less.prems(1) f2 by (simp add: recs_ok_def)
    show ?thesis
    proof (cases "has_active_recorder (w_recorders w2) recs")
      case True
      then obtain R rest where R: "record_data_from_unix_pipe (w_max_inline w2) (w_alloc w2) (w_recorders w2) recs (w_in w2 fd1) n = Some (R, rest)"
        using record_pipe_total [OF ok2 True n(2), of fd1] n(3) f2 by auto
      let ?w3 = "w2\<lparr>w_recorders := R, w_in := (w_in w2)(fd1 := rest)\<rparr>"
      have "recorded recs (take n (w_in w2 fd1)) (w_recorders w2) R"
        using record_pipe_moved [OF ok2 True n(2) _ R] n(3) f2 by simp
      then have ok3: "recs_ok recs ?w3" using ok2 by (auto simp: recs_ok_def recorded_def split: if_splits)
      have "writes_something ?w3" "length (w_sys ?w3) < length (w_sys w)" using f2(6) sh by (simp_all add: writes_something_def)
      from less.hyps [OF this(2) ok3 this(1)] show ?thesis
        using sc n(1,2) True R f2(5) by (auto simp: splice_loop.simps [of w] w2_def [symmetric] Let_def)
    next
      case False
      let ?w3 = "consume w2 fd1 n"
      have "writes_something ?w3" "length (w_sys ?w3) < length (w_sys w)" "recs_ok recs ?w3"
        using f2(6) sh ok2 by (simp_all add: writes_something_def consume_def recs_ok_def)
      from less.hyps [OF this(2) this(3) this(1)] show ?thesis
        using sc n(1,2) False f2(5) by (auto simp: splice_loop.simps [of w] w2_def [symmetric] Let_def consume_def)
    qed
  qed
qed

lemma runs_trans: "runs (p\<lparr>p_buf := b\<rparr>) w p' w' \<Longrightarrow> runs p w0 p' w'"
  by (auto simp: runs_def)

lemma runs_trans':
  assumes "runs p w p1 w1" "runs p1 w1 p2 w2"
  shows "runs p w p2 w2"
proof -
  obtain b m c n where "p1 = p\<lparr>p_buf := b, p_send_only_mode := m\<rparr>" "p2 = p1\<lparr>p_buf := c, p_send_only_mode := n\<rparr>"
    using assms by (auto simp: runs_def)
  then have "p2 = p\<lparr>p_buf := c, p_send_only_mode := n\<rparr>" by simp
  then show ?thesis using assms(2) unfolding runs_def by blast
qed

lemma send_buf_total:
  assumes "watches p w" "writes_something w" "lb_inv (p_buf p)"
  shows "\<exists>p' w' r. send_buf p w = Some (p', w', r) \<and> runs p w p' w'"
proof -
  have "\<not> finished p" using assms(1) by (auto simp: watches_def finished_def)
  then show ?thesis using send_loop_total [OF assms] by (simp add: send_buf_def)
qed

lemma forward_round_total:
  assumes "watches p w" "writes_something w" "lb_inv (p_buf p)" "recs_ok recs w"
  shows "\<exists>p' w' r. forward_round p w recs fd1 = Some (p', w', r) \<and> runs p w p' w'"
proof -
  obtain w1 where w1: "(if buffer_empty p then splice_loop w recs fd1 else Some w) = Some w1"
    "writes_something w1" "w_epoll w1 = w_epoll w" "recs_ok recs w1"
  proof (cases "buffer_empty p")
    case True
    obtain w1 where "splice_loop w recs fd1 = Some w1" "writes_something w1" "w_epoll w1 = w_epoll w"
      using splice_loop_total [OF assms(4,2)] by blast
    moreover from splice_loop_moved [OF this(1) assms(4)] have "recs_ok recs w1" using recs_ok_moved [OF assms(4)] by blast
    ultimately show ?thesis using that [of w1] True by simp
  next
    case False
    then show ?thesis using that [of w] assms by simp
  qed
  let ?in = "w_in w1 fd1"
  obtain b where b: "fd1_read (p_buf p) ?in (w_fd1_state w1 fd1) =
      Some (if ?in = [] then (if w_fd1_state w1 fd1 = Fd1_hangup then 0 else -1) else int (length ?in), b)"
    "lb_inv b" "lb_data b = lb_data (p_buf p) @ ?in"
    using fd1_read_law [OF assms(3)] by blast
  define p1 where "p1 = p\<lparr>p_buf := b\<rparr>"
  have wt: "watches p1 w'" if "w_epoll w' = w_epoll w" for w'
    using assms(1) that by (simp add: watches_def p1_def)
  have i1: "lb_inv (p_buf p1)" using b by (simp add: p1_def)
  show ?thesis
  proof (cases "?in = []")
    case True
    obtain p' w' r where s: "send_buf p1 w1 = Some (p', w', r)" "runs p1 w1 p' w'"
      using send_buf_total [OF wt [OF w1(3)] w1(2) i1] by blast
    have "runs p w p' w'" using runs_trans s(2) unfolding p1_def by blast
    then show ?thesis using True w1(1) b(1) s(1) by (auto simp: forward_round_def Let_def p1_def)
  next
    case False
    have lb: "lb_length b = length (lb_data (p_buf p)) + length ?in" using length_lb_data [OF b(2)] b(3) by simp
    have sv: "drop (lb_length b - nat (int (length ?in))) (lb_data b) = ?in" using lb b(3) by simp
    obtain R where R: "record_data_from_buffer (w_max_inline w1) (w_alloc w1) (w_recorders w1) recs ?in = Some R"
      using record_buffer_moved [OF w1(4) False] by blast
    let ?w2 = "(consume w1 fd1 (length ?in))\<lparr>w_recorders := R\<rparr>"
    have "w_epoll ?w2 = w_epoll w" "writes_something ?w2" using w1 by (simp_all add: consume_def writes_something_def)
    from send_buf_total [OF wt [OF this(1)] this(2) i1] obtain p' w' r where
      s: "send_buf p1 ?w2 = Some (p', w', r)" "runs p1 ?w2 p' w'" by blast
    have "runs p w p' w'" using runs_trans s(2) unfolding p1_def by blast
    moreover have "forward_round p w recs fd1 = Some (p', w', Inr r)"
      using w1(1) b(1) False sv R s(1) by (simp add: forward_round_def Let_def p1_def consume_def)
    ultimately show ?thesis by blast
  qed
qed

lemma forward_loop_total:
  "watches p w \<Longrightarrow> writes_something w \<Longrightarrow> lb_inv (p_buf p) \<Longrightarrow> recs_ok recs w \<Longrightarrow> p_conn2fd1_ends p \<noteq> [] \<Longrightarrow>
   \<exists>p' w' r. forward_loop p w recs fd1 dr = Some (p', w', r) \<and> runs p w p' w'"
proof (induction "length (w_in w fd1)" arbitrary: p w rule: less_induct)
  case less
  obtain p1 w1 r where r: "forward_round p w recs fd1 = Some (p1, w1, r)" "runs p w p1 w1"
    using forward_round_total [OF less.prems(1-4)] by blast
  obtain d where m: "moved recs fd1 d w (lb_data (p_buf p)) w1 (lb_data (p_buf p1))" "lb_inv (p_buf p1)"
    using forward_round_moved [OF r(1) less.prems(3,4)] by blast
  have c1: "p_conn2fd1_ends p1 \<noteq> []" "watches p1 w1" "writes_something w1"
    using r(2) less.prems(5) by (auto simp: runs_def)
  show ?case
  proof (cases "\<exists>s. r = Inr s \<and> dr \<and> s \<noteq> FB_PIPE_FD0_EPIPE")
    case True
    then obtain s where s: "r = Inr s" "dr" "s \<noteq> FB_PIPE_FD0_EPIPE" by blast
    then have eq: "forward_loop p w recs fd1 dr = forward_loop p1 w1 recs fd1 dr"
      using r(1) by (simp add: forward_loop.simps [of p])
    from less.hyps [OF forward_round_shorter [OF r(1) [unfolded s(1)]] c1(2,3) m(2) recs_ok_moved [OF less.prems(4) m(1)] c1(1)]
    show ?thesis unfolding eq using runs_trans' [OF r(2)] by blast
  next
    case False
    then show ?thesis using r c1(1) by (cases r) (auto simp: forward_loop.simps [of p])
  qed
qed

section \<open>Properties\<close>

definition pipe_ok :: "pipe \<Rightarrow> pipe_world \<Rightarrow> int \<Rightarrow> bool" where
  "pipe_ok p w fd1 \<longleftrightarrow> watches p w \<and> writes_something w \<and> lb_inv (p_buf p) \<and>
     (\<exists>en. map_of (p_conn2fd1_ends p) fd1 = Some en \<and> recs_ok (pe_recorders (p_ends p en)) w)"

text \<open>
  C10: forwarding a pipe end, draining it or not, runs through without failing an assertion and keeps
  the right descriptors watched, whatever the kernel answers; and no byte is lost, duplicated or
  reordered on the way: what was written to fd0 followed by what is buffered is extended by exactly the bytes
  that were taken from the connection, and exactly these are appended by every active recorder of the end.
\<close>

theorem forward_correct:
  assumes "pipe_ok p w fd1" "map_of (p_conn2fd1_ends p) fd1 = Some en"
  shows "\<exists>p' w' r d. forward p w fd1 dr = Some (p', w', r) \<and> watches p' w' \<and>
    w_in w fd1 = d @ w_in w' fd1 \<and> w_out w' @ lb_data (p_buf p') = w_out w @ lb_data (p_buf p) @ d \<and>
    recorded (pe_recorders (p_ends p en)) d (w_recorders w) (w_recorders w')"
proof -
  let ?recs = "pe_recorders (p_ends p en)"
  have h: "watches p w" "writes_something w" "lb_inv (p_buf p)" "recs_ok ?recs w" "p_conn2fd1_ends p \<noteq> []"
    using assms by (auto simp: pipe_ok_def)
  obtain p' w' r where f: "forward_loop p w ?recs fd1 dr = Some (p', w', r)" "runs p w p' w'"
    using forward_loop_total [OF h] by blast
  obtain d where m: "moved ?recs fd1 d w (lb_data (p_buf p)) w' (lb_data (p_buf p'))"
    using forward_loop_moved [OF f(1) h(3,4)] by blast
  have "\<not> finished p" using h(1) by (auto simp: watches_def finished_def)
  then have e: "forward p w fd1 dr = Some (p', w', r)" using assms(2) f(1) by (simp add: forward_def)
  have "watches p' w'" using f(2) by (simp add: runs_def)
  moreover have "w_in w fd1 = d @ w_in w' fd1" using m unfolding moved_def by (metis append_take_drop_id fun_upd_same)
  ultimately show ?thesis using e m unfolding moved_def by blast
qed

definition demo_pipe :: pipe where
  "demo_pipe = (new_pipe 0 3)\<lparr>p_conn2fd1_ends := [(5, 0)], p_ffd2fd1_ends := [(7, 0)],
     p_ends := (\<lambda>_. \<lparr>pe_fd = 5, pe_file_fds = [7], pe_recorders = [0]\<rparr>)\<rparr>"

definition demo_epoll :: "(pipe_callback, nat) epoll" where
  "demo_epoll = epoll_init\<lparr>ep_fds := 1, ep_fd_contexts := [empty_context, empty_context, empty_context, empty_context,
     empty_context, \<lparr>ctx_callback = Some Pipe_fd1_read_cb, ctx_user_data = Some 0\<rparr>]\<rparr>"

definition demo_world :: pipe_world where
  "demo_world = \<lparr>w_epoll = demo_epoll, w_recorders = (\<lambda>_. new_recorder), w_max_inline = 4, w_alloc = (\<lambda>_. True),
     w_in = (\<lambda>_. ''hello''), w_fd1_state = (\<lambda>_. Fd1_open), w_out = [], w_sys = [Sys_ok 2, Sys_err 4, Sys_ok 1],
     w_dups = [], w_now = 0, w_closed = []\<rparr>"

lemma demo_ok: "pipe_ok demo_pipe demo_world 5"
  using new_recorder_law lbq.init_law
  by (simp add: pipe_ok_def watches_def demo_pipe_def demo_world_def demo_epoll_def epoll_init_def new_pipe_def
      fds_inv_def is_added_fd_def empty_context_def writes_something_def recs_ok_def)

theorem forward_correct_witness:
  "\<exists>p' w' r d. forward demo_pipe demo_world 5 True = Some (p', w', r) \<and> ''hello'' = d @ w_in w' 5 \<and>
     w_out w' @ lb_data (p_buf p') = d \<and> rec_data (w_recorders w' 0) = d"
proof -
  have "map_of (p_conn2fd1_ends demo_pipe) 5 = Some 0" by (simp add: demo_pipe_def)
  from forward_correct [OF demo_ok this, of True] obtain p' w' r d where
    f: "forward demo_pipe demo_world 5 True = Some (p', w', r)" "w_in demo_world 5 = d @ w_in w' 5"
      "w_out w' @ lb_data (p_buf p') = w_out demo_world @ lb_data (p_buf demo_pipe) @ d"
      "recorded (pe_recorders (p_ends demo_pipe 0)) d (w_recorders demo_world) (w_recorders w')" by blast
  have "w_out demo_world @ lb_data (p_buf demo_pipe) = []" "w_in demo_world 5 = ''hello''"
    using lbq.init_law by (simp_all add: demo_world_def demo_pipe_def new_pipe_def)
  moreover have "rec_data (w_recorders w' 0) = d"
    using f(4) [unfolded recorded_def, rule_format, of 0] new_recorder_law
    by (simp add: demo_pipe_def demo_world_def new_recorder_def)
  ultimately show ?thesis using f by (intro exI [of _ p'] exI [of _ w'] exI [of _ r] exI [of _ d]) simp
qed

text \<open>
  When a connection is moved to another descriptor while the pipe leaves send only mode, its pipe
  end still names the old one, so that draining the end looks up a connection that is not there.
\<close>

theorem remap_leaves_stale_fd:
  assumes "\<not> finished p" "remap_conns p w [(fd, en)] = Some (p', w')" "distinct (map fst (p_conn2fd1_ends p))"
    and "p_ffd2fd1_ends p = [(ffd, en)]" "pe_fd (p_ends p en) = fd" "next_dup w \<noteq> fd"
  shows "drain_fd1_end p' w'' ffd = None"
proof -
  obtain w1 new e where r: "remap w fd = Some (w1, new)"
    "p' = p\<lparr>p_conn2fd1_ends := (new, en) # erase_key new (erase_key fd (p_conn2fd1_ends p))\<rparr>"
    using assms(2) by (auto split: option.splits)
  have "new = next_dup w \<or> new = -1" using r(1)
    by (auto simp: remap_def remap_to_not_added_fd_def split: option.splits if_splits bool.splits)
  moreover have "is_added_fd (w_epoll w) fd = Some True"
    using r(1) by (auto simp: remap_def remap_to_not_added_fd_def split: option.splits if_splits)
  then have "fd \<ge> 0" by (auto simp: is_added_fd_def split: if_splits)
  ultimately have "new \<noteq> fd" using assms(6) by auto
  then have "map_of (p_conn2fd1_ends p') fd = None"
    using r(2) by (auto simp: erase_key_def map_of_eq_None_iff)
  then show ?thesis using assms(1,4,5) r(2)
    by (simp add: drain_fd1_end_def get_fd1_end_def forward_def finished_def)
qed

theorem remap_leaves_stale_fd_witness:
  "\<exists>p' w'. remap_conns demo_pipe (demo_world\<lparr>w_dups := [9]\<rparr>) [(5, 0)] = Some (p', w') \<and> drain_fd1_end p' w' 7 = None"
proof -
  let ?w = "demo_world\<lparr>w_dups := [9]\<rparr>"
  have "remap_conns demo_pipe ?w [(5, 0)] \<noteq> None"
    by (simp add: demo_pipe_def demo_world_def demo_epoll_def epoll_init_def remap_def next_dup_def new_pipe_def
        remap_to_not_added_fd_def is_added_fd_def add_fd_def ensure_room_fd_def empty_context_def Let_def)
  then obtain p' w' where r: "remap_conns demo_pipe ?w [(5, 0)] = Some (p', w')" by auto
  have "\<not> finished demo_pipe" "distinct (map fst (p_conn2fd1_ends demo_pipe))" "p_ffd2fd1_ends demo_pipe = [(7, 0)]"
    "pe_fd (p_ends demo_pipe 0) = 5" "next_dup ?w \<noteq> 5"
    by (simp_all add: demo_pipe_def new_pipe_def finished_def next_dup_def)
  from remap_leaves_stale_fd [OF this(1) r this(2-5)] r show ?thesis by blast
qed

end
