(* ===== verification/FB_Process.thy ===== *)
theory FB_Process
  imports FB_Register FB_Pipe "HOL-Library.Monad_Syntax"
begin

text \<open>
  \<^verbatim>\<open>src/firebuild/process.cc\<close>, \<^verbatim>\<open>process.h\<close>, \<^verbatim>\<open>file_fd.h\<close> and \<^verbatim>\<open>file_fd.cc\<close>: the file descriptor tables of
  the intercepted processes and the handlers of the messages of the interceptor.

  A \<open>Process*\<close>, a \<open>FileOFD*\<close> and a \<open>Pipe*\<close> are indices into the lists of the supervisor's state
  \<open>sup\<close>; a \<open>FileFD\<close> lives in one slot of one table, so a slot holds it by value, with a number that
  stands for its address.  A \<open>FileOFD\<close> and a side of a \<open>Pipe\<close> are destroyed when no slot of any table
  refers to them any more; the destructors run where the code drops the last reference.  A handler
  returns the new state and the code's return value; \<open>None\<close> is a failed assertion or an access out of
  bounds.  Reasons are given without the details the code appends to them.  Branches compiled on
  macOS only are left out.
\<close>

section \<open>State\<close>

record file_ofd =
  ofd_type :: fd_type
  ofd_filename :: "string option"
  ofd_flags :: "32 word"
  ofd_opened_by :: "nat option"

record file_fd =
  ffd_id :: nat
  ffd_ofd :: nat
  ffd_pipe :: "nat option"
  ffd_cloexec :: bool
  ffd_close_on_popen :: bool

type_synonym fd_table = "file_fd option list"

datatype process_state = FB_PROC_RUNNING | FB_PROC_TERMINATED | FB_PROC_FINALIZED

datatype launch_type = LAUNCH_TYPE_SYSTEM | LAUNCH_TYPE_POPEN | LAUNCH_TYPE_POSIX_SPAWN | LAUNCH_TYPE_OTHER

text \<open>\<open>ExecedProcessEnv\<close>, \<open>pending_popen_t\<close> and what a \<open>ForkedProcess\<close> has beside a \<open>Process\<close>.\<close>

record expected_child =
  ec_argv :: "string list"
  ec_launch_type :: launch_type
  ec_type_flags :: "32 word"
  ec_fds :: fd_table

record pending_popen =
  pp_type_flags :: "32 word"
  pp_child :: "nat option"
  pp_child_conn :: int
  pp_parent_conn :: int
  pp_ack_num :: int
  pp_fd :: int

record fork_info =
  fk_exit_status :: int
  fk_ack_id :: int
  fk_ack_fd :: int
  fk_been_waited_for :: bool
  fk_orphan :: bool
  fk_has_orphan_descendant :: bool

text \<open>
  A \<open>ForkedProcess\<close> has a \<open>pr_fork\<close>, an \<open>ExecedProcess\<close> has none.  The root of the process tree has no
  exec point, and its field \<open>pr_exec_point\<close> means nothing (\<open>exec_point_opt\<close> below).
\<close>

record process =
  pr_pid :: int
  pr_parent :: "nat option"
  pr_exec_point :: nat
  pr_fork_point :: "nat option"
  pr_fork :: "fork_info option"
  pr_state :: process_state
  pr_wd :: string
  pr_umask :: mode_t
  pr_fds :: fd_table
  pr_fork_children :: "nat list"
  pr_exec_child :: "nat option"
  pr_system_child :: "nat option"
  pr_popen_children :: "int \<Rightarrow> nat option"
  pr_expected_child :: "expected_child option"
  pr_exec_pending :: bool
  pr_posix_spawn_pending :: bool
  pr_has_pending_popen :: bool
  pr_mtime_to_file :: "(int \<times> int) \<Rightarrow> string option"
  pr_pending_pipe :: "(int \<times> int \<times> 32 word) option"
  pr_pending_popen :: "pending_popen option"

text \<open>What an \<open>ExecedProcess\<close> has beside its node in the tree.\<close>

record exec_info =
  xi_proc :: nat
  xi_args :: "string list"
  xi_executable :: string
  xi_jobserver_fd_r :: int
  xi_jobserver_fd_w :: int
  xi_wds :: "string list"
  xi_failed_wds :: "string list"
  xi_created_pipes :: "nat list"
  xi_utime_u :: int
  xi_stime_u :: int
  xi_children_cpu_time_u :: int
  xi_shortcut_cpu_time_ms :: int
  xi_was_shortcut :: bool
  xi_qemu_user_used :: bool

record fork_child_sock =
  fcs_sock :: int
  fcs_child_pid :: int
  fcs_ack_num :: int

text \<open>
  The state of the supervisor; \<open>s_pid2proc\<close> and the three tables after it are those of \<open>ProcessTree\<close>,
  \<open>s_stored\<close> and \<open>s_gc_queue\<close> the processes that were given to the cacher and queued for deletion, \<open>s_kills\<close>
  the pids that were sent a \<open>SIGTERM\<close>.
\<close>

record sup =
  s_x :: exec_state
  s_execs :: "exec_info list"
  s_ofds :: "file_ofd list"
  s_procs :: "process list"
  s_pipes :: "pipe list"
  s_world :: pipe_world
  s_next_ffd :: nat
  s_acks :: "(int \<times> int) list"
  s_pipe_created :: "(int \<times> (int + int \<times> int)) list"
  s_lstat :: "string \<Rightarrow> stat64 option"
  s_quirk_ignore_statfs :: bool
  s_quirk_lto_wrapper :: bool
  s_min_cpu_time_u :: int
  s_qemu_user :: "string option"
  s_pid2proc :: "int \<Rightarrow> nat option"
  s_fork_child_socks :: "int \<Rightarrow> fork_child_sock option"
  s_parent_acks :: "int \<Rightarrow> (int \<times> int) option"
  s_exec_child_socks :: "int \<Rightarrow> (int \<times> nat) option"
  s_posix_spawn_child_socks :: "int \<Rightarrow> (int \<times> nat) option"
  s_stored :: "nat list"
  s_gc_queue :: "nat list"
  s_kills :: "int list"

abbreviation O_CLOEXEC :: "32 word" where "O_CLOEXEC \<equiv> 0x80000"
abbreviation O_DIRECTORY :: "32 word" where "O_DIRECTORY \<equiv> 0x10000"
abbreviation O_NOCTTY :: "32 word" where "O_NOCTTY \<equiv> 0x100"
abbreviation O_NOFOLLOW :: "32 word" where "O_NOFOLLOW \<equiv> 0x20000"
abbreviation O_NONBLOCK :: "32 word" where "O_NONBLOCK \<equiv> 0x800"
abbreviation O_TMPFILE :: "32 word" where "O_TMPFILE \<equiv> 0x410000"
abbreviation AT_EMPTY_PATH :: "32 word" where "AT_EMPTY_PATH \<equiv> 0x1000"
abbreviation AT_REMOVEDIR :: "32 word" where "AT_REMOVEDIR \<equiv> 0x200"
abbreviation CLOSE_RANGE_CLOEXEC :: "32 word" where "CLOSE_RANGE_CLOEXEC \<equiv> 0x4"
abbreviation AT_FDCWD :: int where "AT_FDCWD \<equiv> -100"
abbreviation EINTR :: int where "EINTR \<equiv> 4"
abbreviation EIO :: int where "EIO \<equiv> 5"
abbreviation EBADF :: int where "EBADF \<equiv> 9"
abbreviation EBUSY :: int where "EBUSY \<equiv> 16"
abbreviation ENFILE :: int where "ENFILE \<equiv> 23"
abbreviation ENAMETOOLONG :: int where "ENAMETOOLONG \<equiv> 36"

definition FILE_CREATION_FLAGS :: "32 word" where
  "FILE_CREATION_FLAGS = O_CLOEXEC OR O_CREAT OR O_DIRECTORY OR O_EXCL OR O_NOCTTY OR O_NOFOLLOW OR O_TRUNC"

section \<open>Access\<close>

definition proc :: "sup \<Rightarrow> nat \<Rightarrow> process" where
  "proc s p = s_procs s ! p"

definition set_proc :: "nat \<Rightarrow> process \<Rightarrow> sup \<Rightarrow> sup" where
  "set_proc p x s = s\<lparr>s_procs := (s_procs s)[p := x]\<rparr>"

definition exec_point :: "sup \<Rightarrow> nat \<Rightarrow> nat" where
  "exec_point s p = pr_exec_point (proc s p)"

text \<open>\<open>exec_point()\<close> where the code compares it with null: the root of the tree has none.\<close>

definition exec_point_opt :: "sup \<Rightarrow> nat \<Rightarrow> nat option" where
  "exec_point_opt s p =
     (if pr_parent (proc s p) = None \<and> pr_fork (proc s p) \<noteq> None then None else Some (exec_point s p))"

definition ofd_of :: "sup \<Rightarrow> file_fd \<Rightarrow> file_ofd" where
  "ofd_of s f = s_ofds s ! ffd_ofd f"

definition get_fd :: "sup \<Rightarrow> nat \<Rightarrow> int \<Rightarrow> file_fd option" where
  "get_fd s p fd =
     (if fd < 0 \<or> fd \<ge> int (length (pr_fds (proc s p))) then None else pr_fds (proc s p) ! nat fd)"

definition set_slot :: "nat \<Rightarrow> int \<Rightarrow> file_fd option \<Rightarrow> sup \<Rightarrow> sup" where
  "set_slot p fd f s = set_proc p ((proc s p)\<lparr>pr_fds := (pr_fds (proc s p))[nat fd := f]\<rparr>) s"

definition disable :: "sup \<Rightarrow> nat \<Rightarrow> string \<Rightarrow> sup" where
  "disable s p reason = s\<lparr>s_x := disable_shortcutting_bubble_up (s_x s) (exec_point s p) reason\<rparr>"

definition disable_to_excl :: "sup \<Rightarrow> nat \<Rightarrow> nat option \<Rightarrow> string \<Rightarrow> sup" where
  "disable_to_excl s p stop reason =
     s\<lparr>s_x := disable_shortcutting_bubble_up_to_excl (s_x s) (exec_point s p) stop reason None None\<rparr>"

definition ack_msg :: "sup \<Rightarrow> int \<Rightarrow> int \<Rightarrow> sup" where
  "ack_msg s fd_conn ack_num = s\<lparr>s_acks := s_acks s @ [(fd_conn, ack_num)]\<rparr>"

definition maybe_ack :: "sup \<Rightarrow> int \<Rightarrow> int \<Rightarrow> sup" where
  "maybe_ack s fd_conn ack_num = (if ack_num \<noteq> 0 then ack_msg s fd_conn ack_num else s)"

text \<open>The recurring steps: register a usage at the exec point \<open>i\<close>, and disable shortcutting if that fails.\<close>

definition register_at :: "sup \<Rightarrow> nat \<Rightarrow> string \<Rightarrow> file_usage_update \<Rightarrow> sup \<times> bool" where
  "register_at s i name u =
     (case register_file_usage_update (s_x s) i name u of (x, ok) \<Rightarrow> (s\<lparr>s_x := x\<rparr>, ok))"

definition register_or_disable :: "sup \<Rightarrow> nat \<Rightarrow> string \<Rightarrow> file_usage_update \<Rightarrow> string \<Rightarrow> sup \<times> int" where
  "register_or_disable s p name u reason =
     (case register_at s (exec_point s p) name u of
        (s1, True) \<Rightarrow> (s1, 0)
      | (s1, False) \<Rightarrow> (disable s1 p reason, -1))"

definition env :: "sup \<Rightarrow> fb_env" where
  "env s = env_of (s_x s)"

definition open_params :: "sup \<Rightarrow> string \<Rightarrow> 32 word \<Rightarrow> mode_t \<Rightarrow> int \<Rightarrow> bool \<Rightarrow> (sup \<times> file_usage_update) option" where
  "open_params s name flags mode err tmp =
     map_option (\<lambda>(db, u). (s\<lparr>s_x := (s_x s)\<lparr>x_cache := db\<rparr>\<rparr>, u))
       (get_from_open_params (env s) (x_cache (s_x s)) name flags mode err tmp)"

section \<open>Open file descriptions and file descriptors\<close>

definition writable_name :: "file_ofd \<Rightarrow> string option" where
  "writable_name d = (if is_write (ofd_flags d) then ofd_filename d else None)"

text \<open>\<open>FileOFD::FileOFD\<close>; the process that opened a named file is never null there.\<close>

definition new_ofd :: "sup \<Rightarrow> fd_type \<Rightarrow> string option \<Rightarrow> 32 word \<Rightarrow> nat \<Rightarrow> sup \<times> nat" where
  "new_ofd s t filename flags opened_by =
     (let d = \<lparr>ofd_type = t, ofd_filename = filename, ofd_flags = flags AND NOT FILE_CREATION_FLAGS,
               ofd_opened_by = Some opened_by\<rparr>
      in (s\<lparr>s_ofds := s_ofds s @ [d],
            s_x := (case writable_name d of
                      Some name \<Rightarrow> open_for_writing (s_x s) name (exec_point s opened_by)
                    | None \<Rightarrow> s_x s)\<rparr>, length (s_ofds s)))"

text \<open>All file descriptors: those of the processes and those kept for an expected child.\<close>

definition table_slots :: "fd_table \<Rightarrow> file_fd list" where
  "table_slots fds = concat (map (\<lambda>o'. case o' of Some f \<Rightarrow> [f] | None \<Rightarrow> []) fds)"

definition proc_slots :: "process \<Rightarrow> file_fd list" where
  "proc_slots x = table_slots (pr_fds x) @
     (case pr_expected_child x of Some e \<Rightarrow> table_slots (ec_fds e) | None \<Rightarrow> [])"

definition slots :: "sup \<Rightarrow> file_fd list" where
  "slots s = concat (map proc_slots (s_procs s))"

definition ofd_held :: "sup \<Rightarrow> nat \<Rightarrow> bool" where
  "ofd_held s k = list_ex (\<lambda>f. ffd_ofd f = k) (slots s)"

text \<open>\<open>FileOFD::~FileOFD\<close>, run when the reference of a file descriptor that is gone was the last.\<close>

definition unref_ofd :: "sup \<Rightarrow> nat \<Rightarrow> sup" where
  "unref_ofd s k =
     (if ofd_held s k then s
      else case writable_name (s_ofds s ! k) of
        Some name \<Rightarrow> s\<lparr>s_x := close_for_writing (s_x s) name\<rparr>
      | None \<Rightarrow> s)"

text \<open>The kinds of \<open>FileFD\<close> constructors.\<close>

definition new_ffd :: "sup \<Rightarrow> nat \<Rightarrow> nat option \<Rightarrow> bool \<Rightarrow> bool \<Rightarrow> sup \<times> file_fd" where
  "new_ffd s k pipe cloexec close_on_popen =
     (s\<lparr>s_next_ffd := s_next_ffd s + 1\<rparr>,
      \<lparr>ffd_id = s_next_ffd s, ffd_ofd = k, ffd_pipe = pipe, ffd_cloexec = cloexec,
        ffd_close_on_popen = close_on_popen\<rparr>)"

definition FileFD_typed :: "sup \<Rightarrow> 32 word \<Rightarrow> fd_type \<Rightarrow> nat \<Rightarrow> sup \<times> file_fd" where
  "FileFD_typed s flags t opened_by =
     (case new_ofd s t None flags opened_by of
        (s1, k) \<Rightarrow> new_ffd s1 k None (has_flag flags O_CLOEXEC) False)"

definition FileFD_piped :: "sup \<Rightarrow> 32 word \<Rightarrow> nat \<Rightarrow> nat \<Rightarrow> bool \<Rightarrow> sup \<times> file_fd" where
  "FileFD_piped s flags pipe opened_by close_on_popen =
     (case new_ofd s (if is_write flags then FD_PIPE_OUT else FD_PIPE_IN) None flags opened_by of
        (s1, k) \<Rightarrow> new_ffd s1 k (Some pipe) (has_flag flags O_CLOEXEC) close_on_popen)"

definition FileFD_named :: "sup \<Rightarrow> string \<Rightarrow> 32 word \<Rightarrow> nat \<Rightarrow> sup \<times> file_fd" where
  "FileFD_named s filename flags opened_by =
     (case new_ofd s (if in_ignore_location (x_locs (s_x s)) filename then FD_IGNORED else FD_FILE)
             (Some filename) flags opened_by of
        (s1, k) \<Rightarrow> new_ffd s1 k None (has_flag flags O_CLOEXEC) False)"

definition FileFD_dup :: "sup \<Rightarrow> file_fd \<Rightarrow> bool \<Rightarrow> sup \<times> file_fd" where
  "FileFD_dup s src cloexec =
     (case new_ffd s (ffd_ofd src) (ffd_pipe src) cloexec False of
        (s1, f) \<Rightarrow>
          (case ffd_pipe src of
             Some k \<Rightarrow> s1\<lparr>s_pipes := (s_pipes s1)[k := pipe_handle_dup (s_pipes s1 ! k) (ffd_id src) (ffd_id f)]\<rparr>
           | None \<Rightarrow> s1, f))"

definition fdcmp :: "file_fd \<Rightarrow> file_fd \<Rightarrow> int" where
  "fdcmp a b = (if ffd_ofd a < ffd_ofd b then -1 else if ffd_ofd a = ffd_ofd b then 0 else 1)"

section \<open>Pipes of file descriptors\<close>

text \<open>
  \<open>disable_shortcutting_only_this\<close> deactivates the recorders of a process, which the pipes see at
  their next operation.
\<close>

definition world :: "sup \<Rightarrow> pipe_world" where
  "world s = (s_world s)\<lparr>w_recorders :=
     (\<lambda>r. if x_recorders (s_x s) r then w_recorders (s_world s) r
          else (w_recorders (s_world s) r)\<lparr>rec_file := None, rec_mem := None, rec_deactivated := True\<rparr>)\<rparr>"

definition with_pipe :: "sup \<Rightarrow> nat \<Rightarrow> (pipe \<Rightarrow> pipe_world \<Rightarrow> (pipe \<times> pipe_world) option) \<Rightarrow> sup option" where
  "with_pipe s k f =
     map_option (\<lambda>(q, w). s\<lparr>s_pipes := (s_pipes s)[k := q], s_world := w\<rparr>) (f (s_pipes s ! k) (world s))"

definition is_fd1_side :: "sup \<Rightarrow> file_fd \<Rightarrow> bool" where
  "is_fd1_side s f \<longleftrightarrow> ofd_type (ofd_of s f) = FD_PIPE_OUT"

definition pipe_side_held :: "sup \<Rightarrow> nat \<Rightarrow> bool \<Rightarrow> bool" where
  "pipe_side_held s k side = list_ex (\<lambda>f. ffd_pipe f = Some k \<and> is_fd1_side s f = side) (slots s)"

text \<open>A reference of \<open>f\<close> to its pipe is gone; the last one of a side runs its deleter.\<close>

definition unref_pipe :: "sup \<Rightarrow> file_fd \<Rightarrow> sup option" where
  "unref_pipe s f =
     (case ffd_pipe f of
        None \<Rightarrow> Some s
      | Some k \<Rightarrow>
          if pipe_side_held s k (is_fd1_side s f) then Some s
          else with_pipe s k (if is_fd1_side s f then Fd1Deleter else Fd0Deleter))"

text \<open>\<open>FileFD::~FileFD\<close>: the members are destroyed, the last one first.\<close>

definition destroy_ffd :: "sup \<Rightarrow> file_fd \<Rightarrow> sup option" where
  "destroy_ffd s f = map_option (\<lambda>s1. unref_ofd s1 (ffd_ofd f)) (unref_pipe s f)"

text \<open>\<open>set_pipe(nullptr)\<close> on the file descriptor of a slot.\<close>

definition set_pipe_null :: "sup \<Rightarrow> nat \<Rightarrow> int \<Rightarrow> file_fd \<Rightarrow> sup option" where
  "set_pipe_null s p fd f =
     (case ffd_pipe f of
        None \<Rightarrow> Some s
      | Some k \<Rightarrow> do {
          s1 \<leftarrow> with_pipe s k (\<lambda>q w. pipe_handle_close q w (ffd_id f));
          unref_pipe (set_slot p fd (Some (f\<lparr>ffd_pipe := None\<rparr>)) s1) f })"

section \<open>The table of file descriptors\<close>

text \<open>A negative \<open>fd\<close> is an index out of bounds.\<close>

definition grow_fds :: "fd_table \<Rightarrow> nat \<Rightarrow> fd_table" where
  "grow_fds fds n = (if length fds \<le> n then fds @ replicate (n + 1 - length fds) None else fds)"

definition add_filefd :: "sup \<Rightarrow> nat \<Rightarrow> int \<Rightarrow> file_fd \<Rightarrow> sup option" where
  "add_filefd s p fd f =
     (if fd < 0 then None
      else
        let s1 = set_proc p ((proc s p)\<lparr>pr_fds := grow_fds (pr_fds (proc s p)) (nat fd)\<rparr>) s;
            old = get_fd s1 p fd;
            s2 = set_slot p fd (Some f) s1
        in case old of Some g \<Rightarrow> destroy_ffd s2 g | None \<Rightarrow> Some s2)"

definition handle_close_ffd :: "sup \<Rightarrow> nat \<Rightarrow> file_fd \<Rightarrow> int \<Rightarrow> sup option" where
  "handle_close_ffd s p f fd =
     do {
       s1 \<leftarrow> (case ffd_pipe f of
                None \<Rightarrow> Some s
              | Some k \<Rightarrow> do {
                  s1 \<leftarrow> with_pipe s k (\<lambda>q w. pipe_handle_close q w (ffd_id f));
                  set_pipe_null s1 p fd f });
       destroy_ffd (set_slot p fd None s1) (f\<lparr>ffd_pipe := None\<rparr>) }"

definition handle_close :: "sup \<Rightarrow> nat \<Rightarrow> int \<Rightarrow> int \<Rightarrow> (sup \<times> int) option" where
  "handle_close s p fd err =
     (if err = EIO then Some (disable s p ''IO error closing fd'', -1)
      else if err = EINTR then Some (disable s p ''EINTR while closing fd'', -1)
      else if err = EBADF then (if get_fd s p fd = None then Some (s, 0) else None)
      else case get_fd s p fd of
        None \<Rightarrow>
          Some (disable s p
            (if err = 0
             then ''Process closed an unknown fd successfully, which means interception missed at least one open()''
             else ''Process closed an unknown, but valid fd unsuccessfully, which could mean that interception missed at least one open()''), -1)
      | Some f \<Rightarrow> map_option (\<lambda>s1. (s1, 0)) (handle_close_ffd s p f fd))"

definition handle_force_close :: "sup \<Rightarrow> nat \<Rightarrow> int \<Rightarrow> (sup \<times> int) option" where
  "handle_force_close s p fd = (if get_fd s p fd \<noteq> None then handle_close s p fd 0 else Some (s, 0))"

text \<open>
  \<open>handle_close_range\<close>: \<open>first\<close> is converted to \<open>int\<close> and \<open>fds_size - 1\<close> is unsigned.  The loop stops
  with \<open>None\<close> where it indexes the table out of bounds.
\<close>

fun close_range_loop :: "sup \<Rightarrow> nat \<Rightarrow> 32 word \<Rightarrow> int list \<Rightarrow> sup option" where
  "close_range_loop s p flags [] = Some s"
| "close_range_loop s p flags (fd # fds) =
     (if fd < 0 \<or> fd \<ge> int (length (pr_fds (proc s p))) then None
      else case get_fd s p fd of
        None \<Rightarrow> close_range_loop s p flags fds
      | Some f \<Rightarrow>
          if has_flag flags CLOSE_RANGE_CLOEXEC
          then close_range_loop (set_slot p fd (Some (f\<lparr>ffd_cloexec := True\<rparr>)) s) p flags fds
          else do { (s1, _) \<leftarrow> handle_close s p fd 0; close_range_loop s1 p flags fds })"

definition handle_close_range :: "sup \<Rightarrow> nat \<Rightarrow> 32 word \<Rightarrow> 32 word \<Rightarrow> 32 word \<Rightarrow> int \<Rightarrow> (sup \<times> int) option" where
  "handle_close_range s p first last_fd flags err =
     (if err = 0 then
        let fds_size = (of_nat (length (pr_fds (proc s p))) :: 32 word);
            range_max = sint (min last_fd (fds_size - 1))
        in map_option (\<lambda>s1. (s1, 0)) (close_range_loop s p flags [sint first .. range_max])
      else Some (s, 0))"

definition handle_closefrom :: "sup \<Rightarrow> nat \<Rightarrow> int \<Rightarrow> (sup \<times> int) option" where
  "handle_closefrom s p lowfd = handle_close_range s p (word_of_int lowfd) (- 1) 0 0"

text \<open>\<open>close_fds\<close>, from the last file descriptor to the first.\<close>

fun close_fds_loop :: "sup \<Rightarrow> nat \<Rightarrow> nat \<Rightarrow> sup option" where
  "close_fds_loop s p 0 = Some s"
| "close_fds_loop s p (Suc i) =
     (case get_fd s p (int i) of
        None \<Rightarrow> close_fds_loop s p i
      | Some f \<Rightarrow> do { s1 \<leftarrow> handle_close_ffd s p f (int i); close_fds_loop s1 p i })"

definition close_fds :: "sup \<Rightarrow> nat \<Rightarrow> sup option" where
  "close_fds s p = close_fds_loop s p (length (pr_fds (proc s p)))"

fun drain_pipes_loop :: "sup \<Rightarrow> fd_table \<Rightarrow> sup option" where
  "drain_pipes_loop s [] = Some s"
| "drain_pipes_loop s (None # fds) = drain_pipes_loop s fds"
| "drain_pipes_loop s (Some f # fds) =
     (case ffd_pipe f of
        Some k \<Rightarrow>
          if is_wronly (ofd_flags (ofd_of s f))
          then do { s1 \<leftarrow> with_pipe s k (\<lambda>q w. drain_fd1_end q w (ffd_id f)); drain_pipes_loop s1 fds }
          else drain_pipes_loop s fds
      | None \<Rightarrow> drain_pipes_loop s fds)"

definition drain_all_pipes :: "sup \<Rightarrow> nat \<Rightarrow> sup option" where
  "drain_all_pipes s p = drain_pipes_loop s (pr_fds (proc s p))"

fun reset_pipe_refs_loop :: "sup \<Rightarrow> nat \<Rightarrow> nat list \<Rightarrow> sup option" where
  "reset_pipe_refs_loop s p [] = Some s"
| "reset_pipe_refs_loop s p (i # is) =
     (case get_fd s p (int i) of
        None \<Rightarrow> reset_pipe_refs_loop s p is
      | Some f \<Rightarrow>
          (case ffd_pipe f of
             None \<Rightarrow> reset_pipe_refs_loop s p is
           | Some k \<Rightarrow> do {
               s1 \<leftarrow> with_pipe s k (\<lambda>q w. drain_fd1_end q w (ffd_id f));
               s2 \<leftarrow> set_pipe_null s1 p (int i) f;
               reset_pipe_refs_loop s2 p is }))"

definition reset_file_fd_pipe_refs :: "sup \<Rightarrow> nat \<Rightarrow> sup option" where
  "reset_file_fd_pipe_refs s p = reset_pipe_refs_loop s p [0 ..< length (pr_fds (proc s p))]"

text \<open>
  \<open>pass_on_fds\<close>: the table of a child.  The copies are new \<open>FileFD\<close> objects, numbered from \<open>n\<close>.
\<close>

definition passed_on :: "bool \<Rightarrow> nat \<Rightarrow> file_fd option \<Rightarrow> file_fd option" where
  "passed_on execed i f =
     (case f of
        Some g \<Rightarrow>
          if execed \<and> ffd_cloexec g then None
          else Some (g\<lparr>ffd_id := i, ffd_close_on_popen := (if execed then False else ffd_close_on_popen g)\<rparr>)
      | None \<Rightarrow> None)"

fun trim_fds :: "fd_table \<Rightarrow> fd_table" where
  "trim_fds [] = []"
| "trim_fds (f # fds) = (if f = None \<and> trim_fds fds = [] then [] else f # trim_fds fds)"

definition pass_on_fds :: "sup \<Rightarrow> nat \<Rightarrow> bool \<Rightarrow> sup \<times> fd_table" where
  "pass_on_fds s p execed =
     (let fds = pr_fds (proc s p);
          ret_fds = map2 (passed_on execed) [s_next_ffd s ..< s_next_ffd s + length fds] fds
      in (s\<lparr>s_next_ffd := s_next_ffd s + length fds\<rparr>, trim_fds ret_fds))"

end
