(* ===== verification/FB_Handlers.thy ===== *)
theory FB_Handlers
  imports FB_Process "HOL-Library.Signed_Division"
begin

text \<open>
  \<^verbatim>\<open>src/firebuild/process.cc\<close>: how a process' file names are resolved and what the messages about its
  system calls do to its file descriptors, to the registered file usages and to shortcutting.
\<close>

section \<open>Names\<close>

definition get_fd_filename :: "sup \<Rightarrow> nat \<Rightarrow> int \<Rightarrow> string option" where
  "get_fd_filename s p fd =
     (if fd = AT_FDCWD then Some (pr_wd (proc s p))
      else case get_fd s p fd of
        Some f \<Rightarrow> ofd_filename (ofd_of s f)
      | None \<Rightarrow> None)"

text \<open>The outer option is the assertion that only the root directory ends in a slash, the inner one the null pointer.\<close>

definition get_absolute :: "sup \<Rightarrow> nat \<Rightarrow> int \<Rightarrow> string \<Rightarrow> string option option" where
  "get_absolute s p dirfd name =
     (if path_is_absolute name then Some (Some name)
      else case get_fd_filename s p dirfd of
        None \<Rightarrow> Some None
      | Some dir \<Rightarrow>
          if length name = 0 \<or> length name = 1 \<and> cget name 0 = CHR ''.'' then Some (Some dir)
          else if dir = [] then None
          else if last dir \<noteq> SLASH then Some (Some (dir @ [SLASH] @ name))
          else if length dir = 1 then Some (Some (dir @ name))
          else None)"

definition base_name :: "string \<Rightarrow> string" where
  "base_name path = rev (takeWhile (\<lambda>c. c \<noteq> SLASH) (rev path))"

definition is_qemu :: "sup \<Rightarrow> nat \<Rightarrow> bool" where
  "is_qemu s p =
     (case exec_point_opt s p of
        Some i \<Rightarrow> take 5 (base_name (xi_executable (s_execs s ! i))) = ''qemu-''
      | None \<Rightarrow> False)"

definition parent_exec_point_of :: "sup \<Rightarrow> nat \<Rightarrow> nat option" where
  "parent_exec_point_of s p = Option.bind (pr_parent (proc s p)) (exec_point_opt s)"

definition opened_by_exec_point :: "sup \<Rightarrow> file_fd \<Rightarrow> nat option" where
  "opened_by_exec_point s f = Option.bind (ofd_opened_by (ofd_of s f)) (exec_point_opt s)"

definition disable_at :: "sup \<Rightarrow> nat \<Rightarrow> string \<Rightarrow> sup" where
  "disable_at s i reason = s\<lparr>s_x := disable_shortcutting_bubble_up (s_x s) i reason\<rparr>"

definition close_writing :: "sup \<Rightarrow> string \<Rightarrow> sup" where
  "close_writing s name = s\<lparr>s_x := close_for_writing (s_x s) name\<rparr>"

section \<open>Opening files\<close>

definition handle_pre_open :: "sup \<Rightarrow> nat \<Rightarrow> int \<Rightarrow> string \<Rightarrow> (sup \<times> int) option" where
  "handle_pre_open s p dirfd ar_name =
     do {
       name \<leftarrow> get_absolute s p dirfd ar_name;
       case name of
         None \<Rightarrow> Some (disable s p ''Could not find file name to mark as opened for writing'', -1)
       | Some n \<Rightarrow> Some (s\<lparr>s_x := open_for_writing (s_x s) n (exec_point s p)\<rparr>, 0) }"

definition handle_open ::
    "sup \<Rightarrow> nat \<Rightarrow> int \<Rightarrow> string \<Rightarrow> 32 word \<Rightarrow> mode_t \<Rightarrow> bool \<Rightarrow> 32 word \<Rightarrow> int \<Rightarrow> int \<Rightarrow> int \<Rightarrow> int
       \<Rightarrow> bool \<Rightarrow> bool \<Rightarrow> (sup \<times> int) option" where
  "handle_open s p dirfd ar_name flags mode is_openat2 resolve_flags fd err fd_conn ack_num
       pre_open_sent tmp_file =
     (if is_openat2 \<and> resolve_flags \<noteq> 0 then
        Some (maybe_ack (disable s p ''openat2() with RESOLVE_* flags is not supported'') fd_conn ack_num, -1)
      else do {
        name \<leftarrow> get_absolute s p dirfd ar_name;
        case name of
          None \<Rightarrow> Some (maybe_ack (disable s p ''Invalid dirfd passed to openat()'') fd_conn ack_num, -1)
        | Some n \<Rightarrow> do {
            let o_tmpfile_set = (flags AND O_TMPFILE = O_TMPFILE);
            s1 \<leftarrow> (if fd \<ge> 0 then
                     (case (if o_tmpfile_set then FileFD_typed s flags FD_SPECIAL p
                            else FileFD_named s n flags p) of
                        (s0, f) \<Rightarrow> add_filefd s0 p fd f)
                   else Some s);
            let s2 = (if pre_open_sent then close_writing s1 n else s1);
            (s3, u) \<leftarrow> open_params s2 n (if o_tmpfile_set then O_RDWR OR O_DIRECTORY else flags)
                         (mode AND 0xFFF AND NOT (pr_umask (proc s2 p))) err
                         (if o_tmpfile_set then False else tmp_file);
            let (s4, r) = register_or_disable s3 p n u ''Could not register the opening of a file'';
            Some (maybe_ack s4 fd_conn ack_num, r) } })"

definition handle_freopen ::
    "sup \<Rightarrow> nat \<Rightarrow> string option \<Rightarrow> 32 word \<Rightarrow> int \<Rightarrow> int \<Rightarrow> int \<Rightarrow> int \<Rightarrow> int \<Rightarrow> bool \<Rightarrow> (sup \<times> int) option" where
  "handle_freopen s p ar_name flags oldfd fd err fd_conn ack_num pre_open_sent =
     (case ar_name of
        Some name \<Rightarrow> do {
          (s1, _) \<leftarrow> handle_close s p oldfd 0;
          handle_open s1 p AT_FDCWD name flags 0x1B6 False 0 fd err fd_conn ack_num pre_open_sent False }
      | None \<Rightarrow>
          if pre_open_sent then None
          else case (case get_fd s p oldfd of Some f \<Rightarrow> ofd_filename (ofd_of s f) | None \<Rightarrow> None) of
            None \<Rightarrow>
              Some (maybe_ack (disable s p ''Could not figure out old file name for freopen(..., NULL)'')
                      fd_conn ack_num, -1)
          | Some filename \<Rightarrow> do {
              (s1, _) \<leftarrow> handle_close s p oldfd 0;
              handle_open s1 p AT_FDCWD filename flags 0x1B6 False 0 fd err fd_conn ack_num
                pre_open_sent False })"

fun register_libs :: "sup \<Rightarrow> nat \<Rightarrow> string list \<Rightarrow> sup option" where
  "register_libs s p [] = Some s"
| "register_libs s p (ar_name # libs) =
     do {
       name \<leftarrow> get_absolute s p AT_FDCWD ar_name;
       n \<leftarrow> name;
       (s1, u) \<leftarrow> open_params s n 0 0 0 False;
       register_libs (fst (register_or_disable s1 p n u ''Could not register loading the shared library'')) p libs }"

definition handle_dlopen ::
    "sup \<Rightarrow> nat \<Rightarrow> string list \<Rightarrow> string option \<Rightarrow> bool \<Rightarrow> int \<Rightarrow> int \<Rightarrow> (sup \<times> int) option" where
  "handle_dlopen s p libs looked_up_filename err fd_conn ack_num =
     do {
       s1 \<leftarrow> register_libs s p libs;
       (s2, ret) \<leftarrow>
         (if err then do {
            filename \<leftarrow> looked_up_filename;
            if List.member filename SLASH
            then map_option (\<lambda>(t, _). (t, 0))
                   (handle_open s1 p AT_FDCWD filename 0 0 False 0 (-1) ENOENT 0 0 False False)
            else Some (disable s1 p ''Process failed to dlopen() '', -1) }
          else Some (s1, 0));
       Some (maybe_ack s2 fd_conn ack_num, ret) }"

definition handle_scandirat :: "sup \<Rightarrow> nat \<Rightarrow> int \<Rightarrow> string option \<Rightarrow> int \<Rightarrow> (sup \<times> int) option" where
  "handle_scandirat s p dirfd ar_name err =
     (if err \<noteq> 0 \<and> err \<noteq> ENOENT then Some (disable s p ''scandirat() failed'', -1)
      else do {
        dirp \<leftarrow> ar_name;
        name \<leftarrow> get_absolute s p dirfd dirp;
        case name of
          None \<Rightarrow> Some (disable s p ''Invalid dirfd or filename passed to scandirat()'', -1)
        | Some n \<Rightarrow>
            if err = ENOENT then
              Some (register_or_disable s p n (FileUsageUpdate (env s) n NOTEXIST False False)
                      ''Could not register scandirat() on'')
            else do {
              (s1, u) \<leftarrow> open_params s n O_DIRECTORY 0 err False;
              Some (register_or_disable s1 p n u ''Could not register scandirat() on'') } })"

definition handle_truncate :: "sup \<Rightarrow> nat \<Rightarrow> string \<Rightarrow> int \<Rightarrow> int \<Rightarrow> (sup \<times> int) option" where
  "handle_truncate s p ar_name len err =
     do {
       name \<leftarrow> get_absolute s p AT_FDCWD ar_name;
       case name of
         None \<Rightarrow> Some (disable s p ''Could not find file to truncate()'', -1)
       | Some n \<Rightarrow> do {
           (s1, u) \<leftarrow> open_params (close_writing s n) n (O_WRONLY OR (if len = 0 then O_TRUNC else 0)) 0 err False;
           Some (register_or_disable s1 p n u ''Could not register truncate() on'') } }"

definition handle_unlink :: "sup \<Rightarrow> nat \<Rightarrow> int \<Rightarrow> string \<Rightarrow> 32 word \<Rightarrow> int \<Rightarrow> bool \<Rightarrow> (sup \<times> int) option" where
  "handle_unlink s p dirfd ar_name flags err pre_open_sent =
     do {
       name \<leftarrow> get_absolute s p dirfd ar_name;
       case name of
         None \<Rightarrow> Some (disable s p ''Invalid dirfd passed to unlinkat()'', -1)
       | Some n \<Rightarrow>
           let s1 = (if pre_open_sent then close_writing s n else s) in
           if err = 0 then
             Some (register_or_disable s1 p n
                     (FileUsageUpdate (env s1) n (if has_flag flags AT_REMOVEDIR then ISDIR else ISREG) True False)
                     ''Could not register the unlink or rmdir'')
           else if err = ENOENT then
             Some (register_or_disable s1 p n (FileUsageUpdate (env s1) n NOTEXIST False False)
                     ''Could not register the unlink or rmdir'')
           else Some (s1, 0) }"

definition handle_rmdir :: "sup \<Rightarrow> nat \<Rightarrow> string \<Rightarrow> int \<Rightarrow> bool \<Rightarrow> (sup \<times> int) option" where
  "handle_rmdir s p ar_name err pre_open_sent =
     handle_unlink s p AT_FDCWD ar_name AT_REMOVEDIR err pre_open_sent"

definition handle_mkdir :: "sup \<Rightarrow> nat \<Rightarrow> int \<Rightarrow> string \<Rightarrow> int \<Rightarrow> bool \<Rightarrow> (sup \<times> int) option" where
  "handle_mkdir s p dirfd ar_name err tmp_dir =
     do {
       name \<leftarrow> get_absolute s p dirfd ar_name;
       case name of
         None \<Rightarrow> Some (disable s p ''Invalid dirfd passed to mkdirat()'', -1)
       | Some n \<Rightarrow>
           Some (register_or_disable s p n (get_from_mkdir_params (env s) n err tmp_dir)
                   ''Could not register the directory creation '') }"

section \<open>Attributes of files\<close>

text \<open>A null \<open>ar_name\<close> is \<open>None\<close>.\<close>

definition on_opened_fd :: "string option \<Rightarrow> 32 word \<Rightarrow> bool" where
  "on_opened_fd ar_name flags =
     (case ar_name of None \<Rightarrow> True | Some n \<Rightarrow> cget n 0 = NUL \<and> has_flag flags AT_EMPTY_PATH)"

definition usec_key :: "int \<Rightarrow> int \<Rightarrow> int \<times> int" where
  "usec_key sec nsec = (sec, (nsec sdiv 1000) * 1000)"

definition stat_named :: "sup \<Rightarrow> nat \<Rightarrow> string \<Rightarrow> mode_t \<Rightarrow> int \<Rightarrow> int \<Rightarrow> int \<Rightarrow> int \<Rightarrow> sup \<times> int" where
  "stat_named s p n mode sz sec nsec err =
     (case register_or_disable s p n (get_from_stat_params (env s) n mode sz err)
             ''Could not register fstatat() on'' of
        (s1, r) \<Rightarrow>
          (if r = 0 \<and> err = 0
           then set_proc p ((proc s1 p)\<lparr>pr_mtime_to_file := (pr_mtime_to_file (proc s1 p))(usec_key sec nsec \<mapsto> n)\<rparr>) s1
           else s1, r))"

definition handle_fstatat ::
    "sup \<Rightarrow> nat \<Rightarrow> int \<Rightarrow> string option \<Rightarrow> 32 word \<Rightarrow> mode_t \<Rightarrow> int \<Rightarrow> int \<Rightarrow> int \<Rightarrow> int \<Rightarrow> (sup \<times> int) option" where
  "handle_fstatat s p fd ar_name flags mode sz sec nsec err =
     (if on_opened_fd ar_name flags then
        (case get_fd s p fd of
           None \<Rightarrow>
             if err = 0
             then Some (disable s p ''Process fstatat()ed an unknown fd successfully, which means interception missed at least one open()'', -1)
             else Some (s, 0)
         | Some f \<Rightarrow>
             (case ofd_filename (ofd_of s f) of
                None \<Rightarrow> Some (s, 0)
              | Some n \<Rightarrow> Some (stat_named s p n mode sz sec nsec err)))
      else do {
        name \<leftarrow> get_absolute s p fd (the ar_name);
        case name of
          None \<Rightarrow> Some (disable s p ''Invalid dirfd or filename passed to stat() variant'', -1)
        | Some n \<Rightarrow> Some (stat_named s p n mode sz sec nsec err) })"

definition is_touch_r_operation :: "sup \<Rightarrow> nat \<Rightarrow> int \<Rightarrow> int \<Rightarrow> string option" where
  "is_touch_r_operation s p sec nsec = pr_mtime_to_file (proc s p) (usec_key sec nsec)"

definition handle_statfs :: "sup \<Rightarrow> nat \<Rightarrow> string option \<Rightarrow> int \<Rightarrow> sup \<times> int" where
  "handle_statfs s p a_name err =
     (case a_name of
        None \<Rightarrow>
          if s_quirk_ignore_statfs s then (s, 0)
          else (disable s p ''fstatfs() family operating on fds is not supported'', -1)
      | Some n \<Rightarrow>
          if err = ENOENT then
            (fst (register_or_disable s p n (FileUsageUpdate (env s) n NOTEXIST False False)
                    ''Could not register failed statfs()''), 0)
          else if \<not> s_quirk_ignore_statfs s
          then (disable s p ''Successful statfs() calls are not supported.'', -1)
          else (s, 0))"

definition handle_mktemp :: "sup \<Rightarrow> nat \<Rightarrow> string \<Rightarrow> (sup \<times> int) option" where
  "handle_mktemp s p n =
     do {
       (s1, u) \<leftarrow> open_params s n O_RDWR 0 ENOENT True;
       Some (fst (register_or_disable s1 p n u ''Could not register mktemp()''), 0) }"

abbreviation X_OK :: "32 word" where "X_OK \<equiv> 1"
abbreviation W_OK :: "32 word" where "W_OK \<equiv> 2"
abbreviation R_OK :: "32 word" where "R_OK \<equiv> 4"
abbreviation S_IRUSR :: mode_t where "S_IRUSR \<equiv> 0x100"
abbreviation S_IWUSR :: mode_t where "S_IWUSR \<equiv> 0x80"
abbreviation S_IXUSR :: mode_t where "S_IXUSR \<equiv> 0x40"

text \<open>The three \<open>set_initial_mode_bits\<close> calls, for the bits \<open>bits\<close> of the requested permissions.\<close>

definition access_bits :: "32 word \<Rightarrow> mode_t \<Rightarrow> file_usage_update \<Rightarrow> file_usage_update" where
  "access_bits mode bits u =
     (let u1 = (if has_flag mode R_OK then set_initial_mode_bits (bits AND S_IRUSR) S_IRUSR u else u);
          u2 = (if has_flag mode W_OK then set_initial_mode_bits (bits AND S_IWUSR) S_IWUSR u1 else u1)
      in if has_flag mode X_OK then set_initial_mode_bits (bits AND S_IXUSR) S_IXUSR u2 else u2)"

definition unset_bit_seen :: "32 word \<Rightarrow> mode_t \<Rightarrow> bool" where
  "unset_bit_seen mode bits \<longleftrightarrow>
     has_flag mode R_OK \<and> bits AND S_IRUSR = 0 \<or> has_flag mode W_OK \<and> bits AND S_IWUSR = 0 \<or>
     has_flag mode X_OK \<and> bits AND S_IXUSR = 0"

text \<open>The update of \<open>handle_faccessat\<close>; \<open>None\<close> where \<open>stat()\<close> contradicts the error.\<close>

definition faccessat_update :: "sup \<Rightarrow> string \<Rightarrow> 32 word \<Rightarrow> int \<Rightarrow> file_usage_update option" where
  "faccessat_update s n mode err =
     (let u = FileUsageUpdate (env s) n DONTKNOW False False in
      if mode = 0 then Some (set_initial_type (if err = 0 then EXIST else NOTEXIST) u)
      else if err = 0 then Some (access_bits mode (S_IRUSR OR S_IWUSR OR S_IXUSR) (set_initial_type EXIST u))
      else if err = EACCES then
        (case os_stat (env_os (env s)) n of
           None \<Rightarrow> Some (set_initial_type NOTEXIST u)
         | Some st \<Rightarrow>
             if unset_bit_seen mode (st_mode st)
             then Some (access_bits mode (st_mode st) (set_initial_type EXIST u)) else None)
      else Some (set_initial_type NOTEXIST u))"

definition handle_faccessat :: "sup \<Rightarrow> nat \<Rightarrow> int \<Rightarrow> string \<Rightarrow> 32 word \<Rightarrow> int \<Rightarrow> (sup \<times> int) option" where
  "handle_faccessat s p dirfd ar_name mode err =
     do {
       name \<leftarrow> get_absolute s p dirfd ar_name;
       case name of
         None \<Rightarrow> Some (disable s p ''Invalid dirfd or filename passed faccessat()'', -1)
       | Some n \<Rightarrow>
           (case faccessat_update s n mode err of
              None \<Rightarrow> Some (disable s p ''stat() returned unexpected permission bits for'', -1)
            | Some u \<Rightarrow> Some (register_or_disable s p n u ''Could not register the faccessat of a file'')) }"

definition chmod_named :: "sup \<Rightarrow> nat option \<Rightarrow> string \<Rightarrow> int \<Rightarrow> sup \<times> int" where
  "chmod_named s register_from n err =
     (case register_from of
        None \<Rightarrow> (s, if err \<noteq> 0 then -1 else 0)
      | Some i \<Rightarrow>
          if err \<noteq> 0 then (disable_at s i ''Cannot register a failed fchmodat() on'', -1)
          else
            (case register_at s i n (FileUsageUpdate (env s) n EXIST False True) of
               (s1, True) \<Rightarrow> (s1, 0)
             | (s1, False) \<Rightarrow> (disable_at s1 i ''Could not register fchmodat() on'', -1)))"

definition handle_fchmodat :: "sup \<Rightarrow> nat \<Rightarrow> int \<Rightarrow> string option \<Rightarrow> 32 word \<Rightarrow> int \<Rightarrow> (sup \<times> int) option" where
  "handle_fchmodat s p fd ar_name flags err =
     (if on_opened_fd ar_name flags then
        (case get_fd s p fd of
           None \<Rightarrow>
             if err = 0
             then Some (disable s p ''Process fchmodat()ed an unknown fd successfully, which means interception missed at least one open()'', -1)
             else Some (s, 0)
         | Some f \<Rightarrow>
             (let register_from = opened_by_exec_point s f;
                  s1 = disable_to_excl s p register_from ''fchmod() on an inherited fd not supported''
              in case ofd_filename (ofd_of s f) of
                   None \<Rightarrow> Some (s1, 0)
                 | Some n \<Rightarrow> Some (chmod_named s1 register_from n err)))
      else do {
        name \<leftarrow> get_absolute s p fd (the ar_name);
        case name of
          None \<Rightarrow> Some (disable s p ''Invalid dirfd or filename passed fchmodat()'', -1)
        | Some n \<Rightarrow> Some (chmod_named s (Some (exec_point s p)) n err) })"

section \<open>Renaming and special files\<close>

text \<open>What \<open>handle_rename\<close> does once it has taken back the two \<open>pre_open\<close>s.\<close>

definition register_rename :: "sup \<Rightarrow> nat \<Rightarrow> string option \<Rightarrow> string option \<Rightarrow> int \<Rightarrow> (sup \<times> int) option" where
  "register_rename s p old_name new_name err =
     (if err = EEXIST then do {
        n \<leftarrow> new_name;
        Some (register_or_disable s p n (set_initial_type EXIST (FileUsageUpdate (env s) n DONTKNOW False False))
                ''Could not register the renaming (to)'') }
      else if err \<noteq> 0 then Some (disable s p ''Failed rename() is not supported'', -1)
      else case (old_name, new_name) of
        (Some o', Some n) \<Rightarrow>
          if (case s_lstat s n of None \<Rightarrow> True | Some st \<Rightarrow> \<not> S_ISREG (st_mode st))
          then Some (disable s p ''Could not register the renaming of non-regular file'', -1)
          else do {
            (db, u) \<leftarrow> get_oldfile_usage_from_rename_params (env s) (x_cache (s_x s)) o' n err;
            let s3 = s\<lparr>s_x := (s_x s)\<lparr>x_cache := db\<rparr>\<rparr>;
            (case register_or_disable s3 p o' u ''Could not register the renaming (from)'' of
               (s4, r) \<Rightarrow>
                 if r = 0 then
                   Some (register_or_disable s4 p n (get_newfile_usage_from_rename_params (env s4) n err)
                           ''Could not register the renaming (to)'')
                 else Some (s4, -1)) }
      | _ \<Rightarrow> Some (disable s p ''Invalid dirfd passed to renameat()'', -1))"

definition handle_rename :: "sup \<Rightarrow> nat \<Rightarrow> int \<Rightarrow> string \<Rightarrow> int \<Rightarrow> string \<Rightarrow> int \<Rightarrow> (sup \<times> int) option" where
  "handle_rename s p olddirfd old_ar_name newdirfd new_ar_name err =
     do {
       old_name \<leftarrow> get_absolute s p olddirfd old_ar_name;
       new_name \<leftarrow> get_absolute s p newdirfd new_ar_name;
       let s1 = (case old_name of Some n \<Rightarrow> close_writing s n | None \<Rightarrow> s);
       let s2 = (case new_name of Some n \<Rightarrow> close_writing s1 n | None \<Rightarrow> s1);
       register_rename s2 p old_name new_name err }"

definition handle_symlink :: "sup \<Rightarrow> nat \<Rightarrow> int \<Rightarrow> sup \<times> int" where
  "handle_symlink s p err = (if err = 0 then (disable s p ''Process created a symlink'', -1) else (s, 0))"

definition handle_mkfifo :: "sup \<Rightarrow> nat \<Rightarrow> string \<Rightarrow> mode_t \<Rightarrow> int \<Rightarrow> (sup \<times> int) option" where
  "handle_mkfifo s p pathname mode err =
     do {
       name \<leftarrow> get_absolute s p AT_FDCWD pathname;
       case name of
         None \<Rightarrow> Some (disable s p ''Could not find file to create with mkfifo()'', -1)
       | Some n \<Rightarrow> do {
           (s1, u) \<leftarrow> open_params s n (O_RDWR OR O_CREAT OR O_EXCL) mode err True;
           let (s2, r) = register_or_disable s1 p n u ''Could not register mkfifo() on'';
           if r \<noteq> 0 then Some (s2, -1)
           else if s_quirk_lto_wrapper s2
             \<and> (case xi_args (s_execs s2 ! exec_point s2 p) of a # _ \<Rightarrow> a = ''make'' | [] \<Rightarrow> False)
             \<and> (case parent_exec_point_of s2 p of
                   Some q \<Rightarrow> base_name (xi_executable (s_execs s2 ! q)) = ''lto-wrapper'' | None \<Rightarrow> False)
           then Some (s2, 0)
           else Some (disable s2 p ''mkfifo() is not supported'', 0) } }"

definition handle_shm_open :: "sup \<Rightarrow> nat \<Rightarrow> int \<Rightarrow> int \<Rightarrow> sup \<times> int" where
  "handle_shm_open s p fd err =
     (if fd = -1 \<and> err = ENAMETOOLONG then (s, 0) else (disable s p ''shm_open() is not supported'', 0))"

text \<open>\<open>memfd_create()\<close>, \<open>timerfd_create()\<close>, \<open>epoll_create()\<close> and \<open>eventfd()\<close> differ in their close-on-exec flag only.\<close>

definition add_special :: "sup \<Rightarrow> nat \<Rightarrow> 32 word \<Rightarrow> int \<Rightarrow> (sup \<times> int) option" where
  "add_special s p flags fd =
     (case FileFD_typed s flags FD_SPECIAL p of (s1, f) \<Rightarrow> map_option (\<lambda>t. (t, 0)) (add_filefd s1 p fd f))"

definition handle_memfd_create :: "sup \<Rightarrow> nat \<Rightarrow> 32 word \<Rightarrow> int \<Rightarrow> (sup \<times> int) option" where
  "handle_memfd_create s p flags fd = add_special s p (if has_flag flags 1 then O_CLOEXEC else 0) fd"

definition handle_timerfd_create :: "sup \<Rightarrow> nat \<Rightarrow> 32 word \<Rightarrow> int \<Rightarrow> (sup \<times> int) option" where
  "handle_timerfd_create s p flags fd = add_special s p (if has_flag flags O_CLOEXEC then O_CLOEXEC else 0) fd"

definition handle_epoll_create :: "sup \<Rightarrow> nat \<Rightarrow> 32 word \<Rightarrow> int \<Rightarrow> (sup \<times> int) option" where
  "handle_epoll_create s p flags fd = add_special s p (if has_flag flags O_CLOEXEC then O_CLOEXEC else 0) fd"

definition handle_eventfd :: "sup \<Rightarrow> nat \<Rightarrow> 32 word \<Rightarrow> int \<Rightarrow> (sup \<times> int) option" where
  "handle_eventfd s p flags fd = add_special s p (if has_flag flags O_CLOEXEC then O_CLOEXEC else 0) fd"

definition handle_signalfd :: "sup \<Rightarrow> nat \<Rightarrow> int \<Rightarrow> 32 word \<Rightarrow> int \<Rightarrow> (sup \<times> int) option" where
  "handle_signalfd s p oldfd flags newfd =
     (if oldfd = -1 then add_special s p (if has_flag flags O_CLOEXEC then O_CLOEXEC else 0) newfd
      else Some (s, 0))"

section \<open>Sockets\<close>

definition socket_flags :: "32 word \<Rightarrow> 32 word" where
  "socket_flags type' =
     O_RDWR OR (if has_flag type' O_CLOEXEC then O_CLOEXEC else 0)
       OR (if has_flag type' O_NONBLOCK then O_NONBLOCK else 0)"

text \<open>The common part: an fd that is known to be open is closed first.\<close>

definition add_socket :: "sup \<Rightarrow> nat \<Rightarrow> 32 word \<Rightarrow> int \<Rightarrow> sup option" where
  "add_socket s p type' fd =
     do {
       s1 \<leftarrow> (if get_fd s p fd \<noteq> None
              then map_option fst (handle_close
                     (disable s p ''Process created an fd which is known to be open, which means interception missed at least one close()'')
                     p fd 0)
              else Some s);
       (case FileFD_typed s1 (socket_flags type') FD_SPECIAL p of (s2, f) \<Rightarrow> add_filefd s2 p fd f) }"

definition handle_socket :: "sup \<Rightarrow> nat \<Rightarrow> 32 word \<Rightarrow> int \<Rightarrow> int \<Rightarrow> sup option" where
  "handle_socket s p type' ret err =
     (if err = 0 then do {
        s1 \<leftarrow> add_socket s p type' ret;
        Some (if List.member [2, 3, 10] (type' AND NOT (O_CLOEXEC OR O_NONBLOCK))
              then disable s1 p ''SOCK_DGRAM, SOCK_RAW and SOCK_PACKET sockets are not supported'' else s1) }
      else Some (disable s p ''socket() call failed''))"

definition handle_socketpair :: "sup \<Rightarrow> nat \<Rightarrow> 32 word \<Rightarrow> int \<Rightarrow> int \<Rightarrow> int \<Rightarrow> sup option" where
  "handle_socketpair s p type' fd0 fd1 err =
     (if err = 0 then do { s1 \<leftarrow> add_socket s p type' fd0; add_socket s1 p type' fd1 }
      else Some (disable s p ''socketpair() call failed''))"

definition handle_connect :: "sup \<Rightarrow> nat \<Rightarrow> int \<Rightarrow> string option \<Rightarrow> int \<Rightarrow> sup option" where
  "handle_connect s p sockfd address err =
     (if err = 0 \<and> get_fd s p sockfd = None then
        Some (disable (disable s p
                ''Process connect()-ed over and fd that was not tracked as being open, which means interception missed at least one socket()'')
                p ''connect() is not supported'')
      else case (if err = 0 then address else None) of
        None \<Rightarrow> Some (disable s p ''connect() is not supported'')
      | Some a \<Rightarrow>
          if is_canonical a (length a) then do {
            name \<leftarrow> get_absolute s p AT_FDCWD a;
            n \<leftarrow> name;
            Some (if in_ignore_location (x_locs (s_x s)) n then s
                  else disable s p ''connect() to the following address is not supported:'') }
          else Some (disable s p ''connect() to the following address is not supported:''))"

section \<open>Duplicating and flags\<close>

definition handle_dup3 :: "sup \<Rightarrow> nat \<Rightarrow> int \<Rightarrow> int \<Rightarrow> 32 word \<Rightarrow> int \<Rightarrow> (sup \<times> int) option" where
  "handle_dup3 s p oldfd newfd flags err =
     (if List.member [EBADF, EBUSY, EINTR, EINVAL, ENFILE] err then Some (s, 0)
      else if get_fd s p oldfd = None then
        Some (disable s p ''Process created an fd which is known to be open, which means interception missed at least one close()'', -1)
      else if oldfd = newfd then Some (s, 0)
      else do {
        (s1, _) \<leftarrow> handle_force_close s p newfd;
        src \<leftarrow> get_fd s1 p oldfd;
        let (s2, f) = FileFD_dup s1 src (has_flag flags O_CLOEXEC);
        s3 \<leftarrow> add_filefd s2 p newfd f;
        Some (s3, 0) })"

definition set_cloexec :: "sup \<Rightarrow> nat \<Rightarrow> int \<Rightarrow> bool \<Rightarrow> string \<Rightarrow> sup \<times> int" where
  "set_cloexec s p fd b reason =
     (case get_fd s p fd of
        None \<Rightarrow> (disable s p reason, -1)
      | Some f \<Rightarrow> (set_slot p fd (Some (f\<lparr>ffd_cloexec := b\<rparr>)) s, 0))"

definition handle_clear_cloexec :: "sup \<Rightarrow> nat \<Rightarrow> int \<Rightarrow> sup \<times> int" where
  "handle_clear_cloexec s p fd =
     set_cloexec s p fd False
       ''Process successfully cleared cloexec on fd which is known to be closed, which means interception missed at least one open()''"

definition handle_fcntl :: "sup \<Rightarrow> nat \<Rightarrow> int \<Rightarrow> int \<Rightarrow> 32 word \<Rightarrow> int \<Rightarrow> int \<Rightarrow> (sup \<times> int) option" where
  "handle_fcntl s p fd cmd arg ret err =
     (if cmd = 0 then handle_dup3 s p fd ret 0 err
      else if cmd = 1030 then handle_dup3 s p fd ret O_CLOEXEC err
      else if cmd = 2 then
        Some (if err = 0
              then set_cloexec s p fd (has_flag arg 1)
                     ''Process successfully fcntl'ed on fd which is known to be closed, which means interception missed at least one open()''
              else (s, 0))
      else Some (disable s p ''Process executed unsupported fcntl '', 0))"

definition handle_ioctl :: "sup \<Rightarrow> nat \<Rightarrow> int \<Rightarrow> int \<Rightarrow> int \<Rightarrow> sup \<times> int" where
  "handle_ioctl s p fd cmd err =
     (if cmd = 0x5451 \<or> cmd = 0x5450 then
        (if err = 0
         then set_cloexec s p fd (cmd = 0x5451)
                ''Process successfully ioctl'ed on fd which is known to be closed, which means interception missed at least one open()''
         else (s, 0))
      else (disable s p ''Process executed unsupported ioctl'', 0))"

section \<open>Inherited file descriptors\<close>

definition handle_read_from_inherited :: "sup \<Rightarrow> nat \<Rightarrow> int \<Rightarrow> sup" where
  "handle_read_from_inherited s p fd =
     (case get_fd s p fd of
        None \<Rightarrow> disable s p ''Process successfully read from fd which is known to be closed, which means interception missed at least one open()''
      | Some f \<Rightarrow>
          if ofd_type (ofd_of s f) = FD_PIPE_IN \<and> ffd_pipe f \<noteq> None
             \<and> fd = xi_jobserver_fd_r (s_execs s ! exec_point s p) then s
          else if opened_by_exec_point s f = Some (exec_point s p)
          then disable s p ''Process sent handle_read_from_inherited for a non-inherited fd''
          else if ofd_type (ofd_of s f) = FD_IGNORED then s
          else disable_to_excl s p (opened_by_exec_point s f) ''Process read from inherited fd '')"

definition handle_write_to_inherited :: "sup \<Rightarrow> nat \<Rightarrow> int \<Rightarrow> bool \<Rightarrow> sup" where
  "handle_write_to_inherited s p fd is_pwrite =
     (case get_fd s p fd of
        None \<Rightarrow> disable s p ''Process successfully wrote to fd which is known to be closed, which means interception missed at least one open()''
      | Some f \<Rightarrow>
          if ofd_type (ofd_of s f) = FD_PIPE_OUT \<and> ffd_pipe f \<noteq> None
             \<and> fd = xi_jobserver_fd_w (s_execs s ! exec_point s p) then s
          else if opened_by_exec_point s f = Some (exec_point s p)
          then disable s p ''Process sent handle_write_to_inherited for a non-inherited fd''
          else if ofd_type (ofd_of s f) = FD_IGNORED then s
          else if is_pwrite
          then disable_to_excl s p (opened_by_exec_point s f) ''Process called pwrite() on inherited fd ''
          else if ffd_pipe f = None \<and> ofd_filename (ofd_of s f) = None
          then disable_to_excl s p (opened_by_exec_point s f) ''Process wrote to inherited non-pipe and non-file fd ''
          else s)"

definition handle_seek_in_inherited :: "sup \<Rightarrow> nat \<Rightarrow> int \<Rightarrow> bool \<Rightarrow> sup" where
  "handle_seek_in_inherited s p fd modify_offset =
     (case get_fd s p fd of
        None \<Rightarrow> disable s p ''Process successfully seeked in an fd which is known to be closed, which means interception missed at least one open()''
      | Some f \<Rightarrow>
          if opened_by_exec_point s f = Some (exec_point s p)
          then disable s p ''Process sent handle_seek_in_inherited for a non-inherited fd''
          else if ofd_type (ofd_of s f) = FD_IGNORED then s
          else if modify_offset \<and> ffd_pipe f = None
          then disable_to_excl s p (opened_by_exec_point s f) ''Process seeked in inherited non-pipe fd ''
          else s)"

text \<open>The loop over the inherited files; reading \<open>fds[0]\<close> of an empty vector is \<open>None\<close>.\<close>

fun set_start_offset :: "inherited_file list \<Rightarrow> int \<Rightarrow> int \<Rightarrow> inherited_file list option" where
  "set_start_offset [] fd offset = Some []"
| "set_start_offset (f # fs) fd offset =
     (case if_fds f of
        [] \<Rightarrow> None
      | d # _ \<Rightarrow>
          if d = fd then Some (f\<lparr>if_start_offset := offset\<rparr> # fs)
          else map_option ((#) f) (set_start_offset fs fd offset))"

definition handle_inherited_fd_offset :: "sup \<Rightarrow> nat \<Rightarrow> int \<Rightarrow> int \<Rightarrow> sup option" where
  "handle_inherited_fd_offset s p fd offset =
     (let i = exec_point s p in
      case get_fd s (xi_proc (s_execs s ! i)) fd of
        None \<Rightarrow> Some (disable s p ''Process reported offset for an intercepted seekable fd which is no known to be open'')
      | Some f \<Rightarrow>
          (let x = (if is_write (ofd_flags (ofd_of s f))
                    then disable_shortcutting_only_this (s_x s) i ''Inherited writable non-append fd not seeked to its end'' None
                    else s_x s)
           in map_option (\<lambda>fs. s\<lparr>s_x := set_node i ((node x i)\<lparr>en_inherited_files := fs\<rparr>) x\<rparr>)
                (set_start_offset (en_inherited_files (node x i)) fd offset)))"

fun receive_fds :: "sup \<Rightarrow> nat \<Rightarrow> bool \<Rightarrow> int list \<Rightarrow> sup option" where
  "receive_fds s p cloexec [] = Some s"
| "receive_fds s p cloexec (fd # fds) =
     do {
       s1 \<leftarrow> (if get_fd s p fd \<noteq> None
              then Some (disable s p ''Process successfully received fd via SCM_RIGHTS which is known to be open, which means interception missed at least one close()'')
              else case FileFD_typed s (if cloexec then O_CLOEXEC else 0) FD_SCM_RIGHTS p of
                (s0, f) \<Rightarrow> add_filefd s0 p fd f);
       receive_fds s1 p cloexec fds }"

definition handle_recvmsg_scm_rights :: "sup \<Rightarrow> nat \<Rightarrow> bool \<Rightarrow> int list \<Rightarrow> sup option" where
  "handle_recvmsg_scm_rights s p cloexec fds =
     map_option (\<lambda>s1. disable s1 p ''Receiving an fd via SCM_RIGHTS is not supported'') (receive_fds s p cloexec fds)"

section \<open>Working directory and umask\<close>

definition set_exec_info :: "nat \<Rightarrow> exec_info \<Rightarrow> sup \<Rightarrow> sup" where
  "set_exec_info i x s = s\<lparr>s_execs := (s_execs s)[i := x]\<rparr>"

definition add_wd :: "sup \<Rightarrow> nat \<Rightarrow> string \<Rightarrow> sup" where
  "add_wd s p d =
     (let i = exec_point s p; x = s_execs s ! i in set_exec_info i (x\<lparr>xi_wds := List.insert d (xi_wds x)\<rparr>) s)"

definition handle_fail_wd :: "sup \<Rightarrow> nat \<Rightarrow> string \<Rightarrow> sup" where
  "handle_fail_wd s p d =
     (let i = exec_point s p; x = s_execs s ! i
      in set_exec_info i (x\<lparr>xi_failed_wds := List.insert d (xi_failed_wds x)\<rparr>) s)"

definition handle_set_wd :: "sup \<Rightarrow> nat \<Rightarrow> string \<Rightarrow> sup option" where
  "handle_set_wd s p ar_d =
     do {
       name \<leftarrow> get_absolute s p AT_FDCWD ar_d;
       wd \<leftarrow> name;
       Some (add_wd (set_proc p ((proc s p)\<lparr>pr_wd := wd\<rparr>) s) p wd) }"

definition handle_set_fwd :: "sup \<Rightarrow> nat \<Rightarrow> int \<Rightarrow> sup option" where
  "handle_set_fwd s p fd =
     (case get_fd s p fd of
        None \<Rightarrow> Some (disable s p ''Process successfully fchdir()'ed to an  fd which is known to be closed, which means interception missed at least one open()'')
      | Some f \<Rightarrow> do {
          wd \<leftarrow> ofd_filename (ofd_of s f);
          Some (add_wd (set_proc p ((proc s p)\<lparr>pr_wd := wd\<rparr>) s) p wd) })"

definition handle_umask :: "sup \<Rightarrow> nat \<Rightarrow> mode_t \<Rightarrow> mode_t \<Rightarrow> sup" where
  "handle_umask s p old_umask new_umask =
     (let s1 = (if pr_umask (proc s p) \<noteq> old_umask
                then disable s p ''Old umask mismatches, which means interception missed at least one umask()'' else s)
      in set_proc p ((proc s1 p)\<lparr>pr_umask := new_umask AND 0x1FF\<rparr>) s1)"

section \<open>Creating pipes\<close>

text \<open>
  The arguments \<open>up\<close> and \<open>down\<close> are the results of the two \<open>fb_pipe2()\<close> calls, an error number or two
  fds; the \<open>pipe_created\<close> message carries an error or the two fds attached.
\<close>

definition close_sup_fds :: "int list \<Rightarrow> sup \<Rightarrow> sup" where
  "close_sup_fds fds s = s\<lparr>s_world := (s_world s)\<lparr>w_closed := w_closed (s_world s) @ fds\<rparr>\<rparr>"

definition pipe_created :: "int \<Rightarrow> int + int \<times> int \<Rightarrow> sup \<Rightarrow> sup" where
  "pipe_created fd_conn r s = s\<lparr>s_pipe_created := s_pipe_created s @ [(fd_conn, r)]\<rparr>"

definition handle_pipe_request ::
    "sup \<Rightarrow> nat \<Rightarrow> 32 word \<Rightarrow> int \<Rightarrow> int + int \<times> int \<Rightarrow> int + int \<times> int \<Rightarrow> sup option" where
  "handle_pipe_request s p flags fd_conn up down =
     (if pr_pending_pipe (proc s p) \<noteq> None then None
      else case up of
        Inl e \<Rightarrow> Some (pipe_created fd_conn (Inl e) s)
      | Inr (up0, up1) \<Rightarrow>
          (case down of
             Inl e \<Rightarrow> Some (close_sup_fds [up0, up1] (pipe_created fd_conn (Inl e) s))
           | Inr (down0, down1) \<Rightarrow> do {
               watched \<leftarrow> is_added_fd (w_epoll (s_world s)) down1;
               (w, fd0) \<leftarrow> (if watched then remap (s_world s) down1 else Some (s_world s, down1));
               let s1 = close_sup_fds [down0, up1] (pipe_created fd_conn (Inr (down0, up1)) (s\<lparr>s_world := w\<rparr>));
               Some (set_proc p ((proc s1 p)\<lparr>pr_pending_pipe := Some (fd0, up0, flags)\<rparr>) s1) }))"

definition add_pipe :: "sup \<Rightarrow> nat \<Rightarrow> nat \<Rightarrow> sup" where
  "add_pipe s p k =
     (let i = exec_point s p; x = s_execs s ! i
      in set_exec_info i (x\<lparr>xi_created_pipes := List.insert k (xi_created_pipes x)\<rparr>) s)"

definition create_pipe :: "sup \<Rightarrow> nat \<Rightarrow> int \<Rightarrow> int \<Rightarrow> int \<Rightarrow> int \<Rightarrow> 32 word \<Rightarrow> sup option" where
  "create_pipe s p fd0 fd1 conn0 conn1 flags =
     do {
       let k = length (s_pipes s);
       let s1 = s\<lparr>s_pipes := s_pipes s @ [fd0_shared_ptr (new_pipe k conn0)]\<rparr>;
       let (s2, f0) = FileFD_piped s1 (flags AND NOT O_ACCMODE) k p False;
       s3 \<leftarrow> add_filefd s2 p fd0 f0;
       let s4 = s3\<lparr>s_pipes := (s_pipes s3)[k := fd1_shared_ptr (s_pipes s3 ! k)]\<rparr>;
       let (s5, f1) = FileFD_piped s4 (flags AND NOT O_ACCMODE OR O_WRONLY) k p False;
       s6 \<leftarrow> add_filefd s5 p fd1 f1;
       s7 \<leftarrow> with_pipe s6 k (\<lambda>q w. add_fd1_and_proc q w conn1 (ffd_id f1) (exec_point s6 p) []);
       Some (add_pipe s7 p k) }"

definition handle_pipe_fds :: "sup \<Rightarrow> nat \<Rightarrow> int \<Rightarrow> int \<Rightarrow> sup option" where
  "handle_pipe_fds s p fd0 fd1 =
     do {
       (conn0, conn1, flags) \<leftarrow> pr_pending_pipe (proc s p);
       s1 \<leftarrow> (if get_fd s p fd0 \<noteq> None \<or> get_fd s p fd1 \<noteq> None
              then Some (close_sup_fds [conn0, conn1] (disable s p
                     ''Process created an fd which is known to be open, which means interception missed at least one close()''))
              else create_pipe s p fd0 fd1 conn0 conn1 flags);
       Some (set_proc p ((proc s1 p)\<lparr>pr_pending_pipe := None\<rparr>) s1) }"

end
