(* ===== verification/FB_Messages.thy ===== *)
theory FB_Messages
  imports FB_Handlers
begin

text \<open>
  \<^verbatim>\<open>src/firebuild/process_fbb_adaptor.h\<close>: from the messages of the interceptor to the handlers of the
  process.  A message has the fields of its entry in \<^verbatim>\<open>src/common/fbbcomm.def\<close> that the adaptor reads, in
  the order of the entry; an optional field is an \<open>option\<close> where the adaptor looks whether it is set.
\<close>

section \<open>Messages\<close>

datatype file_message =
    Msg_pre_open "int option" string
  | Msg_open "int option" string "32 word" "mode_t option" "32 word option" "int option" "int option" bool "bool option"
  | Msg_freopen "string option" "32 word" "int option" "int option" "int option" bool
  | Msg_dlopen "string option" "string list" bool
  | Msg_scandirat "int option" "string option" "int option"
  | Msg_truncate string int "int option"
  | Msg_unlink "int option" string "32 word option" "int option" bool
  | Msg_rmdir string "int option" bool
  | Msg_mkdir "int option" string "int option" "bool option"
  | Msg_fstatat "int option" "string option" "32 word option" "mode_t option" "int option" "int option" "int option" "int option"
  | Msg_faccessat "int option" string "32 word" "int option"
  | Msg_fchmodat "int option" "string option" "32 word option" "int option"
  | Msg_rename "int option" string "int option" string "int option"
  | Msg_symlink "int option"
  | Msg_mkfifo string mode_t "int option"
  | Msg_statfs "string option" "int option"
  | Msg_mktemp string
  | Msg_chdir string "int option"
  | Msg_fchdir int "int option"
  | Msg_umask mode_t mode_t

datatype fd_message =
    Msg_close int "int option"
  | Msg_closefrom int
  | Msg_close_range "32 word" "32 word" "32 word" "int option"
  | Msg_shm_open "int option" "int option"
  | Msg_memfd_create "32 word" int
  | Msg_timerfd_create int "32 word"
  | Msg_epoll_create "32 word option" int
  | Msg_eventfd "32 word" int
  | Msg_signalfd int "32 word" int
  | Msg_dup int int "int option"
  | Msg_dup3 int int "32 word option" "int option"
  | Msg_fcntl int int "32 word option" "int option" "int option"
  | Msg_ioctl int int "int option"
  | Msg_read_from_inherited int
  | Msg_write_to_inherited int bool
  | Msg_seek_in_inherited int bool
  | Msg_inherited_fd_offset int int
  | Msg_recvmsg_scm_rights bool "int list"
  | Msg_pipe_request "32 word option" "int + int \<times> int" "int + int \<times> int"
  | Msg_pipe_fds int int
  | Msg_socket "32 word" "int option" "int option"
  | Msg_socketpair "32 word" "int option" "int option" "int option"
  | Msg_connect int "string option" "int option"

definition fallback :: "'a \<Rightarrow> 'a option \<Rightarrow> 'a" where
  "fallback d x = (case x of Some v \<Rightarrow> v | None \<Rightarrow> d)"

lemma fallback_simps [simp]: "fallback d None = d" "fallback d (Some v) = v"
  by (simp_all add: fallback_def)

text \<open>A handler without a result is answered with 0.\<close>

definition void :: "sup option \<Rightarrow> (sup \<times> int) option" where
  "void r = map_option (\<lambda>s. (s, 0)) r"

section \<open>Dispatch\<close>

fun handle_file :: "sup \<Rightarrow> nat \<Rightarrow> file_message \<Rightarrow> int \<Rightarrow> int \<Rightarrow> (sup \<times> int) option" where
  "handle_file s p (Msg_pre_open dirfd pathname) fd_conn ack_num =
     handle_pre_open s p (fallback AT_FDCWD dirfd) pathname"
| "handle_file s p (Msg_open dirfd pathname flags mode resolve_flags ret error_no pre_open_sent tmp_file) fd_conn ack_num =
     handle_open s p (fallback AT_FDCWD dirfd) pathname flags (fallback 0 mode) (resolve_flags \<noteq> None)
       (fallback 0 resolve_flags) (fallback (-1) ret) (fallback 0 error_no) fd_conn ack_num pre_open_sent
       (fallback False tmp_file)"
| "handle_file s p (Msg_freopen pathname flags oldfd ret error_no pre_open_sent) fd_conn ack_num =
     handle_freopen s p pathname flags (fallback (-1) ret) (fallback (-1) ret) (fallback 0 error_no)
       fd_conn ack_num pre_open_sent"
| "handle_file s p (Msg_dlopen filename libs err) fd_conn ack_num =
     handle_dlopen s p libs filename err fd_conn ack_num"
| "handle_file s p (Msg_scandirat dirfd dirp error_no) fd_conn ack_num =
     handle_scandirat s p (fallback AT_FDCWD dirfd) dirp (fallback 0 error_no)"
| "handle_file s p (Msg_truncate pathname len error_no) fd_conn ack_num =
     handle_truncate s p pathname len (fallback 0 error_no)"
| "handle_file s p (Msg_unlink dirfd pathname flags error_no pre_open_sent) fd_conn ack_num =
     handle_unlink s p (fallback AT_FDCWD dirfd) pathname (fallback 0 flags) (fallback 0 error_no) pre_open_sent"
| "handle_file s p (Msg_rmdir pathname error_no pre_open_sent) fd_conn ack_num =
     handle_rmdir s p pathname (fallback 0 error_no) pre_open_sent"
| "handle_file s p (Msg_mkdir dirfd pathname error_no tmp_dir) fd_conn ack_num =
     handle_mkdir s p (fallback AT_FDCWD dirfd) pathname (fallback 0 error_no) (fallback False tmp_dir)"
| "handle_file s p (Msg_fstatat fd pathname flags mode sz sec nsec error_no) fd_conn ack_num =
     handle_fstatat s p (fallback AT_FDCWD fd) pathname (fallback 0 flags) (fallback 0 mode) (fallback 0 sz)
       (fallback 0 sec) (fallback 0 nsec) (fallback 0 error_no)"
| "handle_file s p (Msg_faccessat dirfd pathname mode error_no) fd_conn ack_num =
     handle_faccessat s p (fallback AT_FDCWD dirfd) pathname mode (fallback 0 error_no)"
| "handle_file s p (Msg_fchmodat fd pathname flags error_no) fd_conn ack_num =
     handle_fchmodat s p (fallback AT_FDCWD fd) pathname (fallback 0 flags) (fallback 0 error_no)"
| "handle_file s p (Msg_rename olddirfd oldpath newdirfd newpath error_no) fd_conn ack_num =
     handle_rename s p (fallback AT_FDCWD olddirfd) oldpath (fallback AT_FDCWD newdirfd) newpath (fallback 0 error_no)"
| "handle_file s p (Msg_symlink error_no) fd_conn ack_num = Some (handle_symlink s p (fallback 0 error_no))"
| "handle_file s p (Msg_mkfifo pathname mode error_no) fd_conn ack_num =
     handle_mkfifo s p pathname mode (fallback 0 error_no)"
| "handle_file s p (Msg_statfs pathname error_no) fd_conn ack_num =
     Some (handle_statfs s p pathname (fallback 0 error_no))"
| "handle_file s p (Msg_mktemp template) fd_conn ack_num = handle_mktemp s p template"
| "handle_file s p (Msg_chdir pathname error_no) fd_conn ack_num =
     (if fallback 0 error_no = 0 then void (handle_set_wd s p pathname)
      else void (Some (handle_fail_wd s p pathname)))"
| "handle_file s p (Msg_fchdir fd error_no) fd_conn ack_num =
     (if fallback 0 error_no = 0 then void (handle_set_fwd s p fd) else Some (s, 0))"
| "handle_file s p (Msg_umask msk ret) fd_conn ack_num = void (Some (handle_umask s p ret msk))"

fun handle_fd :: "sup \<Rightarrow> nat \<Rightarrow> fd_message \<Rightarrow> int \<Rightarrow> (sup \<times> int) option" where
  "handle_fd s p (Msg_close fd error_no) fd_conn = handle_close s p fd (fallback 0 error_no)"
| "handle_fd s p (Msg_closefrom lowfd) fd_conn = handle_closefrom s p lowfd"
| "handle_fd s p (Msg_close_range first last_fd flags error_no) fd_conn =
     handle_close_range s p first last_fd flags (fallback 0 error_no)"
| "handle_fd s p (Msg_shm_open ret error_no) fd_conn =
     Some (handle_shm_open s p (fallback (-1) ret) (fallback 0 error_no))"
| "handle_fd s p (Msg_memfd_create flags ret) fd_conn = handle_memfd_create s p flags ret"
| "handle_fd s p (Msg_timerfd_create ret flags) fd_conn = handle_timerfd_create s p flags ret"
| "handle_fd s p (Msg_epoll_create flags ret) fd_conn = handle_epoll_create s p (fallback 0 flags) ret"
| "handle_fd s p (Msg_eventfd flags ret) fd_conn = handle_eventfd s p flags ret"
| "handle_fd s p (Msg_signalfd fd flags ret) fd_conn = handle_signalfd s p fd flags ret"
| "handle_fd s p (Msg_dup oldfd ret error_no) fd_conn = handle_dup3 s p oldfd ret 0 (fallback 0 error_no)"
| "handle_fd s p (Msg_dup3 oldfd newfd flags error_no) fd_conn =
     handle_dup3 s p oldfd newfd (fallback 0 flags) (fallback 0 error_no)"
| "handle_fd s p (Msg_fcntl fd cmd arg ret error_no) fd_conn =
     handle_fcntl s p fd cmd (fallback 0 arg) (fallback (-1) ret) (fallback 0 error_no)"
| "handle_fd s p (Msg_ioctl fd cmd error_no) fd_conn = Some (handle_ioctl s p fd cmd (fallback 0 error_no))"
| "handle_fd s p (Msg_read_from_inherited fd) fd_conn = void (Some (handle_read_from_inherited s p fd))"
| "handle_fd s p (Msg_write_to_inherited fd is_pwrite) fd_conn =
     void (Some (handle_write_to_inherited s p fd is_pwrite))"
| "handle_fd s p (Msg_seek_in_inherited fd modify_offset) fd_conn =
     void (Some (handle_seek_in_inherited s p fd modify_offset))"
| "handle_fd s p (Msg_inherited_fd_offset fd offset) fd_conn = void (handle_inherited_fd_offset s p fd offset)"
| "handle_fd s p (Msg_recvmsg_scm_rights cloexec fds) fd_conn = void (handle_recvmsg_scm_rights s p cloexec fds)"
| "handle_fd s p (Msg_pipe_request flags up down) fd_conn =
     void (handle_pipe_request s p (fallback 0 flags) fd_conn up down)"
| "handle_fd s p (Msg_pipe_fds fd0 fd1) fd_conn = void (handle_pipe_fds s p fd0 fd1)"
| "handle_fd s p (Msg_socket type' ret error_no) fd_conn =
     void (handle_socket s p type' (fallback (-1) ret) (fallback 0 error_no))"
| "handle_fd s p (Msg_socketpair type' fd0 fd1 error_no) fd_conn =
     void (handle_socketpair s p type' (fallback (-1) fd0) (fallback (-1) fd1) (fallback 0 error_no))"
| "handle_fd s p (Msg_connect sockfd addr error_no) fd_conn =
     void (handle_connect s p sockfd addr (fallback 0 error_no))"

end
