(* ===== verification/FB_Writers.thy ===== *)
theory FB_Writers
  imports FB_Messages "HOL-Library.Multiset"
begin

text \<open>
  The accounting of writers.  \<open>FileName::open_for_writing\<close> and \<open>close_for_writing\<close> count who has a file
  open for writing: every open file description that can write to it, plus the \<open>pre_open\<close> messages
  whose outcome is not known yet.  \<open>accounted\<close> states that, and every handler keeps it.
\<close>

section \<open>What is held\<close>

lemma set_table_slots: "set (table_slots fds) = {f. Some f \<in> set fds}"
  by (auto simp: table_slots_def split: option.splits; force)

lemma set_slots: "set (slots s) = (\<Union>x \<in> set (s_procs s). set (proc_slots x))"
  by (simp add: slots_def)

lemma proc_slots_update [simp]:
  "proc_slots (x\<lparr>pr_pid := v0\<rparr>) = proc_slots x"
  "proc_slots (x\<lparr>pr_parent := v1\<rparr>) = proc_slots x"
  "proc_slots (x\<lparr>pr_exec_point := v2\<rparr>) = proc_slots x"
  "proc_slots (x\<lparr>pr_fork_point := v3\<rparr>) = proc_slots x"
  "proc_slots (x\<lparr>pr_fork := v4\<rparr>) = proc_slots x"
  "proc_slots (x\<lparr>pr_state := v5\<rparr>) = proc_slots x"
  "proc_slots (x\<lparr>pr_wd := v6\<rparr>) = proc_slots x"
  "proc_slots (x\<lparr>pr_umask := v7\<rparr>) = proc_slots x"
  "proc_slots (x\<lparr>pr_fork_children := v8\<rparr>) = proc_slots x"
  "proc_slots (x\<lparr>pr_exec_child := v9\<rparr>) = proc_slots x"
  "proc_slots (x\<lparr>pr_system_child := v10\<rparr>) = proc_slots x"
  "proc_slots (x\<lparr>pr_popen_children := v11\<rparr>) = proc_slots x"
  "proc_slots (x\<lparr>pr_exec_pending := v12\<rparr>) = proc_slots x"
  "proc_slots (x\<lparr>pr_posix_spawn_pending := v13\<rparr>) = proc_slots x"
  "proc_slots (x\<lparr>pr_has_pending_popen := v14\<rparr>) = proc_slots x"
  "proc_slots (x\<lparr>pr_mtime_to_file := v15\<rparr>) = proc_slots x"
  "proc_slots (x\<lparr>pr_pending_pipe := v16\<rparr>) = proc_slots x"
  "proc_slots (x\<lparr>pr_pending_popen := v17\<rparr>) = proc_slots x"
  by (simp_all add: proc_slots_def)

lemma set_proc_slots:
  "set (proc_slots x) = {f. Some f \<in> set (pr_fds x)} \<union>
     (case pr_expected_child x of Some e \<Rightarrow> {f. Some f \<in> set (ec_fds e)} | None \<Rightarrow> {})"
  by (simp add: proc_slots_def set_table_slots split: option.split)

definition ofds_used :: "sup \<Rightarrow> nat set" where
  "ofds_used s = ffd_ofd ` set (slots s)"

lemma ofd_held_used: "ofd_held s k \<longleftrightarrow> k \<in> ofds_used s"
  by (auto simp: ofd_held_def ofds_used_def list_ex_iff)

lemma set_update_swap: "i < length xs \<Longrightarrow> insert (xs ! i) (set (xs[i := v])) = insert v (set xs)"
proof (induction xs arbitrary: i)
  case (Cons x xs)
  then show ?case by (cases i) auto
qed simp

lemma get_fd_range: "get_fd s p fd = Some f \<Longrightarrow> 0 \<le> fd \<and> nat fd < length (pr_fds (proc s p))"
  by (auto simp: get_fd_def split: if_splits)

lemma slots_set_slot:
  assumes p: "p < length (s_procs s)" and fd: "0 \<le> fd" "nat fd < length (pr_fds (proc s p))"
  shows "set_option (get_fd s p fd) \<union> set (slots (set_slot p fd new s)) = set_option new \<union> set (slots s)"
proof -
  define x where "x = proc s p"
  define x' where "x' = x\<lparr>pr_fds := (pr_fds x)[nat fd := new]\<rparr>"
  define F where "F y = set (proc_slots y)" for y :: process
  have old: "get_fd s p fd = pr_fds x ! nat fd" using fd by (auto simp: get_fd_def x_def)
  have s': "s_procs (set_slot p fd new s) = (s_procs s)[p := x']"
    by (simp add: set_slot_def set_proc_def x'_def x_def)
  have "insert (pr_fds x ! nat fd) (set (pr_fds x')) = insert new (set (pr_fds x))"
    using fd(2) set_update_swap [of "nat fd" "pr_fds x" new] by (simp add: x'_def x_def)
  then have one: "set_option (get_fd s p fd) \<union> F x' = set_option new \<union> F x"
    by (cases new; cases "pr_fds x ! nat fd") (auto simp: F_def old set_proc_slots x'_def)
  have sl: "set (slots t) = (\<Union>y \<in> set (s_procs t). F y)" for t by (simp add: set_slots F_def)
  have "insert x (set ((s_procs s)[p := x'])) = insert x' (set (s_procs s))"
    using p set_update_swap [of p "s_procs s" x'] by (simp add: x_def proc_def)
  from arg_cong [OF this, of "\<lambda>A. \<Union>y \<in> A. F y"]
  have two: "F x \<union> set (slots (set_slot p fd new s)) = F x' \<union> set (slots s)" by (simp add: sl s')
  have mem: "x \<in> set (s_procs s)" "x' \<in> set ((s_procs s)[p := x'])"
    using p by (simp_all add: x_def proc_def set_update_memI)
  then have sub: "F x \<subseteq> set (slots s)" "F x' \<subseteq> set (slots (set_slot p fd new s))"
    by (auto simp: sl s')
  have "pr_fds x ! nat fd \<in> set (pr_fds x)" using fd(2) by (simp add: x_def)
  then have "set_option (get_fd s p fd) \<subseteq> F x" by (cases "pr_fds x ! nat fd") (auto simp: F_def old set_proc_slots)
  with one two sub show ?thesis by blast
qed

section \<open>The accounting\<close>

definition live_writers :: "sup \<Rightarrow> string \<Rightarrow> nat" where
  "live_writers s n =
     length (filter (\<lambda>k. writable_name (s_ofds s ! k) = Some n \<and> ofd_held s k) [0 ..< length (s_ofds s)])"

definition writers_in :: "file_ofd list \<Rightarrow> nat set \<Rightarrow> string \<Rightarrow> nat" where
  "writers_in ofds U n = length (filter (\<lambda>k. writable_name (ofds ! k) = Some n \<and> k \<in> U) [0 ..< length ofds])"

lemma live_writers_in: "live_writers s n = writers_in (s_ofds s) (ofds_used s) n"
  by (simp add: live_writers_def writers_in_def ofd_held_used)

definition sup_wf :: "sup \<Rightarrow> bool" where
  "sup_wf s \<longleftrightarrow>
     (\<forall>x \<in> set (s_procs s). pr_exec_point x < length (x_nodes (s_x s))) \<and>
     (\<forall>f \<in> set (slots s). ffd_ofd f < length (s_ofds s)) \<and>
     (\<forall>d \<in> set (s_ofds s). \<forall>q. ofd_opened_by d = Some q \<longrightarrow> q < length (s_procs s)) \<and>
     (\<forall>n m ow. x_writers (s_x s) n = Some (m, ow) \<longrightarrow> 0 < m)"

definition accounted :: "nat set \<Rightarrow> (string \<Rightarrow> nat) \<Rightarrow> sup \<Rightarrow> bool" where
  "accounted T pend s \<longleftrightarrow> sup_wf s \<and> (\<forall>k \<in> T. k < length (s_ofds s)) \<and>
     (\<forall>n. \<not> in_ignore_location (x_locs (s_x s)) n \<longrightarrow>
        writers_count (s_x s) n = writers_in (s_ofds s) (ofds_used s \<union> T) n + pend n)"

lemma writers_in_snoc:
  "writers_in (ofds @ [d]) (insert (length ofds) U) n =
     writers_in ofds U n + (if writable_name d = Some n then 1 else 0)"
proof -
  have "filter (\<lambda>k. writable_name ((ofds @ [d]) ! k) = Some n \<and> k \<in> insert (length ofds) U) [0 ..< length ofds]
      = filter (\<lambda>k. writable_name (ofds ! k) = Some n \<and> k \<in> U) [0 ..< length ofds]"
    by (rule filter_cong) (auto simp: nth_append)
  then show ?thesis by (simp add: writers_in_def)
qed

lemma count_insert:
  "k < m \<Longrightarrow> \<not> Q k \<Longrightarrow>
   length (filter (\<lambda>j. P j \<and> (j = k \<or> Q j)) [0 ..< m]) = length (filter (\<lambda>j. P j \<and> Q j) [0 ..< m]) + (if P k then 1 else 0)"
proof (induction m)
  case (Suc m)
  show ?case
  proof (cases "k = m")
    case True
    have "filter (\<lambda>j. P j \<and> (j = k \<or> Q j)) [0 ..< m] = filter (\<lambda>j. P j \<and> Q j) [0 ..< m]"
      using True by (intro filter_cong) auto
    with True Suc.prems show ?thesis by simp
  next
    case False
    with Suc show ?thesis by simp
  qed
qed simp

lemma writers_in_insert:
  "k < length ofds \<Longrightarrow> k \<notin> U \<Longrightarrow>
   writers_in ofds (insert k U) n = writers_in ofds U n + (if writable_name (ofds ! k) = Some n then 1 else 0)"
  using count_insert [of k "length ofds" "\<lambda>j. j \<in> U" "\<lambda>j. writable_name (ofds ! j) = Some n"]
  by (simp add: writers_in_def)

text \<open>Two states in which the same is held, and a step of the exec tree that leaves the writers alone.\<close>

definition same_writers :: "exec_state \<Rightarrow> exec_state \<Rightarrow> bool" where
  "same_writers x y \<longleftrightarrow> x_writers y = x_writers x \<and> x_locs y = x_locs x \<and> length (x_nodes y) = length (x_nodes x)"

lemma same_writers_refl [simp]: "same_writers x x"
  by (simp add: same_writers_def)

lemma same_shape_writers: "same_shape x y \<Longrightarrow> same_writers x y"
  by (simp add: same_writers_def same_shape_def)

lemma keeps_writers: "keeps x y \<Longrightarrow> same_writers x y"
  by (simp add: keeps_def same_shape_writers)

lemma accounted_cong:
  assumes "accounted T pend s" "same_writers (s_x s) (s_x s')" "s_ofds s' = s_ofds s"
    and "map pr_exec_point (s_procs s') = map pr_exec_point (s_procs s)"
    and "ofds_used s' \<union> T' = ofds_used s \<union> T"
  shows "accounted T' pend s'"
proof -
  have len: "length (s_procs s') = length (s_procs s)" using arg_cong [OF assms(4), of length] by simp
  have eps: "pr_exec_point ` set (s_procs s') = pr_exec_point ` set (s_procs s)"
    using arg_cong [OF assms(4), of set] by simp
  have e: "pr_exec_point x < length (x_nodes (s_x s))" if "x \<in> set (s_procs s')" for x
  proof -
    have "pr_exec_point x \<in> pr_exec_point ` set (s_procs s)" using that eps by blast
    then show ?thesis using assms(1) by (auto simp: accounted_def sup_wf_def)
  qed
  have u: "\<forall>k \<in> ofds_used s \<union> T. k < length (s_ofds s)"
    using assms(1) by (auto simp: accounted_def sup_wf_def ofds_used_def)
  then have "\<forall>k \<in> ofds_used s' \<union> T'. k < length (s_ofds s)" using assms(5) by simp
  then have "\<forall>f \<in> set (slots s'). ffd_ofd f < length (s_ofds s)" "\<forall>k \<in> T'. k < length (s_ofds s)"
    by (auto simp: ofds_used_def)
  with e assms len show ?thesis
    by (auto simp: accounted_def sup_wf_def same_writers_def writers_count_def)
qed

text \<open>The same for the process \<open>p\<close> whose message is handled.\<close>

definition ok :: "nat \<Rightarrow> nat set \<Rightarrow> (string \<Rightarrow> nat) \<Rightarrow> sup \<Rightarrow> bool" where
  "ok p T pend s \<longleftrightarrow> p < length (s_procs s) \<and> accounted T pend s"

lemma ok_cong:
  assumes "ok p T pend s" "same_writers (s_x s) (s_x s')" "s_ofds s' = s_ofds s"
    and "map pr_exec_point (s_procs s') = map pr_exec_point (s_procs s)"
    and "ofds_used s' \<union> T' = ofds_used s \<union> T"
  shows "ok p T' pend s'"
proof -
  have "length (s_procs s') = length (s_procs s)" using arg_cong [OF assms(4), of length] by simp
  with assms accounted_cong [of T pend s s' T'] show ?thesis by (simp add: ok_def)
qed

lemma slots_x [simp]:
  "slots (s\<lparr>s_x := x\<rparr>) = slots s" "slots (s\<lparr>s_pipes := q\<rparr>) = slots s" "slots (s\<lparr>s_world := w\<rparr>) = slots s"
  "slots (s\<lparr>s_next_ffd := i\<rparr>) = slots s" "slots (s\<lparr>s_acks := a\<rparr>) = slots s" "slots (s\<lparr>s_ofds := ds\<rparr>) = slots s"
  "slots (s\<lparr>s_execs := xs\<rparr>) = slots s" "slots (s\<lparr>s_pipe_created := c\<rparr>) = slots s"
  by (simp_all add: slots_def)

lemma ofds_used_x [simp]:
  "ofds_used (s\<lparr>s_x := x\<rparr>) = ofds_used s" "ofds_used (s\<lparr>s_pipes := q\<rparr>) = ofds_used s"
  "ofds_used (s\<lparr>s_world := w\<rparr>) = ofds_used s" "ofds_used (s\<lparr>s_next_ffd := i\<rparr>) = ofds_used s"
  "ofds_used (s\<lparr>s_acks := a\<rparr>) = ofds_used s" "ofds_used (s\<lparr>s_ofds := ds\<rparr>) = ofds_used s"
  "ofds_used (s\<lparr>s_execs := xs\<rparr>) = ofds_used s" "ofds_used (s\<lparr>s_pipe_created := c\<rparr>) = ofds_used s"
  by (simp_all add: ofds_used_def)

lemma get_fd_x [simp]:
  "get_fd (s\<lparr>s_x := x\<rparr>) p fd = get_fd s p fd" "get_fd (s\<lparr>s_pipes := q\<rparr>) p fd = get_fd s p fd"
  "get_fd (s\<lparr>s_world := w\<rparr>) p fd = get_fd s p fd" "get_fd (s\<lparr>s_next_ffd := i\<rparr>) p fd = get_fd s p fd"
  "get_fd (s\<lparr>s_acks := a\<rparr>) p fd = get_fd s p fd" "get_fd (s\<lparr>s_ofds := ds\<rparr>) p fd = get_fd s p fd"
  "get_fd (s\<lparr>s_execs := xs\<rparr>) p fd = get_fd s p fd" "get_fd (s\<lparr>s_pipe_created := c\<rparr>) p fd = get_fd s p fd"
  by (simp_all add: get_fd_def proc_def)

lemma ok_update [simp]:
  "ok p T pend (s\<lparr>s_pipes := q\<rparr>) = ok p T pend s" "ok p T pend (s\<lparr>s_world := w\<rparr>) = ok p T pend s"
  "ok p T pend (s\<lparr>s_next_ffd := i\<rparr>) = ok p T pend s" "ok p T pend (s\<lparr>s_acks := a\<rparr>) = ok p T pend s"
  "ok p T pend (s\<lparr>s_execs := xs\<rparr>) = ok p T pend s" "ok p T pend (s\<lparr>s_pipe_created := c\<rparr>) = ok p T pend s"
  by (simp_all add: ok_def accounted_def sup_wf_def)

lemma ok_x: "ok p T pend s \<Longrightarrow> same_writers (s_x s) x \<Longrightarrow> ok p T pend (s\<lparr>s_x := x\<rparr>)"
  by (rule ok_cong) simp_all

lemma ok_exec_point: "ok p T pend s \<Longrightarrow> exec_point s p < length (x_nodes (s_x s))"
  by (auto simp: ok_def accounted_def sup_wf_def exec_point_def proc_def)

lemma set_proc_same:
  assumes "ok p T pend s" "proc_slots x = proc_slots (proc s p)" "pr_exec_point x = pr_exec_point (proc s p)"
  shows "ok p T pend (set_proc p x s)"
proof -
  have p: "p < length (s_procs s)" using assms(1) by (simp add: ok_def)
  have "map proc_slots ((s_procs s)[p := x]) = map proc_slots (s_procs s)"
    "map pr_exec_point ((s_procs s)[p := x]) = map pr_exec_point (s_procs s)"
    using assms(2,3) by (simp_all add: map_update proc_def list_update_same_conv p)
  then have "slots (set_proc p x s) = slots s"
    "map pr_exec_point (s_procs (set_proc p x s)) = map pr_exec_point (s_procs s)"
    by (simp_all add: slots_def set_proc_def)
  with assms(1) show ?thesis
    by (intro ok_cong [OF assms(1)]) (simp_all add: ofds_used_def set_proc_def)
qed

section \<open>Steps that leave the writers alone\<close>

lemma ok_disable: "ok p T pend s \<Longrightarrow> ok p T pend (disable s q r)"
  by (auto simp: disable_def intro!: ok_x same_shape_writers bubble_up_shape)

lemma ok_disable_at: "ok p T pend s \<Longrightarrow> ok p T pend (disable_at s i r)"
  by (auto simp: disable_at_def intro!: ok_x same_shape_writers bubble_up_shape)

lemma ok_disable_to_excl: "ok p T pend s \<Longrightarrow> ok p T pend (disable_to_excl s q stop r)"
  by (auto simp: disable_to_excl_def intro!: ok_x same_shape_writers bubble_shape)

lemma ok_maybe_ack: "ok p T pend s \<Longrightarrow> ok p T pend (maybe_ack s c a)"
  by (simp add: maybe_ack_def ack_msg_def)

lemma ok_with_pipe: "ok p T pend s \<Longrightarrow> with_pipe s k f = Some s' \<Longrightarrow> ok p T pend s'"
  by (auto simp: with_pipe_def)

lemma ok_register_at:
  "ok p T pend s \<Longrightarrow> i < length (x_nodes (s_x s)) \<Longrightarrow> ok p T pend (fst (register_at s i n u))"
  using keeps_writers [OF register_usage_keeps [of i "s_x s" n u]] ok_x
  by (cases "register_file_usage_update (s_x s) i n u") (simp add: register_at_def)

lemma ok_register_or_disable: "ok p T pend s \<Longrightarrow> ok p T pend (fst (register_or_disable s p n u r))"
  using ok_register_at [of p T pend s "exec_point s p" n u] ok_exec_point [of p T pend s]
  by (cases "register_at s (exec_point s p) n u"; cases "snd (register_at s (exec_point s p) n u)")
    (simp_all add: register_or_disable_def ok_disable)

lemma ok_open_params: "ok p T pend s \<Longrightarrow> open_params s n fl m e t = Some (s', u) \<Longrightarrow> ok p T pend s'"
  by (auto simp: open_params_def same_writers_def intro!: ok_x)

section \<open>Opening and closing for writing\<close>

lemma open_for_writing_effect:
  assumes "i < length (x_nodes x)"
  shows "x_locs (open_for_writing x name i) = x_locs x" (is ?locs)
    and "length (x_nodes (open_for_writing x name i)) = length (x_nodes x)" (is ?len)
    and "\<not> in_ignore_location (x_locs x) name \<Longrightarrow>
      \<exists>ow. x_writers (open_for_writing x name i) = (x_writers x)(name \<mapsto> (writers_count x name + 1, ow))"
    and "in_ignore_location (x_locs x) name \<Longrightarrow> open_for_writing x name i = x"
proof -
  define y where "y = open_for_writing x name i"
  have "same_shape (x\<lparr>x_writers := x_writers y, x_generation := x_generation y\<rparr>) y \<and>
      (\<not> in_ignore_location (x_locs x) name \<longrightarrow>
        (\<exists>ow. x_writers y = (x_writers x)(name \<mapsto> (writers_count x name + 1, ow))))"
  proof (cases "in_ignore_location (x_locs x) name")
    case True
    then show ?thesis by (simp add: y_def open_for_writing_def same_shape_def)
  next
    case ign: False
    show ?thesis
    proof (cases "x_writers x name")
      case None
      define s1 where "s1 = x\<lparr>x_writers := (x_writers x)(name \<mapsto> (1, Some i))\<rparr>"
      define s2 where "s2 g = s1\<lparr>x_generation := (x_generation x)(name \<mapsto> g + 1)\<rparr>" for g
      have "keeps (s2 g) (fst (register_file_usage_update (s2 g) i name u))" for g u
        using assms by (intro register_usage_keeps) (simp add: s2_def s1_def)
      then have "same_shape (s2 g) (fst (register_file_usage_update (s2 g) i name u))" for g u
        by (simp add: keeps_def)
      with ign None show ?thesis
        by (auto simp: y_def open_for_writing_def same_shape_def Let_def s1_def s2_def writers_count_def split: option.splits)
    next
      case (Some w)
      obtain n ow where "w = (n, ow)" by (cases w)
      with ign Some bubble_shape show ?thesis
        by (auto simp: y_def open_for_writing_def same_shape_def Let_def writers_count_def split: option.splits)
    qed
  qed
  then show ?locs ?len "\<not> in_ignore_location (x_locs x) name \<Longrightarrow>
      \<exists>ow. x_writers (open_for_writing x name i) = (x_writers x)(name \<mapsto> (writers_count x name + 1, ow))"
    by (auto simp: y_def same_shape_def)
  show "in_ignore_location (x_locs x) name \<Longrightarrow> open_for_writing x name i = x" by (simp add: open_for_writing_def)
qed

definition bump :: "(string \<Rightarrow> nat) \<Rightarrow> string \<Rightarrow> string \<Rightarrow> nat" where
  "bump pend name = pend(name := pend name + 1)"

lemma ok_open_for_writing:
  assumes "ok p T pend s" "i < length (x_nodes (s_x s))"
  shows "ok p T (bump pend name) (s\<lparr>s_x := open_for_writing (s_x s) name i\<rparr>)"
proof (cases "in_ignore_location (x_locs (s_x s)) name")
  case True
  then have "open_for_writing (s_x s) name i = s_x s" by (rule open_for_writing_effect(4) [OF assms(2)])
  with assms True show ?thesis by (auto simp: ok_def accounted_def sup_wf_def bump_def)
next
  case False
  note eff = open_for_writing_effect(1,2) [OF assms(2), of name]
  from open_for_writing_effect(3) [OF assms(2) False] obtain ow where
    w: "x_writers (open_for_writing (s_x s) name i) = (x_writers (s_x s))(name \<mapsto> (writers_count (s_x s) name + 1, ow))" ..
  have "writers_count (open_for_writing (s_x s) name i) n =
      writers_count (s_x s) n + (if n = name then 1 else 0)" for n
    by (simp add: writers_count_def w)
  with assms(1) eff w show ?thesis
    by (auto simp: ok_def accounted_def sup_wf_def bump_def)
qed

lemma close_for_writing_effect:
  "x_locs (close_for_writing x name) = x_locs x" "x_nodes (close_for_writing x name) = x_nodes x"
  "\<not> in_ignore_location (x_locs x) name \<Longrightarrow> 0 < writers_count x name \<Longrightarrow>
     writers_count (close_for_writing x name) n = writers_count x n - (if n = name then 1 else 0)"
  "in_ignore_location (x_locs x) name \<Longrightarrow> close_for_writing x name = x"
  "\<forall>n m ow. x_writers x n = Some (m, ow) \<longrightarrow> 0 < m \<Longrightarrow> x_writers (close_for_writing x name) n = Some (m, ow) \<Longrightarrow> 0 < m"
      apply (auto simp: close_for_writing_def writers_count_def split: option.splits if_splits)
   apply blast+
  done

lemma ok_close_writing:
  assumes "ok p T (bump pend name) s"
  shows "ok p T pend (s\<lparr>s_x := close_for_writing (s_x s) name\<rparr>)"
proof -
  have pos: "0 < writers_count (s_x s) name" if "\<not> in_ignore_location (x_locs (s_x s)) name"
    using assms that by (simp add: ok_def accounted_def bump_def)
  have cnt: "writers_count (close_for_writing (s_x s) name) n =
      writers_in (s_ofds s) (ofds_used s \<union> T) n + pend n"
    if "\<not> in_ignore_location (x_locs (s_x s)) n" for n
  proof (cases "in_ignore_location (x_locs (s_x s)) name")
    case True
    with that assms show ?thesis
      by (auto simp: close_for_writing_effect(4) ok_def accounted_def bump_def)
  next
    case False
    with that assms show ?thesis
      by (auto simp: close_for_writing_effect(3) [OF False pos [OF False]] ok_def accounted_def bump_def)
  qed
  have "0 < m" if "x_writers (close_for_writing (s_x s) name) n = Some (m, ow)" for n m ow
    using close_for_writing_effect(5) [OF _ that] assms by (simp add: ok_def accounted_def sup_wf_def)
  with assms cnt show ?thesis
    by (simp add: ok_def accounted_def sup_wf_def close_for_writing_effect(1,2))
qed

section \<open>File descriptors come and go\<close>

lemma ok_new_ofd:
  assumes "ok p T pend s" "new_ofd s t fn fl p = (s', k)"
  shows "ok p (insert k T) pend s'" and "k = length (s_ofds s)" and "s_procs s' = s_procs s"
proof -
  define d where "d = \<lparr>ofd_type = t, ofd_filename = fn, ofd_flags = fl AND NOT FILE_CREATION_FLAGS, ofd_opened_by = Some p\<rparr>"
  define x where "x = (case writable_name d of Some name \<Rightarrow> open_for_writing (s_x s) name (exec_point s p) | None \<Rightarrow> s_x s)"
  have s': "s' = s\<lparr>s_ofds := s_ofds s @ [d], s_x := x\<rparr>" "k = length (s_ofds s)"
    using assms(2) by (simp_all add: new_ofd_def Let_def d_def x_def)
  define pend' where "pend' = (case writable_name d of Some name \<Rightarrow> bump pend name | None \<Rightarrow> pend)"
  have "ok p T pend' (s\<lparr>s_x := x\<rparr>)"
    using assms(1) ok_open_for_writing [OF assms(1) ok_exec_point [OF assms(1)]]
    by (cases "writable_name d") (simp_all add: pend'_def x_def)
  then have acc: "p < length (s_procs s)" "accounted T pend' (s\<lparr>s_x := x\<rparr>)" by (simp_all add: ok_def)
  have used: "writers_in (s_ofds s @ [d]) (ofds_used s \<union> insert (length (s_ofds s)) T) n =
      writers_in (s_ofds s) (ofds_used s \<union> T) n + (if writable_name d = Some n then 1 else 0)" for n
    using writers_in_snoc [of "s_ofds s" d "ofds_used s \<union> T" n] by simp
  have "pend' n = pend n + (if writable_name d = Some n then 1 else 0)" for n
    by (cases "writable_name d") (auto simp: pend'_def bump_def)
  with acc used show "ok p (insert k T) pend s'"
    by (auto simp: ok_def accounted_def sup_wf_def s' d_def less_Suc_eq)
  show "k = length (s_ofds s)" "s_procs s' = s_procs s" by (simp_all add: s')
qed

lemma ok_new_ffd:
  "ok p (insert k T) pend s \<Longrightarrow> new_ffd s k q c b = (s', f) \<Longrightarrow> ok p (insert (ffd_ofd f) T) pend s'"
  by (auto simp: new_ffd_def)

lemma ok_FileFD:
  assumes "ok p T pend s"
  shows "FileFD_typed s fl t p = (s', f) \<Longrightarrow> ok p (insert (ffd_ofd f) T) pend s'"
    and "FileFD_piped s fl q p b = (s', f) \<Longrightarrow> ok p (insert (ffd_ofd f) T) pend s'"
    and "FileFD_named s n fl p = (s', f) \<Longrightarrow> ok p (insert (ffd_ofd f) T) pend s'"
  by (auto simp: FileFD_typed_def FileFD_piped_def FileFD_named_def split: prod.splits
      intro!: ok_new_ffd [rotated] dest: ok_new_ofd(1) [OF assms])


lemma ok_unref_ofd:
  assumes "ok p (insert k T) pend s" "k \<notin> T"
  shows "ok p T pend (unref_ofd s k)"
proof (cases "ofd_held s k")
  case True
  then show ?thesis using ok_cong [OF assms(1), of s T] by (auto simp: unref_ofd_def ofd_held_used)
next
  case False
  then have out: "k \<notin> ofds_used s \<union> T" using assms(2) by (simp add: ofd_held_used)
  have k: "k < length (s_ofds s)" using assms(1) by (simp add: ok_def accounted_def)
  have cnt: "writers_in (s_ofds s) (ofds_used s \<union> insert k T) n =
      writers_in (s_ofds s) (ofds_used s \<union> T) n + (if writable_name (s_ofds s ! k) = Some n then 1 else 0)" for n
    using writers_in_insert [OF k out, of n] by simp
  define pend' where "pend' = (case writable_name (s_ofds s ! k) of Some name \<Rightarrow> bump pend name | None \<Rightarrow> pend)"
  have "pend' n = pend n + (if writable_name (s_ofds s ! k) = Some n then 1 else 0)" for n
    by (cases "writable_name (s_ofds s ! k)") (auto simp: pend'_def bump_def)
  with assms(1) cnt have "ok p T pend' s" by (auto simp: ok_def accounted_def)
  with False show ?thesis
    by (cases "writable_name (s_ofds s ! k)") (simp_all add: unref_ofd_def pend'_def ok_close_writing)
qed

lemma ok_unref_pipe: "ok p T pend s \<Longrightarrow> unref_pipe s f = Some s' \<Longrightarrow> ok p T pend s'"
  by (auto simp: unref_pipe_def split: option.splits if_splits intro: ok_with_pipe)

lemma ok_destroy_ffd:
  "ok p {ffd_ofd f} pend s \<Longrightarrow> destroy_ffd s f = Some s' \<Longrightarrow> ok p {} pend s'"
  using ok_unref_ofd [of p "ffd_ofd f" "{}" pend] by (auto simp: destroy_ffd_def dest: ok_unref_pipe)

lemma ok_set_slot:
  assumes "ok p (ffd_ofd ` set_option new \<union> T) pend s" "0 \<le> fd" "nat fd < length (pr_fds (proc s p))"
  shows "ok p (ffd_ofd ` set_option (get_fd s p fd) \<union> T) pend (set_slot p fd new s)"
proof -
  have p: "p < length (s_procs s)" using assms(1) by (simp add: ok_def)
  have "ffd_ofd ` set_option (get_fd s p fd) \<union> ofds_used (set_slot p fd new s) =
      ffd_ofd ` set_option new \<union> ofds_used s"
    using arg_cong [OF slots_set_slot [OF p assms(2,3), of new], of "image ffd_ofd"]
    by (simp add: ofds_used_def image_Un)
  then show ?thesis
    by (intro ok_cong [OF assms(1)])
      (auto simp: set_slot_def set_proc_def map_update proc_def list_update_same_conv p)
qed

lemma slot_mem:
  assumes "p < length (s_procs s)" "get_fd s p fd = Some f"
  shows "f \<in> set (slots s)"
proof -
  have "pr_fds (proc s p) ! nat fd \<in> set (pr_fds (proc s p))" using get_fd_range [OF assms(2)] by simp
  moreover have "pr_fds (proc s p) ! nat fd = Some f" using assms(2) by (auto simp: get_fd_def split: if_splits)
  moreover have "proc s p \<in> set (s_procs s)" using assms(1) by (simp add: proc_def)
  ultimately show ?thesis unfolding set_slots set_proc_slots by auto
qed

lemma get_fd_set_slot:
  assumes "p < length (s_procs s)" "0 \<le> fd" "nat fd < length (pr_fds (proc s p))"
  shows "get_fd (set_slot p fd new s) q e = (if q = p \<and> e = fd then new else get_fd s q e)"
  using assms by (auto simp: get_fd_def set_slot_def set_proc_def proc_def nth_list_update)

lemma ok_replace_slot:
  assumes "ok p T pend s" "get_fd s p fd = Some f" "ffd_ofd g = ffd_ofd f"
  shows "ok p T pend (set_slot p fd (Some g) s)"
proof -
  have r: "0 \<le> fd" "nat fd < length (pr_fds (proc s p))" using get_fd_range [OF assms(2)] by simp_all
  have p: "p < length (s_procs s)" using assms(1) by (simp add: ok_def)
  have "ffd_ofd f \<in> ofds_used s" using slot_mem [OF p assms(2)] by (simp add: ofds_used_def)
  then have "ok p (ffd_ofd ` set_option (Some g) \<union> T) pend s"
    using assms(3) by (intro ok_cong [OF assms(1)]) auto
  from ok_set_slot [OF this r] assms(2)
  have "ok p (insert (ffd_ofd g) T) pend (set_slot p fd (Some g) s)" by (simp add: assms(3))
  moreover have "ffd_ofd g \<in> ofds_used (set_slot p fd (Some g) s)"
    using slot_mem [of p "set_slot p fd (Some g) s" fd g] p
    by (simp add: get_fd_set_slot [OF p r] ofds_used_def) (simp add: set_slot_def set_proc_def)
  ultimately show ?thesis by (elim ok_cong) auto
qed


lemma procs_same:
  "with_pipe s k h = Some s' \<Longrightarrow> s_procs s' = s_procs s"
  "unref_pipe s f = Some s' \<Longrightarrow> s_procs s' = s_procs s"
  "destroy_ffd s f = Some s' \<Longrightarrow> s_procs s' = s_procs s"
  "s_procs (unref_ofd s o') = s_procs s"
  "s_procs (disable s q r) = s_procs s"
  by (auto simp: with_pipe_def unref_pipe_def destroy_ffd_def unref_ofd_def disable_def
      split: option.splits if_splits)

lemma get_fd_procs: "s_procs s' = s_procs s \<Longrightarrow> get_fd s' q e = get_fd s q e"
  by (simp add: get_fd_def proc_def)

lemma grow_fds:
  "n < length (grow_fds fds n)" "length fds \<le> length (grow_fds fds n)"
  "i < length (grow_fds fds n) \<Longrightarrow> grow_fds fds n ! i = (if i < length fds then fds ! i else None)"
  "{f. Some f \<in> set (grow_fds fds n)} = {f. Some f \<in> set fds}"
  by (auto simp: grow_fds_def nth_append)

definition grown :: "sup \<Rightarrow> nat \<Rightarrow> int \<Rightarrow> sup" where
  "grown s p fd = set_proc p ((proc s p)\<lparr>pr_fds := grow_fds (pr_fds (proc s p)) (nat fd)\<rparr>) s"

lemma grown_laws:
  assumes "p < length (s_procs s)"
  shows "get_fd (grown s p fd) q e = get_fd s q e"
    and "set (slots (grown s p fd)) = set (slots s)"
    and "nat fd < length (pr_fds (proc (grown s p fd) p))"
    and "length (s_procs (grown s p fd)) = length (s_procs s)"
    and "ok p T pend (grown s p fd) = ok p T pend s"
proof -
  define F where "F y = set (proc_slots y)" for y :: process
  define x' where "x' = (proc s p)\<lparr>pr_fds := grow_fds (pr_fds (proc s p)) (nat fd)\<rparr>"
  have F: "F x' = F (s_procs s ! p)" using grow_fds(4) by (simp add: F_def x'_def proc_def set_proc_slots)
  have "map F ((s_procs s)[p := x']) = map F (s_procs s)"
    using assms by (simp add: map_update F list_update_same_conv)
  from arg_cong [OF this, of "\<lambda>xs. \<Union>(set xs)"]
  show slots: "set (slots (grown s p fd)) = set (slots s)"
    by (simp add: set_slots grown_def set_proc_def F_def x'_def)
  show "get_fd (grown s p fd) q e = get_fd s q e"
    using assms grow_fds(2) [of "pr_fds (proc s p)" "nat fd"]
      grow_fds(3) [of "nat e" "pr_fds (proc s p)" "nat fd"]
    by (auto simp: get_fd_def grown_def set_proc_def proc_def nth_list_update nat_less_iff)
  show "nat fd < length (pr_fds (proc (grown s p fd) p))"
    using assms grow_fds(1) [of "nat fd" "pr_fds (proc s p)"] by (simp add: grown_def set_proc_def proc_def)
  show "length (s_procs (grown s p fd)) = length (s_procs s)" by (simp add: grown_def set_proc_def)
  have ep: "map pr_exec_point (s_procs (grown s p fd)) = map pr_exec_point (s_procs s)"
    using assms by (simp add: grown_def set_proc_def map_update proc_def list_update_same_conv)
  have g: "ofds_used (grown s p fd) = ofds_used s" "s_x (grown s p fd) = s_x s" "s_ofds (grown s p fd) = s_ofds s"
    using slots by (simp_all add: ofds_used_def grown_def set_proc_def)
  show "ok p T pend (grown s p fd) = ok p T pend s"
  proof
    assume "ok p T pend (grown s p fd)"
    then show "ok p T pend s" by (rule ok_cong) (simp_all add: g ep)
  next
    assume "ok p T pend s"
    then show "ok p T pend (grown s p fd)" by (rule ok_cong) (simp_all add: g ep)
  qed
qed

lemma add_filefd_cases:
  assumes "add_filefd s p fd f = Some s'"
  obtains "0 \<le> fd" "get_fd (grown s p fd) p fd = None" "s' = set_slot p fd (Some f) (grown s p fd)"
  | g where "0 \<le> fd" "get_fd (grown s p fd) p fd = Some g"
      "destroy_ffd (set_slot p fd (Some f) (grown s p fd)) g = Some s'"
  using assms by (auto simp: add_filefd_def Let_def grown_def split: if_splits option.splits)

lemma add_filefd_frame:
  assumes "add_filefd s p fd f = Some s'" "p < length (s_procs s)"
  shows "get_fd s' q e = (if q = p \<and> e = fd then Some f else get_fd s q e)"
    and "length (s_procs s') = length (s_procs s)"
proof -
  have fd: "0 \<le> fd" using assms(1) by (rule add_filefd_cases)
  define t where "t = set_slot p fd (Some f) (grown s p fd)"
  have t: "get_fd t q e = (if q = p \<and> e = fd then Some f else get_fd s q e)"
    using get_fd_set_slot [of p "grown s p fd" fd "Some f" q e] assms(2) fd grown_laws
    by (simp add: t_def)
  have l: "length (s_procs t) = length (s_procs s)"
    using grown_laws(4) [OF assms(2)] by (simp add: t_def set_slot_def set_proc_def)
  have "s_procs s' = s_procs t"
    using assms(1) by (rule add_filefd_cases) (auto simp: t_def procs_same)
  then show "get_fd s' q e = (if q = p \<and> e = fd then Some f else get_fd s q e)"
    "length (s_procs s') = length (s_procs s)"
    using t l get_fd_procs [of s' t q e] by simp_all
qed

lemma ok_add_filefd:
  assumes "ok p {ffd_ofd f} pend s" "add_filefd s p fd f = Some s'"
  shows "ok p {} pend s'"
proof -
  have p: "p < length (s_procs s)" using assms(1) by (simp add: ok_def)
  have fd: "0 \<le> fd" using assms(2) by (rule add_filefd_cases)
  have "ok p (ffd_ofd ` set_option (Some f) \<union> {}) pend (grown s p fd)"
    using assms(1) grown_laws(5) [OF p] by simp
  note slot = ok_set_slot [OF this fd grown_laws(3) [OF p]]
  from assms(2) show ?thesis
  proof (cases rule: add_filefd_cases)
    case 1
    with slot show ?thesis by simp
  next
    case (2 g)
    with slot show ?thesis by (auto intro: ok_destroy_ffd)
  qed
qed

lemma set_pipe_null_laws:
  assumes "set_pipe_null s p fd f = Some s'" "ok p T pend s" "get_fd s p fd = Some f"
  shows "ok p T pend s'" and "get_fd s' q e = (if q = p \<and> e = fd then Some (f\<lparr>ffd_pipe := None\<rparr>) else get_fd s q e)"
proof -
  have p: "p < length (s_procs s)" using assms(2) by (simp add: ok_def)
  show "ok p T pend s'" and "get_fd s' q e = (if q = p \<and> e = fd then Some (f\<lparr>ffd_pipe := None\<rparr>) else get_fd s q e)"
  proof (atomize (full), cases "ffd_pipe f")
    case None
    then have "f\<lparr>ffd_pipe := None\<rparr> = f" by simp
    with None assms show "ok p T pend s' \<and> get_fd s' q e = (if q = p \<and> e = fd then Some (f\<lparr>ffd_pipe := None\<rparr>) else get_fd s q e)"
      by (simp add: set_pipe_null_def)
  next
    case (Some k)
    then obtain s1 where s1: "with_pipe s k (\<lambda>q w. pipe_handle_close q w (ffd_id f)) = Some s1"
        "unref_pipe (set_slot p fd (Some (f\<lparr>ffd_pipe := None\<rparr>)) s1) f = Some s'"
      using assms(1) by (auto simp: set_pipe_null_def Option.bind_eq_Some_conv)
    have ps: "s_procs s1 = s_procs s" using s1(1) by (rule procs_same)
    then have g1: "get_fd s1 p fd = Some f" using assms(3) get_fd_procs by metis
    have "ok p T pend s1" using assms(2) s1(1) by (rule ok_with_pipe)
    then have "ok p T pend (set_slot p fd (Some (f\<lparr>ffd_pipe := None\<rparr>)) s1)" using g1 by (rule ok_replace_slot) simp
    then have "ok p T pend s'" using s1(2) by (rule ok_unref_pipe)
    moreover have "get_fd s' q e = get_fd (set_slot p fd (Some (f\<lparr>ffd_pipe := None\<rparr>)) s1) q e"
      using procs_same(2) [OF s1(2)] by (rule get_fd_procs)
    ultimately show "ok p T pend s' \<and> get_fd s' q e = (if q = p \<and> e = fd then Some (f\<lparr>ffd_pipe := None\<rparr>) else get_fd s q e)"
      using get_fd_set_slot [of p s1 fd _ q e] get_fd_range [OF g1] p ps get_fd_procs [OF ps, of q e] by simp
  qed
qed

lemma handle_close_ffd_laws:
  assumes "handle_close_ffd s p f fd = Some s'" "ok p {} pend s" "get_fd s p fd = Some f"
  shows "ok p {} pend s'" and "get_fd s' q e = (if q = p \<and> e = fd then None else get_fd s q e)"
proof -
  obtain s1 where s1: "ok p {} pend s1" "\<And>q e. get_fd s1 q e = (if q = p \<and> e = fd then Some (f\<lparr>ffd_pipe := None\<rparr>) else get_fd s q e)"
      "destroy_ffd (set_slot p fd None s1) (f\<lparr>ffd_pipe := None\<rparr>) = Some s'"
  proof (cases "ffd_pipe f")
    case None
    then have "f\<lparr>ffd_pipe := None\<rparr> = f" by simp
    with None assms that [of s] show ?thesis by (simp add: handle_close_ffd_def)
  next
    case (Some k)
    then obtain t u where t: "with_pipe s k (\<lambda>q w. pipe_handle_close q w (ffd_id f)) = Some t"
        "set_pipe_null t p fd f = Some u" "destroy_ffd (set_slot p fd None u) (f\<lparr>ffd_pipe := None\<rparr>) = Some s'"
      using assms(1) by (auto simp: handle_close_ffd_def Option.bind_eq_Some_conv)
    note ps = get_fd_procs [OF procs_same(1) [OF t(1)]]
    have tf: "ok p {} pend t" "get_fd t p fd = Some f"
      using assms(2,3) ok_with_pipe [OF _ t(1)] by (simp_all add: ps)
    from that [of u] set_pipe_null_laws [OF t(2) tf] t(3) show ?thesis by (simp add: ps)
  qed
  have p: "p < length (s_procs s1)" using s1(1) by (simp add: ok_def)
  have g: "get_fd s1 p fd = Some (f\<lparr>ffd_pipe := None\<rparr>)" by (simp add: s1(2))
  note r = get_fd_range [OF g]
  have "ok p (ffd_ofd ` set_option (get_fd s1 p fd) \<union> {}) pend (set_slot p fd None s1)"
    using s1(1) r by (intro ok_set_slot) simp_all
  then show "ok p {} pend s'" using s1(3) by (intro ok_destroy_ffd [of p "f\<lparr>ffd_pipe := None\<rparr>"]) (simp_all add: g)
  show "get_fd s' q e = (if q = p \<and> e = fd then None else get_fd s q e)"
    using get_fd_procs [OF procs_same(3) [OF s1(3)], of q e] get_fd_set_slot [OF p, of fd None q e] r
    by (simp add: s1(2))
qed


section \<open>Closing\<close>

lemma handle_close_some:
  assumes "handle_close s p fd err = Some (s', r)"
  shows "s' = s \<or> (\<exists>reason. s' = disable s p reason) \<or> (\<exists>f. get_fd s p fd = Some f \<and> handle_close_ffd s p f fd = Some s')"
  using assms unfolding handle_close_def by (auto split: if_splits option.splits)

lemma ok_handle_close: "ok p {} pend s \<Longrightarrow> handle_close s p fd err = Some (s', r) \<Longrightarrow> ok p {} pend s'"
  using handle_close_some [of s p fd err s' r] by (auto intro: ok_disable dest: handle_close_ffd_laws(1))

lemma ok_handle_force_close:
  "ok p {} pend s \<Longrightarrow> handle_force_close s p fd = Some (s', r) \<Longrightarrow> ok p {} pend s'"
  by (auto simp: handle_force_close_def split: if_splits intro: ok_handle_close)

lemma ok_close_range_loop:
  "ok p {} pend s \<Longrightarrow> close_range_loop s p flags fds = Some s' \<Longrightarrow> ok p {} pend s'"
proof (induction s p flags fds rule: close_range_loop.induct)
  case (2 s p flags fd fds)
  show ?case
  proof (cases "get_fd s p fd")
    case None
    with 2 show ?thesis by (auto split: if_splits)
  next
    case (Some f)
    have r: "\<not> (fd < 0 \<or> fd \<ge> int (length (pr_fds (proc s p))))" using "2.prems"(2) by (auto split: if_splits)
    show ?thesis
    proof (cases "has_flag flags CLOSE_RANGE_CLOEXEC")
      case True
      have "ok p {} pend (set_slot p fd (Some (f\<lparr>ffd_cloexec := True\<rparr>)) s)"
        using "2.prems"(1) Some by (rule ok_replace_slot) simp
      with "2.IH"(2) [OF r Some True] "2.prems"(2) r Some True show ?thesis by simp
    next
      case False
      then obtain s1 i where c: "handle_close s p fd 0 = Some (s1, i)" "close_range_loop s1 p flags fds = Some s'"
        using "2.prems"(2) r Some by (auto simp: Option.bind_eq_Some_conv split: prod.splits)
      have "ok p {} pend s1" using "2.prems"(1) c(1) by (rule ok_handle_close)
      with "2.IH"(3) [OF r Some False, of "(s1, i)" s1 i] c show ?thesis by simp
    qed
  qed
qed simp

lemma ok_handle_close_range:
  "ok p {} pend s \<Longrightarrow> handle_close_range s p a b flags err = Some (s', r) \<Longrightarrow> ok p {} pend s'"
  by (auto simp: handle_close_range_def Let_def split: if_splits intro: ok_close_range_loop)

lemma ok_close_fds_loop: "ok p {} pend s \<Longrightarrow> close_fds_loop s p i = Some s' \<Longrightarrow> ok p {} pend s'"
proof (induction s p i rule: close_fds_loop.induct)
  case (2 s p i)
  then show ?case
    by (cases "get_fd s p (int i)")
      (auto simp: Option.bind_eq_Some_conv dest: handle_close_ffd_laws(1))
qed simp

definition wds :: "sup \<Rightarrow> nat \<Rightarrow> string" where
  "wds s p = pr_wd (proc s p)"

lemma set_slot_wds [simp]: "wds (set_slot p fd f s) = wds s"
proof
  fix q
  show "wds (set_slot p fd f s) q = wds s q"
    by (cases "p < length (s_procs s)"; cases "q = p")
      (simp_all add: set_slot_def set_proc_def proc_def wds_def list_update_beyond)
qed

lemma wds_procs: "s_procs s' = s_procs s \<Longrightarrow> wds s' = wds s"
  by (simp add: proc_def wds_def fun_eq_iff)

lemma set_pipe_null_wds: "set_pipe_null s p fd f = Some s' \<Longrightarrow> wds s' = wds s"
  by (auto simp: set_pipe_null_def Option.bind_eq_Some_conv split: option.splits
      dest!: wds_procs [OF procs_same(1)] wds_procs [OF procs_same(2)])

lemma handle_close_ffd_wds: "handle_close_ffd s p f fd = Some s' \<Longrightarrow> wds s' = wds s"
proof (cases "ffd_pipe f")
  case (Some k)
  assume "handle_close_ffd s p f fd = Some s'"
  with Some obtain t u where "with_pipe s k (\<lambda>q w. pipe_handle_close q w (ffd_id f)) = Some t"
      "set_pipe_null t p fd f = Some u" "destroy_ffd (set_slot p fd None u) (f\<lparr>ffd_pipe := None\<rparr>) = Some s'"
    by (auto simp: handle_close_ffd_def Option.bind_eq_Some_conv)
  from wds_procs [OF procs_same(1) [OF this(1)]] set_pipe_null_wds [OF this(2)] wds_procs [OF procs_same(3) [OF this(3)]]
  show ?thesis by simp
qed (auto simp: handle_close_ffd_def dest: wds_procs [OF procs_same(3)])

lemma handle_close_wds: "handle_close s p fd err = Some (s', r) \<Longrightarrow> wds s' = wds s"
  by (drule handle_close_some) (auto intro: wds_procs [OF procs_same(5)] dest: handle_close_ffd_wds)

section \<open>The handlers of messages about files\<close>

lemma absolute_cwd: "wds s' = wds s \<Longrightarrow> get_absolute s' p AT_FDCWD n = get_absolute s p AT_FDCWD n"
  by (simp add: get_absolute_def get_fd_filename_def wds_def fun_eq_iff)

lemma ok_pre_open:
  "ok p {} pend s \<Longrightarrow> handle_pre_open s p dirfd n = Some (s', r) \<Longrightarrow>
   ok p {} (case get_absolute s p dirfd n of Some (Some name) \<Rightarrow> bump pend name | _ \<Rightarrow> pend) s'"
  by (auto simp: handle_pre_open_def Option.bind_eq_Some_conv split: option.splits
      intro: ok_disable ok_open_for_writing [OF _ ok_exec_point])

lemma ok_handle_open:
  assumes "handle_open s p dirfd ar_name flags mode o2 rf fd err c a pre tmp = Some (s', r)"
    and "ok p {} (if \<not> (o2 \<and> rf \<noteq> 0) \<and> pre
                  then case get_absolute s p dirfd ar_name of Some (Some n) \<Rightarrow> bump pend n | _ \<Rightarrow> pend else pend) s"
  shows "ok p {} pend s'"
proof (cases "o2 \<and> rf \<noteq> 0")
  case True
  with assms show ?thesis by (auto simp: handle_open_def intro!: ok_maybe_ack ok_disable)
next
  case o2: False
  show ?thesis
  proof (cases "get_absolute s p dirfd ar_name")
    case None
    with assms o2 show ?thesis by (simp add: handle_open_def del: de_Morgan_conj)
  next
    case (Some name)
    show ?thesis
    proof (cases name)
      case None
      then have "ok p {} pend s" using assms(2) Some by (simp split: if_splits)
      with assms(1) o2 Some None show ?thesis by (auto simp: handle_open_def intro!: ok_maybe_ack ok_disable)
    next
      case n: (Some n)
      define pend' where "pend' = (if pre then bump pend n else pend)"
      have s: "ok p {} pend' s" using assms(2) o2 Some n by (simp add: pend'_def split: if_splits)
      define mk where "mk = (if flags AND O_TMPFILE = O_TMPFILE then FileFD_typed s flags FD_SPECIAL p
                             else FileFD_named s n flags p)"
      define add where "add = (if fd \<ge> 0 then case mk of (s0, f) \<Rightarrow> add_filefd s0 p fd f else Some s)"
      define set where "set s1 = (if pre then close_writing s1 n else s1)" for s1
      define upd where "upd s2 = open_params s2 n (if flags AND O_TMPFILE = O_TMPFILE then O_RDWR OR O_DIRECTORY else flags)
          (mode AND 0xFFF AND NOT (pr_umask (proc s2 p))) err
          (if flags AND O_TMPFILE = O_TMPFILE then False else tmp)" for s2
      have run: "Option.bind add (\<lambda>s1. Option.bind (upd (set s1)) (\<lambda>(s3, u).
          let (s4, r) = register_or_disable s3 p n u ''Could not register the opening of a file''
          in Some (maybe_ack s4 c a, r))) = Some (s', r)"
        using assms(1) o2 Some n unfolding mk_def add_def set_def upd_def
        by (simp add: handle_open_def Let_def del: de_Morgan_conj split del: if_split)
      then obtain s1 where 1: "add = Some s1" by (cases add) simp_all
      with run obtain s3 u where 3: "upd (set s1) = Some (s3, u)" by (cases "upd (set s1)") (simp, fastforce)
      with run 1 have 4: "s' = maybe_ack (fst (register_or_disable s3 p n u ''Could not register the opening of a file'')) c a"
        by (simp add: Let_def split: prod.splits)
      have "ok p {} pend' s1"
      proof (cases "fd \<ge> 0")
        case True
        obtain s0 f where mk: "mk = (s0, f)" by (cases mk)
        then have "ok p {ffd_ofd f} pend' s0" using ok_FileFD [OF s] by (auto simp: mk_def split: if_splits)
        with 1 True mk show ?thesis by (auto simp: add_def intro: ok_add_filefd)
      next
        case False
        with 1 s show ?thesis by (simp add: add_def)
      qed
      then have "ok p {} pend (set s1)"
        by (simp add: pend'_def set_def close_writing_def ok_close_writing split: if_splits)
      from ok_maybe_ack [OF ok_register_or_disable [OF ok_open_params [OF this 3 [unfolded upd_def]]]]
      show ?thesis by (simp add: 4)
    qed
  qed
qed


definition settles :: "bool \<Rightarrow> string option option \<Rightarrow> (string \<Rightarrow> nat) \<Rightarrow> string \<Rightarrow> nat" where
  "settles pre name pend = (if pre then case name of Some (Some n) \<Rightarrow> bump pend n | _ \<Rightarrow> pend else pend)"

lemma ok_handle_open':
  assumes "handle_open s p dirfd ar_name flags mode o2 rf fd err c a pre tmp = Some (s', r)"
    and "ok p {} (settles (\<not> (o2 \<and> rf \<noteq> 0) \<and> pre) (get_absolute s p dirfd ar_name) pend) s"
  shows "ok p {} pend s'"
  using assms(2) unfolding settles_def by (rule ok_handle_open [OF assms(1)])

lemma ok_plain_open:
  assumes "handle_open s p dirfd ar_name flags mode False 0 fd err c a False tmp = Some (s', r)" "ok p {} pend s"
  shows "ok p {} pend s'"
  using ok_handle_open' [OF assms(1), of pend] assms(2) by (simp add: settles_def)

lemma ok_handle_freopen:
  assumes "handle_freopen s p name flags oldfd fd err c a pre = Some (s', r)"
    and "ok p {} (settles (pre \<and> name \<noteq> None) (get_absolute s p AT_FDCWD (the name)) pend) s"
  shows "ok p {} pend s'"
proof (cases name)
  case (Some n)
  define pend' where "pend' = settles pre (get_absolute s p AT_FDCWD n) pend"
  from assms(1) Some obtain s1 i where c1: "handle_close s p oldfd 0 = Some (s1, i)"
    by (cases "handle_close s p oldfd 0") (simp_all add: handle_freopen_def, fastforce)
  with assms(1) Some have c2: "handle_open s1 p AT_FDCWD n flags 0x1B6 False 0 fd err c a pre False = Some (s', r)"
    by (simp add: handle_freopen_def)
  note c = c1 c2
  have "ok p {} pend' s" using assms(2) Some by (simp add: pend'_def)
  then have "ok p {} pend' s1" using c(1) by (rule ok_handle_close)
  moreover have "get_absolute s1 p AT_FDCWD n = get_absolute s p AT_FDCWD n"
    using absolute_cwd [OF handle_close_wds [OF c(1)]] .
  ultimately show ?thesis using ok_handle_open' [OF c(2), of pend] by (simp add: pend'_def)
next
  case None
  then have ok: "ok p {} pend s" using assms(2) by (simp add: settles_def)
  have pre: "\<not> pre" using assms(1) None by (simp add: handle_freopen_def split: if_splits)
  show ?thesis
  proof (cases "case get_fd s p oldfd of Some f \<Rightarrow> ofd_filename (ofd_of s f) | None \<Rightarrow> None")
    case None
    with assms(1) \<open>name = None\<close> pre ok show ?thesis
      by (auto simp: handle_freopen_def intro!: ok_maybe_ack ok_disable)
  next
    case (Some fn)
    with assms(1) \<open>name = None\<close> pre obtain s1 i where c1: "handle_close s p oldfd 0 = Some (s1, i)"
      by (cases "handle_close s p oldfd 0") (simp_all add: handle_freopen_def, fastforce)
    with assms(1) \<open>name = None\<close> Some pre
    have c2: "handle_open s1 p AT_FDCWD fn flags 0x1B6 False 0 fd err c a False False = Some (s', r)"
      by (simp add: handle_freopen_def)
    note c = c1 c2
    from ok_plain_open [OF c(2) ok_handle_close [OF ok c(1)]] show ?thesis .
  qed
qed

lemma ok_register_eq:
  "ok p T pend s \<Longrightarrow> register_or_disable s p n u m = (s', r) \<Longrightarrow> ok p T pend s'"
  using ok_register_or_disable [of p T pend s n u m] by simp

lemma ok_open_register:
  "ok p T pend s \<Longrightarrow> open_params s n fl md e t = Some (s1, u) \<Longrightarrow> register_or_disable s1 p n' u m = (s', r) \<Longrightarrow> ok p T pend s'"
  by (rule ok_register_eq [OF ok_open_params])

lemma ok_register_libs: "register_libs s p libs = Some s' \<Longrightarrow> ok p {} pend s \<Longrightarrow> ok p {} pend s'"
proof (induction libs arbitrary: s)
  case (Cons l libs)
  then obtain n t u where step: "open_params s n 0 0 0 False = Some (t, u)"
      "register_libs (fst (register_or_disable t p n u ''Could not register loading the shared library'')) p libs = Some s'"
    by (auto simp: Option.bind_eq_Some_conv)
  show ?case
    by (rule Cons.IH [OF step(2) ok_register_or_disable [OF ok_open_params [OF Cons.prems(2) step(1)]]])
qed simp

lemma ok_handle_dlopen:
  assumes "handle_dlopen s p libs fn err c a = Some (s', r)" "ok p {} pend s"
  shows "ok p {} pend s'"
proof -
  obtain s1 where 1: "register_libs s p libs = Some s1"
    using assms(1) by (cases "register_libs s p libs") (simp_all add: handle_dlopen_def)
  have ok: "ok p {} pend s1" using ok_register_libs [OF 1 assms(2)] .
  have "ok p {} pend t" if "handle_open s1 p AT_FDCWD n 0 0 False 0 (-1) ENOENT 0 0 False False = Some (t, i)" for n t i
    using ok_plain_open [OF that ok] .
  with assms(1) 1 ok show ?thesis
    by (auto simp: handle_dlopen_def Option.bind_eq_Some_conv split: if_splits intro!: ok_maybe_ack intro: ok_disable)
qed

lemma ok_handle_scandirat:
  "ok p {} pend s \<Longrightarrow> handle_scandirat s p d n e = Some (s', r) \<Longrightarrow> ok p {} pend s'"
  by (auto simp: handle_scandirat_def Option.bind_eq_Some_conv split: if_splits option.splits
      intro: ok_disable dest: ok_open_register ok_register_eq)

end
