(* ===== verification/FB_Accounting.thy ===== *)
theory FB_Accounting
  imports FB_Writers
begin

text \<open>
  Every message of the interceptor about files and file descriptors keeps the accounting of writers of
  \<^theory_text>\<open>FB_Writers\<close>.
\<close>

section \<open>The other messages about files\<close>

lemma absolute_bind:
  "Option.bind g (\<lambda>name. case name of None \<Rightarrow> A | Some n \<Rightarrow> B n) = Some r \<longleftrightarrow>
     g = Some None \<and> A = Some r \<or> (\<exists>n. g = Some (Some n) \<and> B n = Some r)"
  by (cases g; cases "the g") auto

lemma ok_handle_truncate:
  assumes "ok p {} (settles True (get_absolute s p AT_FDCWD n) pend) s" "handle_truncate s p n len e = Some (s', r)"
  shows "ok p {} pend s'"
proof (cases "get_absolute s p AT_FDCWD n")
  case (Some name)
  show ?thesis
  proof (cases name)
    case None
    with assms Some show ?thesis by (auto simp: handle_truncate_def settles_def intro: ok_disable)
  next
    case n: (Some m)
    then have "ok p {} pend (close_writing s m)"
      using assms(1) Some by (simp add: close_writing_def settles_def ok_close_writing)
    with assms(2) Some n show ?thesis
      by (auto simp: handle_truncate_def Option.bind_eq_Some_conv dest: ok_open_register)
  qed
qed (use assms in \<open>simp add: handle_truncate_def\<close>)

lemma ok_handle_unlink:
  assumes "ok p {} (settles pre (get_absolute s p d n) pend) s" "handle_unlink s p d n fl e pre = Some (s', r)"
  shows "ok p {} pend s'"
proof (cases "get_absolute s p d n")
  case (Some name)
  show ?thesis
  proof (cases name)
    case None
    with assms Some show ?thesis by (auto simp: handle_unlink_def settles_def intro: ok_disable split: if_splits)
  next
    case n: (Some m)
    define s1 where "s1 = (if pre then close_writing s m else s)"
    have "ok p {} pend s1"
      using assms(1) Some n by (auto simp: s1_def close_writing_def settles_def ok_close_writing)
    with assms(2) Some n show ?thesis
      by (auto simp: handle_unlink_def Let_def simp flip: s1_def split: if_splits dest: ok_register_eq)
  qed
qed (use assms in \<open>simp add: handle_unlink_def\<close>)

lemma ok_handle_mkdir: "ok p {} pend s \<Longrightarrow> handle_mkdir s p d n e t = Some (s', r) \<Longrightarrow> ok p {} pend s'"
  by (auto simp: handle_mkdir_def Option.bind_eq_Some_conv split: option.splits intro: ok_disable dest: ok_register_eq)

lemma ok_stat_named: "ok p {} pend s \<Longrightarrow> ok p {} pend (fst (stat_named s p n md sz sec nsec e))"
  using ok_register_or_disable [of p "{}" pend s n "get_from_stat_params (env s) n md sz e" "''Could not register fstatat() on''"]
  by (auto simp: stat_named_def proc_slots_def split: prod.splits intro!: set_proc_same)

lemma ok_handle_fstatat:
  "ok p {} pend s \<Longrightarrow> handle_fstatat s p d n fl md sz sec nsec e = Some (s', r) \<Longrightarrow> ok p {} pend s'"
  using ok_stat_named [of p pend s _ md sz sec nsec e]
  by (auto simp: handle_fstatat_def Option.bind_eq_Some_conv split: option.splits if_splits intro: ok_disable)
    (metis fst_conv)+

lemma ok_handle_faccessat: "ok p {} pend s \<Longrightarrow> handle_faccessat s p d n md e = Some (s', r) \<Longrightarrow> ok p {} pend s'"
  unfolding handle_faccessat_def absolute_bind
  by (auto split: option.splits intro: ok_disable dest: ok_register_eq)

lemma ok_chmod_named:
  assumes "ok p {} pend s" "\<forall>i. rf = Some i \<longrightarrow> i < length (x_nodes (s_x s))"
  shows "ok p {} pend (fst (chmod_named s rf n e))"
proof (cases rf)
  case (Some i)
  obtain s1 b where r: "register_at s i n (FileUsageUpdate (env s) n EXIST False True) = (s1, b)"
    by (cases "register_at s i n (FileUsageUpdate (env s) n EXIST False True)")
  have "ok p {} pend s1" using ok_register_at [OF assms(1), of i n "FileUsageUpdate (env s) n EXIST False True"] assms(2) Some r by simp
  with assms(1) Some r show ?thesis by (cases b) (simp_all add: chmod_named_def ok_disable_at)
qed (use assms(1) in \<open>simp add: chmod_named_def\<close>)

lemma opened_by_in_range:
  assumes "ok p T pend s" "get_fd s p fd = Some f" "opened_by_exec_point s f = Some i"
  shows "i < length (x_nodes (s_x s))"
proof -
  have "f \<in> set (slots s)" using assms(1) slot_mem [OF _ assms(2)] by (simp add: ok_def)
  then have "ofd_of s f \<in> set (s_ofds s)" using assms(1) by (auto simp: ok_def accounted_def sup_wf_def ofd_of_def)
  with assms show ?thesis
    by (auto simp: ok_def accounted_def sup_wf_def opened_by_exec_point_def exec_point_opt_def exec_point_def proc_def
        bind_eq_Some_conv split: if_splits)
qed

lemma ok_handle_fchmodat: 
  assumes ok: "ok p {} pend s" and h: "handle_fchmodat s p fd n fl e = Some (s', r)"
  shows "ok p {} pend s'"
proof (cases "on_opened_fd n fl")
  case True
  show ?thesis
  proof (cases "get_fd s p fd")
    case None
    with assms True show ?thesis by (auto simp: handle_fchmodat_def split: if_splits intro: ok_disable)
  next
    case (Some f)
    define s1 where "s1 = disable_to_excl s p (opened_by_exec_point s f) ''fchmod() on an inherited fd not supported''"
    have 1: "ok p {} pend s1" using ok by (simp add: s1_def ok_disable_to_excl)
    have "length (x_nodes (s_x s1)) = length (x_nodes (s_x s))"
      using bubble_shape by (simp add: s1_def disable_to_excl_def same_shape_def)
    then have "\<forall>i. opened_by_exec_point s f = Some i \<longrightarrow> i < length (x_nodes (s_x s1))"
      using opened_by_in_range [OF ok Some] by simp
    from ok_chmod_named [OF 1 this] 1 h True Some show ?thesis
      by (auto simp: handle_fchmodat_def Let_def simp flip: s1_def split: option.splits) (metis fst_conv)
  qed
next
  case False
  have "ok p {} pend (fst (chmod_named s (Some (exec_point s p)) m e))" for m
    using ok_chmod_named [OF ok] ok_exec_point [OF ok] by simp
  with assms False show ?thesis
    by (auto simp: handle_fchmodat_def Option.bind_eq_Some_conv split: option.splits intro: ok_disable) (metis fst_conv)
qed

lemma ok_handle_mkfifo:
  assumes ok: "ok p {} pend s" and h: "handle_mkfifo s p n md e = Some (s', r)"
  shows "ok p {} pend s'"
proof -
  from h consider "get_absolute s p AT_FDCWD n = Some None" | m where "get_absolute s p AT_FDCWD n = Some (Some m)"
    unfolding handle_mkfifo_def absolute_bind by blast
  then show ?thesis
  proof cases
    case 1
    with ok h show ?thesis by (auto simp: handle_mkfifo_def intro: ok_disable)
  next
    case (2 m)
    obtain s1 u where o: "open_params s m (O_RDWR OR O_CREAT OR O_EXCL) md e True = Some (s1, u)"
      using h 2 by (cases "open_params s m (O_RDWR OR O_CREAT OR O_EXCL) md e True") (auto simp: handle_mkfifo_def)
    obtain s2 i where r: "register_or_disable s1 p m u ''Could not register mkfifo() on'' = (s2, i)" by (cases "register_or_disable s1 p m u ''Could not register mkfifo() on''")
    have "ok p {} pend s2" by (rule ok_open_register [OF ok o r])
    with h 2 o r show ?thesis by (auto simp: handle_mkfifo_def intro: ok_disable split: if_splits)
  qed
qed

lemma ok_handle_statfs: "ok p {} pend s \<Longrightarrow> ok p {} pend (fst (handle_statfs s p n e))"
  by (auto simp: handle_statfs_def split: option.splits intro: ok_disable ok_register_or_disable)

lemma ok_handle_mktemp: "ok p {} pend s \<Longrightarrow> handle_mktemp s p n = Some (s', r) \<Longrightarrow> ok p {} pend s'"
  by (auto simp: handle_mktemp_def Option.bind_eq_Some_conv intro!: ok_register_or_disable dest: ok_open_params)

lemma ok_register_rename:
  assumes "ok p {} pend s" "register_rename s p o' n e = Some (s', r)"
  shows "ok p {} pend s'"
proof -
  have cache: "ok p {} pend (s\<lparr>s_x := (s_x s)\<lparr>x_cache := db\<rparr>\<rparr>)" for db
    using assms(1) by (rule ok_x) (simp add: same_writers_def)
  have two: "ok p {} pend t" if "register_or_disable (s\<lparr>s_x := (s_x s)\<lparr>x_cache := db\<rparr>\<rparr>) p o' u m = (t, i)" for db o' u m t i
    using ok_register_eq [OF cache that] .
  show ?thesis
  proof (cases "e = EEXIST \<or> e \<noteq> 0 \<or> o' = None \<or> n = None")
    case True
    with assms show ?thesis
      by (auto simp: register_rename_def Option.bind_eq_Some_conv split: if_splits option.splits
          intro: ok_disable dest: ok_register_eq)
  next
    case False
    with assms show ?thesis
      by (auto simp: register_rename_def Option.bind_eq_Some_conv split: if_splits option.splits prod.splits
          intro: ok_disable two dest: two ok_register_eq [OF two])
  qed
qed

lemma ok_handle_rename:
  assumes "ok p {} (settles True (get_absolute s p d1 n1) (settles True (get_absolute s p d2 n2) pend)) s"
    "handle_rename s p d1 n1 d2 n2 e = Some (s', r)"
  shows "ok p {} pend s'"
proof -
  obtain old_name new_name where abs: "get_absolute s p d1 n1 = Some old_name" "get_absolute s p d2 n2 = Some new_name"
    using assms(2) by (auto simp: handle_rename_def Option.bind_eq_Some_conv)
  define s1 where "s1 = (case old_name of Some n \<Rightarrow> close_writing s n | None \<Rightarrow> s)"
  define s2 where "s2 = (case new_name of Some n \<Rightarrow> close_writing s1 n | None \<Rightarrow> s1)"
  have "ok p {} (settles True (Some new_name) pend) s1"
    using assms(1) abs by (cases old_name) (simp_all add: s1_def settles_def close_writing_def ok_close_writing)
  then have 2: "ok p {} pend s2"
    by (cases new_name) (simp_all add: s2_def settles_def close_writing_def ok_close_writing)
  have "register_rename s2 p old_name new_name e = Some (s', r)"
    using assms(2) abs unfolding s2_def s1_def by (simp add: handle_rename_def Let_def)
  with 2 show ?thesis by (rule ok_register_rename)
qed

lemma ok_set_proc_wd: "ok p {} pend s \<Longrightarrow> ok p {} pend (set_proc p ((proc s p)\<lparr>pr_wd := wd\<rparr>) s)"
  by (rule set_proc_same) (simp_all add: proc_slots_def)

lemma ok_exec_info [simp]: "ok p {} pend (set_exec_info i x s) = ok p {} pend s"
  by (simp add: set_exec_info_def)

lemma ok_wd:
  "ok p {} pend s \<Longrightarrow> handle_set_wd s p d = Some s' \<Longrightarrow> ok p {} pend s'"
  "ok p {} pend s \<Longrightarrow> handle_set_fwd s p fd = Some s' \<Longrightarrow> ok p {} pend s'"
  "ok p {} pend s \<Longrightarrow> ok p {} pend (handle_fail_wd s p d)"
  "ok p {} pend s \<Longrightarrow> ok p {} pend (handle_umask s p m1 m2)"
  by (auto simp: handle_set_wd_def handle_set_fwd_def handle_fail_wd_def add_wd_def Let_def handle_umask_def
      Option.bind_eq_Some_conv split: option.splits intro: ok_set_proc_wd ok_disable intro!: set_proc_same)


section \<open>The messages about file descriptors\<close>

lemma ok_add_typed:
  assumes "ok p {} pend s" "FileFD_typed s fl t p = (s1, f)" "add_filefd s1 p fd f = Some s'"
  shows "ok p {} pend s'"
  using ok_add_filefd [OF ok_FileFD(1) [OF assms(1,2)] assms(3)] .

lemma ok_add_special: "ok p {} pend s \<Longrightarrow> add_special s p fl fd = Some (s', r) \<Longrightarrow> ok p {} pend s'"
  by (auto simp: add_special_def split: prod.splits dest: ok_add_typed)

lemma ok_add_socket:
  assumes "ok p {} pend s" "add_socket s p t fd = Some s'"
  shows "ok p {} pend s'"
proof -
  define s0 where "s0 = disable s p ''Process created an fd which is known to be open, which means interception missed at least one close()''"
  have 0: "ok p {} pend s0" using assms(1) by (simp add: s0_def ok_disable)
  obtain s1 where 1: "(if get_fd s p fd \<noteq> None then map_option fst (handle_close s0 p fd 0) else Some s) = Some s1"
      "(case FileFD_typed s1 (socket_flags t) FD_SPECIAL p of (s2, f) \<Rightarrow> add_filefd s2 p fd f) = Some s'"
    using assms(2) unfolding add_socket_def s0_def Option.bind_eq_Some_conv by blast
  have "ok p {} pend s1" using 1(1) assms(1) 0 by (auto split: if_splits dest: ok_handle_close)
  with 1(2) show ?thesis by (auto split: prod.splits dest: ok_add_typed)
qed

lemma ok_handle_socket: "ok p {} pend s \<Longrightarrow> handle_socket s p t fd e = Some s' \<Longrightarrow> ok p {} pend s'"
  by (auto simp: handle_socket_def Option.bind_eq_Some_conv split: if_splits intro: ok_disable ok_add_socket)

lemma ok_handle_socketpair: "ok p {} pend s \<Longrightarrow> handle_socketpair s p t a b e = Some s' \<Longrightarrow> ok p {} pend s'"
  by (auto simp: handle_socketpair_def Option.bind_eq_Some_conv split: if_splits intro: ok_disable ok_add_socket)

lemma ok_handle_connect: "ok p {} pend s \<Longrightarrow> handle_connect s p fd a e = Some s' \<Longrightarrow> ok p {} pend s'"
  by (auto simp: handle_connect_def Option.bind_eq_Some_conv split: if_splits option.splits intro!: ok_disable)

lemma ok_handle_dup3:
  assumes "ok p {} pend s" "handle_dup3 s p oldfd newfd fl e = Some (s', r)"
  shows "ok p {} pend s'"
proof (cases "List.member [EBADF, EBUSY, EINTR, EINVAL, ENFILE] e \<or> get_fd s p oldfd = None \<or> oldfd = newfd")
  case True
  with assms show ?thesis by (auto simp: handle_dup3_def split: if_splits intro: ok_disable)
next
  case False
  then obtain g where "get_fd s p oldfd = Some g" by auto
  with False have h: "Option.bind (handle_force_close s p newfd) (\<lambda>(s1, _). Option.bind (get_fd s1 p oldfd) (\<lambda>src.
      let (s2, f) = FileFD_dup s1 src (has_flag fl O_CLOEXEC)
      in Option.bind (add_filefd s2 p newfd f) (\<lambda>s3. Some (s3, 0)))) = Some (s', r)"
    using assms(2) by (simp add: handle_dup3_def)
  then obtain s1 i where 1: "handle_force_close s p newfd = Some (s1, i)"
    by (cases "handle_force_close s p newfd") auto
  with h obtain src where 2: "get_fd s1 p oldfd = Some src" by (cases "get_fd s1 p oldfd") auto
  obtain s2 f where 3: "FileFD_dup s1 src (has_flag fl O_CLOEXEC) = (s2, f)" by (cases "FileFD_dup s1 src (has_flag fl O_CLOEXEC)")
  from h 1 2 3 have 4: "add_filefd s2 p newfd f = Some s'" by (cases "add_filefd s2 p newfd f") auto
  have ok1: "ok p {} pend s1" using assms(1) 1 by (rule ok_handle_force_close)
  have "ffd_ofd src \<in> ofds_used s1" using ok1 slot_mem [OF _ 2] by (simp add: ok_def ofds_used_def)
  then have "ok p {ffd_ofd src} pend s1" by (intro ok_cong [OF ok1]) auto
  then have "ok p {ffd_ofd f} pend s2"
    using 3 by (auto simp: FileFD_dup_def new_ffd_def split: option.splits)
  from ok_add_filefd [OF this 4] show ?thesis .
qed

lemma ok_set_cloexec: "ok p {} pend s \<Longrightarrow> ok p {} pend (fst (set_cloexec s p fd b m))"
  by (auto simp: set_cloexec_def split: option.splits intro: ok_disable ok_replace_slot)

lemma ok_handle_fcntl: "ok p {} pend s \<Longrightarrow> handle_fcntl s p fd c a r e = Some (s', i) \<Longrightarrow> ok p {} pend s'"
  using ok_set_cloexec [of p pend s fd "has_flag a 1"]
  by (auto simp: handle_fcntl_def split: if_splits intro: ok_disable dest: ok_handle_dup3) (metis fst_conv)+

lemma ok_handle_ioctl: "ok p {} pend s \<Longrightarrow> ok p {} pend (fst (handle_ioctl s p fd c e))"
  by (auto simp: handle_ioctl_def intro: ok_disable ok_set_cloexec)

lemma ok_handle_ioctl_eq: "ok p {} pend s \<Longrightarrow> handle_ioctl s p fd c e = (s', r) \<Longrightarrow> ok p {} pend s'"
  using ok_handle_ioctl [of p pend s fd c e] by simp

lemma ok_inherited:
  assumes "ok p {} pend s"
  shows "ok p {} pend (handle_read_from_inherited s p fd)"
    and "ok p {} pend (handle_write_to_inherited s p fd b)"
    and "ok p {} pend (handle_seek_in_inherited s p fd b)"
  using assms
  by (auto simp: handle_read_from_inherited_def handle_write_to_inherited_def handle_seek_in_inherited_def
      split: option.splits intro: ok_disable ok_disable_to_excl)

lemma ok_handle_inherited_fd_offset:
  assumes "ok p {} pend s" "handle_inherited_fd_offset s p fd off = Some s'"
  shows "ok p {} pend s'"
proof -
  have "same_writers x (set_node i n y)" if "same_writers x y" for x y i n
    using that by (simp add: same_writers_def set_node_def)
  moreover have "same_writers x (disable_shortcutting_only_this x i m q)" for x i m q
    by (rule same_shape_writers [OF disable_only_shape])
  ultimately show ?thesis using assms
    by (auto simp: handle_inherited_fd_offset_def Let_def split: option.splits if_splits intro: ok_disable intro!: ok_x)
qed

lemma ok_receive_fds: "ok p {} pend s \<Longrightarrow> receive_fds s p c fds = Some s' \<Longrightarrow> ok p {} pend s'"
proof (induction fds arbitrary: s)
  case (Cons fd fds)
  then obtain s1 where 1: "(if get_fd s p fd \<noteq> None
         then Some (disable s p ''Process successfully received fd via SCM_RIGHTS which is known to be open, which means interception missed at least one close()'')
         else case FileFD_typed s (if c then O_CLOEXEC else 0) FD_SCM_RIGHTS p of (s0, f) \<Rightarrow> add_filefd s0 p fd f) = Some s1"
      "receive_fds s1 p c fds = Some s'"
    by (auto simp: Option.bind_eq_Some_conv)
  have "ok p {} pend s1"
    using 1(1) Cons.prems(1) by (auto split: if_splits prod.splits intro: ok_disable dest: ok_add_typed)
  with Cons.IH 1(2) show ?case by blast
qed simp

lemma ok_pending: "ok p {} pend s \<Longrightarrow> ok p {} pend (set_proc p ((proc s p)\<lparr>pr_pending_pipe := x\<rparr>) s)"
  by (rule set_proc_same) (simp_all add: proc_slots_def)

lemma ok_close_sup_fds [simp]: "ok p {} pend (close_sup_fds fds s) = ok p {} pend s"
  by (simp add: close_sup_fds_def)

lemma ok_handle_pipe_request:
  "ok p {} pend s \<Longrightarrow> handle_pipe_request s p fl c up down = Some s' \<Longrightarrow> ok p {} pend s'"
  by (auto simp: handle_pipe_request_def pipe_created_def Let_def Option.bind_eq_Some_conv
      split: if_splits sum.splits prod.splits intro!: ok_pending)

lemma ok_create_pipe:
  assumes "ok p {} pend s" "create_pipe s p fd0 fd1 c0 c1 fl = Some s'"
  shows "ok p {} pend s'"
proof -
  define k where "k = length (s_pipes s)"
  define s1 where "s1 = s\<lparr>s_pipes := s_pipes s @ [fd0_shared_ptr (new_pipe k c0)]\<rparr>"
  obtain s2 f0 where 2: "FileFD_piped s1 (fl AND NOT O_ACCMODE) k p False = (s2, f0)" by fastforce
  have run: "Option.bind (add_filefd s2 p fd0 f0) (\<lambda>s3.
      let s4 = s3\<lparr>s_pipes := (s_pipes s3)[k := fd1_shared_ptr (s_pipes s3 ! k)]\<rparr>;
          (s5, f1) = FileFD_piped s4 (fl AND NOT O_ACCMODE OR O_WRONLY) k p False
      in Option.bind (add_filefd s5 p fd1 f1) (\<lambda>s6.
         Option.bind (with_pipe s6 k (\<lambda>q w. add_fd1_and_proc q w c1 (ffd_id f1) (exec_point s6 p) [])) (\<lambda>s7.
         Some (add_pipe s7 p k)))) = Some s'"
    using assms(2) 2 unfolding create_pipe_def k_def s1_def by (simp add: Let_def)
  then obtain s3 where 3: "add_filefd s2 p fd0 f0 = Some s3" by (cases "add_filefd s2 p fd0 f0") auto
  define s4 where "s4 = s3\<lparr>s_pipes := (s_pipes s3)[k := fd1_shared_ptr (s_pipes s3 ! k)]\<rparr>"
  obtain s5 f1 where 5: "FileFD_piped s4 (fl AND NOT O_ACCMODE OR O_WRONLY) k p False = (s5, f1)" by fastforce
  obtain s6 where 6: "add_filefd s5 p fd1 f1 = Some s6"
    using run 3 5 by (cases "add_filefd s5 p fd1 f1") (auto simp: s4_def)
  obtain s7 where 7: "with_pipe s6 k (\<lambda>q w. add_fd1_and_proc q w c1 (ffd_id f1) (exec_point s6 p) []) = Some s7" "s' = add_pipe s7 p k"
    using run 3 5 6 by (auto simp: s4_def Option.bind_eq_Some_conv)
  have "ok p {} pend s1" using assms(1) by (simp add: s1_def)
  from ok_add_filefd [OF ok_FileFD(2) [OF this 2] 3] have "ok p {} pend s4" by (simp add: s4_def)
  from ok_with_pipe [OF ok_add_filefd [OF ok_FileFD(2) [OF this 5] 6] 7(1)] show ?thesis
    by (simp add: 7(2) add_pipe_def Let_def)
qed

lemma ok_handle_pipe_fds: "ok p {} pend s \<Longrightarrow> handle_pipe_fds s p a b = Some s' \<Longrightarrow> ok p {} pend s'"
  by (auto simp: handle_pipe_fds_def Option.bind_eq_Some_conv split: if_splits
      intro!: ok_pending intro: ok_disable dest: ok_create_pipe)

lemma ok_handle_fd:
  assumes "ok p {} pend s" "handle_fd s p m c = Some (s', r)"
  shows "ok p {} pend s'"
  using assms
  by (cases m)
    (auto simp: void_def handle_closefrom_def handle_shm_open_def handle_memfd_create_def handle_timerfd_create_def
      handle_epoll_create_def handle_eventfd_def handle_signalfd_def handle_recvmsg_scm_rights_def split: if_splits
      intro: assms(1) ok_disable [OF assms(1)] ok_inherited [OF assms(1)] ok_disable [OF ok_receive_fds [OF assms(1)]]
      dest: ok_handle_close [OF assms(1)] ok_handle_close_range [OF assms(1)] ok_add_special [OF assms(1)]
        ok_handle_dup3 [OF assms(1)] ok_handle_fcntl [OF assms(1)] ok_handle_inherited_fd_offset [OF assms(1)]
        ok_handle_pipe_request [OF assms(1)] ok_handle_pipe_fds [OF assms(1)] ok_handle_socket [OF assms(1)]
        ok_handle_socketpair [OF assms(1)] ok_handle_connect [OF assms(1)] ok_handle_ioctl_eq [OF assms(1)])

text \<open>
  The names a message about files settles: those whose \<open>pre_open\<close> announced a writer that this message ends,
  and the name a \<open>pre_open\<close> announces.
\<close>

definition name_of :: "string option option \<Rightarrow> string multiset" where
  "name_of n = (case n of Some (Some m) \<Rightarrow> {#m#} | _ \<Rightarrow> {#})"

fun settled :: "sup \<Rightarrow> nat \<Rightarrow> file_message \<Rightarrow> string multiset" where
  "settled s p (Msg_open dirfd pathname flags mode resolve_flags ret error_no pre_open_sent tmp_file) =
     (if pre_open_sent \<and> fallback 0 resolve_flags = 0
      then name_of (get_absolute s p (fallback AT_FDCWD dirfd) pathname) else {#})"
| "settled s p (Msg_freopen pathname flags oldfd ret error_no pre_open_sent) =
     (case pathname of
        Some n \<Rightarrow> if pre_open_sent then name_of (get_absolute s p AT_FDCWD n) else {#}
      | None \<Rightarrow> {#})"
| "settled s p (Msg_truncate pathname len error_no) = name_of (get_absolute s p AT_FDCWD pathname)"
| "settled s p (Msg_unlink dirfd pathname flags error_no pre_open_sent) =
     (if pre_open_sent then name_of (get_absolute s p (fallback AT_FDCWD dirfd) pathname) else {#})"
| "settled s p (Msg_rmdir pathname error_no pre_open_sent) =
     (if pre_open_sent then name_of (get_absolute s p AT_FDCWD pathname) else {#})"
| "settled s p (Msg_rename olddirfd oldpath newdirfd newpath error_no) =
     name_of (get_absolute s p (fallback AT_FDCWD olddirfd) oldpath)
     + name_of (get_absolute s p (fallback AT_FDCWD newdirfd) newpath)"
| "settled s p _ = {#}"

fun announced :: "sup \<Rightarrow> nat \<Rightarrow> file_message \<Rightarrow> string multiset" where
  "announced s p (Msg_pre_open dirfd pathname) = name_of (get_absolute s p (fallback AT_FDCWD dirfd) pathname)"
| "announced s p _ = {#}"

lemma settles_count: "settles pre n (count P) = count ((if pre then name_of n else {#}) + P)"
  by (auto simp: settles_def name_of_def bump_def fun_eq_iff split: option.splits)

lemma ok_handle_file:
  assumes ok: "ok p {} (count (settled s p m + P)) s" and h: "handle_file s p m c a = Some (s', r)"
  shows "ok p {} (count (P + announced s p m)) s'"
proof (cases m)
  case (Msg_pre_open dirfd n)
  have "count (P + announced s p m) =
    (case get_absolute s p (fallback AT_FDCWD dirfd) n of Some (Some name) \<Rightarrow> bump (count P) name | _ \<Rightarrow> count P)"
    by (auto simp: Msg_pre_open name_of_def bump_def fun_eq_iff split: option.splits)
  with ok_pre_open [of p "count P" s "fallback AT_FDCWD dirfd" n s' r] ok h show ?thesis by (simp add: Msg_pre_open)
next
  case (Msg_open dirfd n fl md rf ret err pre tmp)
  with h ok_handle_open' [of s p "fallback AT_FDCWD dirfd" n fl "fallback 0 md" "rf \<noteq> None" "fallback 0 rf"
      "fallback (-1) ret" "fallback 0 err" c a pre "fallback False tmp" s' r "count P"] ok
  show ?thesis by (cases rf) (simp_all add: settles_count conj_commute)
next
  case (Msg_freopen n fl oldfd ret err pre)
  with h ok_handle_freopen [of s p n fl "fallback (-1) ret" "fallback (-1) ret" "fallback 0 err" c a pre s' r "count P"] ok
  show ?thesis by (cases n) (simp_all add: settles_count)
next
  case (Msg_truncate n len err)
  with h ok ok_handle_truncate [of p s n "count P" len "fallback 0 err" s' r] show ?thesis by (simp add: settles_count)
next
  case (Msg_unlink dirfd n fl err pre)
  with h ok ok_handle_unlink [of p pre s "fallback AT_FDCWD dirfd" n "count P" "fallback 0 fl" "fallback 0 err" s' r]
  show ?thesis by (simp add: settles_count)
next
  case (Msg_rmdir n err pre)
  with h ok ok_handle_unlink [of p pre s AT_FDCWD n "count P" AT_REMOVEDIR "fallback 0 err" s' r]
  show ?thesis by (simp add: settles_count handle_rmdir_def)
next
  case (Msg_rename od on nd nn err)
  with h ok ok_handle_rename [of p s "fallback AT_FDCWD od" on "fallback AT_FDCWD nd" nn "count P" "fallback 0 err" s' r]
  show ?thesis by (simp add: settles_count add.assoc)
next
  case (Msg_statfs n err)
  with h ok ok_handle_statfs [of p "count P" s n "fallback 0 err"] show ?thesis by simp
next
  case (Msg_symlink err)
  with h ok show ?thesis by (auto simp: handle_symlink_def intro: ok_disable split: if_splits)
next
  case (Msg_chdir n err)
  with h ok show ?thesis by (auto simp: void_def intro: ok_wd split: if_splits)
next
  case (Msg_fchdir fd err)
  with h ok show ?thesis by (auto simp: void_def intro: ok_wd split: if_splits)
next
  case (Msg_umask m1 m2)
  with h ok show ?thesis by (auto simp: void_def intro: ok_wd)
qed (use h ok in \<open>auto dest: ok_handle_dlopen ok_handle_scandirat ok_handle_mkdir ok_handle_fstatat ok_handle_faccessat
  ok_handle_fchmodat ok_handle_mkfifo ok_handle_mktemp\<close>)

end
