(* ===== verification/FB_Spawn.thy ===== *)
theory FB_Spawn
  imports FB_Messages
begin

text \<open>
  How processes come into being: \<^verbatim>\<open>process_factory.cc\<close>, the constructors of \<open>ForkedProcess\<close> and
  \<open>ExecedProcess\<close>, \<open>ExecedProcess::initialize\<close>, and the messages of \<^verbatim>\<open>message_processor.cc\<close> that announce
  children: \<open>fork()\<close>, \<open>exec()\<close>, \<open>system()\<close>, \<open>popen()\<close> and \<open>posix_spawn()\<close>.
\<close>

section \<open>Matching the arguments of an expected child\<close>

definition argv_match_from_offset :: "string list \<Rightarrow> nat \<Rightarrow> string list \<Rightarrow> nat \<Rightarrow> bool" where
  "argv_match_from_offset actual actual_offset expected expected_offset =
     (int (length actual) - int actual_offset = int (length expected) - int expected_offset \<and>
      list_all (\<lambda>i. actual ! (actual_offset + i - expected_offset) = expected ! expected_offset)
        [expected_offset ..< length expected])"

text \<open>
  \<open>None\<close> is \<open>expected[0]\<close> of an empty vector.  \<open>old_glibc\<close> is the build's \<open>!FB_GLIBC_PREREQ(2, 38)\<close>.
\<close>

definition argv_matches_expectation :: "bool \<Rightarrow> string list \<Rightarrow> string list \<Rightarrow> bool option" where
  "argv_matches_expectation old_glibc actual expected =
     (if length actual = length expected then Some (actual = expected)
      else if length actual > length expected then
        (case expected of
           [] \<Rightarrow> None
         | e0 # _ \<Rightarrow>
             (let offset = length actual - length expected; a0 = actual ! offset in
              if List.member e0 SLASH then
                Some (a0 = e0 \<and> argv_match_from_offset actual (offset + 1) expected 1)
              else
                Some (length a0 > length e0 \<and> a0 ! (length a0 - length e0 - 1) = SLASH \<and>
                      drop (length a0 - length e0) a0 = e0 \<and>
                      argv_match_from_offset actual (offset + 1) expected 1)))
      else
        Some (old_glibc \<and> length expected > 2 \<and> expected ! 2 = ''--'' \<and> length actual > 2 \<and> actual ! 2 \<noteq> ''--'' \<and>
              expected ! 0 = ''sh'' \<and> expected ! 1 = ''-c'' \<and> actual ! 0 = ''sh'' \<and> actual ! 1 = ''-c'' \<and>
              argv_match_from_offset actual 3 expected 4))"

definition sh_c_command :: "string \<Rightarrow> string list" where
  "sh_c_command cmd = [''sh'', ''-c'', ''--'', cmd]"

section \<open>Tables of file descriptors that are deleted\<close>

text \<open>
  Deleting a vector of file descriptors: they go one after the other, and one that shares its open file
  description or its side of a pipe with a later one does not hold the last reference.
\<close>

fun delete_ffds :: "sup \<Rightarrow> file_fd list \<Rightarrow> sup option" where
  "delete_ffds s [] = Some s"
| "delete_ffds s (f # fs) =
     do {
       s1 \<leftarrow> (if list_ex (\<lambda>g. ffd_pipe g = ffd_pipe f \<and> is_fd1_side s g = is_fd1_side s f) fs then Some s
              else unref_pipe s f);
       delete_ffds (if list_ex (\<lambda>g. ffd_ofd g = ffd_ofd f) fs then s1 else unref_ofd s1 (ffd_ofd f)) fs }"

definition delete_fds :: "sup \<Rightarrow> fd_table \<Rightarrow> sup option" where
  "delete_fds s fds = delete_ffds s (table_slots fds)"

definition set_expected_child :: "sup \<Rightarrow> nat \<Rightarrow> expected_child \<Rightarrow> sup option" where
  "set_expected_child s p ec =
     (if pr_expected_child (proc s p) \<noteq> None then None
      else Some (set_proc p ((proc s p)\<lparr>pr_expected_child := Some ec\<rparr>) s))"

text \<open>The expected child that is popped is returned, for its launch type, its flags and its file descriptors.\<close>

definition pop_expected_child_fds :: "bool \<Rightarrow> sup \<Rightarrow> nat \<Rightarrow> string list \<Rightarrow> (sup \<times> expected_child option) option" where
  "pop_expected_child_fds old_glibc s p argv =
     (case pr_expected_child (proc s p) of
        None \<Rightarrow> Some (disable s p ''Unexpected system/popen/posix_spawn child'', None)
      | Some ec \<Rightarrow> do {
          let s1 = set_proc p ((proc s p)\<lparr>pr_expected_child := None\<rparr>) s;
          matches \<leftarrow> (if ec_launch_type ec = LAUNCH_TYPE_SYSTEM \<and> ec_argv ec = [] then Some True
                      else argv_matches_expectation old_glibc argv (ec_argv ec));
          if matches then Some (s1, Some ec)
          else do {
            s2 \<leftarrow> delete_fds (disable s1 p ''Unexpected system/popen/posix_spawn child appeared'') (ec_fds ec);
            Some (s2, None) } })"

text \<open>\<open>delete(proc->pop_expected_child_fds(...))\<close>.\<close>

definition drop_expected_child :: "bool \<Rightarrow> sup \<Rightarrow> nat \<Rightarrow> string list \<Rightarrow> sup option" where
  "drop_expected_child old_glibc s p argv =
     do {
       (s1, popped) \<leftarrow> pop_expected_child_fds old_glibc s p argv;
       case popped of Some ec \<Rightarrow> delete_fds s1 (ec_fds ec) | None \<Rightarrow> Some s1 }"

section \<open>New processes\<close>

definition new_fork_info :: fork_info where
  "new_fork_info = \<lparr>fk_exit_status = -1, fk_ack_id = -1, fk_ack_fd = -1, fk_been_waited_for = False,
     fk_orphan = False, fk_has_orphan_descendant = False\<rparr>"

definition new_process :: "int \<Rightarrow> nat option \<Rightarrow> nat \<Rightarrow> nat option \<Rightarrow> fork_info option \<Rightarrow> string \<Rightarrow> mode_t \<Rightarrow> fd_table \<Rightarrow> process" where
  "new_process pid parent ep fork_point fk wd um fds =
     \<lparr>pr_pid = pid, pr_parent = parent, pr_exec_point = ep, pr_fork_point = fork_point, pr_fork = fk,
      pr_state = FB_PROC_RUNNING, pr_wd = wd, pr_umask = um, pr_fds = fds, pr_fork_children = [],
      pr_exec_child = None, pr_system_child = None, pr_popen_children = (\<lambda>_. None), pr_expected_child = None,
      pr_exec_pending = False, pr_posix_spawn_pending = False, pr_has_pending_popen = False,
      pr_mtime_to_file = (\<lambda>_. None), pr_pending_pipe = None, pr_pending_popen = None\<rparr>"

text \<open>\<open>ForkedProcess::ForkedProcess\<close> below a parent.\<close>

definition new_forked :: "sup \<Rightarrow> int \<Rightarrow> nat \<Rightarrow> fd_table \<Rightarrow> sup \<times> nat" where
  "new_forked s pid parent fds =
     (let q = length (s_procs s); x = proc s parent;
          s1 = set_proc parent (x\<lparr>pr_fork_children := pr_fork_children x @ [q]\<rparr>) s
      in (s1\<lparr>s_procs := s_procs s1 @
              [new_process pid (Some parent) (pr_exec_point x) (Some q) (Some new_fork_info) (pr_wd x) (pr_umask x) fds]\<rparr>, q))"

definition getForkedProcess :: "sup \<Rightarrow> int \<Rightarrow> nat \<Rightarrow> sup \<times> nat" where
  "getForkedProcess s pid parent =
     (case pass_on_fds s parent False of (s1, fds) \<Rightarrow> new_forked s1 pid parent fds)"

text \<open>\<open>ProcessTree::insert\<close> of a process other than the root; the table by \<open>fb_pid\<close> is the list of processes itself.\<close>

definition tree_insert :: "sup \<Rightarrow> nat \<Rightarrow> sup option" where
  "tree_insert s p =
     (if pr_fork_point (proc s p) = None \<or> exec_point_opt s p = None then None
      else Some (s\<lparr>s_pid2proc := (s_pid2proc s)(pr_pid (proc s p) \<mapsto> p)\<rparr>))"

record scproc_query =
  q_pid :: int
  q_ppid :: int
  q_cwd :: string
  q_executable :: string
  q_args :: "string list"
  q_umask :: mode_t
  q_libs :: "string list"
  q_jobserver_fifo :: "string option"
  q_jobserver_fds :: "int list"

definition maybe_set_jobserver_fds :: "int \<Rightarrow> int \<Rightarrow> exec_info \<Rightarrow> exec_info" where
  "maybe_set_jobserver_fds fd_r fd_w x =
     (let x1 = (if fd_w \<ge> 0 \<and> fd_r \<le> 32767 then x\<lparr>xi_jobserver_fd_r := sint (word_of_int fd_r :: 16 word)\<rparr> else x)
      in if fd_w \<ge> 0 \<and> fd_w \<le> 32767 then x1\<lparr>xi_jobserver_fd_w := sint (word_of_int fd_w :: 16 word)\<rparr> else x1)"

text \<open>The command line under \<open>qemu-user -libc-syscalls\<close> is that of the program it runs.\<close>

definition qemu_rewrite :: "string option \<Rightarrow> scproc_query \<Rightarrow> string \<times> string list \<times> bool" where
  "qemu_rewrite qemu_user q =
     (if qemu_user = Some (q_executable q) \<and> length (q_args q) \<ge> 3 \<and> q_args q ! 1 = ''-libc-syscalls''
      then (let args = drop 2 (q_args q) in (GetCanonicalized (hd args) (q_cwd q), args, True))
      else (q_executable q, q_args q, False))"

definition new_exec_info :: "nat \<Rightarrow> string option \<Rightarrow> scproc_query \<Rightarrow> exec_info" where
  "new_exec_info p qemu_user q =
     (case qemu_rewrite qemu_user q of
        (executable, args, used) \<Rightarrow>
          (let x = \<lparr>xi_proc = p, xi_args = args, xi_executable = executable, xi_jobserver_fd_r = -1,
                    xi_jobserver_fd_w = -1, xi_wds = [], xi_failed_wds = [], xi_created_pipes = [], xi_utime_u = 0,
                    xi_stime_u = 0, xi_children_cpu_time_u = 0, xi_shortcut_cpu_time_ms = 0, xi_was_shortcut = False,
                    xi_qemu_user_used = used\<rparr>
           in case (q_jobserver_fifo q, q_jobserver_fds q) of
                (None, [r, w]) \<Rightarrow> maybe_set_jobserver_fds r w x
              | _ \<Rightarrow> x))"

text \<open>
  \<open>getExecedProcess\<close> and the constructor of \<open>ExecedProcess\<close>.  A parent that is running is an error
  unless it is an emulator.
\<close>

definition getExecedProcess :: "sup \<Rightarrow> scproc_query \<Rightarrow> nat option \<Rightarrow> fd_table \<Rightarrow> (sup \<times> nat) option" where
  "getExecedProcess s q parent fds =
     (let p = length (s_procs s) in
      case new_exec_node (s_x s) (Option.bind parent (exec_point_opt s)) of
        (x, i) \<Rightarrow> do {
          let x1 = set_node i ((node x i)\<lparr>en_jobserver_fifo := q_jobserver_fifo q\<rparr>) x;
          let np = new_process (q_pid q) parent i (case parent of Some r \<Rightarrow> pr_fork_point (proc s r) | None \<Rightarrow> None)
                     None (q_cwd q) (q_umask q) fds;
          let s1 = s\<lparr>s_x := x1, s_execs := s_execs s @ [new_exec_info p (s_qemu_user s) q], s_procs := s_procs s @ [np]\<rparr>;
          (case parent of
             None \<Rightarrow> Some (s1, p)
           | Some r \<Rightarrow>
               if pr_state (proc s r) = FB_PROC_TERMINATED then do {
                 s2 \<leftarrow> reset_file_fd_pipe_refs (set_proc r ((proc s1 r)\<lparr>pr_exec_pending := False\<rparr>) s1) r;
                 Some (set_proc r ((proc s2 r)\<lparr>pr_exec_child := Some p\<rparr>) s2, p) }
               else if is_qemu s r then do {
                 s2 \<leftarrow> reset_file_fd_pipe_refs s1 r;
                 Some (set_proc r ((proc s2 r)\<lparr>pr_exec_child := Some p\<rparr>) s2, p) }
               else None) })"

text \<open>
  \<open>initialize\<close>: grouping the inherited file descriptors by their open file description.  \<open>None\<close> is the
  assertion on the type, and below a file without a name that the code would dereference.
\<close>

definition new_inherited_file :: "sup \<Rightarrow> int \<Rightarrow> file_fd \<Rightarrow> inherited_file option" where
  "new_inherited_file s fd f =
     (if ofd_type (ofd_of s f) = FD_UNINITIALIZED then None
      else Some \<lparr>if_type = ofd_type (ofd_of s f), if_fds = [fd], if_recorder = None,
                 if_filename = ofd_filename (ofd_of s f), if_flags = ofd_flags (ofd_of s f), if_start_offset = -1\<rparr>)"

fun add_to_group :: "sup \<Rightarrow> nat \<Rightarrow> int \<Rightarrow> file_fd \<Rightarrow> inherited_file list \<Rightarrow> inherited_file list option" where
  "add_to_group s p fd f [] = map_option (\<lambda>g. [g]) (new_inherited_file s fd f)"
| "add_to_group s p fd f (g # gs) =
     do {
       h \<leftarrow> get_fd s p (hd (if_fds g));
       if fdcmp h f = 0 then Some (g\<lparr>if_fds := if_fds g @ [fd]\<rparr> # gs)
       else map_option (\<lambda>gs'. g # gs') (add_to_group s p fd f gs) }"

fun group_fds :: "sup \<Rightarrow> nat \<Rightarrow> nat list \<Rightarrow> inherited_file list \<Rightarrow> inherited_file list option" where
  "group_fds s p [] gs = Some gs"
| "group_fds s p (fd # fds) gs =
     do {
       gs' \<leftarrow> (case get_fd s p (int fd) of Some f \<Rightarrow> add_to_group s p (int fd) f gs | None \<Rightarrow> Some gs);
       group_fds s p fds gs' }"

text \<open>The second loop, over the groups; a file that cannot be examined disables shortcutting this process.\<close>

fun inherited_sizes :: "exec_state \<Rightarrow> nat \<Rightarrow> inherited_file list \<Rightarrow> (exec_state \<times> inherited_file list) option" where
  "inherited_sizes x i [] = Some (x, [])"
| "inherited_sizes x i (g # gs) =
     do {
       (x1, g1) \<leftarrow>
         (if if_type g = FD_FILE then
            (case if_filename g of
               None \<Rightarrow> None
             | Some n \<Rightarrow>
                 (case os_stat (x_os x) n of
                    None \<Rightarrow> Some (disable_shortcutting_only_this x i ''Failed to stat inherited file'' None, g)
                  | Some st \<Rightarrow>
                      Some (x, if S_ISREG (st_mode st) \<and> is_write (if_flags g)
                               then g\<lparr>if_start_offset := st_size st\<rparr> else g)))
          else Some (x, g));
       (x2, gs2) \<leftarrow> inherited_sizes x1 i gs;
       Some (x2, g1 # gs2) }"

fun register_opened :: "sup \<Rightarrow> nat \<Rightarrow> string list \<Rightarrow> sup option" where
  "register_opened s i [] = Some s"
| "register_opened s i (n # ns) =
     do {
       (s1, u) \<leftarrow> open_params s n 0 0 0 False;
       register_opened (fst (register_at s1 i n u)) i ns }"

definition exec_initialize :: "sup \<Rightarrow> nat \<Rightarrow> string list \<Rightarrow> sup option" where
  "exec_initialize s p libs =
     do {
       s1 \<leftarrow> (case parent_exec_point_of s p of
                Some i \<Rightarrow> register_opened s i (xi_executable (s_execs s ! exec_point s p) # libs)
              | None \<Rightarrow> Some s);
       let i = exec_point s1 p;
       gs \<leftarrow> group_fds s1 p [0 ..< length (pr_fds (proc s1 p))] [];
       (x, gs') \<leftarrow> inherited_sizes (s_x s1) i gs;
       Some (s1\<lparr>s_x := set_node i ((node x i)\<lparr>en_inherited_files := gs'\<rparr>) x\<rparr>) }"

text \<open>
  The child of an \<open>exec()\<close> in the process \<open>r\<close>, or the first process, below the root \<open>r\<close>: the part of
  \<open>proc_new_process_msg\<close> for a parent that is known, with the beginning of \<open>accept_exec_child\<close>.
\<close>

definition exec_child :: "sup \<Rightarrow> scproc_query \<Rightarrow> nat \<Rightarrow> (sup \<times> nat) option" where
  "exec_child s q r =
     (if pr_state (proc s r) = FB_PROC_FINALIZED then None
      else do {
        let (s1, fds) = (if pr_state (proc s r) = FB_PROC_TERMINATED \<or> is_qemu s r then pass_on_fds s r True
                         else (s, []));
        (s2, p) \<leftarrow> getExecedProcess s1 q (Some r) fds;
        s3 \<leftarrow> tree_insert s2 p;
        s4 \<leftarrow> exec_initialize s3 p (q_libs q);
        Some (s4, p) })"

text \<open>\<open>accept_fork_child\<close>: both sides of the \<open>fork()\<close> may go on.\<close>

definition accept_fork_child :: "sup \<Rightarrow> nat \<Rightarrow> int \<Rightarrow> int \<Rightarrow> int \<Rightarrow> int \<Rightarrow> int \<Rightarrow> (sup \<times> nat) option" where
  "accept_fork_child s parent parent_fd parent_ack pid child_fd child_ack =
     (case getForkedProcess s pid parent of
        (s1, q) \<Rightarrow>
          map_option (\<lambda>s2. (ack_msg (ack_msg s2 parent_fd parent_ack) child_fd child_ack, q)) (tree_insert s1 q))"

end
