(* ===== verification/FB_Runs.thy ===== *)
theory FB_Runs
  imports FB_Accounting FB_Spawn
begin

text \<open>
  Runs of the supervisor: sequences of messages of the processes and of processes that start.  Along every
  run the number of writers the supervisor counts for a file is that of the open file descriptions through
  which it can be written, and of the writers that were announced and not settled.
\<close>

section \<open>New processes\<close>

lemma slots_snoc: "slots (s\<lparr>s_procs := s_procs s @ [x]\<rparr>) = slots s @ proc_slots x"
  by (simp add: slots_def)

lemma used_snoc: "ofds_used (s\<lparr>s_procs := s_procs s @ [x]\<rparr>) = ofds_used s \<union> ffd_ofd ` set (proc_slots x)"
  by (simp add: ofds_used_def slots_snoc image_Un)

lemma accounted_new_process:
  assumes acc: "accounted {} pend s" and ep: "pr_exec_point x < length (x_nodes (s_x s))"
    and sub: "ffd_ofd ` set (proc_slots x) \<subseteq> ofds_used s"
  shows "accounted {} pend (s\<lparr>s_procs := s_procs s @ [x]\<rparr>)"
proof -
  have used: "ofds_used (s\<lparr>s_procs := s_procs s @ [x]\<rparr>) = ofds_used s" using sub by (auto simp: used_snoc)
  have "\<forall>k \<in> ofds_used s. k < length (s_ofds s)"
    using acc by (simp add: accounted_def sup_wf_def ofds_used_def)
  then have "\<forall>f \<in> set (slots s @ proc_slots x). ffd_ofd f < length (s_ofds s)"
    using sub by (auto simp: ofds_used_def)
  with acc ep show ?thesis
    unfolding accounted_def sup_wf_def used slots_snoc by (auto intro: less_SucI)
qed

lemma accounted_x:
  assumes "accounted T pend s" "x_writers x = x_writers (s_x s)" "x_locs x = x_locs (s_x s)"
    and "length (x_nodes (s_x s)) \<le> length (x_nodes x)"
  shows "accounted T pend (s\<lparr>s_x := x\<rparr>)"
  using assms by (auto simp: accounted_def sup_wf_def writers_count_def)

lemma trim_fds_slots [simp]: "table_slots (trim_fds fds) = table_slots fds"
proof (induction fds)
  case (Cons f fds)
  then show ?case by (cases "trim_fds fds = []") (auto simp: table_slots_def split: option.splits)
qed (simp add: table_slots_def)

lemma pass_on_fds_ofds:
  assumes "f \<in> set (table_slots (snd (pass_on_fds s p execed)))"
  shows "\<exists>g \<in> set (table_slots (pr_fds (proc s p))). ffd_ofd f = ffd_ofd g"
proof -
  let ?fds = "pr_fds (proc s p)"
  from assms have "Some f \<in> set (map2 (passed_on execed) [s_next_ffd s ..< s_next_ffd s + length ?fds] ?fds)"
    by (simp add: pass_on_fds_def Let_def set_table_slots)
  then obtain i o' where "Some f = passed_on execed i o'" "o' \<in> set ?fds" by (auto dest: set_zip_rightD)
  then show ?thesis by (auto simp: passed_on_def set_table_slots split: option.splits if_splits)
qed

lemma table_used:
  assumes "p < length (s_procs s)" "g \<in> set (table_slots (pr_fds (proc s p)))"
  shows "ffd_ofd g \<in> ofds_used s"
proof -
  have "proc s p \<in> set (s_procs s)" using assms(1) by (simp add: proc_def)
  with assms(2) show ?thesis unfolding ofds_used_def set_slots proc_slots_def by auto
qed

lemma pass_on_fds_used:
  assumes "p < length (s_procs s)" "pass_on_fds s p execed = (s', fds)"
  shows "ffd_ofd ` set (table_slots fds) \<subseteq> ofds_used s"
  using assms pass_on_fds_ofds [of _ s p execed] table_used [OF assms(1)] by fastforce

lemma pass_on_fds_state: "fst (pass_on_fds s p execed) = s\<lparr>s_next_ffd := s_next_ffd s + length (pr_fds (proc s p))\<rparr>"
  by (simp add: pass_on_fds_def Let_def)

lemma new_process_slots: "proc_slots (new_process pid r ep fp fk wd um fds) = table_slots fds"
  by (simp add: proc_slots_def new_process_def)

lemma used_set_proc:
  assumes "p < length (s_procs s)" "proc_slots x = proc_slots (proc s p)"
  shows "ofds_used (set_proc p x s) = ofds_used s"
proof -
  have "map proc_slots ((s_procs s)[p := x]) = map proc_slots (s_procs s)"
    using assms by (simp add: map_update proc_def list_update_same_conv)
  then show ?thesis by (simp add: ofds_used_def slots_def set_proc_def)
qed

lemma accounted_getForkedProcess:
  assumes acc: "accounted {} pend s" and p: "p < length (s_procs s)"
  shows "accounted {} pend (fst (getForkedProcess s pid p))"
proof -
  obtain s1 fds where pass: "pass_on_fds s p False = (s1, fds)" by (cases "pass_on_fds s p False")
  then have s1: "s1 = s\<lparr>s_next_ffd := s_next_ffd s + length (pr_fds (proc s p))\<rparr>"
    using pass_on_fds_state [of s p False] by simp
  define q where "q = length (s_procs s1)"
  define s2 where "s2 = set_proc p ((proc s1 p)\<lparr>pr_fork_children := pr_fork_children (proc s1 p) @ [q]\<rparr>) s1"
  have p1: "p < length (s_procs s1)" and used: "ofds_used s1 = ofds_used s" using p by (simp_all add: s1)
  have 1: "ok p {} pend s1" using acc p by (simp add: s1 ok_def [of p "{}" pend s])
  then have 2: "ok p {} pend s2" unfolding s2_def by (rule set_proc_same) (simp_all add: proc_slots_def)
  have used2: "ofds_used s2 = ofds_used s1" unfolding s2_def by (rule used_set_proc [OF p1]) (simp add: proc_slots_def)
  have ep: "pr_exec_point (proc s1 p) < length (x_nodes (s_x s2))"
    using ok_exec_point [OF 1] by (simp add: exec_point_def s2_def set_proc_def)
  have sub: "ffd_ofd ` set (table_slots fds) \<subseteq> ofds_used s2"
    using pass_on_fds_used [OF p pass] by (simp add: used2 used)
  have "fst (getForkedProcess s pid p) = s2\<lparr>s_procs := s_procs s2 @
     [new_process pid (Some p) (pr_exec_point (proc s1 p)) (Some q) (Some new_fork_info)
        (pr_wd (proc s1 p)) (pr_umask (proc s1 p)) fds]\<rparr>"
    by (simp add: getForkedProcess_def pass new_forked_def Let_def s2_def q_def)
  moreover have "accounted {} pend (s2\<lparr>s_procs := s_procs s2 @ [new_process pid (Some p) (pr_exec_point (proc s1 p))
       (Some q) (Some new_fork_info) (pr_wd (proc s1 p)) (pr_umask (proc s1 p)) fds]\<rparr>)"
    using 2 ep sub by (intro accounted_new_process) (simp_all add: ok_def new_process_slots, simp add: new_process_def)
  ultimately show ?thesis by simp
qed

lemma accounted_update [simp]:
  "accounted T pend (s\<lparr>s_execs := xs\<rparr>) = accounted T pend s"
  "accounted T pend (s\<lparr>s_next_ffd := i\<rparr>) = accounted T pend s"
  "accounted T pend (s\<lparr>s_pid2proc := m\<rparr>) = accounted T pend s"
  "accounted T pend (s\<lparr>s_acks := a\<rparr>) = accounted T pend s"
  by (simp_all add: accounted_def sup_wf_def ofds_used_def slots_def)

lemma ok_reset_pipe_refs_loop:
  "ok p {} pend s \<Longrightarrow> reset_pipe_refs_loop s p is = Some s' \<Longrightarrow> ok p {} pend s'"
proof (induction "is" arbitrary: s)
  case (Cons i "is")
  show ?case
  proof (cases "get_fd s p (int i)")
    case None
    with Cons show ?thesis by simp
  next
    case f: (Some f)
    show ?thesis
    proof (cases "ffd_pipe f")
      case None
      with Cons f show ?thesis by simp
    next
      case (Some k)
      with Cons.prems(2) f obtain s1 s2 where
        1: "with_pipe s k (\<lambda>q w. drain_fd1_end q w (ffd_id f)) = Some s1" and
        2: "set_pipe_null s1 p (int i) f = Some s2" and 3: "reset_pipe_refs_loop s2 p is = Some s'"
        by (auto simp: Option.bind_eq_Some_conv)
      have g: "get_fd s1 p (int i) = Some f" using get_fd_procs [OF procs_same(1) [OF 1]] f by simp
      show ?thesis by (rule Cons.IH [OF set_pipe_null_laws(1) [OF 2 ok_with_pipe [OF Cons.prems(1) 1] g] 3])
    qed
  qed
qed simp

lemma set_slot_parents [simp]: "map pr_parent (s_procs (set_slot p fd f s)) = map pr_parent (s_procs s)"
  by (cases "p < length (s_procs s)") (simp_all add: set_slot_def set_proc_def proc_def map_update list_update_same_conv list_update_beyond)

lemma set_pipe_null_parents:
  "set_pipe_null s p fd f = Some s' \<Longrightarrow> map pr_parent (s_procs s') = map pr_parent (s_procs s)"
proof (cases "ffd_pipe f")
  case (Some k)
  assume "set_pipe_null s p fd f = Some s'"
  with Some obtain s1 where "with_pipe s k (\<lambda>q w. pipe_handle_close q w (ffd_id f)) = Some s1"
      "unref_pipe (set_slot p fd (Some (f\<lparr>ffd_pipe := None\<rparr>)) s1) f = Some s'"
    by (auto simp: set_pipe_null_def Option.bind_eq_Some_conv)
  then have "s_procs s1 = s_procs s" "s_procs s' = s_procs (set_slot p fd (Some (f\<lparr>ffd_pipe := None\<rparr>)) s1)"
    using procs_same(1,2) by blast+
  then show ?thesis by simp
qed (simp add: set_pipe_null_def)

lemma reset_pipe_refs_loop_parents:
  "reset_pipe_refs_loop s p is = Some s' \<Longrightarrow> map pr_parent (s_procs s') = map pr_parent (s_procs s)"
proof (induction "is" arbitrary: s)
  case (Cons i "is")
  then show ?case
    by (auto simp: Option.bind_eq_Some_conv split: option.splits) (metis procs_same(1) set_pipe_null_parents)
qed simp

lemma new_exec_node_laws:
  assumes "new_exec_node x r = (y, i)" "\<forall>j. r = Some j \<longrightarrow> j < length (x_nodes x)"
  shows "x_writers y = x_writers x" "x_locs y = x_locs x" "i = length (x_nodes x)" "length (x_nodes y) = Suc (length (x_nodes x))"
proof -
  have "same_shape x (fst (closest_shortcut_point x j))" for j
    using next_shape [of x j] by (simp add: closest_shortcut_point_def same_shape_def)
  then have "x_writers y = x_writers x \<and> x_locs y = x_locs x \<and> i = length (x_nodes x) \<and>
      length (x_nodes y) = Suc (length (x_nodes x))"
    using assms(1) by (auto simp: new_exec_node_def same_shape_def split: option.splits prod.splits) (metis fst_conv)+
  then show "x_writers y = x_writers x" "x_locs y = x_locs x" "i = length (x_nodes x)"
    "length (x_nodes y) = Suc (length (x_nodes x))" by simp_all
qed

lemma exec_point_opt_bound:
  assumes "accounted T pend s" "r < length (s_procs s)" "exec_point_opt s r = Some i"
  shows "i < length (x_nodes (s_x s))"
  using assms by (auto simp: accounted_def sup_wf_def exec_point_opt_def exec_point_def proc_def split: if_splits)

lemma accounted_getExecedProcess:
  assumes acc: "accounted {} pend s" and r: "r < length (s_procs s)"
    and sub: "ffd_ofd ` set (table_slots fds) \<subseteq> ofds_used s"
    and h: "getExecedProcess s q (Some r) fds = Some (s', p)"
  shows "accounted {} pend s'" "p < length (s_procs s')" "pr_parent (proc s' p) = Some r" "r < length (s_procs s')"
proof -
  obtain x i where n: "new_exec_node (s_x s) (exec_point_opt s r) = (x, i)"
    by (cases "new_exec_node (s_x s) (exec_point_opt s r)")
  note nl = new_exec_node_laws [OF n] and bound = exec_point_opt_bound [OF acc r]
  define x1 where "x1 = set_node i ((node x i)\<lparr>en_jobserver_fifo := q_jobserver_fifo q\<rparr>) x"
  define np where "np = new_process (q_pid q) (Some r) i (pr_fork_point (proc s r)) None (q_cwd q) (q_umask q) fds"
  define s0 where "s0 = s\<lparr>s_x := x1\<rparr>"
  define s1 where "s1 = s\<lparr>s_x := x1, s_execs := s_execs s @ [new_exec_info (length (s_procs s)) (s_qemu_user s) q],
    s_procs := s_procs s @ [np]\<rparr>"
  have "accounted {} pend s0"
    unfolding s0_def using nl bound by (intro accounted_x [OF acc]) (simp_all add: x1_def set_node_def)
  moreover have "pr_exec_point np < length (x_nodes (s_x s0))"
    using nl bound by (simp add: np_def new_process_def s0_def x1_def set_node_def)
  moreover have "ffd_ofd ` set (proc_slots np) \<subseteq> ofds_used s0" using sub by (simp add: np_def new_process_slots s0_def)
  ultimately have "accounted {} pend (s0\<lparr>s_procs := s_procs s0 @ [np]\<rparr>)" by (rule accounted_new_process)
  moreover have "s1 = (s0\<lparr>s_procs := s_procs s0 @ [np]\<rparr>)\<lparr>s_execs := s_execs s @ [new_exec_info (length (s_procs s)) (s_qemu_user s) q]\<rparr>"
    by (simp add: s1_def s0_def)
  ultimately have 1: "ok r {} pend s1" using r by (simp add: ok_def s0_def)
  have upd: "ok r {} pend (set_proc r ((proc t r)\<lparr>pr_exec_pending := b\<rparr>) t)"
    "ok r {} pend (set_proc r ((proc t r)\<lparr>pr_exec_child := c\<rparr>) t)" if "ok r {} pend t" for t b c
    using that by (auto intro!: set_proc_same simp: proc_slots_def)
  obtain t where t: "reset_file_fd_pipe_refs (if pr_state (proc s r) = FB_PROC_TERMINATED
        then set_proc r ((proc s1 r)\<lparr>pr_exec_pending := False\<rparr>) s1 else s1) r = Some t"
      "s' = set_proc r ((proc t r)\<lparr>pr_exec_child := Some p\<rparr>) t" "p = length (s_procs s)"
    using h by (auto simp: getExecedProcess_def n Let_def Option.bind_eq_Some_conv simp flip: x1_def np_def s1_def
        split: if_splits)
  have 2: "ok r {} pend (if pr_state (proc s r) = FB_PROC_TERMINATED
      then set_proc r ((proc s1 r)\<lparr>pr_exec_pending := False\<rparr>) s1 else s1)"
    using 1 by (simp add: upd)
  have "ok r {} pend t" using 2 t(1) unfolding reset_file_fd_pipe_refs_def by (rule ok_reset_pipe_refs_loop)
  then show "accounted {} pend s'" using upd(2) by (simp add: t(2) ok_def)
  have "map pr_parent (s_procs s') = map pr_parent (s_procs t)"
    by (cases "r < length (s_procs t)") (simp_all add: t(2) set_proc_def proc_def map_update list_update_same_conv list_update_beyond)
  also have "\<dots> = map pr_parent (s_procs s1)"
    using reset_pipe_refs_loop_parents [OF t(1) [unfolded reset_file_fd_pipe_refs_def]] 1
    by (auto simp: set_proc_def proc_def map_update list_update_same_conv ok_def split: if_splits)
  finally have par: "map pr_parent (s_procs s') = map pr_parent (s_procs s) @ [Some r]"
    by (simp add: s1_def np_def new_process_def)
  have "length (map pr_parent (s_procs s')) = length (map pr_parent (s_procs s) @ [Some r])" by (simp only: par)
  then have len: "length (s_procs s') = Suc (length (s_procs s))" by simp
  then show "p < length (s_procs s')" "r < length (s_procs s')" using r by (simp_all add: t(3))
  have "map pr_parent (s_procs s') ! p = Some r" unfolding par by (simp add: t(3) nth_append)
  then show "pr_parent (proc s' p) = Some r" using len by (simp add: proc_def t(3))
qed

lemma register_at_shape:
  "i < length (x_nodes (s_x s)) \<Longrightarrow> same_writers (s_x s) (s_x (fst (register_at s i n u))) \<and>
   s_procs (fst (register_at s i n u)) = s_procs s"
  using keeps_writers [OF register_usage_keeps [of i "s_x s" n u]]
  by (cases "register_file_usage_update (s_x s) i n u") (simp add: register_at_def)

lemma ok_register_opened:
  "ok p {} pend s \<Longrightarrow> i < length (x_nodes (s_x s)) \<Longrightarrow> register_opened s i ns = Some s' \<Longrightarrow> ok p {} pend s'"
proof (induction ns arbitrary: s)
  case (Cons n ns)
  from Cons.prems(3) obtain s1 u where 1: "open_params s n 0 0 0 False = Some (s1, u)"
    and 2: "register_opened (fst (register_at s1 i n u)) i ns = Some s'"
    by (cases "open_params s n 0 0 0 False") auto
  have i: "i < length (x_nodes (s_x s1))" using Cons.prems(2) 1 by (auto simp: open_params_def)
  have "ok p {} pend s1" using Cons.prems(1) 1 by (rule ok_open_params)
  from ok_register_at [OF this i] register_at_shape [OF i] i 2 show ?case
    by (intro Cons.IH [of "fst (register_at s1 i n u)"]) (simp_all add: same_writers_def)
qed simp

lemma inherited_sizes_same: "inherited_sizes x i gs = Some (y, hs) \<Longrightarrow> same_writers x y"
proof (induction gs arbitrary: x hs)
  case (Cons g gs)
  have d: "same_writers x (disable_shortcutting_only_this x i r None)" for r
    by (auto simp: disable_shortcutting_only_this_def same_writers_def set_node_def Let_def)
  have "\<exists>x1 hs'. same_writers x x1 \<and> inherited_sizes x1 i gs = Some (y, hs')"
    using Cons.prems by (auto simp: Option.bind_eq_Some_conv split: if_splits option.splits intro: d same_writers_refl)
  then obtain x1 hs' where 1: "same_writers x x1" "inherited_sizes x1 i gs = Some (y, hs')" by blast
  from Cons.IH [OF 1(2)] 1(1) show ?case by (simp add: same_writers_def)
qed simp

lemma accounted_exec_initialize:
  assumes ok: "ok p {} pend s" and wf: "\<forall>r. pr_parent (proc s p) = Some r \<longrightarrow> r < length (s_procs s)"
    and h: "exec_initialize s p libs = Some s'"
  shows "ok p {} pend s'"
proof -
  obtain s1 gs x gs' where
    1: "(case parent_exec_point_of s p of
           Some i \<Rightarrow> register_opened s i (xi_executable (s_execs s ! exec_point s p) # libs) | None \<Rightarrow> Some s) = Some s1" and
    2: "inherited_sizes (s_x s1) (exec_point s1 p) gs = Some (x, gs')" and
    3: "s' = s1\<lparr>s_x := set_node (exec_point s1 p) ((node x (exec_point s1 p))\<lparr>en_inherited_files := gs'\<rparr>) x\<rparr>"
    using h unfolding exec_initialize_def Let_def Option.bind_eq_Some_conv by auto
  have ok1: "ok p {} pend s1"
  proof (cases "parent_exec_point_of s p")
    case (Some i)
    then obtain r where "pr_parent (proc s p) = Some r" "exec_point_opt s r = Some i"
      by (auto simp: parent_exec_point_of_def Option.bind_eq_Some_conv)
    with wf ok have "i < length (x_nodes (s_x s))" by (auto simp: ok_def intro: exec_point_opt_bound)
    with ok 1 Some show ?thesis by (auto simp del: register_opened.simps intro: ok_register_opened)
  qed (use ok 1 in simp)
  have "same_writers (s_x s1) (set_node (exec_point s1 p) ((node x (exec_point s1 p))\<lparr>en_inherited_files := gs'\<rparr>) x)"
    using inherited_sizes_same [OF 2] by (simp add: same_writers_def set_node_def)
  with ok1 show ?thesis unfolding 3 by (rule ok_x)
qed

lemma accounted_exec_child:
  assumes acc: "accounted {} pend s" and r: "r < length (s_procs s)" and h: "exec_child s q r = Some (s', p)"
  shows "accounted {} pend s'"
proof -
  obtain s1 fds where pass: "(if pr_state (proc s r) = FB_PROC_TERMINATED \<or> is_qemu s r then pass_on_fds s r True else (s, [])) = (s1, fds)"
    by (cases "if pr_state (proc s r) = FB_PROC_TERMINATED \<or> is_qemu s r then pass_on_fds s r True else (s, [])")
  obtain s2 s3 where 2: "getExecedProcess s1 q (Some r) fds = Some (s2, p)" and 3: "tree_insert s2 p = Some s3"
    and 4: "exec_initialize s3 p (q_libs q) = Some s'"
    using h unfolding exec_child_def pass by (auto simp: Option.bind_eq_Some_conv split: if_splits)
  have s1: "s1 = s \<or> s1 = s\<lparr>s_next_ffd := s_next_ffd s + length (pr_fds (proc s r))\<rparr>"
    using pass pass_on_fds_state [of s r True] by (auto split: if_splits)
  then have acc1: "accounted {} pend s1" and r1: "r < length (s_procs s1)" and used: "ofds_used s1 = ofds_used s"
    using acc r by auto
  have "ffd_ofd ` set (table_slots fds) \<subseteq> ofds_used s1"
  proof (cases "pr_state (proc s r) = FB_PROC_TERMINATED \<or> is_qemu s r")
    case True
    with pass have "pass_on_fds s r True = (s1, fds)" by simp
    then show ?thesis unfolding used by (rule pass_on_fds_used [OF r])
  next
    case False
    with pass show ?thesis by (simp add: table_slots_def)
  qed
  note laws = accounted_getExecedProcess [OF acc1 r1 this 2]
  have s3: "s3 = s2\<lparr>s_pid2proc := (s_pid2proc s2)(pr_pid (proc s2 p) \<mapsto> p)\<rparr>"
    using 3 by (auto simp: tree_insert_def split: if_splits)
  have "ok p {} pend s3" "\<forall>r. pr_parent (proc s3 p) = Some r \<longrightarrow> r < length (s_procs s3)"
    using laws by (simp_all add: s3 ok_def proc_def)
  from accounted_exec_initialize [OF this 4] show ?thesis by (simp add: ok_def)
qed

section \<open>Runs\<close>

text \<open>
  \<open>run s0 s P\<close>: from \<open>s0\<close> the supervisor gets to \<open>s\<close>, and \<open>P\<close> are the names whose writers were announced by
  \<open>pre_open\<close> and not settled.  A process settles only what was announced.
\<close>

inductive run :: "sup \<Rightarrow> sup \<Rightarrow> string multiset \<Rightarrow> bool" for s0 where
  run_start: "run s0 s0 {#}"
| run_file: "run s0 s P \<Longrightarrow> p < length (s_procs s) \<Longrightarrow> settled s p m \<subseteq># P \<Longrightarrow>
    handle_file s p m c a = Some (s', r) \<Longrightarrow> run s0 s' (P - settled s p m + announced s p m)"
| run_fd: "run s0 s P \<Longrightarrow> p < length (s_procs s) \<Longrightarrow> handle_fd s p m' c = Some (s', r) \<Longrightarrow> run s0 s' P"
| run_fork: "run s0 s P \<Longrightarrow> p < length (s_procs s) \<Longrightarrow>
    accept_fork_child s p pfd pack pid cfd cack = Some (s', q) \<Longrightarrow> run s0 s' P"
| run_exec: "run s0 s P \<Longrightarrow> p < length (s_procs s) \<Longrightarrow> exec_child s qu p = Some (s', q) \<Longrightarrow> run s0 s' P"

lemma run_accounted: "run s0 s P \<Longrightarrow> accounted {} (\<lambda>_. 0) s0 \<Longrightarrow> accounted {} (count P) s"
proof (induction rule: run.induct)
  case run_start
  then show ?case by (simp add: zero_multiset.rep_eq)
next
  case (run_file s P p m c a s' r)
  then have "ok p {} (count (settled s p m + (P - settled s p m))) s" by (simp add: ok_def)
  from ok_handle_file [OF this run_file(4)] show ?case unfolding ok_def by blast
next
  case (run_fd s P p m' c s' r)
  with ok_handle_fd [of p "count P" s m' c s' r] show ?case by (simp add: ok_def)
next
  case (run_fork s P p pfd pack pid cfd cack s' q)
  then show ?case using accounted_getForkedProcess [of "count P" s p pid]
    by (auto simp: accept_fork_child_def tree_insert_def ack_msg_def split: prod.splits if_splits)
next
  case (run_exec s P p qu s' q)
  then show ?case by (auto intro: accounted_exec_child)
qed

section \<open>Properties\<close>

text \<open>A supervisor at its start: nothing is opened for writing.\<close>

definition nothing_written :: "sup \<Rightarrow> bool" where
  "nothing_written s \<longleftrightarrow> sup_wf s \<and> x_writers (s_x s) = (\<lambda>_. None) \<and> (\<forall>d \<in> set (s_ofds s). writable_name d = None)"

lemma nothing_written_accounted: "nothing_written s \<Longrightarrow> accounted {} (\<lambda>_. 0) s"
proof -
  assume n: "nothing_written s"
  then have "writers_in (s_ofds s) U m = 0" for U m
    by (auto simp: nothing_written_def writers_in_def filter_empty_conv)
  with n show ?thesis by (simp add: nothing_written_def accounted_def writers_count_def)
qed


text \<open>One process below the root, with an empty table.\<close>

definition demo_sup :: sup where
  "demo_sup =
     \<lparr>s_x = three_procs the_os, s_execs = [], s_ofds = [],
      s_procs = [new_process 10 None 0 (Some 0) (Some new_fork_info) [] 0 [],
                 new_process 11 (Some 0) 0 (Some 0) None ''/'' 0x12 []],
      s_pipes = [], s_world = demo_world, s_next_ffd = 0, s_acks = [], s_pipe_created = [], s_lstat = (\<lambda>_. None),
      s_quirk_ignore_statfs = False, s_quirk_lto_wrapper = False, s_min_cpu_time_u = 0, s_qemu_user = None,
      s_pid2proc = (\<lambda>_. None), s_fork_child_socks = (\<lambda>_. None), s_parent_acks = (\<lambda>_. None),
      s_exec_child_socks = (\<lambda>_. None), s_posix_spawn_child_socks = (\<lambda>_. None), s_stored = [], s_gc_queue = [], s_kills = []\<rparr>"

abbreviation demo_pre_open :: file_message where "demo_pre_open \<equiv> Msg_pre_open None ''/f''"
abbreviation demo_open :: file_message where
  "demo_open \<equiv> Msg_open None ''/f'' 1 None None (Some 3) None True None"

lemma demo_runs:
  "map_option (\<lambda>(s, r). (settled demo_sup 1 demo_pre_open, announced demo_sup 1 demo_pre_open = {#''/f''#},
       length (s_procs s), settled s 1 demo_open = {#''/f''#}, announced s 1 demo_open))
     (handle_file demo_sup 1 demo_pre_open 0 0) = Some ({#}, True, 2, True, {#})"
  by code_simp

lemma demo_open_works:
  "map_option (\<lambda>(s, r). (live_writers s ''/f'', in_ignore_location (x_locs (s_x s)) ''/f''))
     (handle_file (fst (the (handle_file demo_sup 1 demo_pre_open 0 0))) 1 demo_open 0 0) = Some (1, False)"
  by code_simp

lemma demo_nothing_written: "nothing_written demo_sup"
  by (simp add: nothing_written_def demo_sup_def sup_wf_def new_process_def slots_def proc_slots_def table_slots_def
      three_procs_def empty_state_def new_exec_node_def closest_shortcut_point_def node_def)


end
