(* ===== verification/FB_Tables.thy ===== *)
theory FB_Tables
  imports FB_Runs
begin

text \<open>
  What the messages about file descriptors and the creation of processes do to the tables of file
  descriptors, and where they leave the bounds of a table.
\<close>

section \<open>Slots of a table\<close>

definition slot :: "fd_table \<Rightarrow> nat \<Rightarrow> file_fd option" where
  "slot fds i = (if i < length fds then fds ! i else None)"

lemma slot_Nil [simp]: "slot [] i = None"
  by (simp add: slot_def)

lemma slot_Cons: "slot (f # fds) i = (case i of 0 \<Rightarrow> f | Suc j \<Rightarrow> slot fds j)"
  by (simp add: slot_def split: nat.split)

lemma slot_trim [simp]: "slot (trim_fds fds) i = slot fds i"
proof (induction fds arbitrary: i)
  case (Cons f fds)
  then show ?case by (cases i) (auto simp: slot_Cons split: nat.splits dest: arg_cong [of _ _ "\<lambda>x. slot x _"])
qed simp

lemma trim_last: "trim_fds fds \<noteq> [] \<Longrightarrow> last (trim_fds fds) \<noteq> None"
  by (induction fds) (auto split: if_splits)

lemma slot_map2: "slot (map2 f [n ..< n + length fds] fds) i = (if i < length fds then f (n + i) (fds ! i) else None)"
  by (simp add: slot_def)


section \<open>Matching arguments\<close>

text \<open>
  \<open>argv_match_from_offset\<close> accepts the remaining arguments only if all of them are equal to the first expected one:
  it never advances in the expected arguments.
\<close>

theorem argv_match_from_offset_constant:
  assumes "actual_offset \<le> length actual" "expected_offset \<le> length expected"
  shows "argv_match_from_offset actual actual_offset expected expected_offset \<longleftrightarrow>
     drop actual_offset actual = replicate (length expected - expected_offset) (expected ! expected_offset)"
proof
  assume m: "argv_match_from_offset actual actual_offset expected expected_offset"
  show "drop actual_offset actual = replicate (length expected - expected_offset) (expected ! expected_offset)"
  proof (rule nth_equalityI)
    show len: "length (drop actual_offset actual) = length (replicate (length expected - expected_offset) (expected ! expected_offset))"
      using m assms by (simp add: argv_match_from_offset_def) linarith
    fix i assume i: "i < length (drop actual_offset actual)"
    then have "expected_offset + i \<in> set [expected_offset ..< length expected]" using len assms by simp
    then have "actual ! (actual_offset + (expected_offset + i) - expected_offset) = expected ! expected_offset"
      using m by (simp only: argv_match_from_offset_def list_all_iff)
    then show "drop actual_offset actual ! i = replicate (length expected - expected_offset) (expected ! expected_offset) ! i"
      using i len by simp
  qed
next
  assume e: "drop actual_offset actual = replicate (length expected - expected_offset) (expected ! expected_offset)"
  from arg_cong [OF e, of length] assms have len: "int (length actual) - int actual_offset = int (length expected) - int expected_offset"
    by simp
  have "actual ! (actual_offset + i - expected_offset) = expected ! expected_offset"
    if "i \<in> set [expected_offset ..< length expected]" for i
  proof -
    have "drop actual_offset actual ! (i - expected_offset) = expected ! expected_offset"
      using that unfolding e by (subst nth_replicate) auto
    then show ?thesis using that assms by (simp add: add_diff_assoc)
  qed
  then show "argv_match_from_offset actual actual_offset expected expected_offset"
    using len by (simp add: argv_match_from_offset_def list_all_iff)
qed

theorem argv_match_from_offset_constant_witness:
  "argv_matches_expectation False [''/bin/sh'', ''./foo'', ''a'', ''b''] [''foo'', ''a'', ''b''] = Some False"
proof -
  have "\<not> argv_match_from_offset [''/bin/sh'', ''./foo'', ''a'', ''b''] (Suc (Suc 0)) [''foo'', ''a'', ''b''] (Suc 0)"
    using argv_match_from_offset_constant [of "Suc (Suc 0)" "[''/bin/sh'', ''./foo'', ''a'', ''b'']" "Suc 0" "[''foo'', ''a'', ''b'']"]
    by (simp add: numeral_2_eq_2)
  then show ?thesis by (simp add: argv_matches_expectation_def Let_def)
qed

section \<open>Errors of dup()\<close>

text \<open>
  When \<open>fcntl(fd, F_DUPFD)\<close> fails with an error that \<open>handle_dup3\<close> does not list, such as \<open>EMFILE\<close>, the
  result -1 is used as an index of the table.
\<close>

theorem failed_dupfd_out_of_bounds:
  assumes "get_fd s p fd = Some f" "err \<notin> {EBADF, EBUSY, EINTR, EINVAL, ENFILE}"
  shows "handle_fd s p (Msg_fcntl fd 0 arg (Some (-1)) (Some err)) fd_conn = None"
proof -
  have "fd \<noteq> -1" using get_fd_range [OF assms(1)] by simp
  moreover have "get_fd s p (-1) = None" by (simp add: get_fd_def)
  ultimately show ?thesis using assms
    by (simp add: handle_fcntl_def handle_dup3_def handle_force_close_def add_filefd_def split: prod.splits)
qed

section \<open>Closing and duplicating\<close>

definition table_size :: "sup \<Rightarrow> nat \<Rightarrow> nat" where
  "table_size s p = length (pr_fds (proc s p))"

lemma get_fd_outside: "fd < 0 \<or> int (table_size s p) \<le> fd \<Longrightarrow> get_fd s p fd = None"
  by (auto simp: get_fd_def table_size_def)

lemma table_size_set_slot [simp]: "p < length (s_procs s) \<Longrightarrow> table_size (set_slot p fd f s) q = table_size s q"
  by (simp add: table_size_def set_slot_def set_proc_def proc_def nth_list_update)

lemma close_plain:
  assumes "p < length (s_procs s)" "get_fd s p fd = Some f" "ffd_pipe f = None"
  obtains s' where "handle_close s p fd 0 = Some (s', 0)" "length (s_procs s') = length (s_procs s)"
    "\<And>q. table_size s' q = table_size s q"
    "\<And>q e. get_fd s' q e = (if q = p \<and> e = fd then None else get_fd s q e)"
proof -
  define s' where "s' = unref_ofd (set_slot p fd None s) (ffd_ofd f)"
  have "handle_close s p fd 0 = Some (s', 0)"
    using assms(2,3) by (simp add: handle_close_def handle_close_ffd_def destroy_ffd_def unref_pipe_def s'_def)
  moreover have ps: "s_procs s' = s_procs (set_slot p fd None s)" by (simp add: s'_def procs_same)
  moreover have "get_fd s' q e = (if q = p \<and> e = fd then None else get_fd s q e)" for q e
    using get_fd_procs [OF ps] get_fd_set_slot [of p s fd None q e] assms(1) get_fd_range [OF assms(2)] by simp
  moreover have "table_size s' q = table_size s q" for q
    using table_size_set_slot [OF assms(1), of fd None q] ps by (simp add: table_size_def proc_def)
  ultimately show ?thesis using that by (simp add: set_slot_def set_proc_def)
qed


definition plain_table :: "sup \<Rightarrow> nat \<Rightarrow> bool" where
  "plain_table s p \<longleftrightarrow> (\<forall>f \<in> set (table_slots (pr_fds (proc s p))). ffd_pipe f = None)"

lemma plain_table_get_fd: "plain_table s p \<Longrightarrow> get_fd s p fd = Some f \<Longrightarrow> ffd_pipe f = None"
  using get_fd_range [of s p fd f] by (auto simp: plain_table_def set_table_slots get_fd_def split: if_splits) (metis nth_mem)

lemma plain_table_iff: "plain_table s p \<longleftrightarrow> (\<forall>fd f. get_fd s p fd = Some f \<longrightarrow> ffd_pipe f = None)"
proof
  assume a: "\<forall>fd f. get_fd s p fd = Some f \<longrightarrow> ffd_pipe f = None"
  show "plain_table s p"
    unfolding plain_table_def set_table_slots
  proof clarify
    fix f assume "Some f \<in> set (pr_fds (proc s p))"
    then obtain i where "i < length (pr_fds (proc s p))" "pr_fds (proc s p) ! i = Some f" by (auto simp: in_set_conv_nth)
    then have "get_fd s p (int i) = Some f" by (simp add: get_fd_def)
    with a show "ffd_pipe f = None" by blast
  qed
qed (use plain_table_get_fd in blast)

definition after_close_range :: "32 word \<Rightarrow> file_fd option \<Rightarrow> file_fd option" where
  "after_close_range flags f =
     (if has_flag flags CLOSE_RANGE_CLOEXEC then map_option (\<lambda>g. g\<lparr>ffd_cloexec := True\<rparr>) f else None)"

lemma after_close_range_idem [simp]: "after_close_range flags (after_close_range flags f) = after_close_range flags f"
  "after_close_range flags None = None"
  by (cases f; simp add: after_close_range_def)+

lemma close_range_loop_total:
  assumes "p < length (s_procs s)" "plain_table s p" "\<forall>fd \<in> set fds. 0 \<le> fd \<and> fd < int (table_size s p)"
  shows "\<exists>s'. close_range_loop s p flags fds = Some s' \<and>
    (\<forall>q e. get_fd s' q e = (if q = p \<and> e \<in> set fds then after_close_range flags (get_fd s q e) else get_fd s q e))"
  using assms
proof (induction fds arbitrary: s)
  case (Cons fd fds)
  then have r: "\<not> (fd < 0 \<or> int (length (pr_fds (proc s p))) \<le> fd)" by (auto simp: table_size_def)
  have step: "\<exists>s'. close_range_loop s p flags (fd # fds) = Some s' \<and>
      (\<forall>q e. get_fd s' q e = (if q = p \<and> e \<in> set (fd # fds) then after_close_range flags (get_fd s q e) else get_fd s q e))"
    if t: "close_range_loop s p flags (fd # fds) = close_range_loop t p flags fds" "p < length (s_procs t)"
      "table_size t p = table_size s p"
      "\<And>q e. get_fd t q e = (if q = p \<and> e = fd then after_close_range flags (get_fd s q e) else get_fd s q e)" for t
  proof -
    have "plain_table t p"
      using Cons.prems(2) unfolding plain_table_iff t(4)
      by (auto simp: after_close_range_def split: if_splits)
    from Cons.IH [OF t(2) this] Cons.prems(3) t(3) obtain s' where
      s': "close_range_loop t p flags fds = Some s'"
      "\<And>q e. get_fd s' q e = (if q = p \<and> e \<in> set fds then after_close_range flags (get_fd t q e) else get_fd t q e)" by auto
    have "get_fd s' q e = (if q = p \<and> e \<in> set (fd # fds) then after_close_range flags (get_fd s q e) else get_fd s q e)" for q e
      unfolding s'(2) t(4) by auto
    with s'(1) t(1) show ?thesis by auto
  qed
  show ?case
  proof (cases "get_fd s p fd")
    case None
    then show ?thesis using r Cons.prems(1) by (intro step [of s]) auto
  next
    case (Some f)
    show ?thesis
    proof (cases "has_flag flags CLOSE_RANGE_CLOEXEC")
      case True
      define t where "t = set_slot p fd (Some (f\<lparr>ffd_cloexec := True\<rparr>)) s"
      have "get_fd t q e = (if q = p \<and> e = fd then after_close_range flags (get_fd s q e) else get_fd s q e)" for q e
        using get_fd_set_slot [of p s fd "Some (f\<lparr>ffd_cloexec := True\<rparr>)" q e] Cons.prems(1) get_fd_range [OF Some] Some True
        by (simp add: t_def after_close_range_def)
      moreover have "length (s_procs t) = length (s_procs s)" by (simp add: t_def set_slot_def set_proc_def)
      moreover have "table_size t p = table_size s p" using Cons.prems(1) by (simp add: t_def)
      moreover have "close_range_loop s p flags (fd # fds) = close_range_loop t p flags fds"
        using r Some True by (simp add: t_def)
      ultimately show ?thesis using Cons.prems(1) by (intro step [of t]) simp_all
    next
      case False
      obtain t where t: "handle_close s p fd 0 = Some (t, 0)" "length (s_procs t) = length (s_procs s)"
        "table_size t p = table_size s p" "\<And>q e. get_fd t q e = (if q = p \<and> e = fd then None else get_fd s q e)"
        using close_plain [OF Cons.prems(1) Some plain_table_get_fd [OF Cons.prems(2) Some]] by metis
      have "close_range_loop s p flags (fd # fds) = close_range_loop t p flags fds" using r Some False t(1) by simp
      moreover have "get_fd t q e = (if q = p \<and> e = fd then after_close_range flags (get_fd s q e) else get_fd s q e)" for q e
        using t(4) False by (simp add: after_close_range_def)
      ultimately show ?thesis using Cons.prems(1) t(2,3) by (intro step [of t]) simp_all
    qed
  qed
qed simp

lemma uint_less31: "unat w < 2 ^ 31 \<longleftrightarrow> uint w < 2 ^ 31" for w :: "32 word"
  using uint_ge_0 [of w] by (simp only: unat_eq_nat_uint nat_less_iff) simp

lemma sint_small: "unat w < 2 ^ 31 \<Longrightarrow> sint w = uint w" for w :: "32 word"
proof -
  assume "unat w < 2 ^ 31"
  then have "uint w < 2 ^ 31" by (simp only: uint_less31)
  moreover have "0 \<le> uint w" by (rule uint_ge_0)
  ultimately have "signed_take_bit 31 (uint w) = uint w" by (intro signed_take_bit_int_eq_self) linarith+
  then show ?thesis by (simp only: sint_uint) simp
qed

lemma sint_large: "2 ^ 31 \<le> unat w \<Longrightarrow> sint w < 0" for w :: "32 word"
proof -
  assume "2 ^ 31 \<le> unat w"
  then have "\<not> uint w < 2 ^ 31" by (simp only: uint_less31 [symmetric])
  moreover have "uint w < 2 ^ 32" using uint_lt2p [of w] by simp
  ultimately have "uint w div 2 ^ 31 = 1" by (intro int_div_pos_eq [where r = "uint w - 2 ^ 31"]) simp_all
  then have "bit (uint w) 31" by (simp only: bit_iff_odd) simp
  then have "signed_take_bit 31 (uint w) < 0" by (simp only: signed_take_bit_negative_iff)
  then show ?thesis by (simp only: sint_uint) simp
qed

lemma range_max:
  assumes "0 < n" "n < 2 ^ 31"
  shows "sint (min last_fd ((of_nat n :: 32 word) - 1)) = min (uint last_fd) (int n - 1)"
proof -
  define m where "m = (of_nat n :: 32 word) - 1"
  have "m = of_nat (n - 1)" using assms(1) by (simp add: m_def of_nat_diff)
  then have um: "unat m = n - 1" using assms by (simp only: unat_of_nat) simp
  have "unat (min last_fd m) \<le> unat m" by (simp add: min_def word_le_nat_alt)
  then have "sint (min last_fd m) = uint (min last_fd m)" using um assms by (intro sint_small) linarith
  also have "\<dots> = min (uint last_fd) (uint m)" by (simp add: min_def word_le_def)
  also have "uint m = int n - 1" using um assms(1) by (simp add: uint_nat)
  finally show ?thesis by (simp add: m_def)
qed


text \<open>
  The other calls that the kernel accepts leave the table: with \<open>first\<close> at least \<open>2^31\<close> the loop starts at a
  negative index, and on an empty table it starts although there is nothing to visit.
\<close>

theorem close_range_out_of_bounds:
  assumes "2 ^ 31 \<le> unat first \<and> 0 < table_size s p \<and> table_size s p < 2 ^ 31 \<or>
    table_size s p = 0 \<and> sint first \<le> sint last_fd"
  shows "handle_fd s p (Msg_close_range first last_fd flags None) fd_conn = None"
proof -
  define m where "m = sint (min last_fd ((of_nat (table_size s p) :: 32 word) - 1))"
  have "(sint first < 0 \<or> int (table_size s p) \<le> sint first) \<and> sint first \<le> m"
    using assms
  proof
    assume a: "2 ^ 31 \<le> unat first \<and> 0 < table_size s p \<and> table_size s p < 2 ^ 31"
    then have "m = min (uint last_fd) (int (table_size s p) - 1)" by (simp add: m_def range_max)
    then have "0 \<le> m" using a by simp
    with sint_large [of first] a show ?thesis by simp
  next
    assume "table_size s p = 0 \<and> sint first \<le> sint last_fd"
    moreover have "min last_fd (- 1) = last_fd" by (simp add: min_def)
    ultimately show ?thesis by (auto simp: m_def)
  qed
  then have out: "sint first < 0 \<or> int (table_size s p) \<le> sint first" and le: "sint first \<le> m" by simp_all
  have "close_range_loop s p flags (sint first # rest) = None" for rest
    using out by (auto simp: table_size_def)
  then have "close_range_loop s p flags [sint first .. m] = None"
    using le by (subst upto_rec1) auto
  then show ?thesis by (simp add: handle_close_range_def Let_def m_def table_size_def)
qed

section \<open>Inherited files\<close>

text \<open>
  The open file descriptors of a process in increasing order, and their open file descriptions.
\<close>

definition open_fds :: "sup \<Rightarrow> nat \<Rightarrow> nat list \<Rightarrow> int list" where
  "open_fds s p fds = filter (\<lambda>fd. get_fd s p fd \<noteq> None) (map int fds)"

definition ofd_no :: "sup \<Rightarrow> nat \<Rightarrow> int \<Rightarrow> nat" where
  "ofd_no s p fd = ffd_ofd (the (get_fd s p fd))"

text \<open>The reference definition: one group per open file description, in the order of their first file descriptors.\<close>

definition by_description :: "sup \<Rightarrow> nat \<Rightarrow> int list \<Rightarrow> int list list" where
  "by_description s p ds = map (\<lambda>k. filter (\<lambda>d. ofd_no s p d = k) ds) (rev (remdups (rev (map (ofd_no s p) ds))))"

lemma by_description_snoc:
  "by_description s p (ds @ [d]) =
     (if ofd_no s p d \<in> ofd_no s p ` set ds
      then map (\<lambda>g. if ofd_no s p (hd g) = ofd_no s p d then g @ [d] else g) (by_description s p ds)
      else by_description s p ds @ [[d]])"
proof (cases "ofd_no s p d \<in> ofd_no s p ` set ds")
  case True
  have "filter (\<lambda>x. ofd_no s p x = k) (ds @ [d]) =
      (if ofd_no s p (hd (filter (\<lambda>x. ofd_no s p x = k) ds)) = ofd_no s p d
       then filter (\<lambda>x. ofd_no s p x = k) ds @ [d] else filter (\<lambda>x. ofd_no s p x = k) ds)"
    if "k \<in> ofd_no s p ` set ds" for k
  proof -
    from that have "filter (\<lambda>x. ofd_no s p x = k) ds \<noteq> []" by (auto simp: filter_empty_conv)
    then have "hd (filter (\<lambda>x. ofd_no s p x = k) ds) \<in> set (filter (\<lambda>x. ofd_no s p x = k) ds)" by (rule hd_in_set)
    then show ?thesis by auto
  qed
  with True show ?thesis by (auto simp: by_description_def)
next
  case False
  then have "filter (\<lambda>x. ofd_no s p x = ofd_no s p d) ds = []" by (auto simp: filter_empty_conv) (metis image_eqI)
  with False show ?thesis by (auto simp: by_description_def)
qed

lemma by_description_heads:
  assumes "g \<in> set (by_description s p ds)"
  shows "g \<noteq> [] \<and> set g \<subseteq> set ds \<and> hd g \<in> set ds"
proof -
  from assms obtain k where k: "g = filter (\<lambda>d. ofd_no s p d = k) ds" "k \<in> ofd_no s p ` set ds"
    by (auto simp: by_description_def)
  then have "g \<noteq> []" by (auto simp: filter_empty_conv)
  with k(1) hd_in_set [of g] show ?thesis by auto
qed

lemma by_description_keys: "map (\<lambda>g. ofd_no s p (hd g)) (by_description s p ds) = rev (remdups (rev (map (ofd_no s p) ds)))"
proof -
  have "ofd_no s p (hd (filter (\<lambda>d. ofd_no s p d = k) ds)) = k" if "k \<in> ofd_no s p ` set ds" for k
  proof -
    from that have "filter (\<lambda>d. ofd_no s p d = k) ds \<noteq> []" by (auto simp: filter_empty_conv)
    from hd_in_set [OF this] show ?thesis by simp
  qed
  then show ?thesis unfolding by_description_def map_map comp_def by (intro map_idI) auto
qed

lemma add_to_group_found:
  assumes "\<forall>g \<in> set gs. get_fd s p (hd (if_fds g)) \<noteq> None" "distinct (map (\<lambda>g. ofd_no s p (hd (if_fds g))) gs)"
    and "ffd_ofd f \<in> set (map (\<lambda>g. ofd_no s p (hd (if_fds g))) gs)"
  shows "add_to_group s p fd f gs =
    Some (map (\<lambda>g. if ofd_no s p (hd (if_fds g)) = ffd_ofd f then g\<lparr>if_fds := if_fds g @ [fd]\<rparr> else g) gs)"
  using assms
proof (induction gs)
  case (Cons g gs)
  then obtain h where h: "get_fd s p (hd (if_fds g)) = Some h" by auto
  show ?case
  proof (cases "ffd_ofd h = ffd_ofd f")
    case True
    with Cons.prems(2) h have "\<forall>g' \<in> set gs. ofd_no s p (hd (if_fds g')) \<noteq> ffd_ofd f" by (force simp: ofd_no_def)
    then have "map (\<lambda>g. if ofd_no s p (hd (if_fds g)) = ffd_ofd f then g\<lparr>if_fds := if_fds g @ [fd]\<rparr> else g) gs = gs"
      by (simp add: map_idI)
    with True h show ?thesis by (simp add: fdcmp_def ofd_no_def)
  next
    case False
    with Cons h show ?thesis by (simp add: fdcmp_def ofd_no_def)
  qed
qed simp

lemma add_to_group_new:
  assumes "\<forall>g \<in> set gs. get_fd s p (hd (if_fds g)) \<noteq> None"
    and "ffd_ofd f \<notin> set (map (\<lambda>g. ofd_no s p (hd (if_fds g))) gs)"
  shows "add_to_group s p fd f gs = map_option (\<lambda>g. gs @ [g]) (new_inherited_file s fd f)"
  using assms
proof (induction gs)
  case (Cons g gs)
  then obtain h where h: "get_fd s p (hd (if_fds g)) = Some h" by auto
  with Cons show ?case by (auto simp: fdcmp_def ofd_no_def map_option_case split: option.splits)
qed simp

lemma group_fds_append: "group_fds s p (xs @ ys) gs = Option.bind (group_fds s p xs gs) (group_fds s p ys)"
proof (induction xs arbitrary: gs)
  case (Cons x xs)
  then show ?case
    by (cases "case get_fd s p (int x) of Some f \<Rightarrow> add_to_group s p (int x) f gs | None \<Rightarrow> Some gs") simp_all
qed simp

definition describes :: "sup \<Rightarrow> nat \<Rightarrow> inherited_file \<Rightarrow> bool" where
  "describes s p g \<longleftrightarrow>
     (case get_fd s p (hd (if_fds g)) of
        Some f \<Rightarrow> if_type g = ofd_type (ofd_of s f) \<and> if_filename g = ofd_filename (ofd_of s f) \<and>
                  if_flags g = ofd_flags (ofd_of s f) \<and> if_recorder g = None \<and> if_start_offset g = -1
      | None \<Rightarrow> False)"

lemma group_fds_spec:
  assumes typed: "\<forall>fd f. get_fd s p fd = Some f \<longrightarrow> ofd_type (ofd_of s f) \<noteq> FD_UNINITIALIZED"
  shows "\<exists>gs. group_fds s p xs [] = Some gs \<and> map if_fds gs = by_description s p (open_fds s p xs) \<and>
    (\<forall>g \<in> set gs. describes s p g)"
proof (induction xs rule: rev_induct)
  case Nil
  then show ?case by (simp add: by_description_def open_fds_def)
next
  case (snoc x xs)
  then obtain gs where gs: "group_fds s p xs [] = Some gs" "map if_fds gs = by_description s p (open_fds s p xs)"
    "\<forall>g \<in> set gs. describes s p g" by blast
  show ?case
  proof (cases "get_fd s p (int x)")
    case None
    with gs show ?thesis by (simp add: group_fds_append open_fds_def)
  next
    case (Some f)
    let ?ds = "open_fds s p xs"
    have ds: "open_fds s p (xs @ [x]) = ?ds @ [int x]" using Some by (simp add: open_fds_def)
    have f: "ofd_no s p (int x) = ffd_ofd f" using Some by (simp add: ofd_no_def)
    have run: "group_fds s p (xs @ [x]) [] = add_to_group s p (int x) f gs"
      using gs(1) Some by (cases "add_to_group s p (int x) f gs") (simp_all add: group_fds_append)
    have heads: "\<forall>g \<in> set gs. get_fd s p (hd (if_fds g)) \<noteq> None" using gs(3) by (auto simp: describes_def split: option.splits)
    have "map (\<lambda>g. ofd_no s p (hd g)) (map if_fds gs) = rev (remdups (rev (map (ofd_no s p) ?ds)))"
      unfolding gs(2) by (rule by_description_keys)
    then have keys: "map (\<lambda>g. ofd_no s p (hd (if_fds g))) gs = rev (remdups (rev (map (ofd_no s p) ?ds)))" by (simp add: comp_def)
    have ne: "if_fds g \<noteq> []" if "g \<in> set gs" for g
    proof -
      have "if_fds g \<in> set (map if_fds gs)" using that by simp
      then show ?thesis unfolding gs(2) using by_description_heads by blast
    qed
    show ?thesis
    proof (cases "ffd_ofd f \<in> ofd_no s p ` set ?ds")
      case True
      define upd where "upd g = (if ofd_no s p (hd (if_fds g)) = ffd_ofd f then g\<lparr>if_fds := if_fds g @ [int x]\<rparr> else g)" for g :: inherited_file
      have "add_to_group s p (int x) f gs = Some (map upd gs)"
        unfolding upd_def using True by (intro add_to_group_found [OF heads]) (simp_all add: keys)
      moreover have "map if_fds (map upd gs) = by_description s p (?ds @ [int x])"
        using True unfolding by_description_snoc f gs(2) [symmetric] by (simp add: upd_def)
      moreover have "describes s p (upd g)" if "g \<in> set gs" for g
        using bspec [OF gs(3) that] ne [OF that] by (auto simp: upd_def describes_def split: option.splits)
      ultimately show ?thesis using run ds by auto
    next
      case False
      then have "ffd_ofd f \<notin> set (map (\<lambda>g. ofd_no s p (hd (if_fds g))) gs)" by (simp add: keys)
      note new = add_to_group_new [OF heads this, of "int x"]
      have ty: "ofd_type (ofd_of s f) \<noteq> FD_UNINITIALIZED" using typed Some by blast
      define h where "h = the (new_inherited_file s (int x) f)"
      have h: "new_inherited_file s (int x) f = Some h" "if_fds h = [int x]" "describes s p h"
        using ty Some by (simp_all add: h_def new_inherited_file_def describes_def)
      have "map if_fds (gs @ [h]) = by_description s p (?ds @ [int x])"
        using False unfolding by_description_snoc f gs(2) [symmetric] by (simp add: h(2))
      with new h gs(3) run ds show ?thesis by auto
    qed
  qed
qed

text \<open>
  C38: \<open>ExecedProcess::initialize\<close> groups the inherited file descriptors by their open file descriptions: there is one
  group for each open file description, in the order of their lowest file descriptors, with all the open file
  descriptors that refer to it in increasing order, and it has the type, name and flags of the description.
\<close>

theorem inherited_files_grouped:
  assumes "\<forall>fd f. get_fd s p fd = Some f \<longrightarrow> ofd_type (ofd_of s f) \<noteq> FD_UNINITIALIZED"
  shows "\<exists>gs. group_fds s p [0 ..< length (pr_fds (proc s p))] [] = Some gs \<and>
    map if_fds gs = by_description s p (open_fds s p [0 ..< length (pr_fds (proc s p))]) \<and>
    (\<forall>g \<in> set gs. describes s p g)"
  using group_fds_spec [OF assms] .

section \<open>Witnesses\<close>

text \<open>The demonstration process after it opened a file as fd 3.\<close>

definition demo_opened :: sup where
  "demo_opened = fst (the (handle_file (fst (the (handle_file demo_sup 1 demo_pre_open 0 0))) 1 demo_open 0 0))"

lemma demo_opened_facts:
  "length (s_procs demo_opened) = 2 \<and> plain_table demo_opened 1 \<and> table_size demo_opened 1 = 4 \<and>
   map_option ffd_ofd (get_fd demo_opened 1 3) = Some 0 \<and> map_option ffd_pipe (get_fd demo_opened 1 3) = Some None \<and>
   map_option ffd_cloexec (get_fd demo_opened 1 3) = Some False \<and> get_fd demo_opened 1 1 = None \<and>
   pr_fds (proc demo_opened 1) = [None, None, None, get_fd demo_opened 1 3]"
  by code_simp

lemma demo_opened_fd:
  obtains f where "get_fd demo_opened 1 3 = Some f" "ffd_ofd f = 0" "ffd_pipe f = None" "\<not> ffd_cloexec f"
    "pr_fds (proc demo_opened 1) = [None, None, None, Some f]"
  using demo_opened_facts by auto


theorem failed_dupfd_out_of_bounds_witness:
  "handle_fd demo_opened 1 (Msg_fcntl 3 0 (Some 0) (Some (-1)) (Some 24)) 0 = None"
proof -
  obtain f where "get_fd demo_opened 1 3 = Some f" by (rule demo_opened_fd)
  then show ?thesis by (rule failed_dupfd_out_of_bounds) simp
qed



theorem close_range_out_of_bounds_witness:
  "handle_fd demo_opened 1 (Msg_close_range 0x80000000 0xFFFFFFFF 0 None) 0 = None"
proof -
  have "2 ^ 31 \<le> unat (0x80000000 :: 32 word) \<and> 0 < table_size demo_opened 1 \<and> table_size demo_opened 1 < 2 ^ 31"
    using demo_opened_facts by auto
  then show ?thesis using close_range_out_of_bounds [of "0x80000000" demo_opened 1 "0xFFFFFFFF" 0 0] by blast
qed

text \<open>The same process after \<open>dup2(3, 1)\<close>.\<close>

definition demo_dup :: sup where
  "demo_dup = fst (the (handle_fd demo_opened 1 (Msg_dup3 3 1 None None) 0))"

lemma demo_dup_facts:
  "list_all (\<lambda>f. ofd_type (ofd_of demo_dup f) = FD_FILE) (table_slots (pr_fds (proc demo_dup 1))) \<and>
   by_description demo_dup 1 (open_fds demo_dup 1 [0 ..< length (pr_fds (proc demo_dup 1))]) = [[1, 3]]"
  by code_simp

theorem inherited_files_grouped_witness:
  "map_option (map if_fds) (group_fds demo_dup 1 [0 ..< length (pr_fds (proc demo_dup 1))] []) = Some [[1, 3]]"
proof -
  have "ofd_type (ofd_of demo_dup f) \<noteq> FD_UNINITIALIZED" if "get_fd demo_dup 1 fd = Some f" for fd f
  proof -
    have "f \<in> set (table_slots (pr_fds (proc demo_dup 1)))"
      using that get_fd_range [OF that] by (auto simp: set_table_slots get_fd_def split: if_splits) (metis nth_mem)
    with demo_dup_facts show ?thesis by (auto simp: list_all_iff)
  qed
  with inherited_files_grouped [of demo_dup 1] demo_dup_facts show ?thesis by auto
qed

end
