(* ===== verification/FB_Lifecycle.thy ===== *)
theory FB_Lifecycle
  imports FB_Spawn
begin

text \<open>
  The end of a process: \<open>finish\<close>, \<open>maybe_finalize\<close>, \<open>do_finalize\<close> and the bookkeeping of orphans of
  \<^verbatim>\<open>process.cc\<close>, \<^verbatim>\<open>forked_process.cc\<close> and \<^verbatim>\<open>execed_process.cc\<close>, and the messages of
  \<^verbatim>\<open>message_processor.cc\<close> by which a process waits for another.

  The functions that walk the tree of processes take fuel; \<open>None\<close> is a failed assertion, a null pointer that is
  dereferenced, or fuel that ran out.  \<open>fuel\<close>, one more than the number of processes, is enough on a tree.
  The assertion of \<open>set_has_orphan_descendant_bubble_up\<close> in builds with \<open>FB_EXTRA_DEBUG\<close> is left out.
\<close>

section \<open>Fork points\<close>

definition fuel :: "sup \<Rightarrow> nat" where
  "fuel s = Suc (length (s_procs s))"

definition state_of :: "sup \<Rightarrow> nat \<Rightarrow> process_state" where
  "state_of s p = pr_state (proc s p)"

definition fork_info_of :: "sup \<Rightarrow> nat \<Rightarrow> fork_info option" where
  "fork_info_of s p = Option.bind (pr_fork_point (proc s p)) (\<lambda>k. pr_fork (proc s k))"

definition set_fork :: "nat \<Rightarrow> fork_info \<Rightarrow> sup \<Rightarrow> sup" where
  "set_fork k x s = set_proc k ((proc s k)\<lparr>pr_fork := Some x\<rparr>) s"

definition been_waited_for :: "sup \<Rightarrow> nat \<Rightarrow> bool option" where
  "been_waited_for s p = map_option fk_been_waited_for (fork_info_of s p)"

definition fork_parent :: "sup \<Rightarrow> nat \<Rightarrow> nat option" where
  "fork_parent s p = Option.bind (pr_fork_point (proc s p)) (\<lambda>k. pr_parent (proc s k))"

fun last_exec_descendant :: "nat \<Rightarrow> sup \<Rightarrow> nat \<Rightarrow> nat option" where
  "last_exec_descendant 0 s p = None"
| "last_exec_descendant (Suc n) s p =
     (case pr_exec_child (proc s p) of None \<Rightarrow> Some p | Some c \<Rightarrow> last_exec_descendant n s c)"

section \<open>The state of the descendants\<close>

text \<open>A loop that returns false at the first element that fails the test.\<close>

fun all_m :: "('a \<Rightarrow> bool option) \<Rightarrow> 'a list \<Rightarrow> bool option" where
  "all_m f [] = Some True"
| "all_m f (x # xs) = do { b \<leftarrow> f x; if b then all_m f xs else Some False }"

text \<open>\<open>finalized_or_terminated_and_has_orphan_and_finalized_children\<close>.\<close>

fun finalized_or_orphans_left :: "nat \<Rightarrow> sup \<Rightarrow> nat \<Rightarrow> bool option" where
  "finalized_or_orphans_left 0 s p = None"
| "finalized_or_orphans_left (Suc n) s p =
     (case state_of s p of
        FB_PROC_FINALIZED \<Rightarrow> Some True
      | FB_PROC_RUNNING \<Rightarrow> Some False
      | FB_PROC_TERMINATED \<Rightarrow> do {
          k \<leftarrow> fork_info_of s p;
          if fk_has_orphan_descendant k then do {
            b \<leftarrow> all_m (\<lambda>c. do {
                   x \<leftarrow> pr_fork (proc s c);
                   if fk_orphan x then Some True else finalized_or_orphans_left n s c }) (pr_fork_children (proc s p));
            if b then (case pr_exec_child (proc s p) of
                         Some c \<Rightarrow> finalized_or_orphans_left n s c
                       | None \<Rightarrow> Some True)
            else Some False }
          else Some False })"

definition any_child_not_finalized :: "sup \<Rightarrow> nat \<Rightarrow> bool" where
  "any_child_not_finalized s p \<longleftrightarrow>
     pr_exec_pending (proc s p) \<or> pr_has_pending_popen (proc s p) \<or>
     (case pr_exec_child (proc s p) of Some c \<Rightarrow> state_of s c \<noteq> FB_PROC_FINALIZED | None \<Rightarrow> False) \<or>
     list_ex (\<lambda>c. state_of s c \<noteq> FB_PROC_FINALIZED) (pr_fork_children (proc s p))"

definition any_child_not_finalized_or_terminated_with_orphan :: "sup \<Rightarrow> nat \<Rightarrow> bool option" where
  "any_child_not_finalized_or_terminated_with_orphan s p =
     (if pr_exec_pending (proc s p) \<or> pr_has_pending_popen (proc s p) then Some True
      else do {
        b \<leftarrow> (case pr_exec_child (proc s p) of
                Some c \<Rightarrow> finalized_or_orphans_left (fuel s) s c | None \<Rightarrow> Some True);
        if \<not> b then Some True
        else map_option Not (all_m (finalized_or_orphans_left (fuel s) s) (pr_fork_children (proc s p))) })"

definition can_ack_parent_wait :: "sup \<Rightarrow> nat \<Rightarrow> bool option" where
  "can_ack_parent_wait s k =
     (if state_of s k = FB_PROC_FINALIZED then Some True
      else do {
        x \<leftarrow> pr_fork (proc s k);
        if state_of s k = FB_PROC_TERMINATED \<and> fk_has_orphan_descendant x
        then map_option Not (any_child_not_finalized_or_terminated_with_orphan s k)
        else Some False })"

text \<open>The processes that \<open>terminate_top_orphans\<close> kills; the inner loop goes over an exec chain.\<close>

fun chain_of :: "nat \<Rightarrow> sup \<Rightarrow> nat \<Rightarrow> nat list option" where
  "chain_of 0 s p = None"
| "chain_of (Suc n) s p =
     (case pr_exec_child (proc s p) of None \<Rightarrow> Some [p] | Some c \<Rightarrow> map_option ((#) p) (chain_of n s c))"

fun concat_m :: "('a \<Rightarrow> 'b list option) \<Rightarrow> 'a list \<Rightarrow> 'b list option" where
  "concat_m f [] = Some []"
| "concat_m f (x # xs) = do { ys \<leftarrow> f x; zs \<leftarrow> concat_m f xs; Some (ys @ zs) }"

fun top_orphans :: "nat \<Rightarrow> sup \<Rightarrow> nat \<Rightarrow> int list option" where
  "top_orphans 0 s p = None"
| "top_orphans (Suc n) s p =
     do {
       x \<leftarrow> fork_info_of s p;
       killed \<leftarrow>
         (if fk_orphan x \<and> state_of s p = FB_PROC_RUNNING then do {
            ch \<leftarrow> chain_of (fuel s) s p;
            ks \<leftarrow> concat_m (\<lambda>c. concat_m (top_orphans n s) (pr_fork_children (proc s c))) ch;
            Some (pr_pid (proc s p) # ks) }
          else Some []);
       if state_of s p = FB_PROC_TERMINATED then do {
         ks \<leftarrow> concat_m (top_orphans n s) (pr_fork_children (proc s p));
         ls \<leftarrow> (case pr_exec_child (proc s p) of Some c \<Rightarrow> top_orphans n s c | None \<Rightarrow> Some []);
         Some (killed @ ks @ ls) }
       else Some killed }"

definition terminate_top_orphans :: "sup \<Rightarrow> nat \<Rightarrow> sup option" where
  "terminate_top_orphans s p = map_option (\<lambda>ks. s\<lparr>s_kills := s_kills s @ ks\<rparr>) (top_orphans (fuel s) s p)"

section \<open>Orphans\<close>

definition maybe_send_on_finalized_ack :: "sup \<Rightarrow> nat \<Rightarrow> sup option" where
  "maybe_send_on_finalized_ack s k =
     do {
       x \<leftarrow> pr_fork (proc s k);
       if fk_ack_id x \<noteq> -1 then
         (if fk_ack_fd x = -1 then None
          else Some (set_fork k (x\<lparr>fk_ack_id := -1, fk_ack_fd := -1\<rparr>) (ack_msg s (fk_ack_fd x) (fk_ack_id x))))
       else Some s }"

fun set_has_orphan_descendant_bubble_up :: "nat \<Rightarrow> sup \<Rightarrow> nat \<Rightarrow> sup option" where
  "set_has_orphan_descendant_bubble_up 0 s k = None"
| "set_has_orphan_descendant_bubble_up (Suc n) s k =
     do {
       x \<leftarrow> pr_fork (proc s k);
       let s1 = set_fork k (x\<lparr>fk_has_orphan_descendant := True\<rparr>) s;
       s2 \<leftarrow> (if fk_ack_id x \<noteq> -1 then do {
                b \<leftarrow> can_ack_parent_wait s1 k;
                if b then maybe_send_on_finalized_ack s1 k else Some s1 }
              else Some s1);
       case pr_parent (proc s2 k) of
         None \<Rightarrow> Some s2
       | Some r \<Rightarrow> do { q \<leftarrow> pr_fork_point (proc s2 r); set_has_orphan_descendant_bubble_up n s2 q } }"

section \<open>Finalization\<close>

definition set_state :: "process_state \<Rightarrow> nat \<Rightarrow> sup \<Rightarrow> sup" where
  "set_state st p s = set_proc p ((proc s p)\<lparr>pr_state := st\<rparr>) s"

definition base_do_finalize :: "sup \<Rightarrow> nat \<Rightarrow> sup option" where
  "base_do_finalize s p = (if state_of s p = FB_PROC_TERMINATED then Some (set_state FB_PROC_FINALIZED p s) else None)"

definition forked_do_finalize :: "sup \<Rightarrow> nat \<Rightarrow> sup option" where
  "forked_do_finalize s p =
     do { s1 \<leftarrow> maybe_send_on_finalized_ack s p; s2 \<leftarrow> close_fds s1 p; base_do_finalize s2 p }"

definition aggr_cpu_time_u :: "exec_info \<Rightarrow> int" where
  "aggr_cpu_time_u x = xi_utime_u x + xi_stime_u x + xi_children_cpu_time_u x"

text \<open>\<open>store\<close> of the cacher is recorded in \<open>s_stored\<close>.\<close>

definition maybe_store :: "sup \<Rightarrow> nat \<Rightarrow> sup option" where
  "maybe_store s p =
     (let i = exec_point s p; x = s_execs s ! i in do {
        k \<leftarrow> fork_info_of s p;
        Some (if \<not> xi_was_shortcut x \<and> en_can_shortcut (node (s_x s) i) \<and> fk_exit_status k \<noteq> -1
                 \<and> aggr_cpu_time_u x \<ge> s_min_cpu_time_u s
              then s\<lparr>s_stored := s_stored s @ [p]\<rparr> else s) })"

definition propagate_cpu_time :: "sup \<Rightarrow> nat \<Rightarrow> sup" where
  "propagate_cpu_time s p =
     (let x = s_execs s ! exec_point s p in
      case parent_exec_point_of s p of
        Some j \<Rightarrow>
          (let y = s_execs s ! j in
           set_exec_info j (y\<lparr>xi_children_cpu_time_u := xi_children_cpu_time_u y + aggr_cpu_time_u x,
                             xi_shortcut_cpu_time_ms := xi_shortcut_cpu_time_ms y + xi_shortcut_cpu_time_ms x\<rparr>) s)
      | None \<Rightarrow> s)"

fun finish_pipes :: "sup \<Rightarrow> nat list \<Rightarrow> sup option" where
  "finish_pipes s [] = Some s"
| "finish_pipes s (k # ks) = do { s1 \<leftarrow> with_pipe s k finish; finish_pipes s1 ks }"

definition execed_do_finalize :: "sup \<Rightarrow> nat \<Rightarrow> sup option" where
  "execed_do_finalize s p =
     do {
       s1 \<leftarrow> close_fds s p;
       s2 \<leftarrow> maybe_store s1 p;
       s3 \<leftarrow> base_do_finalize (propagate_cpu_time s2 p) p;
       s4 \<leftarrow> finish_pipes s3 (xi_created_pipes (s_execs s3 ! exec_point s3 p));
       Some (s4\<lparr>s_gc_queue := s_gc_queue s4 @ [p]\<rparr>) }"

definition do_finalize :: "sup \<Rightarrow> nat \<Rightarrow> sup option" where
  "do_finalize s p = (if pr_fork (proc s p) = None then execed_do_finalize s p else forked_do_finalize s p)"

text \<open>\<open>disable_shortcutting_bubble_up\<close> at the exec point of \<open>p\<close>, because of the process \<open>src\<close>.\<close>

definition disable_orphan :: "sup \<Rightarrow> nat \<Rightarrow> nat \<Rightarrow> sup option" where
  "disable_orphan s p src =
     do {
       i \<leftarrow> exec_point_opt s p;
       Some (s\<lparr>s_x := disable_shortcutting_bubble_up_to_excl (s_x s) i None ''Orphan processes can't be shortcut''
                 (exec_point_opt s src) None\<rparr>) }"

text \<open>The two early returns of \<open>maybe_finalize\<close>; the inner \<open>None\<close> is a return.\<close>

definition children_ready :: "sup \<Rightarrow> nat \<Rightarrow> sup option option" where
  "children_ready s p =
     (if any_child_not_finalized s p then do {
        k \<leftarrow> pr_fork_point (proc s p);
        x \<leftarrow> pr_fork (proc s k);
        if pr_parent (proc s k) = None \<and> fk_has_orphan_descendant x then do {
          b \<leftarrow> finalized_or_orphans_left (fuel s) s p;
          if b then map_option Some (terminate_top_orphans s k) else Some None }
        else Some None }
      else Some (Some s))"

definition waited_or_orphan :: "sup \<Rightarrow> nat \<Rightarrow> sup option option" where
  "waited_or_orphan s p =
     do {
       w \<leftarrow> been_waited_for s p;
       if w then Some (Some s)
       else case fork_parent s p of
         None \<Rightarrow> Some None
       | Some r \<Rightarrow> do {
           q \<leftarrow> last_exec_descendant (fuel s) s r;
           if state_of s q \<noteq> FB_PROC_RUNNING \<and> \<not> pr_exec_pending (proc s q) then do {
             k \<leftarrow> pr_fork_point (proc s p);
             x \<leftarrow> pr_fork (proc s k);
             s1 \<leftarrow> disable_orphan (set_fork k (x\<lparr>fk_orphan := True\<rparr>) s) p p;
             f \<leftarrow> pr_fork_point (proc s1 r);
             map_option Some (set_has_orphan_descendant_bubble_up (fuel s1) s1 f) }
           else Some None } }"

fun maybe_finalize :: "nat \<Rightarrow> sup \<Rightarrow> nat \<Rightarrow> sup option" where
  "maybe_finalize 0 s p = None"
| "maybe_finalize (Suc n) s p =
     (if state_of s p \<noteq> FB_PROC_TERMINATED then Some s
      else do {
        r1 \<leftarrow> children_ready s p;
        case r1 of
          None \<Rightarrow> Some s
        | Some s1 \<Rightarrow> do {
            r2 \<leftarrow> waited_or_orphan s1 p;
            case r2 of
              None \<Rightarrow> Some s1
            | Some s2 \<Rightarrow> do {
                s3 \<leftarrow> drain_all_pipes s2 p;
                s4 \<leftarrow> do_finalize s3 p;
                case pr_parent (proc s4 p) of None \<Rightarrow> Some s4 | Some r \<Rightarrow> maybe_finalize n s4 r } } })"

definition maybe_finalize_with_missed_static_exec_child :: "sup \<Rightarrow> nat \<Rightarrow> sup option" where
  "maybe_finalize_with_missed_static_exec_child s p =
     do {
       let s1 = disable s p ''Process did not sign in to supervisor, perhaps statically linked or failed to link'';
       s2 \<leftarrow> reset_file_fd_pipe_refs (set_proc p ((proc s1 p)\<lparr>pr_exec_pending := False\<rparr>) s1) p;
       maybe_finalize (fuel s2) s2 p }"

definition set_been_waited_for :: "sup \<Rightarrow> nat \<Rightarrow> sup option" where
  "set_been_waited_for s p =
     do {
       k \<leftarrow> pr_fork_point (proc s p);
       x \<leftarrow> pr_fork (proc s k);
       if fk_been_waited_for x then None
       else do {
         let s1 = set_fork k (x\<lparr>fk_been_waited_for := True\<rparr>) s;
         q \<leftarrow> last_exec_descendant (fuel s1) s1 k;
         maybe_finalize (fuel s1) s1 q } }"

text \<open>The loops of \<open>finish\<close>: over the fork children of a process of the chain, and over the chain.\<close>

fun orphan_children :: "sup \<Rightarrow> nat list \<Rightarrow> (sup \<times> bool) option" where
  "orphan_children s [] = Some (s, False)"
| "orphan_children s (c # cs) =
     do {
       x \<leftarrow> pr_fork (proc s c);
       if fk_been_waited_for x then orphan_children s cs
       else do {
         let s1 = set_fork c (x\<lparr>fk_orphan := True\<rparr>) s;
         q \<leftarrow> last_exec_descendant (fuel s1) s1 c;
         s2 \<leftarrow> maybe_finalize (fuel s1) s1 q;
         (s3, _) \<leftarrow> orphan_children s2 cs;
         Some (s3, True) } }"

fun orphan_chain :: "nat \<Rightarrow> sup \<Rightarrow> nat \<Rightarrow> nat \<Rightarrow> sup option" where
  "orphan_chain 0 s p pc = None"
| "orphan_chain (Suc n) s p pc =
     do {
       (s1, orphan_found) \<leftarrow> orphan_children s (pr_fork_children (proc s pc));
       s2 \<leftarrow> (if orphan_found then do {
                t \<leftarrow> disable_orphan s1 pc p;
                f \<leftarrow> pr_fork_point (proc t pc);
                set_has_orphan_descendant_bubble_up (fuel t) t f }
              else Some s1);
       case pr_exec_child (proc s2 pc) of None \<Rightarrow> Some s2 | Some c \<Rightarrow> orphan_chain n s2 p c }"

definition process_finish :: "sup \<Rightarrow> nat \<Rightarrow> sup option" where
  "process_finish s p =
     do {
       s1 \<leftarrow> (if \<not> pr_exec_pending (proc s p) \<and> \<not> pr_has_pending_popen (proc s p)
              then reset_file_fd_pipe_refs s p else Some s);
       let s2 = set_state FB_PROC_TERMINATED p s1;
       s3 \<leftarrow> (if pr_exec_child (proc s2 p) = None \<and> \<not> pr_exec_pending (proc s2 p)
              then (case pr_fork_point (proc s2 p) of Some k \<Rightarrow> orphan_chain (fuel s2) s2 p k | None \<Rightarrow> Some s2)
              else Some s2);
       maybe_finalize (fuel s3) s3 p }"

section \<open>Waiting\<close>

definition set_on_finalized_ack :: "sup \<Rightarrow> nat \<Rightarrow> int \<Rightarrow> int \<Rightarrow> sup option" where
  "set_on_finalized_ack s p i fd =
     do {
       k \<leftarrow> pr_fork_point (proc s p);
       x \<leftarrow> pr_fork (proc s k);
       if fk_ack_id x = -1 \<and> fk_ack_fd x = -1 then Some (set_fork k (x\<lparr>fk_ack_id := i, fk_ack_fd := fd\<rparr>) s) else None }"

text \<open>
  The common part of \<open>system_ret\<close>, \<open>pclose\<close> and \<open>wait\<close>: the child \<open>c\<close> exited with the status \<open>exited\<close>, or abnormally.
  The result tells whether the message is to be acknowledged straight away.
\<close>

definition child_waited :: "sup \<Rightarrow> nat \<Rightarrow> int option \<Rightarrow> string \<Rightarrow> int \<Rightarrow> int \<Rightarrow> (sup \<times> bool) option" where
  "child_waited s c exited reason fd_conn ack_num =
     do {
       k \<leftarrow> pr_fork_point (proc s c);
       x \<leftarrow> pr_fork (proc s k);
       let s1 = (case exited of
                   Some st \<Rightarrow> set_fork k (x\<lparr>fk_exit_status := st\<rparr>) s
                 | None \<Rightarrow> disable_to_excl s c (exec_point_opt s k) reason);
       s2 \<leftarrow> set_been_waited_for s1 c;
       if pr_exec_pending (proc s2 c) then
         map_option (\<lambda>t. (t, True)) (maybe_finalize_with_missed_static_exec_child s2 c)
       else do {
         b \<leftarrow> can_ack_parent_wait s2 k;
         if b then Some (s2, True)
         else map_option (\<lambda>t. (t, False)) (set_on_finalized_ack s2 c ack_num fd_conn) } }"

end
