(* ===== verification/FB_Fbb.thy ===== *)
theory FB_Fbb
  imports FB_Prelude "HOL-Library.Word"
begin

text \<open>
  \<^verbatim>\<open>src/common/fbb/tpl.h\<close> and \<^verbatim>\<open>tpl.c\<close>: the wire format of the messages between interceptor and supervisor and of
  the entries of the cache.  The two templates are expanded once for every message of a \<^verbatim>\<open>.def\<close> file; the
  definitions here take the list of messages as the argument \<open>ms\<close> and a field by its position, so that they are
  the expansion for every such file.

  A scalar is the list of its bytes.  A serialized message is the list of bytes that starts at its address; a
  pointer into it is a suffix of that list.  \<open>None\<close> is a failed assertion.  Sizes are natural numbers that are
  stored modulo \<open>2^32\<close>, except in \<open>measure\<close>, whose result is the 32 bit number the code computes.
\<close>

unbundle bit_operations_syntax

section \<open>Messages\<close>

datatype quant = REQUIRED | OPTIONAL | ARRAY

text \<open>A scalar type is known by its size and its alignment.\<close>

datatype field_type = STRING | FBB | SCALAR nat nat

type_synonym field = "quant \<times> field_type \<times> string"
type_synonym messages = "(string \<times> field list) list"

text \<open>What a builder holds for a field; \<open>'b\<close> are the nested messages.\<close>

datatype 'b fval =
    FScalar "string option"
  | FString "string option"
  | FFbb "'b option"
  | FScalars "string list"
  | FStrings "string list"
  | FFbbs "'b list"

datatype builder = Builder nat "builder fval list"

definition fields_of :: "messages \<Rightarrow> nat \<Rightarrow> field list" where
  "fields_of ms tag = snd (ms ! (tag - 1))"

fun is_scalar :: "field_type \<Rightarrow> bool" where
  "is_scalar (SCALAR n a) = True"
| "is_scalar STRING = False"
| "is_scalar FBB = False"

fun single_scalar :: "field \<Rightarrow> bool" where "single_scalar (q, t, v) \<longleftrightarrow> q \<noteq> ARRAY \<and> is_scalar t"
fun single_string :: "field \<Rightarrow> bool" where "single_string (q, t, v) \<longleftrightarrow> q \<noteq> ARRAY \<and> t = STRING"
fun single_fbb :: "field \<Rightarrow> bool" where "single_fbb (q, t, v) \<longleftrightarrow> q \<noteq> ARRAY \<and> t = FBB"
fun is_array :: "field \<Rightarrow> bool" where "is_array (q, t, v) \<longleftrightarrow> q = ARRAY"
fun scalar_array :: "field \<Rightarrow> bool" where "scalar_array (q, t, v) \<longleftrightarrow> q = ARRAY \<and> is_scalar t"
fun string_array :: "field \<Rightarrow> bool" where "string_array (q, t, v) \<longleftrightarrow> q = ARRAY \<and> t = STRING"
fun fbb_array :: "field \<Rightarrow> bool" where "fbb_array (q, t, v) \<longleftrightarrow> q = ARRAY \<and> t = FBB"
fun optional_scalar :: "field \<Rightarrow> bool" where "optional_scalar (q, t, v) \<longleftrightarrow> q = OPTIONAL \<and> is_scalar t"
fun has_relptr :: "field \<Rightarrow> bool" where "has_relptr (q, t, v) \<longleftrightarrow> q = ARRAY \<or> \<not> is_scalar t"

fun scalar_size :: "field \<Rightarrow> nat" where
  "scalar_size (q, SCALAR n a, v) = n"
| "scalar_size (q, STRING, v) = 0"
| "scalar_size (q, FBB, v) = 0"

fun scalar_align :: "field \<Rightarrow> nat" where
  "scalar_align (q, SCALAR n a, v) = a"
| "scalar_align (q, STRING, v) = 1"
| "scalar_align (q, FBB, v) = 1"

section \<open>Memory\<close>

definition le32 :: "nat \<Rightarrow> string" where
  "le32 n = [char_of n, char_of (n div 2 ^ 8), char_of (n div 2 ^ 16), char_of (n div 2 ^ 24)]"

definition u32 :: "nat \<Rightarrow> string \<Rightarrow> nat" where
  "u32 off mem = of_char (mem ! off) + 2 ^ 8 * of_char (mem ! (off + 1)) + 2 ^ 16 * of_char (mem ! (off + 2))
     + 2 ^ 24 * of_char (mem ! (off + 3))"

definition peek :: "nat \<Rightarrow> nat \<Rightarrow> string \<Rightarrow> string" where
  "peek off n mem = take n (drop off mem)"

definition put :: "nat \<Rightarrow> string \<Rightarrow> string \<Rightarrow> string" where
  "put off bs mem = take off mem @ bs @ drop (off + length bs) mem"

definition align_up :: "nat \<Rightarrow> nat \<Rightarrow> nat" where
  "align_up n a = (n + a - 1) div a * a"

definition PAD :: "string \<Rightarrow> string" where
  "PAD mem = mem @ replicate (7 - (length mem + 7) mod 8) NUL"

section \<open>The wire structure\<close>

text \<open>
  Offsets and bytes of the members of a C structure; a member is given by its size, its alignment and its bytes.
\<close>

fun struct_offsets :: "nat \<Rightarrow> (nat \<times> nat) list \<Rightarrow> nat list" where
  "struct_offsets off [] = []"
| "struct_offsets off ((n, a) # ms) = align_up off a # struct_offsets (align_up off a + n) ms"

fun struct_end :: "nat \<Rightarrow> (nat \<times> nat) list \<Rightarrow> nat" where
  "struct_end off [] = off"
| "struct_end off ((n, a) # ms) = struct_end (align_up off a + n) ms"

fun struct_bytes :: "nat \<Rightarrow> ((nat \<times> nat) \<times> string) list \<Rightarrow> string" where
  "struct_bytes off [] = []"
| "struct_bytes off (((n, a), bs) # ms) =
     replicate (align_up off a - off) NUL @ bs @ struct_bytes (align_up off a + n) ms"

text \<open>The members of \<open>Serialized_msg\<close> up to the flags of the optional scalars, which are one bit each.\<close>

definition wire_members :: "field list \<Rightarrow> (nat \<times> nat) list" where
  "wire_members fs =
     (4, 4) # map (\<lambda>f. (scalar_size f, scalar_align f)) (filter single_scalar fs)
       @ replicate (length (filter single_string fs)) (4, 4)
       @ replicate (length (filter is_array fs)) (4, 4)"

definition has_offset :: "field list \<Rightarrow> nat" where
  "has_offset fs = struct_end 0 (wire_members fs)"

definition has_size :: "field list \<Rightarrow> nat" where
  "has_size fs = (length (filter optional_scalar fs) + 7) div 8"

definition sizeof_wire :: "field list \<Rightarrow> nat" where
  "sizeof_wire fs = align_up (has_offset fs + has_size fs) (fold max (map snd (wire_members fs)) 1)"

definition sizeof_relptrs :: "field list \<Rightarrow> nat" where
  "sizeof_relptrs fs = 4 * length (filter has_relptr fs)"

text \<open>Position of the field \<open>k\<close> among the fields of a kind.\<close>

definition rank :: "(field \<Rightarrow> bool) \<Rightarrow> field list \<Rightarrow> nat \<Rightarrow> nat" where
  "rank P fs k = length (filter P (take k fs))"

definition member_offset :: "field list \<Rightarrow> nat \<Rightarrow> nat" where
  "member_offset fs i = struct_offsets 0 (wire_members fs) ! i"

definition scalar_offset :: "field list \<Rightarrow> nat \<Rightarrow> nat" where
  "scalar_offset fs k = member_offset fs (1 + rank single_scalar fs k)"

definition len_offset :: "field list \<Rightarrow> nat \<Rightarrow> nat" where
  "len_offset fs k = member_offset fs (1 + length (filter single_scalar fs) + rank single_string fs k)"

definition count_offset :: "field list \<Rightarrow> nat \<Rightarrow> nat" where
  "count_offset fs k =
     member_offset fs (1 + length (filter single_scalar fs) + length (filter single_string fs) + rank is_array fs k)"

definition relptr_offset :: "field list \<Rightarrow> nat \<Rightarrow> nat" where
  "relptr_offset fs k = sizeof_wire fs + 4 * rank has_relptr fs k"

section \<open>Builders\<close>

fun scalar_bytes :: "field \<Rightarrow> 'b fval \<Rightarrow> string" where
  "scalar_bytes f (FScalar (Some bs)) = bs"
| "scalar_bytes f _ = replicate (scalar_size f) NUL"

fun string_len :: "'b fval \<Rightarrow> nat" where
  "string_len (FString (Some s)) = length s"
| "string_len _ = 0"

fun count_of :: "'b fval \<Rightarrow> nat" where
  "count_of (FScalars xs) = length xs"
| "count_of (FStrings ss) = length ss"
| "count_of (FFbbs bs) = length bs"
| "count_of _ = 0"

fun is_set :: "'b fval \<Rightarrow> bool" where
  "is_set (FScalar x) = (x \<noteq> None)"
| "is_set _ = False"

text \<open>The values of the fields of a kind, in order.\<close>

definition of_kind :: "(field \<Rightarrow> bool) \<Rightarrow> field list \<Rightarrow> 'a list \<Rightarrow> (field \<times> 'a) list" where
  "of_kind P fs vs = filter (P \<circ> fst) (zip fs vs)"

definition has_byte :: "bool list \<Rightarrow> char" where
  "has_byte bs = char_of (horner_sum of_bool (2 :: nat) bs)"

definition has_bytes :: "bool list \<Rightarrow> string" where
  "has_bytes bs = map (\<lambda>i. has_byte (take 8 (drop (8 * i) bs))) [0..<(length bs + 7) div 8]"

definition wire_values :: "nat \<Rightarrow> field list \<Rightarrow> 'b fval list \<Rightarrow> string list" where
  "wire_values tag fs vs =
     le32 tag # map (\<lambda>(f, v). scalar_bytes f v) (of_kind single_scalar fs vs)
       @ map (\<lambda>(f, v). le32 (string_len v)) (of_kind single_string fs vs)
       @ map (\<lambda>(f, v). le32 (count_of v)) (of_kind is_array fs vs)"

definition wire_bytes :: "nat \<Rightarrow> field list \<Rightarrow> 'b fval list \<Rightarrow> string" where
  "wire_bytes tag fs vs =
     (let body = struct_bytes 0 (zip (wire_members fs) (wire_values tag fs vs))
           @ has_bytes (map (\<lambda>(f, v). is_set v) (of_kind optional_scalar fs vs))
      in body @ replicate (sizeof_wire fs - length body) NUL)"

section \<open>Setting and getting the fields of a builder\<close>

text \<open>
  A pointer of the C interface is \<open>None\<close> when it is \<open>NULL\<close>, and else the characters from it up to the terminator.  The
  formats in which an array of strings or messages can be handed over (a C array, views, C++ strings, a callback) are
  resolved to the items they denote.
\<close>

fun initial_value :: "field \<Rightarrow> 'b fval" where
  "initial_value (q, SCALAR n a, v) = (if q = ARRAY then FScalars [] else FScalar None)"
| "initial_value (q, STRING, v) = (if q = ARRAY then FStrings [] else FString None)"
| "initial_value (q, FBB, v) = (if q = ARRAY then FFbbs [] else FFbb None)"

definition builder_init :: "messages \<Rightarrow> nat \<Rightarrow> builder" where
  "builder_init ms tag = Builder tag (map initial_value (fields_of ms tag))"

fun builder_get_tag :: "builder \<Rightarrow> nat" where
  "builder_get_tag (Builder tag vs) = tag"

fun builder_value :: "nat \<Rightarrow> builder \<Rightarrow> builder fval" where
  "builder_value k (Builder tag vs) = vs ! k"

fun set_field :: "nat \<Rightarrow> nat \<Rightarrow> builder fval \<Rightarrow> builder \<Rightarrow> builder option" where
  "set_field tag k v (Builder t vs) = (if t = tag then Some (Builder t (vs[k := v])) else None)"

definition builder_set_scalar :: "nat \<Rightarrow> nat \<Rightarrow> string \<Rightarrow> builder \<Rightarrow> builder option" where
  "builder_set_scalar tag k value = set_field tag k (FScalar (Some value))"

definition builder_set_scalar_array :: "nat \<Rightarrow> nat \<Rightarrow> string list \<Rightarrow> nat \<Rightarrow> builder \<Rightarrow> builder option" where
  "builder_set_scalar_array tag k values count = set_field tag k (FScalars (take count values))"

definition builder_set_scalar_vector :: "nat \<Rightarrow> nat \<Rightarrow> string list \<Rightarrow> builder \<Rightarrow> builder option" where
  "builder_set_scalar_vector tag k values = set_field tag k (FScalars values)"

text \<open>With \<open>FB_EXTRA_DEBUG\<close> the setter asserts that the length is the one of the string.\<close>

definition builder_set_string_with_length :: "nat \<Rightarrow> nat \<Rightarrow> string option \<Rightarrow> nat \<Rightarrow> builder \<Rightarrow> builder option" where
  "builder_set_string_with_length tag k value len b =
     (if value = None \<or> map_option length value = Some len
      then set_field tag k (FString (map_option (take len) value)) b else None)"

definition builder_set_string :: "nat \<Rightarrow> nat \<Rightarrow> string option \<Rightarrow> builder \<Rightarrow> builder option" where
  "builder_set_string tag k value =
     builder_set_string_with_length tag k value (case value of None \<Rightarrow> 0 | Some s \<Rightarrow> length s)"

definition builder_set_cxx_string :: "nat \<Rightarrow> nat \<Rightarrow> string \<Rightarrow> builder \<Rightarrow> builder option" where
  "builder_set_cxx_string tag k value =
     builder_set_string_with_length tag k (Some (takeWhile (\<lambda>c. c \<noteq> NUL) value)) (length value)"

definition builder_set_fbb :: "nat \<Rightarrow> nat \<Rightarrow> builder option \<Rightarrow> builder \<Rightarrow> builder option" where
  "builder_set_fbb tag k value = set_field tag k (FFbb value)"

definition builder_set_strings_with_count :: "nat \<Rightarrow> nat \<Rightarrow> string list \<Rightarrow> nat \<Rightarrow> builder \<Rightarrow> builder option" where
  "builder_set_strings_with_count tag k values count = set_field tag k (FStrings (take count values))"

definition builder_set_fbbs_with_count :: "nat \<Rightarrow> nat \<Rightarrow> builder list \<Rightarrow> nat \<Rightarrow> builder \<Rightarrow> builder option" where
  "builder_set_fbbs_with_count tag k values count = set_field tag k (FFbbs (take count values))"

text \<open>The loop that counts the items before the terminating \<open>NULL\<close>.\<close>

fun count_items :: "'a option list \<Rightarrow> nat" where
  "count_items (Some x # xs) = Suc (count_items xs)"
| "count_items _ = 0"

definition builder_set_strings :: "nat \<Rightarrow> nat \<Rightarrow> string option list \<Rightarrow> builder \<Rightarrow> builder option" where
  "builder_set_strings tag k values =
     builder_set_strings_with_count tag k (map the (takeWhile (\<lambda>x. x \<noteq> None) values)) (count_items values)"

definition builder_set_fbbs :: "nat \<Rightarrow> nat \<Rightarrow> builder option list \<Rightarrow> builder \<Rightarrow> builder option" where
  "builder_set_fbbs tag k values =
     builder_set_fbbs_with_count tag k (map the (takeWhile (\<lambda>x. x \<noteq> None) values)) (count_items values)"

definition builder_set_cstring_views :: "nat \<Rightarrow> nat \<Rightarrow> (string \<times> nat) list \<Rightarrow> nat \<Rightarrow> builder \<Rightarrow> builder option" where
  "builder_set_cstring_views tag k values count =
     set_field tag k (FStrings (map (\<lambda>(s, len). take len s) (take count values)))"

definition builder_set_cstring_view_vector :: "nat \<Rightarrow> nat \<Rightarrow> (string \<times> nat) list \<Rightarrow> builder \<Rightarrow> builder option" where
  "builder_set_cstring_view_vector tag k values = set_field tag k (FStrings (map (\<lambda>(s, len). take len s) values))"

definition builder_set_string_vector :: "nat \<Rightarrow> nat \<Rightarrow> string list \<Rightarrow> builder \<Rightarrow> builder option" where
  "builder_set_string_vector tag k values = set_field tag k (FStrings values)"

definition builder_set_fbb_vector :: "nat \<Rightarrow> nat \<Rightarrow> builder list \<Rightarrow> builder \<Rightarrow> builder option" where
  "builder_set_fbb_vector tag k values = set_field tag k (FFbbs values)"

definition builder_set_cxx_strings :: "nat \<Rightarrow> nat \<Rightarrow> string list \<Rightarrow> builder \<Rightarrow> builder option" where
  "builder_set_cxx_strings tag k values = set_field tag k (FStrings values)"

definition builder_set_strings_item_fn ::
    "nat \<Rightarrow> nat \<Rightarrow> nat \<Rightarrow> (nat \<Rightarrow> string \<times> nat) \<Rightarrow> builder \<Rightarrow> builder option" where
  "builder_set_strings_item_fn tag k count item_fn =
     set_field tag k (FStrings (map (\<lambda>idx. case item_fn idx of (s, len) \<Rightarrow> take len s) [0..<count]))"

definition builder_set_fbbs_item_fn :: "nat \<Rightarrow> nat \<Rightarrow> nat \<Rightarrow> (nat \<Rightarrow> builder) \<Rightarrow> builder \<Rightarrow> builder option" where
  "builder_set_fbbs_item_fn tag k count item_fn = set_field tag k (FFbbs (map item_fn [0..<count]))"

definition builder_checked :: "nat \<Rightarrow> builder \<Rightarrow> 'a \<Rightarrow> 'a option" where
  "builder_checked tag b x = (if builder_get_tag b = tag then Some x else None)"

fun value_given :: "'b fval \<Rightarrow> bool" where
  "value_given (FString x) = (x \<noteq> None)"
| "value_given (FFbb x) = (x \<noteq> None)"
| "value_given v = is_set v"

definition builder_has :: "nat \<Rightarrow> nat \<Rightarrow> builder \<Rightarrow> bool option" where
  "builder_has tag k b = builder_checked tag b (value_given (builder_value k b))"

definition builder_get_scalar :: "messages \<Rightarrow> nat \<Rightarrow> nat \<Rightarrow> builder \<Rightarrow> string option" where
  "builder_get_scalar ms tag k b =
     (let f = fields_of ms tag ! k; v = builder_value k b
      in if builder_get_tag b = tag \<and> (optional_scalar f \<longrightarrow> is_set v) then Some (scalar_bytes f v) else None)"

definition builder_get_ptr :: "messages \<Rightarrow> nat \<Rightarrow> nat \<Rightarrow> builder \<Rightarrow> string option option" where
  "builder_get_ptr ms tag k b =
     (let f = fields_of ms tag ! k; v = builder_value k b
      in builder_checked tag b (if optional_scalar f \<and> \<not> is_set v then None else Some (scalar_bytes f v)))"

definition builder_get_with_fallback :: "messages \<Rightarrow> nat \<Rightarrow> nat \<Rightarrow> string \<Rightarrow> builder \<Rightarrow> string" where
  "builder_get_with_fallback ms tag k fallback b =
     (let v = builder_value k b in if is_set v then scalar_bytes (fields_of ms tag ! k) v else fallback)"

fun fval_string :: "'b fval \<Rightarrow> string option" where
  "fval_string (FString x) = x"
| "fval_string _ = None"

fun fval_fbb :: "'b fval \<Rightarrow> 'b option" where
  "fval_fbb (FFbb x) = x"
| "fval_fbb _ = None"

definition builder_get_string :: "nat \<Rightarrow> nat \<Rightarrow> builder \<Rightarrow> string option option" where
  "builder_get_string tag k b = builder_checked tag b (fval_string (builder_value k b))"

definition builder_get_fbb :: "nat \<Rightarrow> nat \<Rightarrow> builder \<Rightarrow> builder option option" where
  "builder_get_fbb tag k b = builder_checked tag b (fval_fbb (builder_value k b))"

definition builder_get_len :: "nat \<Rightarrow> nat \<Rightarrow> builder \<Rightarrow> nat option" where
  "builder_get_len tag k b = builder_checked tag b (string_len (builder_value k b))"

definition builder_get_as_string :: "nat \<Rightarrow> nat \<Rightarrow> builder \<Rightarrow> string option" where
  "builder_get_as_string tag k b =
     (case builder_get_string tag k b of
        Some (Some s) \<Rightarrow> Some (take (string_len (builder_value k b)) s)
      | _ \<Rightarrow> None)"

definition builder_get_count :: "nat \<Rightarrow> nat \<Rightarrow> builder \<Rightarrow> nat option" where
  "builder_get_count tag k b = builder_checked tag b (count_of (builder_value k b))"

definition builder_index_ok :: "nat \<Rightarrow> nat \<Rightarrow> nat \<Rightarrow> builder \<Rightarrow> bool" where
  "builder_index_ok tag k idx b \<longleftrightarrow> builder_get_tag b = tag \<and> idx < count_of (builder_value k b)"

definition builder_get_scalar_at :: "nat \<Rightarrow> nat \<Rightarrow> nat \<Rightarrow> builder \<Rightarrow> string option" where
  "builder_get_scalar_at tag k idx b =
     (case builder_value k b of
        FScalars xs \<Rightarrow> if builder_index_ok tag k idx b then Some (xs ! idx) else None
      | _ \<Rightarrow> None)"

definition builder_get_string_at :: "nat \<Rightarrow> nat \<Rightarrow> nat \<Rightarrow> builder \<Rightarrow> string option" where
  "builder_get_string_at tag k idx b =
     (case builder_value k b of
        FStrings ss \<Rightarrow> if builder_index_ok tag k idx b then Some (ss ! idx) else None
      | _ \<Rightarrow> None)"

definition builder_get_fbb_at :: "nat \<Rightarrow> nat \<Rightarrow> nat \<Rightarrow> builder \<Rightarrow> builder option" where
  "builder_get_fbb_at tag k idx b =
     (case builder_value k b of
        FFbbs bs \<Rightarrow> if builder_index_ok tag k idx b then Some (bs ! idx) else None
      | _ \<Rightarrow> None)"

definition builder_get_len_at :: "nat \<Rightarrow> nat \<Rightarrow> nat \<Rightarrow> builder \<Rightarrow> nat option" where
  "builder_get_len_at tag k idx b = map_option length (builder_get_string_at tag k idx b)"

section \<open>Measuring\<close>

definition ADD_PADDING_LEN :: "32 word \<Rightarrow> 32 word" where
  "ADD_PADDING_LEN offset = (offset + 7) AND NOT 7"

text \<open>One line of each of the five groups of \<open>builder_msg_measure\<close>; a nested message is given by its measure.\<close>

fun add_scalar_array :: "field \<times> 32 word fval \<Rightarrow> 32 word \<Rightarrow> 32 word" where
  "add_scalar_array (f, v) len = ADD_PADDING_LEN (len + of_nat (count_of v) * of_nat (scalar_size f))"

fun add_string :: "field \<times> 32 word fval \<Rightarrow> 32 word \<Rightarrow> 32 word" where
  "add_string (f, FString (Some s)) len = ADD_PADDING_LEN (len + (of_nat (length s) + 1))"
| "add_string (f, _) len = len"

fun add_fbb :: "field \<times> 32 word fval \<Rightarrow> 32 word \<Rightarrow> 32 word" where
  "add_fbb (f, FFbb (Some n)) len = len + n"
| "add_fbb (f, _) len = len"

fun add_string_array :: "field \<times> 32 word fval \<Rightarrow> 32 word \<Rightarrow> 32 word" where
  "add_string_array (f, FStrings ss) len =
     fold (\<lambda>s n. ADD_PADDING_LEN (n + (of_nat (length s) + 1))) ss
       (ADD_PADDING_LEN (len + 2 * of_nat (length ss) * 4))"
| "add_string_array (f, _) len = len"

fun add_fbb_array :: "field \<times> 32 word fval \<Rightarrow> 32 word \<Rightarrow> 32 word" where
  "add_fbb_array (f, FFbbs ns) len = fold (\<lambda>n m. m + n) ns (ADD_PADDING_LEN (len + of_nat (length ns) * 4))"
| "add_fbb_array (f, _) len = len"

definition measure_msg :: "field list \<Rightarrow> 32 word fval list \<Rightarrow> 32 word" where
  "measure_msg fs vs =
     (let len = of_nat (sizeof_wire fs) + of_nat (sizeof_relptrs fs);
          len = ADD_PADDING_LEN len;
          len = fold add_scalar_array (of_kind scalar_array fs vs) len;
          len = fold add_string (of_kind single_string fs vs) len;
          len = fold add_fbb (of_kind single_fbb fs vs) len;
          len = fold add_string_array (of_kind string_array fs vs) len;
          len = fold add_fbb_array (of_kind fbb_array fs vs) len
      in ADD_PADDING_LEN len)"

primrec builder_measure :: "messages \<Rightarrow> builder \<Rightarrow> 32 word" where
  "builder_measure ms (Builder tag vs) = measure_msg (fields_of ms tag) (map (map_fval (builder_measure ms)) vs)"

section \<open>Serializing\<close>

text \<open>
  \<open>mem\<close> are the bytes written so far, so that its length is \<open>offset\<close>.  \<open>hops\<close> points to the area that the loops
  over the items of an array fill in.
\<close>

fun put_strings :: "nat \<Rightarrow> string list \<Rightarrow> string \<Rightarrow> string" where
  "put_strings hops [] mem = mem"
| "put_strings hops (s # ss) mem =
     put_strings (hops + 8) ss
       (PAD (put (hops + 4) (le32 (length s)) (put hops (le32 (length mem)) mem) @ s @ [NUL]))"

fun put_fbbs :: "nat \<Rightarrow> string list \<Rightarrow> string \<Rightarrow> string" where
  "put_fbbs hops [] mem = mem"
| "put_fbbs hops (b # bs) mem = put_fbbs (hops + 4) bs (put hops (le32 (length mem)) mem @ b)"

text \<open>The value \<open>v\<close> of a field whose \<open>relptr\<close> is at \<open>r\<close>, in each of the five groups; nested messages are given by their bytes.\<close>

fun ser_scalar_array :: "nat \<times> string fval \<Rightarrow> string \<Rightarrow> string" where
  "ser_scalar_array (r, FScalars xs) mem =
     (if xs \<noteq> [] then PAD (put r (le32 (length mem)) mem @ concat xs) else put r (le32 0) mem)"
| "ser_scalar_array (r, _) mem = mem"

fun ser_string :: "nat \<times> string fval \<Rightarrow> string \<Rightarrow> string" where
  "ser_string (r, FString (Some s)) mem = PAD (put r (le32 (length mem)) mem @ s @ [NUL])"
| "ser_string (r, FString None) mem = put r (le32 0) mem"
| "ser_string (r, _) mem = mem"

fun ser_fbb :: "nat \<times> string fval \<Rightarrow> string \<Rightarrow> string" where
  "ser_fbb (r, FFbb (Some b)) mem = put r (le32 (length mem)) mem @ b"
| "ser_fbb (r, FFbb None) mem = put r (le32 0) mem"
| "ser_fbb (r, _) mem = mem"

fun ser_string_array :: "nat \<times> string fval \<Rightarrow> string \<Rightarrow> string" where
  "ser_string_array (r, FStrings ss) mem =
     (if ss \<noteq> [] then
        put_strings (length mem) ss (PAD (put r (le32 (length mem)) mem @ replicate (2 * length ss * 4) NUL))
      else put r (le32 0) mem)"
| "ser_string_array (r, _) mem = mem"

fun ser_fbb_array :: "nat \<times> string fval \<Rightarrow> string \<Rightarrow> string" where
  "ser_fbb_array (r, FFbbs bs) mem =
     (if bs \<noteq> [] then
        put_fbbs (length mem) bs (PAD (put r (le32 (length mem)) mem @ replicate (length bs * 4) NUL))
      else put r (le32 0) mem)"
| "ser_fbb_array (r, _) mem = mem"

text \<open>The fields of a kind with the offset of their \<open>relptr\<close>.\<close>

definition with_relptr :: "(field \<Rightarrow> bool) \<Rightarrow> field list \<Rightarrow> 'a list \<Rightarrow> (nat \<times> 'a) list" where
  "with_relptr P fs vs =
     map (\<lambda>k. (relptr_offset fs k, vs ! k)) (filter (\<lambda>k. P (fs ! k)) [0..<length fs])"

definition serialize_msg :: "nat \<Rightarrow> field list \<Rightarrow> string fval list \<Rightarrow> string" where
  "serialize_msg tag fs vs =
     (let mem = wire_bytes tag fs vs;
          mem = mem @ replicate (sizeof_relptrs fs) NUL;
          mem = PAD mem;
          mem = fold ser_scalar_array (with_relptr scalar_array fs vs) mem;
          mem = fold ser_string (with_relptr single_string fs vs) mem;
          mem = fold ser_fbb (with_relptr single_fbb fs vs) mem;
          mem = fold ser_string_array (with_relptr string_array fs vs) mem;
          mem = fold ser_fbb_array (with_relptr fbb_array fs vs) mem
      in PAD mem)"

primrec builder_serialize :: "messages \<Rightarrow> builder \<Rightarrow> string" where
  "builder_serialize ms (Builder tag vs) =
     serialize_msg tag (fields_of ms tag) (map (map_fval (builder_serialize ms)) vs)"

section \<open>Reading a serialized message\<close>

definition get_tag :: "string \<Rightarrow> nat" where "get_tag mem = u32 0 mem"

text \<open>The assertion of every getter: the message has the tag the getter belongs to.\<close>

definition checked :: "nat \<Rightarrow> string \<Rightarrow> 'a \<Rightarrow> 'a option" where
  "checked tag mem x = (if get_tag mem = tag then Some x else None)"

definition has_bit :: "field list \<Rightarrow> nat \<Rightarrow> string \<Rightarrow> bool" where
  "has_bit fs k mem =
     (let i = rank optional_scalar fs k
      in bit (of_char (mem ! (has_offset fs + i div 8)) :: nat) (i mod 8))"

definition relptr :: "field list \<Rightarrow> nat \<Rightarrow> string \<Rightarrow> nat" where
  "relptr fs k mem = u32 (relptr_offset fs k) mem"

definition serialized_has :: "messages \<Rightarrow> nat \<Rightarrow> nat \<Rightarrow> string \<Rightarrow> bool option" where
  "serialized_has ms tag k mem =
     (let fs = fields_of ms tag
      in checked tag mem (if has_relptr (fs ! k) then relptr fs k mem \<noteq> 0 else has_bit fs k mem))"

definition serialized_get_scalar :: "messages \<Rightarrow> nat \<Rightarrow> nat \<Rightarrow> string \<Rightarrow> string option" where
  "serialized_get_scalar ms tag k mem =
     (let fs = fields_of ms tag
      in if get_tag mem = tag \<and> (optional_scalar (fs ! k) \<longrightarrow> has_bit fs k mem)
         then Some (peek (scalar_offset fs k) (scalar_size (fs ! k)) mem) else None)"

definition serialized_get_with_fallback :: "messages \<Rightarrow> nat \<Rightarrow> nat \<Rightarrow> string \<Rightarrow> string \<Rightarrow> string" where
  "serialized_get_with_fallback ms tag k fallback mem =
     (let fs = fields_of ms tag
      in if has_bit fs k mem then peek (scalar_offset fs k) (scalar_size (fs ! k)) mem else fallback)"

definition serialized_get_ptr :: "messages \<Rightarrow> nat \<Rightarrow> nat \<Rightarrow> string \<Rightarrow> string option option" where
  "serialized_get_ptr ms tag k mem =
     (let fs = fields_of ms tag
      in checked tag mem (if optional_scalar (fs ! k) \<and> \<not> has_bit fs k mem then None
           else Some (peek (scalar_offset fs k) (scalar_size (fs ! k)) mem)))"

text \<open>The pointer to a string or to a nested message; the inner \<open>None\<close> is \<open>NULL\<close>.\<close>

definition serialized_get :: "messages \<Rightarrow> nat \<Rightarrow> nat \<Rightarrow> string \<Rightarrow> string option option" where
  "serialized_get ms tag k mem =
     (let fs = fields_of ms tag
      in if get_tag mem \<noteq> tag then None
         else if relptr fs k mem = 0 then (if fst (fs ! k) = REQUIRED then None else Some None)
         else Some (Some (drop (relptr fs k mem) mem)))"

definition serialized_get_len :: "messages \<Rightarrow> nat \<Rightarrow> nat \<Rightarrow> string \<Rightarrow> nat option" where
  "serialized_get_len ms tag k mem = checked tag mem (u32 (len_offset (fields_of ms tag) k) mem)"

definition serialized_get_as_string :: "messages \<Rightarrow> nat \<Rightarrow> nat \<Rightarrow> string \<Rightarrow> string option" where
  "serialized_get_as_string ms tag k mem =
     (case serialized_get ms tag k mem of
        Some (Some p) \<Rightarrow> Some (take (u32 (len_offset (fields_of ms tag) k) mem) p)
      | _ \<Rightarrow> None)"

definition serialized_get_count :: "messages \<Rightarrow> nat \<Rightarrow> nat \<Rightarrow> string \<Rightarrow> nat option" where
  "serialized_get_count ms tag k mem = checked tag mem (u32 (count_offset (fields_of ms tag) k) mem)"

definition index_ok :: "messages \<Rightarrow> nat \<Rightarrow> nat \<Rightarrow> nat \<Rightarrow> string \<Rightarrow> bool" where
  "index_ok ms tag k idx mem \<longleftrightarrow> get_tag mem = tag \<and> idx < u32 (count_offset (fields_of ms tag) k) mem"

definition serialized_get_scalar_at :: "messages \<Rightarrow> nat \<Rightarrow> nat \<Rightarrow> nat \<Rightarrow> string \<Rightarrow> string option" where
  "serialized_get_scalar_at ms tag k idx mem =
     (let fs = fields_of ms tag; n = scalar_size (fs ! k)
      in if index_ok ms tag k idx mem then Some (peek (relptr fs k mem + idx * n) n mem) else None)"

definition serialized_get_at :: "messages \<Rightarrow> nat \<Rightarrow> nat \<Rightarrow> nat \<Rightarrow> string \<Rightarrow> string option" where
  "serialized_get_at ms tag k idx mem =
     (let fs = fields_of ms tag; i = (if string_array (fs ! k) then 2 * idx else idx)
      in if index_ok ms tag k idx mem then Some (drop (u32 (relptr fs k mem + 4 * i) mem) mem) else None)"

definition serialized_get_len_at :: "messages \<Rightarrow> nat \<Rightarrow> nat \<Rightarrow> nat \<Rightarrow> string \<Rightarrow> nat option" where
  "serialized_get_len_at ms tag k idx mem =
     (let fs = fields_of ms tag
      in if index_ok ms tag k idx mem then Some (u32 (relptr fs k mem + 4 * (2 * idx + 1)) mem) else None)"

definition serialized_get_as_vector :: "messages \<Rightarrow> nat \<Rightarrow> nat \<Rightarrow> string \<Rightarrow> string option list option" where
  "serialized_get_as_vector ms tag k mem =
     (case serialized_get_count ms tag k mem of
        None \<Rightarrow> None
      | Some n \<Rightarrow> Some (map (\<lambda>idx.
            case (serialized_get_at ms tag k idx mem, serialized_get_len_at ms tag k idx mem) of
              (Some p, Some len) \<Rightarrow> Some (take len p)
            | _ \<Rightarrow> None) [0..<n]))"

end
