(* ===== verification/FB_FbbLength.thy ===== *)
theory FB_FbbLength
  imports FB_Fbb
begin

text \<open>
  The sizes of serialized messages: the length of every part that \<open>serialize_msg\<close> writes, and that \<open>measure_msg\<close>
  adds up the same number modulo \<open>2^32\<close>, group by group.
\<close>

section \<open>Lengths\<close>

lemma length_le32 [simp]: "length (le32 n) = 4"
  by (simp add: le32_def)

lemma length_put [simp]: "off + length bs \<le> length mem \<Longrightarrow> length (put off bs mem) = length mem"
  by (simp add: put_def)

lemma length_PAD: "length (PAD mem) = 8 * ((length mem + 7) div 8)"
proof -
  have "length (PAD mem) = length mem + (7 - (length mem + 7) mod 8)"
    by (simp add: PAD_def)
  also have "\<dots> = 8 * ((length mem + 7) div 8)"
    by presburger
  finally show ?thesis .
qed

lemma PAD_dvd [simp]: "8 dvd length (PAD mem)"
  by (simp add: length_PAD)

lemma length_PAD_ge: "length mem \<le> length (PAD mem)"
  by (simp add: PAD_def)

lemma length_PAD_id: "8 dvd length mem \<Longrightarrow> length (PAD mem) = length mem"
  unfolding length_PAD by (elim dvdE) (simp add: div_mult_self4)

lemma bit_of_nat_32: "bit (of_nat n :: 32 word) i \<longleftrightarrow> i < 32 \<and> bit n i"
proof -
  have "bit (of_nat n :: 32 word) i = bit (unat (of_nat n :: 32 word)) i"
    by (simp add: bit_unsigned_iff)
  also have "unat (of_nat n :: 32 word) = take_bit 32 n"
    by (simp add: unat_of_nat take_bit_eq_mod)
  finally show ?thesis by (simp add: bit_take_bit_iff)
qed

lemma and_not_7: "(of_nat n :: 32 word) AND NOT 7 = of_nat (8 * (n div 8))"
proof (rule bit_word_eqI)
  fix i :: nat
  assume i: "i < LENGTH(32)"
  have seven: "(7 :: 32 word) = mask 3"
    by (simp add: mask_eq_exp_minus_1)
  have "8 * (n div 8) = push_bit 3 (drop_bit 3 n)"
    by (simp add: push_bit_eq_mult drop_bit_eq_div)
  then show "bit ((of_nat n :: 32 word) AND NOT 7) i = bit (of_nat (8 * (n div 8)) :: 32 word) i"
    using i by (auto simp: seven bit_and_iff bit_not_iff bit_mask_iff bit_push_bit_iff bit_drop_bit_eq bit_of_nat_32)
qed

lemma add_padding: "ADD_PADDING_LEN (of_nat (length mem)) = of_nat (length (PAD mem))"
proof -
  have "of_nat (length mem) + 7 = (of_nat (length mem + 7) :: 32 word)"
    by simp
  then show ?thesis
    by (simp only: ADD_PADDING_LEN_def and_not_7 length_PAD)
qed

lemma add_padding_id: "8 dvd length mem \<Longrightarrow> ADD_PADDING_LEN (of_nat (length mem)) = of_nat (length mem)" for mem :: string
  by (simp add: add_padding length_PAD_id)

lemma align_up_ge: "0 < a \<Longrightarrow> n \<le> align_up n a"
proof -
  assume a: "0 < a"
  have "n + a - 1 = (n + a - 1) div a * a + (n + a - 1) mod a" by simp
  moreover have "(n + a - 1) mod a < a" using a by simp
  ultimately show ?thesis using a unfolding align_up_def by linarith
qed

lemma length_struct_bytes:
  "list_all2 (\<lambda>m bs. length bs = fst m \<and> 0 < snd m) ms bss \<Longrightarrow>
   length (struct_bytes off (zip ms bss)) = struct_end off ms - off \<and> off \<le> struct_end off ms"
proof (induction ms bss arbitrary: off rule: list_all2_induct)
  case Nil
  then show ?case by simp
next
  case (Cons m ms b bs)
  obtain n a where m: "m = (n, a)" by (cases m)
  have "off \<le> align_up off a" using Cons.hyps(1) by (intro align_up_ge) (simp add: m)
  then show ?case using Cons.hyps(1) Cons.IH [of "align_up off a + n"] by (simp add: m)
qed

text \<open>What a builder may hold for a field.\<close>

fun ok_value :: "field \<Rightarrow> 'b fval \<Rightarrow> bool" where
  "ok_value (q, SCALAR n a, v) (FScalar x) \<longleftrightarrow> q \<noteq> ARRAY \<and> 0 < n \<and> 0 < a \<and> (\<forall>bs\<in>set_option x. length bs = n)"
| "ok_value (q, SCALAR n a, v) (FScalars xs) \<longleftrightarrow> q = ARRAY \<and> 0 < n \<and> 0 < a \<and> (\<forall>bs\<in>set xs. length bs = n)"
| "ok_value (q, STRING, v) (FString x) \<longleftrightarrow> q \<noteq> ARRAY \<and> (q = REQUIRED \<longrightarrow> x \<noteq> None)"
| "ok_value (q, STRING, v) (FStrings ss) \<longleftrightarrow> q = ARRAY"
| "ok_value (q, FBB, v) (FFbb x) \<longleftrightarrow> q \<noteq> ARRAY \<and> (q = REQUIRED \<longrightarrow> x \<noteq> None)"
| "ok_value (q, FBB, v) (FFbbs bs) \<longleftrightarrow> q = ARRAY"
| "ok_value _ _ \<longleftrightarrow> False"

definition ok_values :: "field list \<Rightarrow> 'b fval list \<Rightarrow> bool" where
  "ok_values fs vs \<longleftrightarrow> length vs = length fs \<and> (\<forall>k<length fs. ok_value (fs ! k) (vs ! k))"

primrec ok_builder :: "messages \<Rightarrow> builder \<Rightarrow> bool" where
  "ok_builder ms (Builder tag vs) \<longleftrightarrow>
     0 < tag \<and> tag \<le> length ms \<and> tag < 2 ^ 32 \<and> ok_values (fields_of ms tag) vs \<and>
     list_all (pred_fval (\<lambda>b. b)) (map (map_fval (ok_builder ms)) vs)"

definition kind_indices :: "(field \<Rightarrow> bool) \<Rightarrow> field list \<Rightarrow> nat list" where
  "kind_indices P fs = filter (\<lambda>k. P (fs ! k)) [0..<length fs]"

lemma of_kind_indices:
  "length vs = length fs \<Longrightarrow> of_kind P fs vs = map (\<lambda>k. (fs ! k, vs ! k)) (kind_indices P fs)"
proof -
  assume len: "length vs = length fs"
  then have "zip fs vs = map (\<lambda>k. (fs ! k, vs ! k)) [0..<length fs]"
    by (intro nth_equalityI) auto
  then show ?thesis
    by (simp add: of_kind_def kind_indices_def filter_map o_def)
qed

lemma length_kind_indices: "length (kind_indices P fs) = length (filter P fs)"
proof -
  have "filter P fs = map ((!) fs) (filter (\<lambda>k. P (fs ! k)) [0..<length fs])"
    by (metis (no_types, lifting) comp_def filter_cong filter_map map_nth)
  then show ?thesis by (simp add: kind_indices_def)
qed

lemma ok_values_map [simp]: "ok_values fs (map (map_fval f) vs) \<longleftrightarrow> ok_values fs vs"
proof -
  have "ok_value g (map_fval f v) = ok_value g v" for g v
    by (cases "(g, v)" rule: ok_value.cases) auto
  then show ?thesis by (simp add: ok_values_def del: split_paired_All cong: conj_cong)
qed

lemma relptr_offset_less:
  assumes "k < length fs" "has_relptr (fs ! k)"
  shows "relptr_offset fs k + 4 \<le> sizeof_wire fs + sizeof_relptrs fs"
proof -
  have "filter has_relptr fs = filter has_relptr (take k fs) @ fs ! k # filter has_relptr (drop (Suc k) fs)"
    using assms id_take_nth_drop [of k fs] by (metis filter.simps(2) filter_append)
  then have "length (filter has_relptr (take k fs)) < length (filter has_relptr fs)"
    by (metis length_append length_Cons less_add_same_cancel1 zero_less_Suc)
  then show ?thesis by (simp add: relptr_offset_def rank_def sizeof_relptrs_def)
qed

lemma length_put_strings:
  "hops + 8 * length ss \<le> length mem \<Longrightarrow> 8 dvd length mem \<Longrightarrow>
   8 dvd length (put_strings hops ss mem) \<and> length mem \<le> length (put_strings hops ss mem) \<and>
   (of_nat (length (put_strings hops ss mem)) :: 32 word)
     = fold (\<lambda>s n. ADD_PADDING_LEN (n + (of_nat (length s) + 1))) ss (of_nat (length mem))"
proof (induction ss arbitrary: hops mem)
  case Nil
  then show ?case by simp
next
  case (Cons s ss)
  define m where "m = put (hops + 4) (le32 (length s)) (put hops (le32 (length mem)) mem) @ s @ [NUL]"
  have lm: "length m = length mem + (length s + 1)"
    using Cons.prems(1) by (simp add: m_def)
  have ge: "length m \<le> length (PAD m)" by (rule length_PAD_ge)
  have "hops + 8 + 8 * length ss \<le> length (PAD m)"
    using Cons.prems(1) lm ge by simp
  note IH = Cons.IH [OF this PAD_dvd]
  have eq: "ADD_PADDING_LEN (of_nat (length mem) + (of_nat (length s) + 1)) = of_nat (length (PAD m))"
    using add_padding [of m] by (simp only: lm of_nat_add of_nat_1)
  show ?case using IH ge lm by (simp add: eq flip: m_def)
qed

lemma length_put_fbbs:
  "hops + 4 * length bs \<le> length mem \<Longrightarrow> 8 dvd length mem \<Longrightarrow> \<forall>b\<in>set bs. 8 dvd length b \<Longrightarrow>
   8 dvd length (put_fbbs hops bs mem) \<and> length mem \<le> length (put_fbbs hops bs mem) \<and>
   (of_nat (length (put_fbbs hops bs mem)) :: 32 word)
     = fold (\<lambda>n m. m + n) (map (\<lambda>b. of_nat (length b)) bs) (of_nat (length mem))"
proof (induction bs arbitrary: hops mem)
  case Nil
  then show ?case by simp
next
  case (Cons b bs)
  define m where "m = put hops (le32 (length mem)) mem @ b"
  have lm: "length m = length mem + length b"
    using Cons.prems(1) by (simp add: m_def)
  have "hops + 4 + 4 * length bs \<le> length m" "8 dvd length m" "\<forall>b\<in>set bs. 8 dvd length b"
    using Cons.prems lm by auto
  note IH = Cons.IH [OF this]
  show ?case using IH lm by (simp add: add.commute flip: m_def)
qed

text \<open>A step of serializing takes as many bytes as the corresponding step of measuring adds.\<close>

definition grows :: "string \<Rightarrow> string \<Rightarrow> 32 word \<Rightarrow> bool" where
  "grows mem mem' n \<longleftrightarrow> 8 dvd length mem' \<and> length mem \<le> length mem' \<and> of_nat (length mem') = n"

abbreviation lengths :: "string fval \<Rightarrow> 32 word fval" where
  "lengths \<equiv> map_fval (\<lambda>b. of_nat (length b))"

definition aligned :: "string fval \<Rightarrow> bool" where
  "aligned v \<longleftrightarrow> pred_fval (\<lambda>b. 8 dvd length b) v"

lemma concat_same_length: "\<forall>x\<in>set xs. length x = n \<Longrightarrow> length (concat xs) = length xs * n"
  by (induction xs) auto

lemma grows_scalar_array:
  assumes "ok_value f v" "scalar_array f" "r + 4 \<le> length mem" "8 dvd length mem"
  shows "grows mem (ser_scalar_array (r, v) mem) (add_scalar_array (f, lengths v) (of_nat (length mem)))"
proof -
  obtain n a x where f: "f = (ARRAY, SCALAR n a, x)" using assms(2) by (cases f) (auto elim: is_scalar.elims)
  obtain xs where v: "v = FScalars xs" and xs: "\<forall>x\<in>set xs. length x = n"
    using assms(1) f by (cases v) auto
  define m where "m = put r (le32 (length mem)) mem @ concat xs"
  have lm: "length m = length mem + length xs * n"
    using assms(3) concat_same_length [OF xs] by (simp add: m_def)
  show ?thesis
  proof (cases "xs = []")
    case True
    then show ?thesis using assms(3, 4) by (simp add: grows_def v f add_padding_id)
  next
    case False
    then show ?thesis using add_padding [of m] length_PAD_ge [of m] lm
      by (simp add: grows_def v f flip: m_def)
  qed
qed

lemma grows_string:
  assumes "ok_value f v" "single_string f" "r + 4 \<le> length mem" "8 dvd length mem"
  shows "grows mem (ser_string (r, v) mem) (add_string (f, lengths v) (of_nat (length mem)))"
proof -
  obtain x where v: "v = FString x"
    using assms(1, 2) by (cases "(f, v)" rule: ok_value.cases) auto
  show ?thesis
  proof (cases x)
    case None
    then show ?thesis using assms(3, 4) by (simp add: grows_def v)
  next
    case (Some s)
    define m where "m = put r (le32 (length mem)) mem @ s @ [NUL]"
    have lm: "length m = length mem + (length s + 1)"
      using assms(3) by (simp add: m_def)
    have "ADD_PADDING_LEN (of_nat (length mem) + (of_nat (length s) + 1)) = of_nat (length (PAD m))"
      using add_padding [of m] by (simp only: lm of_nat_add of_nat_1)
    then show ?thesis using length_PAD_ge [of m] lm Some by (simp add: grows_def v flip: m_def)
  qed
qed

lemma grows_fbb:
  assumes "ok_value f v" "single_fbb f" "r + 4 \<le> length mem" "8 dvd length mem" "aligned v"
  shows "grows mem (ser_fbb (r, v) mem) (add_fbb (f, lengths v) (of_nat (length mem)))"
proof -
  obtain x where v: "v = FFbb x"
    using assms(1, 2) by (cases "(f, v)" rule: ok_value.cases) auto
  show ?thesis using assms(3-5) by (cases x) (simp_all add: grows_def aligned_def v)
qed

lemma grows_string_array:
  assumes "ok_value f v" "string_array f" "r + 4 \<le> length mem" "8 dvd length mem"
  shows "grows mem (ser_string_array (r, v) mem) (add_string_array (f, lengths v) (of_nat (length mem)))"
proof -
  obtain ss where v: "v = FStrings ss"
    using assms(1, 2) by (cases "(f, v)" rule: ok_value.cases) auto
  show ?thesis
  proof (cases "ss = []")
    case True
    then show ?thesis using assms(3, 4) by (simp add: grows_def v add_padding_id)
  next
    case False
    define m where "m = put r (le32 (length mem)) mem @ replicate (8 * length ss) NUL"
    have lm: "length m = length mem + 8 * length ss"
      using assms(3) by (simp add: m_def)
    have "length mem + 8 * length ss \<le> length (PAD m)"
      using length_PAD_ge [of m] lm by simp
    note L = length_put_strings [OF this PAD_dvd]
    have "ADD_PADDING_LEN (of_nat (length mem) + 8 * of_nat (length ss)) = of_nat (length (PAD m))"
      using add_padding [of m] by (simp only: lm of_nat_add of_nat_mult of_nat_numeral)
    then show ?thesis using L False length_PAD_ge [of m] lm by (simp add: grows_def v flip: m_def)
  qed
qed

lemma grows_fbb_array:
  assumes "ok_value f v" "fbb_array f" "r + 4 \<le> length mem" "8 dvd length mem" "aligned v"
  shows "grows mem (ser_fbb_array (r, v) mem) (add_fbb_array (f, lengths v) (of_nat (length mem)))"
proof -
  obtain bs where v: "v = FFbbs bs"
    using assms(1, 2) by (cases "(f, v)" rule: ok_value.cases) auto
  show ?thesis
  proof (cases "bs = []")
    case True
    then show ?thesis using assms(3, 4) by (simp add: grows_def v add_padding_id)
  next
    case False
    define m where "m = put r (le32 (length mem)) mem @ replicate (length bs * 4) NUL"
    have lm: "length m = length mem + length bs * 4"
      using assms(3) by (simp add: m_def)
    have "length mem + 4 * length bs \<le> length (PAD m)"
      using length_PAD_ge [of m] lm by simp
    moreover have "\<forall>b\<in>set bs. 8 dvd length b"
      using assms(5) by (simp add: aligned_def v list_all_iff)
    ultimately have L: "8 dvd length (put_fbbs (length mem) bs (PAD m)) \<and>
        length (PAD m) \<le> length (put_fbbs (length mem) bs (PAD m)) \<and>
        (of_nat (length (put_fbbs (length mem) bs (PAD m))) :: 32 word)
          = fold (\<lambda>n m. m + n) (map (\<lambda>b. of_nat (length b)) bs) (of_nat (length (PAD m)))"
      by (intro length_put_fbbs PAD_dvd)
    have "ADD_PADDING_LEN (of_nat (length mem) + of_nat (length bs) * 4) = of_nat (length (PAD m))"
      using add_padding [of m] by (simp only: lm of_nat_add of_nat_mult of_nat_numeral)
    then show ?thesis using L False length_PAD_ge [of m] lm by (simp add: grows_def v flip: m_def)
  qed
qed

lemma grows_fold:
  assumes "\<And>k m. k \<in> set ks \<Longrightarrow> N \<le> length m \<Longrightarrow> 8 dvd length m \<Longrightarrow> grows m (S k m) (A k (of_nat (length m)))"
    and "N \<le> length mem" "8 dvd length mem"
  shows "grows mem (fold S ks mem) (fold A ks (of_nat (length mem)))"
  using assms
proof (induction ks arbitrary: mem)
  case Nil
  then show ?case by (simp add: grows_def)
next
  case (Cons k ks)
  have g: "grows mem (S k mem) (A k (of_nat (length mem)))"
    using Cons.prems by simp
  moreover have "N \<le> length (S k mem)" "8 dvd length (S k mem)"
    using g Cons.prems(2) by (simp_all add: grows_def)
  then have "grows (S k mem) (fold S ks (S k mem)) (fold A ks (of_nat (length (S k mem))))"
    using Cons.prems(1) by (intro Cons.IH) auto
  ultimately show ?case by (simp add: grows_def)
qed

lemma kind_indicesD: "k \<in> set (kind_indices P fs) \<Longrightarrow> k < length fs \<and> P (fs ! k)"
  by (auto simp: kind_indices_def)

lemma grows_group:
  assumes "ok_values fs vs" "\<And>f. P f \<Longrightarrow> has_relptr f"
    and step: "\<And>k r m. ok_value (fs ! k) (vs ! k) \<Longrightarrow> P (fs ! k) \<Longrightarrow> r + 4 \<le> length m \<Longrightarrow> 8 dvd length m \<Longrightarrow>
      k < length fs \<Longrightarrow> grows m (S (r, vs ! k) m) (A (fs ! k, lengths (vs ! k)) (of_nat (length m)))"
    and "sizeof_wire fs + sizeof_relptrs fs \<le> length mem" "8 dvd length mem"
  shows "grows mem (fold S (with_relptr P fs vs) mem) (fold A (of_kind P fs (map lengths vs)) (of_nat (length mem)))"
proof -
  have len: "length vs = length fs" using assms(1) by (simp add: ok_values_def)
  have eq: "of_kind P fs (map lengths vs) = map (\<lambda>k. (fs ! k, lengths (vs ! k))) (kind_indices P fs)"
    using len kind_indicesD [of _ P fs] by (simp add: of_kind_indices)
  have "grows mem (fold (\<lambda>k. S (relptr_offset fs k, vs ! k)) (kind_indices P fs) mem)
      (fold (\<lambda>k. A (fs ! k, lengths (vs ! k))) (kind_indices P fs) (of_nat (length mem)))"
  proof (rule grows_fold [OF _ assms(4, 5)])
    fix k and m :: string
    assume k: "k \<in> set (kind_indices P fs)" and m: "sizeof_wire fs + sizeof_relptrs fs \<le> length m" "8 dvd length m"
    have "relptr_offset fs k + 4 \<le> length m"
      using relptr_offset_less [of k fs] assms(2) kind_indicesD [OF k] m(1) by fastforce
    then show "grows m (S (relptr_offset fs k, vs ! k) m) (A (fs ! k, lengths (vs ! k)) (of_nat (length m)))"
      using kind_indicesD [OF k] assms(1) m(2) by (intro step) (auto simp: ok_values_def)
  qed
  then show ?thesis
    by (simp add: with_relptr_def eq fold_map o_def flip: kind_indices_def)
qed

lemma filter_kind: "filter P fs = map ((!) fs) (kind_indices P fs)"
  by (metis (no_types, lifting) comp_def filter_cong filter_map map_nth kind_indices_def)

lemma length_scalar_bytes:
  "\<forall>bs\<in>set_option x. length bs = scalar_size f \<Longrightarrow> length (scalar_bytes f (FScalar x)) = scalar_size f"
  by (cases x) auto

lemma wire_values_fit:
  assumes ok: "ok_values fs vs"
  shows "list_all2 (\<lambda>m bs. length bs = fst m \<and> 0 < snd m) (wire_members fs) (wire_values tag fs vs)"
proof -
  have len: "length vs = length fs" using ok by (simp add: ok_values_def)
  have sc: "length (scalar_bytes (fs ! k) (vs ! k)) = scalar_size (fs ! k) \<and> 0 < scalar_align (fs ! k)"
    if "k < length fs" "single_scalar (fs ! k)" for k
  proof -
    have "ok_value (fs ! k) (vs ! k)" using ok that by (simp add: ok_values_def)
    then show ?thesis using that(2)
      by (cases "(fs ! k, vs ! k)" rule: ok_value.cases) (auto simp: length_scalar_bytes)
  qed
  have "list_all2 (\<lambda>m bs. length bs = fst m \<and> 0 < snd m)
      (map (\<lambda>f. (scalar_size f, scalar_align f)) (filter single_scalar fs))
      (map (\<lambda>(f, v). scalar_bytes f v) (of_kind single_scalar fs vs))"
    using sc kind_indicesD [of _ single_scalar fs]
    by (simp add: filter_kind of_kind_indices [OF len] list_all2_map1 list_all2_map2 list_all2_same)
  moreover have "list_all2 (\<lambda>m bs. length bs = fst m \<and> 0 < snd m)
      (replicate (length (filter P fs)) (4 :: nat, 4 :: nat)) (map (\<lambda>(f, v). le32 (g v)) (of_kind P fs vs))" for P g
    by (simp add: filter_kind of_kind_indices [OF len] list_all2_map2 list_all2_conv_all_nth split_def)
  ultimately show ?thesis
    unfolding wire_members_def wire_values_def
    by (simp add: list_all2_appendI)
qed

lemma length_wire_body:
  assumes ok: "ok_values fs vs"
  shows "length (struct_bytes 0 (zip (wire_members fs) (wire_values tag fs vs))) = has_offset fs"
  using length_struct_bytes [OF wire_values_fit [OF ok], of 0] by (simp add: has_offset_def)

lemma length_has_bytes: 
  assumes ok: "ok_values fs vs"
  shows "length (has_bytes (map (\<lambda>(f, v). is_set v) (of_kind optional_scalar fs vs))) = has_size fs"
  using ok by (simp add: has_bytes_def has_size_def ok_values_def of_kind_indices filter_kind)

lemma fold_max_ge: "(x :: nat) \<le> fold max xs x"
  by (induction xs arbitrary: x) (auto intro: order_trans [OF max.cobounded2])

lemma sizeof_wire_ge: "has_offset fs + has_size fs \<le> sizeof_wire fs"
  unfolding sizeof_wire_def using fold_max_ge [of 1 "map snd (wire_members fs)"] by (intro align_up_ge) linarith

lemma length_wire_bytes [simp]:
  "ok_values fs vs \<Longrightarrow> length (wire_bytes tag fs vs) = sizeof_wire fs"
  using sizeof_wire_ge [of fs] by (simp add: wire_bytes_def Let_def length_wire_body length_has_bytes)

lemma grows_next: "grows m m' n \<Longrightarrow> N \<le> length m \<Longrightarrow> N \<le> length m'"
  and grows_dvd: "grows m m' n \<Longrightarrow> 8 dvd length m'"
  by (simp_all add: grows_def)

lemma measure_msg_correct:
  assumes ok: "ok_values fs vs" and al: "\<forall>v\<in>set vs. aligned v"
  shows "measure_msg fs (map lengths vs) = of_nat (length (serialize_msg tag fs vs))
    \<and> 8 dvd length (serialize_msg tag fs vs)"
proof -
  let ?N = "sizeof_wire fs + sizeof_relptrs fs"
  have al': "aligned (vs ! k)" if "k < length fs" for k
    using al ok that by (simp add: ok_values_def)
  define m0 where "m0 = PAD (wire_bytes tag fs vs @ replicate (sizeof_relptrs fs) NUL)"
  have m0: "?N \<le> length m0" "8 dvd length m0"
    using length_PAD_ge [of "wire_bytes tag fs vs @ replicate (sizeof_relptrs fs) NUL"] ok
    by (simp_all add: m0_def)
  have l0: "ADD_PADDING_LEN (of_nat (sizeof_wire fs) + of_nat (sizeof_relptrs fs)) = of_nat (length m0)"
    using add_padding [of "wire_bytes tag fs vs @ replicate (sizeof_relptrs fs) NUL"] ok by (simp add: m0_def)
  define m1 where "m1 = fold ser_scalar_array (with_relptr scalar_array fs vs) m0"
  have g1: "grows m0 m1 (fold add_scalar_array (of_kind scalar_array fs (map lengths vs)) (of_nat (length m0)))"
    unfolding m1_def by (rule grows_group [OF ok _ _ m0]) (auto intro: grows_scalar_array simp del: add_scalar_array.simps)
  define m2 where "m2 = fold ser_string (with_relptr single_string fs vs) m1"
  have g2: "grows m1 m2 (fold add_string (of_kind single_string fs (map lengths vs)) (of_nat (length m1)))"
    unfolding m2_def by (rule grows_group [OF ok _ _ grows_next [OF g1 m0(1)] grows_dvd [OF g1]]) (auto intro: grows_string)
  note n2 = grows_next [OF g2 grows_next [OF g1 m0(1)]]
  define m3 where "m3 = fold ser_fbb (with_relptr single_fbb fs vs) m2"
  have g3: "grows m2 m3 (fold add_fbb (of_kind single_fbb fs (map lengths vs)) (of_nat (length m2)))"
    unfolding m3_def by (rule grows_group [OF ok _ _ n2 grows_dvd [OF g2]]) (auto intro: grows_fbb al')
  note n3 = grows_next [OF g3 n2]
  define m4 where "m4 = fold ser_string_array (with_relptr string_array fs vs) m3"
  have g4: "grows m3 m4 (fold add_string_array (of_kind string_array fs (map lengths vs)) (of_nat (length m3)))"
    unfolding m4_def by (rule grows_group [OF ok _ _ n3 grows_dvd [OF g3]]) (auto intro: grows_string_array)
  note n4 = grows_next [OF g4 n3]
  define m5 where "m5 = fold ser_fbb_array (with_relptr fbb_array fs vs) m4"
  have g5: "grows m4 m5 (fold add_fbb_array (of_kind fbb_array fs (map lengths vs)) (of_nat (length m4)))"
    unfolding m5_def by (rule grows_group [OF ok _ _ n4 grows_dvd [OF g4]]) (auto intro: grows_fbb_array al')
  have "serialize_msg tag fs vs = PAD m5"
    by (simp add: serialize_msg_def Let_def m0_def m1_def m2_def m3_def m4_def m5_def)
  moreover have "measure_msg fs (map lengths vs) = ADD_PADDING_LEN (of_nat (length m5))"
    using g1 g2 g3 g4 g5 by (simp add: measure_msg_def Let_def l0 grows_def)
  ultimately show ?thesis by (simp add: add_padding)
qed

lemma fval_map_id_cong: "(\<And>x. x \<in> set_fval v \<Longrightarrow> f x = g x) \<Longrightarrow> map_fval f v = map_fval g v"
  by (rule fval.map_cong0)

lemma measure_serialize:
  "ok_builder ms b \<Longrightarrow>
   builder_measure ms b = of_nat (length (builder_serialize ms b)) \<and> 8 dvd length (builder_serialize ms b)"
proof (induction b)
  case (Builder tag vs)
  have ok: "ok_values (fields_of ms tag) vs" using Builder.prems by simp
  have sub: "ok_builder ms b" if "v \<in> set vs" "b \<in> set_fval v" for v b
    using Builder.prems that by (auto simp: list_all_iff fval.pred_set fval.set_map)
  note IH = Builder.IH [OF _ _ sub]
  have eq: "map (map_fval (builder_measure ms)) vs = map lengths (map (map_fval (builder_serialize ms)) vs)"
    using IH by (auto simp: fval.map_comp o_def intro!: fval.map_cong0)
  have "\<forall>v\<in>set (map (map_fval (builder_serialize ms)) vs). aligned v"
    using IH by (auto simp: aligned_def fval.pred_set fval.set_map)
  then show ?case
    using measure_msg_correct [of "fields_of ms tag" "map (map_fval (builder_serialize ms)) vs" tag] ok
    unfolding builder_measure.simps builder_serialize.simps eq ok_values_map by blast
qed

end
