(* ===== verification/FB_FbbPlace.thy ===== *)
theory FB_FbbPlace
  imports FB_FbbLength
begin

text \<open>
  Where the values of a message lie after serializing: every step writes below the current offset only in its own
  \<open>relptr\<close> (\<open>stays\<close>), and places its value above it (\<open>value_at\<close>); so the values of all the fields are in place in the end.
\<close>

section \<open>What is where\<close>

definition stays :: "nat set \<Rightarrow> string \<Rightarrow> string \<Rightarrow> bool" where
  "stays A m m' \<longleftrightarrow> length m \<le> length m' \<and> (\<forall>i<length m. i \<notin> A \<longrightarrow> m' ! i = m ! i)"

lemma stays_refl [simp]: "stays A m m"
  by (simp add: stays_def)

lemma stays_trans: "stays A m m' \<Longrightarrow> stays B m' m'' \<Longrightarrow> stays (A \<union> B) m m''"
  by (auto simp: stays_def)

lemma stays_mono: "stays A m m' \<Longrightarrow> A \<subseteq> B \<Longrightarrow> stays B m m'"
  by (auto simp: stays_def)

lemma stays_append: "stays A m m' \<Longrightarrow> stays A m (m' @ x)"
  by (auto simp: stays_def nth_append)

lemma stays_PAD: "stays A m m' \<Longrightarrow> stays A m (PAD m')"
  by (simp add: PAD_def stays_append)

lemma stays_put: "off + length bs \<le> length m \<Longrightarrow> stays {off..<off + length bs} m (put off bs m)"
  by (auto simp: stays_def put_def nth_append)

lemma nth_put: "off + length bs \<le> length m \<Longrightarrow> i < length bs \<Longrightarrow> put off bs m ! (off + i) = bs ! i"
  by (simp add: put_def nth_append)

lemma u32_le32: "off + 4 \<le> length m \<Longrightarrow> u32 off (put off (le32 n) m) = n mod 2 ^ 32"
proof -
  assume len: "off + 4 \<le> length m"
  have "put off (le32 n) m ! (off + i) = le32 n ! i" if "i < 4" for i
    using nth_put [of off "le32 n" m i] len that by simp
  from this [of 0] this [of 1] this [of 2] this [of 3]
  have "u32 off (put off (le32 n) m) = n mod 256 + 256 * (n div 256 mod 256) + 65536 * (n div 65536 mod 256)
      + 16777216 * (n div 16777216 mod 256)"
    by (simp add: u32_def le32_def numeral_2_eq_2 [symmetric] numeral_3_eq_3 [symmetric])
  also have "\<dots> = n mod 4294967296"
    using mod_mult2_eq [of n 256 16777216] mod_mult2_eq [of "n div 256" 256 65536]
      mod_mult2_eq [of "n div 65536" 256 256] by (simp add: div_mult2_eq [symmetric])
  finally show ?thesis by simp
qed

lemma staysD:
  assumes "stays A m m'" "off + n \<le> length m" "A \<inter> {off..<off + n} = {}" "i < n"
  shows "m' ! (off + i) = m ! (off + i)"
proof -
  have "off + i \<in> {off..<off + n}" using assms(4) by simp
  then have "off + i \<notin> A" using assms(3) by blast
  then show ?thesis using assms by (simp add: stays_def)
qed

lemma u32_stays:
  assumes "stays A m m'" "off + 4 \<le> length m" "A \<inter> {off..<off + 4} = {}"
  shows "u32 off m' = u32 off m"
  using staysD [OF assms, of 0] staysD [OF assms, of 1] staysD [OF assms, of 2] staysD [OF assms, of 3]
  by (simp add: u32_def)

lemma peek_stays:
  assumes "stays A m m'" "off + n \<le> length m" "A \<inter> {off..<off + n} = {}"
  shows "peek off n m' = peek off n m"
  using staysD [OF assms] assms(1, 2) unfolding peek_def by (intro nth_equalityI) (auto simp: stays_def)

text \<open>At \<open>r\<close> is the offset of the bytes \<open>x\<close>, which lie at \<open>lo\<close> or above, or 0.\<close>

definition blob_at :: "nat \<Rightarrow> nat \<Rightarrow> string option \<Rightarrow> string \<Rightarrow> bool" where
  "blob_at lo r x m \<longleftrightarrow>
     (case x of
        None \<Rightarrow> u32 r m = 0
      | Some bs \<Rightarrow> u32 r m \<noteq> 0 \<and> lo \<le> u32 r m \<and> u32 r m + length bs \<le> length m \<and> peek (u32 r m) (length bs) m = bs)"

lemma blob_at_stays:
  assumes "blob_at lo r x m" "stays A m m'" "A \<subseteq> {..<lo}" "A \<inter> {r..<r + 4} = {}" "r + 4 \<le> length m"
  shows "blob_at lo r x m'"
proof (cases x)
  case None
  then show ?thesis using assms u32_stays [OF assms(2, 5, 4)] by (simp add: blob_at_def)
next
  case (Some bs)
  have off: "u32 r m \<noteq> 0" "lo \<le> u32 r m" "u32 r m + length bs \<le> length m" "peek (u32 r m) (length bs) m = bs"
    using assms(1) Some by (simp_all add: blob_at_def)
  have "A \<inter> {u32 r m..<u32 r m + length bs} = {}" using assms(3) off(2) by fastforce
  then have "peek (u32 r m) (length bs) m' = bs" using peek_stays [OF assms(2) off(3)] off(4) by simp
  moreover have "length m \<le> length m'" using assms(2) by (simp add: stays_def)
  ultimately show ?thesis using Some off(1-3) u32_stays [OF assms(2, 5, 4)] by (simp add: blob_at_def)
qed

lemma blob_at_mono: "blob_at lo r x m \<Longrightarrow> lo' \<le> lo \<Longrightarrow> blob_at lo' r x m"
  by (auto simp: blob_at_def split: option.splits)

lemma blob_at_new:
  assumes "r + 4 \<le> length m" "0 < length m" "length m < 2 ^ 32" "lo \<le> length m"
  shows "blob_at lo r (Some bs) (put r (le32 (length m)) m @ bs @ x)"
proof -
  let ?p = "put r (le32 (length m)) m"
  have len: "length ?p = length m" using assms(1) by simp
  have "u32 r (?p @ bs @ x) = u32 r ?p"
    using assms(1) len by (intro u32_stays [where A = "{}"]) (simp_all add: stays_append)
  also have "\<dots> = length m" using u32_le32 [OF assms(1), of "length m"] assms(3) by simp
  finally have "u32 r (?p @ bs @ x) = length m" .
  then show ?thesis using assms len by (simp add: blob_at_def peek_def)
qed

lemma stays_new: "r + 4 \<le> length m \<Longrightarrow> stays {r..<r + 4} m (put r (le32 n) m @ x)"
  using stays_put [of r "le32 n" m] by (simp add: stays_append)

fun value_at :: "nat \<Rightarrow> nat \<Rightarrow> string fval \<Rightarrow> string \<Rightarrow> bool" where
  "value_at lo r (FScalar x) m = True"
| "value_at lo r (FString x) m = blob_at lo r (map_option (\<lambda>s. s @ [NUL]) x) m"
| "value_at lo r (FFbb x) m = blob_at lo r x m"
| "value_at lo r (FScalars xs) m = blob_at lo r (if xs = [] then None else Some (concat xs)) m"
| "value_at lo r (FStrings ss) m \<longleftrightarrow>
     (if ss = [] then u32 r m = 0
      else u32 r m \<noteq> 0 \<and> lo \<le> u32 r m \<and> u32 r m + 8 * length ss \<le> length m \<and>
        (\<forall>i<length ss. blob_at lo (u32 r m + 8 * i) (Some (ss ! i @ [NUL])) m \<and> u32 (u32 r m + 8 * i + 4) m = length (ss ! i)))"
| "value_at lo r (FFbbs bs) m \<longleftrightarrow>
     (if bs = [] then u32 r m = 0
      else u32 r m \<noteq> 0 \<and> lo \<le> u32 r m \<and> u32 r m + 4 * length bs \<le> length m \<and>
        (\<forall>i<length bs. blob_at lo (u32 r m + 4 * i) (Some (bs ! i)) m))"

lemma value_at_stays:
  assumes v: "value_at lo r v m" and k: "stays A m m'" and A: "A \<subseteq> {..<lo}"
    and dis: "A \<inter> {r..<r + 4} = {}" and r: "r + 4 \<le> length m"
  shows "value_at lo r v m'"
proof -
  note u = u32_stays [OF k r dis]
  have below: "A \<inter> {i..<j} = {}" if "lo \<le> i" for i j using A that by fastforce
  have len: "length m \<le> length m'" using k by (simp add: stays_def)
  have b: "blob_at lo off x m'" if "blob_at lo off x m" "lo \<le> off" "off + 4 \<le> length m" for off x
    using blob_at_stays [OF that(1) k A below [OF that(2)] that(3)] .
  have w: "u32 off m' = u32 off m" if "lo \<le> off" "off + 4 \<le> length m" for off
    using u32_stays [OF k that(2) below [OF that(1)]] .
  show ?thesis
  proof (cases v)
    case (FStrings ss)
    show ?thesis
    proof (cases "ss = []")
      case False
      note v' = v [unfolded FStrings value_at.simps if_not_P [OF False]]
      have "blob_at lo (u32 r m + 8 * i) (Some (ss ! i @ [NUL])) m' \<and> u32 (u32 r m + 8 * i + 4) m' = length (ss ! i)"
        if i: "i < length ss" for i
        using v' i b [of "u32 r m + 8 * i" "Some (ss ! i @ [NUL])"] w [of "u32 r m + 8 * i + 4"] by simp
      then show ?thesis using v' u len by (simp add: FStrings False)
    qed (use v FStrings u in simp)
  next
    case (FFbbs bs)
    show ?thesis
    proof (cases "bs = []")
      case False
      note v' = v [unfolded FFbbs value_at.simps if_not_P [OF False]]
      have "blob_at lo (u32 r m + 4 * i) (Some (bs ! i)) m'" if i: "i < length bs" for i
        using v' i b [of "u32 r m + 4 * i" "Some (bs ! i)"] by simp
      then show ?thesis using v' u len by (simp add: FFbbs False)
    qed (use v FFbbs u in simp)
  qed (use v blob_at_stays [OF _ k A dis r] in simp_all)
qed

lemma blob_at_end:
  assumes "u32 r q = length q" "r + 4 \<le> length q" "0 < length q" "lo \<le> length q"
  shows "blob_at lo r (Some bs) (q @ bs @ x)"
proof -
  have "u32 r (q @ bs @ x) = u32 r q"
    using assms(2) by (intro u32_stays [where A = "{}"]) (simp_all add: stays_append)
  then show ?thesis using assms by (simp add: blob_at_def peek_def)
qed

lemma stays_cut: "stays (A \<union> B) m m' \<Longrightarrow> B \<subseteq> {length m..} \<Longrightarrow> stays A m m'"
  by (fastforce simp: stays_def)

lemma u32_put: "r + 4 \<le> length m \<Longrightarrow> n < 2 ^ 32 \<Longrightarrow> u32 r (put r (le32 n) m) = n"
  by (simp add: u32_le32)

lemma put_strings_at:
  assumes "hops + 8 * length ss \<le> lo" "lo \<le> length m" "0 < length m" "length (put_strings hops ss m) < 2 ^ 32"
  shows "stays {hops..<hops + 8 * length ss} m (put_strings hops ss m) \<and>
    (\<forall>i<length ss. blob_at lo (hops + 8 * i) (Some (ss ! i @ [NUL])) (put_strings hops ss m) \<and>
       u32 (hops + 8 * i + 4) (put_strings hops ss m) = length (ss ! i))"
  using assms
proof (induction ss arbitrary: hops m)
  case Nil
  then show ?case by simp
next
  case (Cons s ss)
  define p where "p = put hops (le32 (length m)) m"
  define q where "q = put (hops + 4) (le32 (length s)) p"
  define m1 where "m1 = PAD (q @ s @ [NUL])"
  define m' where "m' = put_strings (hops + 8) ss m1"
  have lp: "length p = length m" and lq: "length q = length m"
    using Cons.prems(1, 2) by (simp_all add: p_def q_def)
  have l1: "length m + length s < length m1"
    using length_PAD_ge [of "q @ s @ [NUL]"] by (simp add: m1_def lq)
  have fin: "put_strings hops (s # ss) m = m'"
    by (simp add: m'_def m1_def q_def p_def)
  have IH: "stays {hops + 8..<hops + 8 + 8 * length ss} m1 m' \<and>
      (\<forall>i<length ss. blob_at lo (hops + 8 + 8 * i) (Some (ss ! i @ [NUL])) m' \<and> u32 (hops + 8 + 8 * i + 4) m' = length (ss ! i))"
    unfolding m'_def using Cons.prems l1 fin by (intro Cons.IH) (auto simp: m'_def)
  then have k2: "stays {hops + 8..<hops + 8 + 8 * length ss} m1 m'" by simp
  then have small: "length m1 < 2 ^ 32" using Cons.prems(4) fin by (simp add: stays_def)
  have kp: "stays {hops..<hops + 4} m p"
    using stays_put [of hops "le32 (length m)" m] Cons.prems(1, 2) by (simp add: p_def)
  have kq: "stays {hops + 4..<hops + 8} p q"
    using stays_put [of "hops + 4" "le32 (length s)" p] Cons.prems(1, 2) by (simp add: q_def lp add.assoc)
  have k1: "stays {hops..<hops + 8} m m1"
    unfolding m1_def using stays_mono [OF stays_trans [OF kp kq], of "{hops..<hops + 8}"]
    by (intro stays_PAD stays_append) auto
  have "u32 hops q = u32 hops p"
    using Cons.prems(1, 2) lp by (intro u32_stays [OF kq]) auto
  also have "\<dots> = length m"
    unfolding p_def using Cons.prems(1, 2) l1 small by (intro u32_put) auto
  finally have uq: "u32 hops q = length q" by (simp add: lq)
  have b1: "blob_at lo hops (Some (s @ [NUL])) m1"
    unfolding m1_def PAD_def append_assoc [of q] using Cons.prems(1-3) lq uq by (intro blob_at_end) auto
  have "u32 (hops + 4) m1 = u32 (hops + 4) q"
    unfolding m1_def using Cons.prems(1, 2) lq by (intro u32_stays [where A = "{}"] stays_PAD stays_append) auto
  also have "\<dots> = length s"
    unfolding q_def using Cons.prems(1, 2) l1 small lp by (intro u32_put) auto
  finally have u1: "u32 (hops + 4) m1 = length s" .
  have b': "blob_at lo hops (Some (s @ [NUL])) m'"
    using Cons.prems(1, 2) l1 by (intro blob_at_stays [OF b1 k2]) auto
  have u': "u32 (hops + 4) m' = length s"
    using Cons.prems(1, 2) l1 u1 u32_stays [OF k2, of "hops + 4"] by fastforce
  have "stays {hops..<hops + 8 * length (s # ss)} m m'"
    using stays_mono [OF stays_trans [OF k1 k2]] by fastforce
  moreover have "blob_at lo (hops + 8 * i) (Some ((s # ss) ! i @ [NUL])) m' \<and> u32 (hops + 8 * i + 4) m' = length ((s # ss) ! i)"
    if "i < length (s # ss)" for i
    using that b' u' IH by (cases i) (auto simp: algebra_simps)
  ultimately show ?case unfolding fin by blast
qed

lemma put_fbbs_at:
  assumes "hops + 4 * length bs \<le> lo" "lo \<le> length m" "0 < length m" "length (put_fbbs hops bs m) < 2 ^ 32"
  shows "stays {hops..<hops + 4 * length bs} m (put_fbbs hops bs m) \<and>
    (\<forall>i<length bs. blob_at lo (hops + 4 * i) (Some (bs ! i)) (put_fbbs hops bs m))"
  using assms
proof (induction bs arbitrary: hops m)
  case Nil
  then show ?case by simp
next
  case (Cons b bs)
  define p where "p = put hops (le32 (length m)) m"
  define m1 where "m1 = p @ b"
  define m' where "m' = put_fbbs (hops + 4) bs m1"
  have lp: "length p = length m" using Cons.prems(1, 2) by (simp add: p_def)
  have fin: "put_fbbs hops (b # bs) m = m'" by (simp add: m'_def m1_def p_def)
  have IH: "stays {hops + 4..<hops + 4 + 4 * length bs} m1 m' \<and>
      (\<forall>i<length bs. blob_at lo (hops + 4 + 4 * i) (Some (bs ! i)) m')"
    unfolding m'_def using Cons.prems fin lp by (intro Cons.IH) (auto simp: m'_def m1_def)
  then have k2: "stays {hops + 4..<hops + 4 + 4 * length bs} m1 m'" by simp
  then have small: "length m1 < 2 ^ 32" using Cons.prems(4) fin by (simp add: stays_def)
  have k1: "stays {hops..<hops + 4} m m1"
    unfolding m1_def p_def using Cons.prems(1, 2) by (intro stays_new) auto
  have "u32 hops p = length p"
    unfolding p_def using Cons.prems(1, 2) small lp by (subst u32_put) (auto simp: m1_def p_def)
  then have b1: "blob_at lo hops (Some b) m1"
    unfolding m1_def using blob_at_end [of hops p lo b "[]"] Cons.prems(1-3) lp by simp
  have b': "blob_at lo hops (Some b) m'"
    using Cons.prems(1, 2) lp by (intro blob_at_stays [OF b1 k2]) (auto simp: m1_def)
  have "stays {hops..<hops + 4 * length (b # bs)} m m'"
    using stays_mono [OF stays_trans [OF k1 k2]] by fastforce
  moreover have "blob_at lo (hops + 4 * i) (Some ((b # bs) ! i)) m'" if "i < length (b # bs)" for i
    using that b' IH by (cases i) (auto simp: algebra_simps)
  ultimately show ?case unfolding fin by blast
qed

text \<open>A step fills in the slot at \<open>r\<close> and leaves the rest as it was.\<close>

definition fills :: "nat \<Rightarrow> nat \<Rightarrow> string fval \<Rightarrow> string \<Rightarrow> string \<Rightarrow> bool" where
  "fills lo r v m m' \<longleftrightarrow> stays {r..<r + 4} m m' \<and> value_at lo r v m'"

lemma fills_absent:
  assumes "r + 4 \<le> length m" "\<And>m. value_at lo r v m = blob_at lo r None m"
  shows "fills lo r v m (put r (le32 0) m)"
  using assms stays_new [of r m 0 "[]"] u32_put [of r m 0] by (simp add: fills_def blob_at_def)

lemma fills_blob:
  assumes "r + 4 \<le> lo" "lo \<le> length m" "0 < lo" "\<And>m. value_at lo r v m = blob_at lo r (Some bs) m" "length m < 2 ^ 32"
  shows "fills lo r v m (put r (le32 (length m)) m @ bs @ x)"
proof -
  have "0 < length m" using assms(2, 3) by linarith
  then show ?thesis
    using assms stays_new [of r m "length m" "bs @ x"] blob_at_new [of r m lo bs x] by (simp add: fills_def)
qed

lemma fills_string_array:
  assumes r: "r + 4 \<le> lo" "lo \<le> length m" "0 < lo" and ss: "ss \<noteq> []"
    and m': "m' = ser_string_array (r, FStrings ss) m" and small: "length m' < 2 ^ 32"
  shows "fills lo r (FStrings ss) m m'"
proof -
  define p where "p = put r (le32 (length m)) m"
  define m1 where "m1 = PAD (p @ replicate (2 * length ss * 4) NUL)"
  have fin: "m' = put_strings (length m) ss m1" using ss by (simp add: m' m1_def p_def)
  have lp: "length p = length m" using r by (simp add: p_def)
  have l1: "length m + 8 * length ss \<le> length m1"
    using length_PAD_ge [of "p @ replicate (2 * length ss * 4) NUL"] by (simp add: m1_def lp)
  have P: "stays {length m..<length m + 8 * length ss} m1 m' \<and>
     (\<forall>i<length ss. blob_at (length m + 8 * length ss) (length m + 8 * i) (Some (ss ! i @ [NUL])) m' \<and>
       u32 (length m + 8 * i + 4) m' = length (ss ! i))"
    unfolding fin using l1 r small fin by (intro put_strings_at) auto
  then have k2: "stays {length m..<length m + 8 * length ss} m1 m'" by simp
  have l': "length m1 \<le> length m'" using k2 by (simp add: stays_def)
  have k1: "stays {r..<r + 4} m m1"
    unfolding m1_def p_def using r by (intro stays_PAD stays_new) auto
  have "stays {r..<r + 4} m m'"
    by (rule stays_cut [OF stays_trans [OF k1 k2]]) auto
  moreover have "u32 r m' = length m"
  proof -
    have "u32 r m' = u32 r m1" using r l1 by (intro u32_stays [OF k2]) auto
    also have "\<dots> = u32 r p"
      unfolding m1_def using r lp by (intro u32_stays [where A = "{}"] stays_PAD stays_append) auto
    also have "\<dots> = length m" unfolding p_def using r small l' l1 by (intro u32_put) auto
    finally show ?thesis .
  qed
  moreover have "blob_at lo (length m + 8 * i) (Some (ss ! i @ [NUL])) m'" if "i < length ss" for i
    using P that r by (auto intro: blob_at_mono)
  moreover have "m \<noteq> []" using r by auto
  ultimately show ?thesis using P ss r l' l1 by (simp add: fills_def)
qed

lemma fills_fbb_array:
  assumes r: "r + 4 \<le> lo" "lo \<le> length m" "0 < lo" and bs: "bs \<noteq> []"
    and m': "m' = ser_fbb_array (r, FFbbs bs) m" and small: "length m' < 2 ^ 32"
  shows "fills lo r (FFbbs bs) m m'"
proof -
  define p where "p = put r (le32 (length m)) m"
  define m1 where "m1 = PAD (p @ replicate (length bs * 4) NUL)"
  have fin: "m' = put_fbbs (length m) bs m1" using bs by (simp add: m' m1_def p_def)
  have lp: "length p = length m" using r by (simp add: p_def)
  have l1: "length m + 4 * length bs \<le> length m1"
    using length_PAD_ge [of "p @ replicate (length bs * 4) NUL"] by (simp add: m1_def lp)
  have P: "stays {length m..<length m + 4 * length bs} m1 m' \<and>
     (\<forall>i<length bs. blob_at (length m + 4 * length bs) (length m + 4 * i) (Some (bs ! i)) m')"
    unfolding fin using l1 r small fin by (intro put_fbbs_at) auto
  then have k2: "stays {length m..<length m + 4 * length bs} m1 m'" by simp
  have l': "length m1 \<le> length m'" using k2 by (simp add: stays_def)
  have k1: "stays {r..<r + 4} m m1"
    unfolding m1_def p_def using r by (intro stays_PAD stays_new) auto
  have "stays {r..<r + 4} m m'"
    by (rule stays_cut [OF stays_trans [OF k1 k2]]) auto
  moreover have "u32 r m' = length m"
  proof -
    have "u32 r m' = u32 r m1" using r l1 by (intro u32_stays [OF k2]) auto
    also have "\<dots> = u32 r p"
      unfolding m1_def using r lp by (intro u32_stays [where A = "{}"] stays_PAD stays_append) auto
    also have "\<dots> = length m" unfolding p_def using r small l' l1 by (intro u32_put) auto
    finally show ?thesis .
  qed
  moreover have "blob_at lo (length m + 4 * i) (Some (bs ! i)) m'" if "i < length bs" for i
    using P that r by (auto intro: blob_at_mono)
  moreover have "m \<noteq> []" using r by auto
  ultimately show ?thesis using P bs r l' l1 by (simp add: fills_def)
qed

definition ser_any :: "field \<Rightarrow> nat \<times> string fval \<Rightarrow> string \<Rightarrow> string" where
  "ser_any f =
     (if scalar_array f then ser_scalar_array else if single_string f then ser_string
      else if single_fbb f then ser_fbb else if string_array f then ser_string_array else ser_fbb_array)"

lemma fills_any:
  assumes ok: "ok_value f v" and rp: "has_relptr f"
    and r: "r + 4 \<le> lo" "lo \<le> length m" "0 < lo" and small: "length (ser_any f (r, v) m) < 2 ^ 32"
  shows "fills lo r v m (ser_any f (r, v) m)"
proof -
  have r': "r + 4 \<le> length m" using r by simp
  have lm: "length m < 2 ^ 32" if "length (put r (le32 (length m)) m @ x) \<le> length (ser_any f (r, v) m)" for x
    using that small r' by simp
  show ?thesis
  proof (cases v)
    case (FScalar x)
    then show ?thesis using ok rp by (cases "(f, v)" rule: ok_value.cases) auto
  next
    case (FString x)
    then have eq: "ser_any f = ser_string" using ok by (cases "(f, v)" rule: ok_value.cases) (auto simp: ser_any_def)
    show ?thesis
    proof (cases x)
      case None
      then show ?thesis using r' by (simp add: eq FString fills_absent)
    next
      case (Some s)
      then have s: "ser_any f (r, v) m = PAD (put r (le32 (length m)) m @ s @ [NUL])" by (simp add: eq FString)
      then have "length m < 2 ^ 32" using length_PAD_ge [of "put r (le32 (length m)) m @ s @ [NUL]"]
        by (intro lm [of "s @ [NUL]"]) simp
      then show ?thesis unfolding s PAD_def append_assoc [of "put r (le32 (length m)) m"]
        using r Some FString by (intro fills_blob) auto
    qed
  next
    case (FFbb x)
    then have eq: "ser_any f = ser_fbb" using ok by (cases "(f, v)" rule: ok_value.cases) (auto simp: ser_any_def)
    show ?thesis
    proof (cases x)
      case None
      then show ?thesis using r' by (simp add: eq FFbb fills_absent)
    next
      case (Some b)
      then have s: "ser_any f (r, v) m = put r (le32 (length m)) m @ b @ []" by (simp add: eq FFbb)
      then have "length m < 2 ^ 32" by (intro lm [of "b @ []"]) simp
      then show ?thesis unfolding s using r Some FFbb by (intro fills_blob) auto
    qed
  next
    case (FScalars xs)
    then have eq: "ser_any f = ser_scalar_array"
      using ok by (cases "(f, v)" rule: ok_value.cases) (auto simp: ser_any_def)
    show ?thesis
    proof (cases "xs = []")
      case True
      then show ?thesis using r' by (simp add: eq FScalars fills_absent)
    next
      case False
      then have s: "ser_any f (r, v) m = PAD (put r (le32 (length m)) m @ concat xs)" by (simp add: eq FScalars)
      then have "length m < 2 ^ 32" using length_PAD_ge [of "put r (le32 (length m)) m @ concat xs"]
        by (intro lm [of "concat xs"]) simp
      then show ?thesis unfolding s PAD_def append_assoc
        using r False FScalars by (intro fills_blob) auto
    qed
  next
    case (FStrings ss)
    then have eq: "ser_any f = ser_string_array"
      using ok by (cases "(f, v)" rule: ok_value.cases) (auto simp: ser_any_def)
    show ?thesis
    proof (cases "ss = []")
      case True
      then show ?thesis using r' stays_new [of r m 0 "[]"] u32_put [of r m 0] by (simp add: eq FStrings fills_def)
    next
      case False
      then show ?thesis using fills_string_array [OF r False _ small] eq FStrings by simp
    qed
  next
    case (FFbbs bs)
    then have eq: "ser_any f = ser_fbb_array"
      using ok by (cases "(f, v)" rule: ok_value.cases) (auto simp: ser_any_def)
    show ?thesis
    proof (cases "bs = []")
      case True
      then show ?thesis using r' stays_new [of r m 0 "[]"] u32_put [of r m 0] by (simp add: eq FFbbs fills_def)
    next
      case False
      then show ?thesis using fills_fbb_array [OF r False _ small] eq FFbbs by simp
    qed
  qed
qed

lemma rank_less:
  assumes "j < k" "k \<le> length fs" "P (fs ! j)"
  shows "rank P fs j < rank P fs k"
proof -
  have "take k fs = take j fs @ fs ! j # drop (Suc j) (take k fs)"
    using assms id_take_nth_drop [of j "take k fs"] by (simp add: min_def)
  then have "filter P (take k fs) = filter P (take j fs) @ fs ! j # filter P (drop (Suc j) (take k fs))"
    using assms(3) by (metis filter.simps(2) filter_append)
  then show ?thesis unfolding rank_def
    by (metis length_append length_Cons less_add_same_cancel1 zero_less_Suc)
qed

lemma slots_disjoint:
  assumes "j < length fs" "k < length fs" "has_relptr (fs ! j)" "has_relptr (fs ! k)" "j \<noteq> k"
  shows "{relptr_offset fs j..<relptr_offset fs j + 4} \<inter> {relptr_offset fs k..<relptr_offset fs k + 4} = {}"
proof (cases "j < k")
  case True
  then have "rank has_relptr fs j < rank has_relptr fs k" using assms by (intro rank_less) auto
  then show ?thesis by (auto simp: relptr_offset_def)
next
  case False
  then have "rank has_relptr fs k < rank has_relptr fs j" using assms by (intro rank_less) auto
  then show ?thesis by (auto simp: relptr_offset_def)
qed

abbreviation slot :: "field list \<Rightarrow> nat \<Rightarrow> nat set" where
  "slot fs k \<equiv> {relptr_offset fs k..<relptr_offset fs k + 4}"

lemma fills_fold:
  assumes ok: "ok_values fs vs" and lo: "lo = sizeof_wire fs + sizeof_relptrs fs" "0 < lo"
    and S: "S = (\<lambda>k. ser_any (fs ! k) (relptr_offset fs k, vs ! k))"
    and "distinct ks" "\<forall>k\<in>set ks. k < length fs \<and> has_relptr (fs ! k)" "lo \<le> length m"
    and "\<forall>xs ys. ks = xs @ ys \<longrightarrow> length (fold S xs m) < 2 ^ 32"
  shows "stays (\<Union>k\<in>set ks. slot fs k) m (fold S ks m) \<and>
    (\<forall>k\<in>set ks. value_at lo (relptr_offset fs k) (vs ! k) (fold S ks m))"
  using assms(5-8)
proof (induction ks arbitrary: m)
  case Nil
  then show ?case by simp
next
  case (Cons k ks)
  have k: "k < length fs" "has_relptr (fs ! k)" "ok_value (fs ! k) (vs ! k)"
    using Cons.prems ok by (simp_all add: ok_values_def)
  have r: "relptr_offset fs k + 4 \<le> lo" using relptr_offset_less [OF k(1, 2)] lo by simp
  have sm: "length (S k m) < 2 ^ 32" using Cons.prems(4) [rule_format, of "[k]" ks] by simp
  have "fills lo (relptr_offset fs k) (vs ! k) m (S k m)"
    unfolding S using r sm by (intro fills_any k lo(2) Cons.prems(3)) (simp_all add: S)
  then have k1: "stays (slot fs k) m (S k m)" and v1: "value_at lo (relptr_offset fs k) (vs ! k) (S k m)"
    by (simp_all add: fills_def)
  have IH: "stays (\<Union>k\<in>set ks. slot fs k) (S k m) (fold S ks (S k m)) \<and>
      (\<forall>j\<in>set ks. value_at lo (relptr_offset fs j) (vs ! j) (fold S ks (S k m)))"
  proof (rule Cons.IH)
    show "lo \<le> length (S k m)" using k1 Cons.prems(3) by (simp add: stays_def)
    show "\<forall>xs ys. ks = xs @ ys \<longrightarrow> length (fold S xs (S k m)) < 2 ^ 32"
      using Cons.prems(4) by (metis append_Cons fold_simps(2))
  qed (use Cons.prems in auto)
  have "value_at lo (relptr_offset fs k) (vs ! k) (fold S ks (S k m))"
  proof (rule value_at_stays [OF v1 conjunct1 [OF IH]])
    show "(\<Union>k\<in>set ks. slot fs k) \<subseteq> {..<lo}"
      using relptr_offset_less Cons.prems(2) lo by fastforce
    show "(\<Union>k\<in>set ks. slot fs k) \<inter> slot fs k = {}"
      using slots_disjoint [of _ fs k] Cons.prems(1, 2) k by fastforce
    show "relptr_offset fs k + 4 \<le> length (S k m)" using k1 r Cons.prems(3) by (simp add: stays_def)
  qed
  moreover have "stays (\<Union>j\<in>set (k # ks). slot fs j) m (fold S ks (S k m))"
    using stays_trans [OF k1 conjunct1 [OF IH]] by simp
  ultimately show ?case using IH by simp
qed

definition ser_order :: "field list \<Rightarrow> nat list" where
  "ser_order fs = kind_indices scalar_array fs @ kind_indices single_string fs @ kind_indices single_fbb fs
     @ kind_indices string_array fs @ kind_indices fbb_array fs"

lemma kinds_disjoint:
  "scalar_array f \<Longrightarrow> \<not> single_string f \<and> \<not> single_fbb f \<and> \<not> string_array f \<and> \<not> fbb_array f"
  "single_string f \<Longrightarrow> \<not> single_fbb f \<and> \<not> string_array f \<and> \<not> fbb_array f"
  "single_fbb f \<Longrightarrow> \<not> string_array f \<and> \<not> fbb_array f"
  "string_array f \<Longrightarrow> \<not> fbb_array f"
  by (cases f, auto)+

lemma has_relptr_kinds:
  "has_relptr f \<longleftrightarrow> scalar_array f \<or> single_string f \<or> single_fbb f \<or> string_array f \<or> fbb_array f"
proof (cases f)
  case (fields q t v)
  then show ?thesis by (cases t) auto
qed

lemma fold_group:
  assumes "\<And>k. k < length fs \<Longrightarrow> P (fs ! k) \<Longrightarrow> ser_any (fs ! k) = S"
  shows "fold S (with_relptr P fs vs) m = fold (\<lambda>k. ser_any (fs ! k) (relptr_offset fs k, vs ! k)) (kind_indices P fs) m"
  using assms unfolding with_relptr_def kind_indices_def [symmetric] fold_map
  by (intro fold_cong) (auto dest: kind_indicesD)

lemma ser_any_kinds:
  "scalar_array f \<Longrightarrow> ser_any f = ser_scalar_array"
  "single_string f \<Longrightarrow> ser_any f = ser_string"
  "single_fbb f \<Longrightarrow> ser_any f = ser_fbb"
  "string_array f \<Longrightarrow> ser_any f = ser_string_array"
  "fbb_array f \<Longrightarrow> ser_any f = ser_fbb_array"
  using kinds_disjoint [of f] by (auto simp: ser_any_def simp del: scalar_array.simps single_string.simps
    single_fbb.simps string_array.simps fbb_array.simps)

lemma serialize_msg_fold:
  "serialize_msg tag fs vs =
     PAD (fold (\<lambda>k. ser_any (fs ! k) (relptr_offset fs k, vs ! k)) (ser_order fs)
       (PAD (wire_bytes tag fs vs @ replicate (sizeof_relptrs fs) NUL)))"
  by (simp add: serialize_msg_def Let_def ser_order_def fold_group [of _ _ ser_scalar_array]
    fold_group [of _ _ ser_string] fold_group [of _ _ ser_fbb] fold_group [of _ _ ser_string_array]
    fold_group [of _ _ ser_fbb_array] ser_any_kinds del: scalar_array.simps single_string.simps
    single_fbb.simps string_array.simps fbb_array.simps)

lemma ser_order_set: "set (ser_order fs) = {k. k < length fs \<and> has_relptr (fs ! k)}"
  by (auto simp: ser_order_def kind_indices_def has_relptr_kinds simp del: has_relptr.simps)

lemma ser_order_distinct: "distinct (ser_order fs)"
  by (auto simp: ser_order_def kind_indices_def dest: kinds_disjoint)

end
