(* ===== verification/FB_FbbRead.thy ===== *)
theory FB_FbbRead
  imports FB_FbbPlace
begin

text \<open>
  Reading serialized messages: the members of the wire structure, the flags and the values behind the \<open>relptr\<close>s are
  what the getters return, for every message that \<open>init\<close> and the setters can build.
\<close>

section \<open>The header\<close>

lemma kind_indices_rank:
  assumes "k < length fs" "P (fs ! k)"
  shows "rank P fs k < length (kind_indices P fs) \<and> kind_indices P fs ! rank P fs k = k"
proof -
  have "[0..<length fs] = [0..<k] @ k # [Suc k..<length fs]"
    using assms(1) by (metis less_imp_add_positive upt_add_eq_append upt_conv_Cons zero_le)
  then have split: "kind_indices P fs = filter (\<lambda>i. P (fs ! i)) [0..<k] @ k # filter (\<lambda>i. P (fs ! i)) [Suc k..<length fs]"
    using assms(2) by (simp add: kind_indices_def)
  have "kind_indices P (take k fs) = filter (\<lambda>i. P (fs ! i)) [0..<k]"
    unfolding kind_indices_def using assms(1) by (intro filter_cong) auto
  then have "length (filter (\<lambda>i. P (fs ! i)) [0..<k]) = rank P fs k"
    using length_kind_indices [of P "take k fs"] by (simp add: rank_def)
  then show ?thesis unfolding split by (simp add: nth_append)
qed

lemma of_kind_nth:
  assumes "length vs = length fs" "k < length fs" "P (fs ! k)"
  shows "rank P fs k < length (of_kind P fs vs)" "of_kind P fs vs ! rank P fs k = (fs ! k, vs ! k)"
  using kind_indices_rank [of k fs P] assms by (simp_all add: of_kind_indices)

lemma length_of_kind: "length vs = length fs \<Longrightarrow> length (of_kind P fs vs) = length (filter P fs)"
  by (simp add: of_kind_indices length_kind_indices)

lemma struct_bytes_nth:
  assumes "list_all2 (\<lambda>m bs. length bs = fst m \<and> 0 < snd m) ms bss" "i < length ms"
  shows "off \<le> struct_offsets off ms ! i \<and> struct_offsets off ms ! i + length (bss ! i) \<le> struct_end off ms
    \<and> peek (struct_offsets off ms ! i - off) (length (bss ! i)) (struct_bytes off (zip ms bss)) = bss ! i"
  using assms
proof (induction ms bss arbitrary: off i rule: list_all2_induct)
  case (Cons m ms b bs)
  obtain n a where m: "m = (n, a)" by (cases m)
  define o' where "o' = align_up off a"
  have ge: "off \<le> o'" unfolding o'_def using Cons.hyps(1) by (intro align_up_ge) (simp add: m)
  have n: "length b = n" using Cons.hyps(1) by (simp add: m)
  have en: "o' + n \<le> struct_end (o' + n) ms" using length_struct_bytes [OF Cons.hyps(2), of "o' + n"] by simp
  show ?case
  proof (cases i)
    case 0
    then show ?thesis using ge n en by (simp add: m peek_def flip: o'_def)
  next
    case (Suc j)
    have j: "j < length ms" using Cons.prems Suc by simp
    note IH = Cons.IH [OF j, of "o' + n"]
    have "struct_offsets (o' + n) ms ! j - off = (o' - off) + n + (struct_offsets (o' + n) ms ! j - (o' + n))"
      using IH ge by linarith
    moreover have "n \<le> struct_offsets (o' + n) ms ! j - o'" using IH by linarith
    ultimately show ?thesis using IH ge n by (simp add: m Suc peek_def flip: o'_def)
  qed
qed simp

text \<open>The memory \<open>m\<close> starts with the wire structure of the values \<open>vs\<close>.\<close>

definition headed :: "nat \<Rightarrow> field list \<Rightarrow> string fval list \<Rightarrow> string \<Rightarrow> bool" where
  "headed tag fs vs m \<longleftrightarrow> take (sizeof_wire fs) m = wire_bytes tag fs vs"

lemma peek_take: "off + n \<le> N \<Longrightarrow> peek off n (take N m) = peek off n m"
  by (simp add: peek_def drop_take min_def)

lemma peek_append: "off + n \<le> length m \<Longrightarrow> peek off n (m @ x) = peek off n m"
  by (simp add: peek_def)

lemma u32_peek: "off + 4 \<le> length m \<Longrightarrow> u32 off m = u32 0 (peek off 4 m)"
  by (simp add: u32_def peek_def add.commute)

lemma u32_of_le32: "n < 2 ^ 32 \<Longrightarrow> u32 0 (le32 n) = n"
  using u32_put [of 0 "replicate 4 NUL" n] by (simp add: put_def)

lemma headed_member:
  assumes ok: "ok_values fs vs" and h: "headed tag fs vs m" and i: "i < length (wire_members fs)"
  shows "peek (member_offset fs i) (length (wire_values tag fs vs ! i)) m = wire_values tag fs vs ! i
    \<and> member_offset fs i + length (wire_values tag fs vs ! i) \<le> length m"
proof -
  let ?o = "member_offset fs i" and ?n = "length (wire_values tag fs vs ! i)"
  let ?s = "struct_bytes 0 (zip (wire_members fs) (wire_values tag fs vs))"
  have s: "?o + ?n \<le> has_offset fs" "peek ?o ?n ?s = wire_values tag fs vs ! i"
    using struct_bytes_nth [OF wire_values_fit [OF ok] i, of 0] by (simp_all add: member_offset_def has_offset_def)
  have sz: "has_offset fs \<le> sizeof_wire fs" using sizeof_wire_ge [of fs] by simp
  have "peek ?o ?n m = peek ?o ?n (wire_bytes tag fs vs)"
    using h s(1) sz unfolding headed_def by (metis peek_take order_trans)
  also have "\<dots> = peek ?o ?n ?s"
    unfolding wire_bytes_def Let_def append_assoc using s(1) length_wire_body [OF ok] by (intro peek_append) simp
  finally show ?thesis using s sz length_wire_bytes [OF ok, of tag] h unfolding headed_def
    by (metis length_take min.cobounded1 order_trans)
qed

lemma headed_u32:
  assumes "ok_values fs vs" "headed tag fs vs m" "i < length (wire_members fs)"
    and "wire_values tag fs vs ! i = le32 n" "n < 2 ^ 32"
  shows "u32 (member_offset fs i) m = n"
  using headed_member [OF assms(1-3)] assms(4, 5) u32_peek [of "member_offset fs i" m] by (simp add: u32_of_le32)

lemma headed_tag:
  assumes "ok_values fs vs" "headed tag fs vs m" "tag < 2 ^ 32"
  shows "get_tag m = tag"
  using headed_u32 [OF assms(1, 2), of 0 tag] assms(3)
  by (simp add: wire_members_def wire_values_def get_tag_def member_offset_def align_up_def)

lemma headed_scalar:
  assumes ok: "ok_values fs vs" and h: "headed tag fs vs m" and k: "k < length fs" "single_scalar (fs ! k)"
  shows "peek (scalar_offset fs k) (scalar_size (fs ! k)) m = scalar_bytes (fs ! k) (vs ! k)"
proof -
  let ?i = "1 + rank single_scalar fs k"
  have len: "length vs = length fs" using ok by (simp add: ok_values_def)
  note n = of_kind_nth [OF len k(1), of single_scalar, OF k(2)]
  have w: "wire_values tag fs vs ! ?i = scalar_bytes (fs ! k) (vs ! k)"
    using n by (simp add: wire_values_def nth_append)
  have i: "?i < length (wire_members fs)" using n(1) length_of_kind [OF len, of single_scalar] by (simp add: wire_members_def)
  have "wire_members fs ! ?i = (scalar_size (fs ! k), scalar_align (fs ! k))"
    using kind_indices_rank [of k fs single_scalar, OF k] by (simp add: wire_members_def filter_kind nth_append)
  then have "length (scalar_bytes (fs ! k) (vs ! k)) = scalar_size (fs ! k)"
    using list_all2_nthD [OF wire_values_fit [OF ok, of tag] i] w by simp
  then show ?thesis using headed_member [OF ok h i] w by (simp add: scalar_offset_def)
qed

lemma headed_len:
  assumes ok: "ok_values fs vs" and h: "headed tag fs vs m" and k: "k < length fs" "single_string (fs ! k)"
    and s: "string_len (vs ! k) < 2 ^ 32"
  shows "u32 (len_offset fs k) m = string_len (vs ! k)"
proof -
  have len: "length vs = length fs" using ok by (simp add: ok_values_def)
  note n = of_kind_nth [OF len k(1), of single_string, OF k(2)]
  show ?thesis unfolding len_offset_def
    using n length_of_kind [OF len] s
    by (intro headed_u32 [OF ok h]) (simp_all add: wire_members_def wire_values_def nth_append)
qed

lemma headed_count:
  assumes ok: "ok_values fs vs" and h: "headed tag fs vs m" and k: "k < length fs" "is_array (fs ! k)"
    and s: "count_of (vs ! k) < 2 ^ 32"
  shows "u32 (count_offset fs k) m = count_of (vs ! k)"
proof -
  have len: "length vs = length fs" using ok by (simp add: ok_values_def)
  note n = of_kind_nth [OF len k(1), of is_array, OF k(2)]
  show ?thesis unfolding count_offset_def
    using n length_of_kind [OF len] s
    by (intro headed_u32 [OF ok h]) (simp_all add: wire_members_def wire_values_def nth_append)
qed

lemma has_bytes_bit:
  assumes "i < length bs"
  shows "bit (of_char (has_bytes bs ! (i div 8)) :: nat) (i mod 8) = bs ! i"
proof -
  have d: "i div 8 < (length bs + 7) div 8" using assms by linarith
  have "i mod 8 < min 8 (length bs - 8 * (i div 8))" using assms mult_div_mod_eq [of 8 i] by linarith
  then have m: "i mod 8 < length (take 8 (drop (8 * (i div 8)) bs))" by simp
  have "take 8 (drop (8 * (i div 8)) bs) ! (i mod 8) = bs ! i" using assms m by simp
  moreover have "(of_char (char_of n) :: nat) = take_bit 8 n" for n :: nat by (simp add: take_bit_eq_mod)
  ultimately show ?thesis
    using d m by (simp add: has_bytes_def has_byte_def bit_take_bit_iff bit_horner_sum_bit_iff)
qed

lemma headed_has:
  assumes ok: "ok_values fs vs" and h: "headed tag fs vs m" and k: "k < length fs" "optional_scalar (fs ! k)"
  shows "has_bit fs k m \<longleftrightarrow> is_set (vs ! k)"
proof -
  let ?bs = "map (\<lambda>(f, v). is_set v) (of_kind optional_scalar fs vs)" and ?i = "rank optional_scalar fs k"
  have len: "length vs = length fs" using ok by (simp add: ok_values_def)
  note n = of_kind_nth [OF len k(1), of optional_scalar, OF k(2)]
  have i: "?i div 8 < length (has_bytes ?bs)" using n(1) by (simp add: has_bytes_def)
  then have "has_offset fs + ?i div 8 < sizeof_wire fs"
    using length_has_bytes [OF ok] sizeof_wire_ge [of fs] by linarith
  then have "m ! (has_offset fs + ?i div 8) = wire_bytes tag fs vs ! (has_offset fs + ?i div 8)"
    using h unfolding headed_def by (metis nth_take)
  also have "\<dots> = has_bytes ?bs ! (?i div 8)"
    using i length_wire_body [OF ok, of tag] by (simp add: wire_bytes_def Let_def nth_append)
  finally show ?thesis
    using has_bytes_bit [of ?i ?bs] n by (simp add: has_bit_def Let_def)
qed

section \<open>The whole message\<close>

lemma length_put_ge: "length m \<le> length (put off bs m)"
  by (simp add: put_def)

lemma length_put_strings_ge: "length m \<le> length (put_strings hops ss m)"
proof (induction ss arbitrary: hops m)
  case (Cons s ss)
  let ?q = "put (hops + 4) (le32 (length s)) (put hops (le32 (length m)) m)"
  have "length m \<le> length ?q" by (meson length_put_ge order_trans)
  also have "\<dots> \<le> length (PAD (?q @ s @ [NUL]))" using length_PAD_ge [of "?q @ s @ [NUL]"] by simp
  also have "\<dots> \<le> length (put_strings (hops + 8) ss (PAD (?q @ s @ [NUL])))" by (rule Cons.IH)
  finally show ?case by simp
qed simp

lemma length_put_fbbs_ge: "length m \<le> length (put_fbbs hops bs m)"
proof (induction bs arbitrary: hops m)
  case (Cons b bs)
  have "length m \<le> length (put hops (le32 (length m)) m @ b)" using length_put_ge [of m hops] by (simp add: trans_le_add1)
  also have "\<dots> \<le> length (put_fbbs (hops + 4) bs (put hops (le32 (length m)) m @ b))" by (rule Cons.IH)
  finally show ?case by simp
qed simp

lemma length_new_ge: "length m \<le> length (put r n m @ x)" "length m \<le> length (PAD (put r n m @ x))"
proof -
  show "length m \<le> length (put r n m @ x)" using length_put_ge [of m r n] by simp
  also have "\<dots> \<le> length (PAD (put r n m @ x))" by (rule length_PAD_ge)
  finally show "length m \<le> length (PAD (put r n m @ x))" .
qed

lemma length_ser_ge:
  "length m \<le> length (ser_scalar_array (r, v) m)" "length m \<le> length (ser_string (r, v) m)"
  "length m \<le> length (ser_fbb (r, v) m)" "length m \<le> length (ser_string_array (r, v) m)"
  "length m \<le> length (ser_fbb_array (r, v) m)"
proof -
  note g = length_new_ge length_put_ge order_trans [OF length_new_ge(2) length_put_strings_ge]
    order_trans [OF length_new_ge(2) length_put_fbbs_ge]
  show "length m \<le> length (ser_scalar_array (r, v) m)"
    by (cases "((r, v), m)" rule: ser_scalar_array.cases) (simp_all add: g del: length_append)
  show "length m \<le> length (ser_string (r, v) m)"
    by (cases "((r, v), m)" rule: ser_string.cases) (simp_all add: g del: length_append)
  show "length m \<le> length (ser_fbb (r, v) m)"
    by (cases "((r, v), m)" rule: ser_fbb.cases) (simp_all add: g del: length_append)
  show "length m \<le> length (ser_string_array (r, v) m)"
    by (cases "((r, v), m)" rule: ser_string_array.cases) (simp_all add: g del: length_append)
  show "length m \<le> length (ser_fbb_array (r, v) m)"
    by (cases "((r, v), m)" rule: ser_fbb_array.cases) (simp_all add: g del: length_append)
qed

lemma length_ser_any: "length m \<le> length (ser_any f (r, v) m)"
  by (simp add: ser_any_def length_ser_ge)

lemma length_fold_ge: "(\<And>k m. length m \<le> length (S k m)) \<Longrightarrow> length m \<le> length (fold S ks m)" for S :: "nat \<Rightarrow> string \<Rightarrow> string"
  by (induction ks arbitrary: m) (auto intro: order_trans)

lemma serialize_msg_at:
  assumes ok: "ok_values fs vs" and small: "length (serialize_msg tag fs vs) < 2 ^ 32"
    and lo: "lo = sizeof_wire fs + sizeof_relptrs fs" "0 < lo" and m: "m = serialize_msg tag fs vs @ rest"
  shows "headed tag fs vs m \<and> lo \<le> length m \<and>
    (\<forall>k<length fs. has_relptr (fs ! k) \<longrightarrow> value_at lo (relptr_offset fs k) (vs ! k) m)"
proof -
  define S where "S = (\<lambda>k. ser_any (fs ! k) (relptr_offset fs k, vs ! k))"
  define m0 where "m0 = PAD (wire_bytes tag fs vs @ replicate (sizeof_relptrs fs) NUL)"
  define m1 where "m1 = fold S (ser_order fs) m0"
  have fin: "m = PAD m1 @ rest" by (simp add: m serialize_msg_fold S_def m0_def m1_def)
  have l0: "lo \<le> length m0"
    using length_PAD_ge [of "wire_bytes tag fs vs @ replicate (sizeof_relptrs fs) NUL"] ok by (simp add: m0_def lo)
  have h0: "headed tag fs vs m0" using ok by (simp add: headed_def m0_def PAD_def)
  have l1: "length m1 < 2 ^ 32"
    using small length_PAD_ge [of m1] unfolding serialize_msg_fold m0_def m1_def S_def by linarith
  have pre: "length (fold S xs m0) < 2 ^ 32" if "ser_order fs = xs @ ys" for xs ys
    using length_fold_ge [of S "fold S xs m0" ys] l1 length_ser_any that by (simp add: m1_def S_def)
  let ?A = "\<Union>k\<in>set (ser_order fs). slot fs k"
  have F: "stays ?A m0 m1 \<and> (\<forall>k\<in>set (ser_order fs). value_at lo (relptr_offset fs k) (vs ! k) m1)"
    unfolding m1_def using pre l0 by (intro fills_fold [OF ok lo S_def ser_order_distinct]) (auto simp: ser_order_set)
  then have k: "stays ?A m0 m1" by blast
  have e: "stays {} m1 m" unfolding fin by (intro stays_append stays_PAD) simp
  have k': "stays ?A m0 m" using stays_trans [OF k e] by simp
  have len: "lo \<le> length m1" "lo \<le> length m" using l0 k k' by (auto simp: stays_def)
  have "i \<notin> ?A" if "i < sizeof_wire fs" for i using that by (auto simp: relptr_offset_def)
  then have "m ! i = m0 ! i" if "i < sizeof_wire fs" for i
    using k' l0 lo that unfolding stays_def by (metis le_add1 order_less_le_trans)
  then have "take (sizeof_wire fs) m = take (sizeof_wire fs) m0"
    using len(2) l0 lo by (intro nth_equalityI) auto
  moreover have "value_at lo (relptr_offset fs k) (vs ! k) m" if "k < length fs" "has_relptr (fs ! k)" for k
    using F that relptr_offset_less [OF that] len(1) lo(1) by (intro value_at_stays [OF _ e]) (auto simp: ser_order_set)
  ultimately show ?thesis using h0 len(2) by (simp add: headed_def)
qed

section \<open>Reading what was written\<close>

text \<open>
  The getters of the field \<open>k\<close> return the value \<open>v\<close>.  A nested message is given by the property that its bytes are to have.
\<close>

fun reads_field :: "messages \<Rightarrow> nat \<Rightarrow> nat \<Rightarrow> (string \<Rightarrow> bool) fval \<Rightarrow> string \<Rightarrow> bool" where
  "reads_field ms tag k (FScalar x) mem \<longleftrightarrow>
     (let f = fields_of ms tag ! k in
      (optional_scalar f \<longrightarrow>
        serialized_has ms tag k mem = Some (x \<noteq> None) \<and>
        (\<forall>d. serialized_get_with_fallback ms tag k d mem = (case x of None \<Rightarrow> d | Some bs \<Rightarrow> bs))) \<and>
      (\<forall>bs\<in>set_option x. serialized_get_scalar ms tag k mem = Some bs))"
| "reads_field ms tag k (FString x) mem \<longleftrightarrow>
     serialized_has ms tag k mem = Some (x \<noteq> None) \<and>
     (case x of
        None \<Rightarrow> serialized_get ms tag k mem = Some None
      | Some s \<Rightarrow> serialized_get_as_string ms tag k mem = Some s \<and> serialized_get_len ms tag k mem = Some (length s) \<and>
          (\<exists>p. serialized_get ms tag k mem = Some (Some p) \<and> prefix (s @ [NUL]) p))"
| "reads_field ms tag k (FFbb x) mem \<longleftrightarrow>
     serialized_has ms tag k mem = Some (x \<noteq> None) \<and>
     (case x of
        None \<Rightarrow> serialized_get ms tag k mem = Some None
      | Some R \<Rightarrow> \<exists>p. serialized_get ms tag k mem = Some (Some p) \<and> R p)"
| "reads_field ms tag k (FScalars xs) mem \<longleftrightarrow>
     serialized_get_count ms tag k mem = Some (length xs) \<and>
     (\<forall>i. serialized_get_scalar_at ms tag k i mem = (if i < length xs then Some (xs ! i) else None))"
| "reads_field ms tag k (FStrings ss) mem \<longleftrightarrow>
     serialized_get_as_vector ms tag k mem = Some (map Some ss) \<and>
     (\<forall>i<length ss. \<exists>p. serialized_get_at ms tag k i mem = Some p \<and> prefix (ss ! i @ [NUL]) p)"
| "reads_field ms tag k (FFbbs Rs) mem \<longleftrightarrow>
     serialized_get_count ms tag k mem = Some (length Rs) \<and>
     (\<forall>i<length Rs. \<exists>p. serialized_get_at ms tag k i mem = Some p \<and> (Rs ! i) p)"

primrec reads :: "messages \<Rightarrow> builder \<Rightarrow> string \<Rightarrow> bool" where
  "reads ms (Builder tag vs) mem \<longleftrightarrow>
     get_tag mem = tag \<and> (\<forall>k<length vs. reads_field ms tag k (map (map_fval (reads ms)) vs ! k) mem)"

lemma blob_at_drop:
  assumes "blob_at lo r (Some bs) m"
  obtains rest where "u32 r m \<noteq> 0" "drop (u32 r m) m = bs @ rest"
proof
  have b: "u32 r m \<noteq> 0" "take (length bs) (drop (u32 r m) m) = bs" using assms by (simp_all add: blob_at_def peek_def)
  show "u32 r m \<noteq> 0" by (rule b)
  show "drop (u32 r m) m = bs @ drop (length bs) (drop (u32 r m) m)"
    using append_take_drop_id [of "length bs" "drop (u32 r m) m"] unfolding b(2) by simp
qed

lemma concat_nth:
  "\<forall>x\<in>set xs. length x = n \<Longrightarrow> i < length xs \<Longrightarrow> take n (drop (i * n) (concat xs)) = xs ! i"
proof (induction xs arbitrary: i)
  case (Cons x xs)
  then show ?case by (cases i) simp_all
qed simp

lemma count_le_concat: "\<forall>x\<in>set xs. length x = n \<Longrightarrow> 0 < n \<Longrightarrow> length xs \<le> length (concat xs)"
  unfolding concat_same_length by simp

lemma value_at_sizes:
  assumes "value_at lo r v m" "ok_value f v" "has_relptr f"
  shows "string_len v \<le> length m" "count_of v \<le> length m" "\<forall>b\<in>set_fval v. length b \<le> length m"
proof -
  show "string_len v \<le> length m"
    using assms(1) by (cases v rule: string_len.cases) (auto simp: blob_at_def)
  show "\<forall>b\<in>set_fval v. length b \<le> length m"
    using assms(1) by (cases v) (fastforce simp: blob_at_def in_set_conv_nth split: option.splits if_splits)+
  show "count_of v \<le> length m"
  proof (cases v)
    case (FScalars xs)
    then obtain n where "\<forall>x\<in>set xs. length x = n" "0 < n"
      using assms(2) by (cases "(f, v)" rule: ok_value.cases) auto
    then have "length xs \<le> length (concat xs)" by (rule count_le_concat)
    then show ?thesis using assms(1) FScalars by (auto simp: blob_at_def split: if_splits)
  qed (use assms(1) in \<open>auto split: if_splits\<close>)
qed

text \<open>The field \<open>k\<close> of the memory \<open>m\<close> holds the value \<open>v\<close>.\<close>

definition holds_field :: "nat \<Rightarrow> field list \<Rightarrow> nat \<Rightarrow> string fval \<Rightarrow> string \<Rightarrow> bool" where
  "holds_field tag fs k v m \<longleftrightarrow>
     k < length fs \<and> ok_value (fs ! k) v \<and> get_tag m = tag \<and>
     (single_scalar (fs ! k) \<longrightarrow> peek (scalar_offset fs k) (scalar_size (fs ! k)) m = scalar_bytes (fs ! k) v) \<and>
     (optional_scalar (fs ! k) \<longrightarrow> has_bit fs k m = is_set v) \<and>
     (single_string (fs ! k) \<longrightarrow> u32 (len_offset fs k) m = string_len v) \<and>
     (is_array (fs ! k) \<longrightarrow> u32 (count_offset fs k) m = count_of v) \<and>
     (has_relptr (fs ! k) \<longrightarrow> (\<exists>lo. value_at lo (relptr_offset fs k) v m))"

lemma wire_nonempty: "ok_values fs vs \<Longrightarrow> 0 < sizeof_wire fs + sizeof_relptrs fs" for vs :: "string fval list"
proof -
  assume ok: "ok_values fs vs"
  have "4 \<le> has_offset fs"
    using struct_bytes_nth [OF wire_values_fit [OF ok, of 0], of 0 0] 
    by (simp add: wire_members_def wire_values_def align_up_def has_offset_def)
  then show ?thesis using sizeof_wire_ge [of fs] by simp
qed

lemmas serialize_msg_placed = serialize_msg_at [OF _ _ refl wire_nonempty refl]

lemma serialize_msg_holds:
  assumes ok: "ok_values fs vs" and small: "length (serialize_msg tag fs vs) < 2 ^ 32" and tag: "tag < 2 ^ 32"
    and k: "k < length fs"
  shows "holds_field tag fs k (vs ! k) (serialize_msg tag fs vs @ rest)"
    and "\<forall>b\<in>set_fval (vs ! k). length b < 2 ^ 32"
proof -
  have okv: "ok_value (fs ! k) (vs ! k)" using ok k by (simp add: ok_values_def)
  note at = serialize_msg_placed [OF ok small ok]
  have sz: "string_len (vs ! k) < 2 ^ 32 \<and> count_of (vs ! k) < 2 ^ 32 \<and> (\<forall>b\<in>set_fval (vs ! k). length b < 2 ^ 32)"
  proof (cases "has_relptr (fs ! k)")
    case True
    then have "value_at (sizeof_wire fs + sizeof_relptrs fs) (relptr_offset fs k) (vs ! k) (serialize_msg tag fs vs)" using at [of "[]"] k by simp
    from value_at_sizes [OF this okv True] show ?thesis using small by fastforce
  next
    case False
    then show ?thesis using okv by (cases "(fs ! k, vs ! k)" rule: ok_value.cases) auto
  qed
  then show "\<forall>b\<in>set_fval (vs ! k). length b < 2 ^ 32" by blast
  have h: "headed tag fs vs (serialize_msg tag fs vs @ rest)" using at [of rest] by blast
  show "holds_field tag fs k (vs ! k) (serialize_msg tag fs vs @ rest)"
    unfolding holds_field_def
    using k okv headed_tag [OF ok h tag] headed_scalar [OF ok h k] headed_has [OF ok h k] headed_len [OF ok h k]
      headed_count [OF ok h k] sz at [of rest] by blast
qed

lemma holds_reads_single:
  assumes fs: "fs = fields_of ms tag" and h: "holds_field tag fs k (map_fval ser v) m"
    and R: "\<And>b rest. b \<in> set_fval v \<Longrightarrow> R b (ser b @ rest)" and k: "\<not> is_array (fs ! k)"
  shows "reads_field ms tag k (map_fval R v) m"
proof -
  note simps = serialized_has_def serialized_get_with_fallback_def serialized_get_scalar_def serialized_get_def
    serialized_get_as_string_def serialized_get_len_def checked_def relptr_def Let_def
  obtain q t x where f: "fs ! k = (q, t, x)" by (cases "fs ! k")
  show ?thesis
  proof (cases v)
    case (FScalar y)
    then obtain n a where t: "t = SCALAR n a" using h f by (cases t) (auto simp: holds_field_def)
    show ?thesis using h f t k FScalar
      by (cases y; cases q) (auto simp: holds_field_def simps simp flip: fs)
  next
    case (FString y)
    then have t: "t = STRING" using h f by (cases t) (auto simp: holds_field_def)
    show ?thesis
    proof (cases y)
      case None
      then show ?thesis using h f t k FString by (cases q) (auto simp: holds_field_def simps blob_at_def simp flip: fs)
    next
      case (Some s)
      then obtain lo where "blob_at lo (relptr_offset fs k) (Some (s @ [NUL])) m"
        using h f t FString by (auto simp: holds_field_def)
      then obtain rest where "u32 (relptr_offset fs k) m \<noteq> 0" "drop (u32 (relptr_offset fs k) m) m = (s @ [NUL]) @ rest"
        by (rule blob_at_drop)
      then show ?thesis using h f t k FString Some by (simp add: holds_field_def simps flip: fs)
    qed
  next
    case (FFbb y)
    then have t: "t = FBB" using h f by (cases t) (auto simp: holds_field_def)
    show ?thesis
    proof (cases y)
      case None
      then show ?thesis using h f t k FFbb by (cases q) (auto simp: holds_field_def simps blob_at_def simp flip: fs)
    next
      case (Some b)
      then obtain lo where "blob_at lo (relptr_offset fs k) (Some (ser b)) m"
        using h f t FFbb by (auto simp: holds_field_def)
      then obtain rest where "u32 (relptr_offset fs k) m \<noteq> 0" "drop (u32 (relptr_offset fs k) m) m = ser b @ rest"
        by (rule blob_at_drop)
      then show ?thesis using h f t k FFbb Some R [of b rest] by (simp add: holds_field_def simps flip: fs)
    qed
  qed (use h f k in \<open>auto simp: holds_field_def elim: ok_value.elims\<close>)
qed

lemma holds_reads_array:
  assumes fs: "fs = fields_of ms tag" and h: "holds_field tag fs k (map_fval ser v) m"
    and R: "\<And>b rest. b \<in> set_fval v \<Longrightarrow> R b (ser b @ rest)" and k: "is_array (fs ! k)"
  shows "reads_field ms tag k (map_fval R v) m"
proof -
  note simps = serialized_get_count_def serialized_get_scalar_at_def serialized_get_at_def serialized_get_len_at_def
    index_ok_def checked_def relptr_def Let_def
  obtain t x where f: "fs ! k = (ARRAY, t, x)" using k by (cases "fs ! k") auto
  define r where "r = u32 (relptr_offset fs k) m"
  have tag: "get_tag m = tag" and count: "u32 (count_offset fs k) m = count_of (map_fval ser v)"
    using h f by (auto simp: holds_field_def)
  obtain lo where at: "value_at lo (relptr_offset fs k) (map_fval ser v) m"
    using h f by (auto simp: holds_field_def)
  show ?thesis
  proof (cases v)
    case (FScalars xs)
    then obtain n a where t: "t = SCALAR n a" and n: "\<forall>x\<in>set xs. length x = n"
      using h f by (cases t) (auto simp: holds_field_def)
    have "peek (r + i * n) n m = xs ! i" if i: "i < length xs" for i
    proof -
      have b: "blob_at lo (relptr_offset fs k) (Some (concat xs)) m" using at FScalars i by (auto split: if_splits)
      have "(i + 1) * n \<le> length xs * n" using i by (intro mult_right_mono) auto
      then have "i * n + n \<le> length (concat xs)" using concat_same_length [OF n] by simp
      moreover obtain rest where "drop r m = concat xs @ rest" using b unfolding r_def by (rule blob_at_drop)
      ultimately show ?thesis using concat_nth [OF n i]
        by (simp add: peek_def add.commute [of r] flip: drop_drop)
    qed
    then show ?thesis using tag count f t FScalars by (simp add: simps flip: fs r_def)
  next
    case (FStrings ss)
    then have t: "t = STRING" using h f by (cases t) (auto simp: holds_field_def)
    have at': "\<exists>rest. drop (u32 (r + 8 * i) m) m = (ss ! i @ [NUL]) @ rest" "u32 (r + 8 * i + 4) m = length (ss ! i)"
      if i: "i < length ss" for i
    proof -
      have "blob_at lo (r + 8 * i) (Some (ss ! i @ [NUL])) m \<and> u32 (r + 8 * i + 4) m = length (ss ! i)"
        using at FStrings i by (auto simp: r_def split: if_splits)
      then show "\<exists>rest. drop (u32 (r + 8 * i) m) m = (ss ! i @ [NUL]) @ rest" "u32 (r + 8 * i + 4) m = length (ss ! i)"
        by (auto elim: blob_at_drop)
    qed
    have get: "serialized_get_at ms tag k i m = Some (drop (u32 (r + 8 * i) m) m)"
      and len: "serialized_get_len_at ms tag k i m = Some (length (ss ! i))" if i: "i < length ss" for i
      using tag count f t FStrings i at'(2) [OF i] by (simp_all add: simps algebra_simps flip: fs r_def)
    have n: "serialized_get_count ms tag k m = Some (length ss)"
      using tag count FStrings by (simp add: simps flip: fs)
    have each: "\<exists>p. serialized_get_at ms tag k i m = Some p \<and> prefix (ss ! i @ [NUL]) p" if i: "i < length ss" for i
      using at'(1) [OF i] get [OF i] by (auto simp: prefix_def)
    have "(case (serialized_get_at ms tag k i m, serialized_get_len_at ms tag k i m) of
        (Some p, Some len) \<Rightarrow> Some (take len p) | _ \<Rightarrow> None) = Some (ss ! i)" if i: "i < length ss" for i
      using at'(1) [OF i] get [OF i] len [OF i] by auto
    then have "serialized_get_as_vector ms tag k m = Some (map (\<lambda>i. Some (ss ! i)) [0..<length ss])"
      unfolding serialized_get_as_vector_def n option.case by (intro arg_cong [where f = Some] map_cong refl) simp
    moreover have "map (\<lambda>i. Some (ss ! i)) [0..<length ss] = map Some ss"
      by (intro nth_equalityI) simp_all
    ultimately show ?thesis using each FStrings by simp
  next
    case (FFbbs bs)
    then have t: "t = FBB" using h f by (cases t) (auto simp: holds_field_def)
    have "\<exists>p. drop (u32 (r + 4 * i) m) m = p \<and> R (bs ! i) p" if i: "i < length bs" for i
    proof -
      have "blob_at lo (r + 4 * i) (Some (ser (bs ! i))) m"
        using at FFbbs i by (auto simp: r_def split: if_splits)
      then obtain rest where "drop (u32 (r + 4 * i) m) m = ser (bs ! i) @ rest" by (rule blob_at_drop)
      then show ?thesis using R [of "bs ! i" rest] FFbbs i by simp
    qed
    then show ?thesis using tag count f t FFbbs by (simp add: simps flip: fs r_def)
  qed (use h f in \<open>auto simp: holds_field_def elim: ok_value.elims\<close>)
qed

lemma builder_serialize_reads:
  "ok_builder ms b \<Longrightarrow> length (builder_serialize ms b) < 2 ^ 32 \<Longrightarrow> reads ms b (builder_serialize ms b @ rest)"
proof (induction b arbitrary: rest)
  case (Builder tag vs)
  let ?fs = "fields_of ms tag" and ?vs = "map (map_fval (builder_serialize ms)) vs"
  let ?m = "builder_serialize ms (Builder tag vs) @ rest"
  have ok: "ok_values ?fs ?vs" and tag: "tag < 2 ^ 32" using Builder.prems(1) by simp_all
  then have len: "length vs = length ?fs" by (simp add: ok_values_def)
  have small: "length (serialize_msg tag ?fs ?vs) < 2 ^ 32" using Builder.prems(2) by simp
  have sub: "ok_builder ms b" if "v \<in> set vs" "b \<in> set_fval v" for v b
    using Builder.prems(1) that by (auto simp: list_all_iff fval.pred_set fval.set_map)
  have "reads_field ms tag k (map_fval (reads ms) (vs ! k)) ?m" if k: "k < length ?fs" for k
  proof -
    note H = serialize_msg_holds [OF ok small tag k]
    have h: "holds_field tag ?fs k (map_fval (builder_serialize ms) (vs ! k)) ?m"
      using H(1) [of rest] k len by simp
    have R: "reads ms b (builder_serialize ms b @ rest')" if b: "b \<in> set_fval (vs ! k)" for b rest'
      using Builder.IH [OF _ b sub [OF _ b]] H(2) k len b by (simp add: fval.set_map)
    show ?thesis
    proof (cases "is_array (?fs ! k)")
      case True
      then show ?thesis using R by (intro holds_reads_array [OF refl h])
    next
      case False
      then show ?thesis using R by (intro holds_reads_single [OF refl h])
    qed
  qed
  moreover have "get_tag ?m = tag"
    using headed_tag [OF ok _ tag, of ?m] serialize_msg_placed [OF ok small ok, of rest] by simp
  ultimately show ?case using len by simp
qed

section \<open>Builders that are built with the setters\<close>

fun typed_value :: "field \<Rightarrow> 'b fval \<Rightarrow> bool" where
  "typed_value (q, SCALAR n a, v) (FScalar x) \<longleftrightarrow> q \<noteq> ARRAY \<and> (\<forall>bs\<in>set_option x. length bs = n)"
| "typed_value (q, SCALAR n a, v) (FScalars xs) \<longleftrightarrow> q = ARRAY \<and> (\<forall>bs\<in>set xs. length bs = n)"
| "typed_value (q, STRING, v) (FString x) \<longleftrightarrow> q \<noteq> ARRAY"
| "typed_value (q, STRING, v) (FStrings ss) \<longleftrightarrow> q = ARRAY"
| "typed_value (q, FBB, v) (FFbb x) \<longleftrightarrow> q \<noteq> ARRAY"
| "typed_value (q, FBB, v) (FFbbs bs) \<longleftrightarrow> q = ARRAY"
| "typed_value _ _ \<longleftrightarrow> False"

definition typed_values :: "field list \<Rightarrow> 'b fval list \<Rightarrow> bool" where
  "typed_values fs vs \<longleftrightarrow> length vs = length fs \<and> (\<forall>k<length fs. typed_value (fs ! k) (vs ! k))"

primrec typed_builder :: "messages \<Rightarrow> builder \<Rightarrow> bool" where
  "typed_builder ms (Builder tag vs) \<longleftrightarrow>
     0 < tag \<and> tag \<le> length ms \<and> typed_values (fields_of ms tag) vs \<and>
     list_all (pred_fval (\<lambda>b. b)) (map (map_fval (typed_builder ms)) vs)"

text \<open>The strings and messages that are required have been set, here and in the nested messages.\<close>

primrec complete :: "messages \<Rightarrow> builder \<Rightarrow> bool" where
  "complete ms (Builder tag vs) \<longleftrightarrow>
     (\<forall>k<length vs. fst (fields_of ms tag ! k) = REQUIRED \<longrightarrow> \<not> single_scalar (fields_of ms tag ! k) \<longrightarrow>
        value_given (map (map_fval (\<lambda>_. ())) vs ! k)) \<and>
     list_all (pred_fval (\<lambda>b. b)) (map (map_fval (complete ms)) vs)"

fun sized_field :: "field \<Rightarrow> bool" where
  "sized_field (q, SCALAR n a, v) \<longleftrightarrow> 0 < n \<and> 0 < a"
| "sized_field _ \<longleftrightarrow> True"

definition wf_messages :: "messages \<Rightarrow> bool" where
  "wf_messages ms \<longleftrightarrow> length ms < 2 ^ 32 \<and> (\<forall>m\<in>set ms. \<forall>f\<in>set (snd m). sized_field f)"

text \<open>What \<open>init\<close> and the setters produce, each on a field of its kind.\<close>

inductive built :: "messages \<Rightarrow> builder \<Rightarrow> bool" for ms where
  init: "0 < tag \<Longrightarrow> tag \<le> length ms \<Longrightarrow> built ms (builder_init ms tag)"
| scalar: "built ms b \<Longrightarrow> single_scalar (fields_of ms tag ! k) \<Longrightarrow> length value = scalar_size (fields_of ms tag ! k) \<Longrightarrow>
    builder_set_scalar tag k value b = Some b' \<Longrightarrow> built ms b'"
| scalar_array: "built ms b \<Longrightarrow> scalar_array (fields_of ms tag ! k) \<Longrightarrow>
    \<forall>x\<in>set values. length x = scalar_size (fields_of ms tag ! k) \<Longrightarrow>
    builder_set_scalar_array tag k values count b = Some b' \<Longrightarrow> built ms b'"
| scalar_vector: "built ms b \<Longrightarrow> scalar_array (fields_of ms tag ! k) \<Longrightarrow>
    \<forall>x\<in>set values. length x = scalar_size (fields_of ms tag ! k) \<Longrightarrow>
    builder_set_scalar_vector tag k values b = Some b' \<Longrightarrow> built ms b'"
| str: "built ms b \<Longrightarrow> single_string (fields_of ms tag ! k) \<Longrightarrow> builder_set_string tag k s b = Some b' \<Longrightarrow> built ms b'"
| string_with_length: "built ms b \<Longrightarrow> single_string (fields_of ms tag ! k) \<Longrightarrow>
    builder_set_string_with_length tag k s len b = Some b' \<Longrightarrow> built ms b'"
| cxx_string: "built ms b \<Longrightarrow> single_string (fields_of ms tag ! k) \<Longrightarrow> builder_set_cxx_string tag k x b = Some b' \<Longrightarrow> built ms b'"
| fbb: "built ms b \<Longrightarrow> single_fbb (fields_of ms tag ! k) \<Longrightarrow> (\<And>c. v = Some c \<Longrightarrow> built ms c) \<Longrightarrow>
    builder_set_fbb tag k v b = Some b' \<Longrightarrow> built ms b'"
| strings: "built ms b \<Longrightarrow> string_array (fields_of ms tag ! k) \<Longrightarrow> builder_set_strings tag k ss b = Some b' \<Longrightarrow> built ms b'"
| strings_with_count: "built ms b \<Longrightarrow> string_array (fields_of ms tag ! k) \<Longrightarrow>
    builder_set_strings_with_count tag k xs count b = Some b' \<Longrightarrow> built ms b'"
| cstring_views: "built ms b \<Longrightarrow> string_array (fields_of ms tag ! k) \<Longrightarrow>
    builder_set_cstring_views tag k views count b = Some b' \<Longrightarrow> built ms b'"
| cstring_view_vector: "built ms b \<Longrightarrow> string_array (fields_of ms tag ! k) \<Longrightarrow>
    builder_set_cstring_view_vector tag k views b = Some b' \<Longrightarrow> built ms b'"
| string_vector: "built ms b \<Longrightarrow> string_array (fields_of ms tag ! k) \<Longrightarrow>
    builder_set_string_vector tag k xs b = Some b' \<Longrightarrow> built ms b'"
| cxx_strings: "built ms b \<Longrightarrow> string_array (fields_of ms tag ! k) \<Longrightarrow>
    builder_set_cxx_strings tag k xs b = Some b' \<Longrightarrow> built ms b'"
| strings_item_fn: "built ms b \<Longrightarrow> string_array (fields_of ms tag ! k) \<Longrightarrow>
    builder_set_strings_item_fn tag k count item_fn b = Some b' \<Longrightarrow> built ms b'"
| fbbs: "built ms b \<Longrightarrow> fbb_array (fields_of ms tag ! k) \<Longrightarrow> (\<And>c. Some c \<in> set cs \<Longrightarrow> built ms c) \<Longrightarrow>
    builder_set_fbbs tag k cs b = Some b' \<Longrightarrow> built ms b'"
| fbbs_with_count: "built ms b \<Longrightarrow> fbb_array (fields_of ms tag ! k) \<Longrightarrow> (\<And>c. c \<in> set bs \<Longrightarrow> built ms c) \<Longrightarrow>
    builder_set_fbbs_with_count tag k bs count b = Some b' \<Longrightarrow> built ms b'"
| fbb_vector: "built ms b \<Longrightarrow> fbb_array (fields_of ms tag ! k) \<Longrightarrow> (\<And>c. c \<in> set bs \<Longrightarrow> built ms c) \<Longrightarrow>
    builder_set_fbb_vector tag k bs b = Some b' \<Longrightarrow> built ms b'"
| fbbs_item_fn: "built ms b \<Longrightarrow> fbb_array (fields_of ms tag ! k) \<Longrightarrow> (\<And>i. i < count \<Longrightarrow> built ms (fbb_fn i)) \<Longrightarrow>
    builder_set_fbbs_item_fn tag k count fbb_fn b = Some b' \<Longrightarrow> built ms b'"

lemma set_field_typed:
  assumes "typed_builder ms b" "typed_value (fields_of ms tag ! k) v" "\<And>c. c \<in> set_fval v \<Longrightarrow> typed_builder ms c"
    and "set_field tag k v b = Some b'"
  shows "typed_builder ms b'"
proof -
  obtain vs where b: "b = Builder tag vs" and b': "b' = Builder tag (vs[k := v])"
    using assms(4) by (cases b) (auto split: if_splits)
  have "set_fval x \<subseteq> Collect (typed_builder ms)" if "x \<in> set (vs[k := v])" for x
    using assms(1, 3) that set_update_subset_insert [of vs k v]
    by (fastforce simp: b list_all_iff fval.pred_set fval.set_map)
  moreover have "typed_value (fields_of ms tag ! j) (vs[k := v] ! j)" if "j < length (fields_of ms tag)" for j
    using assms(1, 2) that by (cases "j = k") (simp_all add: b typed_values_def)
  ultimately show ?thesis using assms(1)
    by (auto simp: b b' typed_values_def list_all_iff fval.pred_set fval.set_map)
qed

lemma typed_kinds:
  "single_scalar f \<Longrightarrow> length bs = scalar_size f \<Longrightarrow> typed_value f (FScalar (Some bs))"
  "scalar_array f \<Longrightarrow> \<forall>x\<in>set xs. length x = scalar_size f \<Longrightarrow> typed_value f (FScalars xs)"
  "single_string f \<Longrightarrow> typed_value f (FString s)"
  "single_fbb f \<Longrightarrow> typed_value f (FFbb c)"
  "string_array f \<Longrightarrow> typed_value f (FStrings ss)"
  "fbb_array f \<Longrightarrow> typed_value f (FFbbs cs)"
  by (cases f; cases "fst (snd f)"; auto)+

lemma typed_initial: "typed_value f (initial_value f)"
  by (cases f rule: initial_value.cases) auto

lemma set_fval_initial: "set_fval (initial_value f) = {}"
  by (cases f rule: initial_value.cases) auto

lemmas builder_setters = builder_set_scalar_def builder_set_scalar_array_def builder_set_scalar_vector_def
  builder_set_string_def builder_set_string_with_length_def builder_set_cxx_string_def builder_set_fbb_def
  builder_set_strings_def builder_set_strings_with_count_def builder_set_cstring_views_def
  builder_set_cstring_view_vector_def builder_set_string_vector_def builder_set_cxx_strings_def
  builder_set_strings_item_fn_def builder_set_fbbs_def builder_set_fbbs_with_count_def builder_set_fbb_vector_def
  builder_set_fbbs_item_fn_def

lemma built_typed: "built ms b \<Longrightarrow> typed_builder ms b"
proof (induction rule: built.induct)
  case (init tag)
  then show ?case
    by (auto simp: builder_init_def typed_values_def typed_initial list_all_iff fval.pred_set fval.set_map set_fval_initial)
next
  case (fbbs b tag k cs b')
  have "typed_builder ms c" if "c \<in> set (take (count_items cs) (map the (takeWhile (\<lambda>x. x \<noteq> None) cs)))" for c
  proof -
    have "c \<in> the ` set (takeWhile (\<lambda>x. x \<noteq> None) cs)" using in_set_takeD [OF that] by simp
    then obtain x where "x \<in> set (takeWhile (\<lambda>x. x \<noteq> None) cs)" "c = the x" by blast
    then show ?thesis using fbbs.IH(2) by (auto dest: set_takeWhileD)
  qed
  then show ?case
    by (intro set_field_typed [OF fbbs.IH(1) typed_kinds(6) _ fbbs.hyps(4) [unfolded builder_setters]] fbbs.hyps(2)) simp
next
  case (fbbs_with_count b tag k bs count b')
  show ?case
    by (rule set_field_typed [OF fbbs_with_count.IH(1) typed_kinds(6) _ fbbs_with_count.hyps(4) [unfolded builder_setters]])
      (auto intro: fbbs_with_count.hyps(2) fbbs_with_count.IH(2) dest: in_set_takeD)
qed (auto simp: builder_setters simp del: set_field.simps single_scalar.simps scalar_array.simps single_string.simps
    single_fbb.simps string_array.simps fbb_array.simps typed_value.simps
    elim!: set_field_typed [rotated 3] intro: typed_kinds dest: in_set_takeD split: if_splits)

lemma typed_ok_value:
  "typed_value f v \<Longrightarrow> sized_field f \<Longrightarrow> (fst f = REQUIRED \<longrightarrow> \<not> single_scalar f \<longrightarrow> value_given v) \<Longrightarrow> ok_value f v"
  by (cases "(f, v)" rule: typed_value.cases) auto

lemma value_given_map [simp]: "value_given (map_fval g v) = value_given v"
  by (cases v) auto

lemma typed_ok:
  assumes wf: "wf_messages ms"
  shows "typed_builder ms b \<Longrightarrow> complete ms b \<Longrightarrow> ok_builder ms b"
proof (induction b)
  case (Builder tag vs)
  let ?fs = "fields_of ms tag"
  have tag: "0 < tag" "tag \<le> length ms" and ty: "typed_values ?fs vs" using Builder.prems(1) by simp_all
  have "ms ! (tag - 1) \<in> set ms" using tag by simp
  then have sz: "sized_field (?fs ! k)" if "k < length ?fs" for k
    using wf that by (auto simp: wf_messages_def fields_of_def)
  have len: "length vs = length ?fs" using ty by (simp add: typed_values_def)
  have "ok_value (?fs ! k) (vs ! k)" if k: "k < length ?fs" for k
    using ty Builder.prems(2) k len by (intro typed_ok_value sz) (simp_all add: typed_values_def)
  moreover have "ok_builder ms c" if "v \<in> set vs" "c \<in> set_fval v" for v c
    using Builder.prems that by (intro Builder.IH [OF that]) (auto simp: list_all_iff fval.pred_set fval.set_map)
  moreover have "tag < 2 ^ 32" using wf tag(2) by (simp add: wf_messages_def)
  ultimately show ?case using tag len
    by (auto simp: ok_values_def list_all_iff fval.pred_set fval.set_map)
qed

section \<open>The properties\<close>

definition example_messages :: messages where
  "example_messages =
     [(''file'', [(REQUIRED, STRING, ''path''), (OPTIONAL, SCALAR 4 4, ''mode''), (ARRAY, STRING, ''names''),
       (OPTIONAL, FBB, ''inner'')])]"

definition example_builder :: builder where
  "example_builder =
     Builder 1 [FString (Some ''/x''), FScalar (Some (le32 420)), FStrings [''a''],
       FFbb (Some (Builder 1 [FString (Some ''y''), FScalar None, FStrings [], FFbb None]))]"

lemma example_built: "built example_messages example_builder"
proof -
  let ?in = "Builder 1 [FString (Some ''y''), FScalar None, FStrings [], FFbb None]"
  have i: "built example_messages (Builder 1 [FString None, FScalar None, FStrings [], FFbb None])"
    using built.init [of 1 example_messages] by (simp add: example_messages_def builder_init_def fields_of_def)
  have inner: "built example_messages ?in"
    by (rule built.str [OF i, of 1 0 "Some ''y''"])
      (simp_all add: example_messages_def fields_of_def builder_setters)
  have a: "built example_messages (Builder 1 [FString (Some ''/x''), FScalar None, FStrings [], FFbb None])"
    by (rule built.cxx_string [OF i, of 1 0 "''/x''"])
      (simp_all add: example_messages_def fields_of_def builder_setters)
  have b: "built example_messages (Builder 1 [FString (Some ''/x''), FScalar (Some (le32 420)), FStrings [], FFbb None])"
    by (rule built.scalar [OF a, of 1 1 "le32 420"])
      (simp_all add: example_messages_def fields_of_def builder_setters)
  have c: "built example_messages (Builder 1 [FString (Some ''/x''), FScalar (Some (le32 420)), FStrings [''a''], FFbb None])"
    by (rule built.strings [OF b, of 1 2 "[Some ''a'', None]"])
      (simp_all add: example_messages_def fields_of_def builder_setters numeral_2_eq_2)
  show ?thesis unfolding example_builder_def
    by (rule built.fbb [OF c, of 1 3 "Some ?in"])
      (use inner in \<open>simp_all add: example_messages_def fields_of_def builder_setters numeral_3_eq_3\<close>)
qed

lemma example_ok:
  "wf_messages example_messages" "complete example_messages example_builder"
  "length (builder_serialize example_messages example_builder) < 2 ^ 32"
proof -
  show "wf_messages example_messages" by (simp add: wf_messages_def example_messages_def)
  show "complete example_messages example_builder"
    by (simp add: example_messages_def example_builder_def fields_of_def less_Suc_eq nth_Cons')
  show "length (builder_serialize example_messages example_builder) < 2 ^ 32"
    by (simp add: example_messages_def example_builder_def fields_of_def serialize_msg_def Let_def with_relptr_def
      length_PAD ok_values_def less_Suc_eq nth_Cons' wire_members_def sizeof_wire_def
      sizeof_relptrs_def has_offset_def has_size_def align_up_def relptr_offset_def rank_def upt_rec)
qed

text \<open>
  C13: For a message built with the setters, \<open>measure\<close> returns exactly the number of bytes that \<open>serialize\<close> writes, if
  that is below 4 GiB; so the buffers allocated with \<open>measure\<close> are never overrun and never sent with unset bytes.
\<close>

theorem fbb_measure_serialize:
  assumes "wf_messages ms" "built ms b" "complete ms b" "length (builder_serialize ms b) < 2 ^ 32"
  shows "unat (builder_measure ms b) = length (builder_serialize ms b)"
  using measure_serialize [OF typed_ok [OF assms(1) built_typed [OF assms(2)] assms(3)]] assms(4)
  by (simp add: unat_of_nat)

theorem fbb_measure_serialize_witness:
  "unat (builder_measure example_messages example_builder) = length (builder_serialize example_messages example_builder)"
  by (rule fbb_measure_serialize [OF example_ok(1) example_built example_ok(2, 3)])

text \<open>
  C5: Whatever the builder of a message was set to, the getters of the serialized message return: flags, scalars, strings
  with their terminator and length, arrays of scalars and strings, and recursively the nested messages, from the bytes of
  the message followed by anything.
\<close>

theorem fbb_roundtrip:
  assumes "wf_messages ms" "built ms b" "complete ms b" "length (builder_serialize ms b) < 2 ^ 32"
  shows "reads ms b (builder_serialize ms b @ rest)"
  using typed_ok [OF assms(1) built_typed [OF assms(2)] assms(3)] assms(4) by (rule builder_serialize_reads)

theorem fbb_roundtrip_witness:
  "reads example_messages example_builder (builder_serialize example_messages example_builder @ ''next message'')"
  by (rule fbb_roundtrip [OF example_ok(1) example_built example_ok(2, 3)])



end
