(* ===== verification/FB_Files.thy ===== *)
theory FB_Files
  imports FB_HashCache "HOL-Library.AList"
begin

text \<open>
  The file system as the caches see it: regular files and directories under absolute canonical paths, and the
  system calls of \<^verbatim>\<open>blob_cache.cc\<close> and \<^verbatim>\<open>execed_process_cacher.cc\<close>.  The nodes are an association list, so that the
  calls compute.  \<open>Inl\<close> is a failed call with its \<open>errno\<close>.  The supervisor owns all the files, so it may change every
  mode; it may write a file or change a directory if the mode of the owner says so or it is privileged.  Symbolic links
  and special files are left out.  A creation or removal of an entry is a modification of its directory.
\<close>

section \<open>Nodes\<close>

type_synonym timespec = "int \<times> int"

datatype fnode =
    RegNode (nd_contents : string) (nd_mode : mode_t) (nd_mtime : timespec) (nd_ino : nat)
  | DirNode (nd_mode : mode_t) (nd_mtime : timespec) (nd_ino : nat)

record files =
  f_nodes :: "(string \<times> fnode) list"
  f_now :: timespec
  f_next_ino :: nat
  f_umask :: mode_t
  f_privileged :: bool

abbreviation EISDIR :: int where "EISDIR \<equiv> 21"
abbreviation ENOTEMPTY :: int where "ENOTEMPTY \<equiv> 39"
abbreviation fENOENT :: int where "fENOENT \<equiv> 2"
abbreviation fEACCES :: int where "fEACCES \<equiv> 13"
abbreviation fEEXIST :: int where "fEEXIST \<equiv> 17"
abbreviation fENOTDIR :: int where "fENOTDIR \<equiv> 20"

definition at :: "files \<Rightarrow> string \<Rightarrow> fnode option" where
  "at fs p = map_of (f_nodes fs) p"

definition put_node :: "string \<Rightarrow> fnode \<Rightarrow> files \<Rightarrow> files" where
  "put_node p n fs = fs\<lparr>f_nodes := AList.update p n (f_nodes fs)\<rparr>"

definition del_node :: "string \<Rightarrow> files \<Rightarrow> files" where
  "del_node p fs = fs\<lparr>f_nodes := AList.delete p (f_nodes fs)\<rparr>"

definition dir_of :: "string \<Rightarrow> string" where
  "dir_of p = (case GetParentDir p (length p) of None \<Rightarrow> ''/'' | Some d \<Rightarrow> d)"

fun with_mtime :: "timespec \<Rightarrow> fnode \<Rightarrow> fnode" where
  "with_mtime t (RegNode c m _ i) = RegNode c m t i"
| "with_mtime t (DirNode m _ i) = DirNode m t i"

fun with_mode :: "mode_t \<Rightarrow> fnode \<Rightarrow> fnode" where
  "with_mode m (RegNode c _ t i) = RegNode c m t i"
| "with_mode m (DirNode _ t i) = DirNode m t i"

definition is_dir :: "fnode option \<Rightarrow> bool" where
  "is_dir n \<longleftrightarrow> (case n of Some (DirNode _ _ _) \<Rightarrow> True | _ \<Rightarrow> False)"

definition touch :: "string \<Rightarrow> files \<Rightarrow> files" where
  "touch p fs = (case at fs p of None \<Rightarrow> fs | Some n \<Rightarrow> put_node p (with_mtime (f_now fs) n) fs)"

definition may_write :: "files \<Rightarrow> fnode \<Rightarrow> bool" where
  "may_write fs n \<longleftrightarrow> f_privileged fs \<or> nd_mode n AND 0x80 \<noteq> 0"

definition may_read :: "files \<Rightarrow> fnode \<Rightarrow> bool" where
  "may_read fs n \<longleftrightarrow> f_privileged fs \<or> nd_mode n AND 0x100 \<noteq> 0"

text \<open>May an entry be added to, or removed from, the directory of the path?\<close>

definition entry_errno :: "files \<Rightarrow> string \<Rightarrow> int option" where
  "entry_errno fs p =
     (case at fs (dir_of p) of
        None \<Rightarrow> Some fENOENT
      | Some (RegNode _ _ _ _) \<Rightarrow> Some fENOTDIR
      | Some (DirNode m t i) \<Rightarrow> if may_write fs (DirNode m t i) then None else Some fEACCES)"

section \<open>System calls\<close>

fun stat_of :: "fnode \<Rightarrow> stat64" where
  "stat_of (RegNode c m t i) = \<lparr>st_mode = 0x8000 OR (m AND 0xFFF), st_size = int (length c), st_mtim = t, st_ino = i\<rparr>"
| "stat_of (DirNode m t i) = \<lparr>st_mode = 0x4000 OR (m AND 0xFFF), st_size = 4096, st_mtim = t, st_ino = i\<rparr>"

definition sys_stat :: "files \<Rightarrow> string \<Rightarrow> stat64 option" where
  "sys_stat fs p = map_option stat_of (at fs p)"

definition add_node :: "string \<Rightarrow> (timespec \<Rightarrow> nat \<Rightarrow> fnode) \<Rightarrow> files \<Rightarrow> files" where
  "add_node p mk fs =
     touch (dir_of p) (put_node p (mk (f_now fs) (f_next_ino fs)) (fs\<lparr>f_next_ino := f_next_ino fs + 1\<rparr>))"

definition sys_mkdir :: "files \<Rightarrow> string \<Rightarrow> mode_t \<Rightarrow> int + files" where
  "sys_mkdir fs p mode =
     (case at fs p of
        Some _ \<Rightarrow> Inl fEEXIST
      | None \<Rightarrow>
          (case entry_errno fs p of
             Some e \<Rightarrow> Inl e
           | None \<Rightarrow> Inr (add_node p (DirNode (mode AND 0x3FF AND NOT (f_umask fs))) fs)))"

definition sys_chmod :: "files \<Rightarrow> string \<Rightarrow> mode_t \<Rightarrow> int + files" where
  "sys_chmod fs p mode =
     (case at fs p of None \<Rightarrow> Inl fENOENT | Some n \<Rightarrow> Inr (put_node p (with_mode (mode AND 0xFFF) n) fs))"

text \<open>\<open>open\<close> for writing, with \<open>O_CREAT\<close> and \<open>O_TRUNC\<close> as told.\<close>

definition sys_open_write :: "files \<Rightarrow> string \<Rightarrow> bool \<Rightarrow> bool \<Rightarrow> mode_t \<Rightarrow> int + files" where
  "sys_open_write fs p creat trunc mode =
     (case at fs p of
        Some (DirNode _ _ _) \<Rightarrow> Inl EISDIR
      | Some (RegNode c m t i) \<Rightarrow>
          if \<not> may_write fs (RegNode c m t i) then Inl fEACCES
          else if trunc then Inr (put_node p (RegNode [] m (f_now fs) i) fs) else Inr fs
      | None \<Rightarrow>
          if \<not> creat then Inl fENOENT
          else (case entry_errno fs p of
                  Some e \<Rightarrow> Inl e
                | None \<Rightarrow> Inr (add_node p (RegNode [] (mode AND 0xFFF AND NOT (f_umask fs))) fs)))"

text \<open>\<open>pwrite\<close> of all the data to an open regular file.\<close>

definition overwrite :: "nat \<Rightarrow> string \<Rightarrow> string \<Rightarrow> string" where
  "overwrite off d c = take off (c @ replicate (off - length c) NUL) @ d @ drop (off + length d) c"

definition sys_pwrite :: "files \<Rightarrow> string \<Rightarrow> nat \<Rightarrow> string \<Rightarrow> files" where
  "sys_pwrite fs p off d =
     (case at fs p of
        Some (RegNode c m t i) \<Rightarrow> if d = [] then fs else put_node p (RegNode (overwrite off d c) m (f_now fs) i) fs
      | _ \<Rightarrow> fs)"

definition file_len :: "files \<Rightarrow> string \<Rightarrow> nat" where
  "file_len fs p = (case at fs p of Some (RegNode c _ _ _) \<Rightarrow> length c | _ \<Rightarrow> 0)"

definition sys_unlink :: "files \<Rightarrow> string \<Rightarrow> int + files" where
  "sys_unlink fs p =
     (case at fs p of
        None \<Rightarrow> Inl fENOENT
      | Some (DirNode _ _ _) \<Rightarrow> Inl EISDIR
      | Some (RegNode _ _ _ _) \<Rightarrow>
          (case entry_errno fs p of Some e \<Rightarrow> Inl e | None \<Rightarrow> Inr (touch (dir_of p) (del_node p fs))))"

definition has_entries :: "files \<Rightarrow> string \<Rightarrow> bool" where
  "has_entries fs p = list_ex (\<lambda>(q, _). q \<noteq> p \<and> dir_of q = p) (f_nodes fs)"

definition sys_rmdir :: "files \<Rightarrow> string \<Rightarrow> int + files" where
  "sys_rmdir fs p =
     (case at fs p of
        None \<Rightarrow> Inl fENOENT
      | Some (RegNode _ _ _ _) \<Rightarrow> Inl fENOTDIR
      | Some (DirNode _ _ _) \<Rightarrow>
          if has_entries fs p then Inl ENOTEMPTY
          else (case entry_errno fs p of Some e \<Rightarrow> Inl e | None \<Rightarrow> Inr (touch (dir_of p) (del_node p fs))))"

definition sys_set_mtime :: "files \<Rightarrow> string \<Rightarrow> timespec \<Rightarrow> int + files" where
  "sys_set_mtime fs p t =
     (case at fs p of None \<Rightarrow> Inl fENOENT | Some n \<Rightarrow> Inr (put_node p (with_mtime t n) fs))"

text \<open>\<open>access(path, W_OK)\<close>: the \<open>errno\<close> of a failure.\<close>

definition sys_access_w :: "files \<Rightarrow> string \<Rightarrow> int option" where
  "sys_access_w fs p =
     (case at fs p of None \<Rightarrow> Some fENOENT | Some n \<Rightarrow> if may_write fs n then None else Some fEACCES)"

text \<open>What reading a path gives, and the operating system of the hash cache that this file system is.\<close>

definition entries_of :: "files \<Rightarrow> string \<Rightarrow> string list" where
  "entries_of fs p = map (\<lambda>(q, _). drop (Suc (if p = ''/'' then 0 else length p)) q)
     (filter (\<lambda>(q, _). q \<noteq> p \<and> dir_of q = p) (f_nodes fs))"

definition obj_at :: "files \<Rightarrow> string \<Rightarrow> fd_obj option" where
  "obj_at fs p =
     (case at fs p of
        None \<Rightarrow> None
      | Some n \<Rightarrow>
          if \<not> may_read fs n then None
          else Some (case n of
             RegNode c _ _ _ \<Rightarrow>
               \<lparr>obj_fstat = Some (stat_of n), obj_mmap = (\<lambda>k. Mapped (take k c)),
                obj_pread = (\<lambda>k off. Some (take k (drop off c))), obj_listing = None\<rparr>
           | DirNode _ _ _ \<Rightarrow>
               \<lparr>obj_fstat = Some (stat_of n), obj_mmap = (\<lambda>k. MapFailed), obj_pread = (\<lambda>k off. None),
                obj_listing = Some (entries_of fs p)\<rparr>))"

definition no_obj :: fd_obj where
  "no_obj = \<lparr>obj_fstat = None, obj_mmap = (\<lambda>k. MapFailed), obj_pread = (\<lambda>k off. None), obj_listing = None\<rparr>"

definition contents_at :: "files \<Rightarrow> string \<Rightarrow> string option" where
  "contents_at fs p =
     (case at fs p of Some (RegNode c m t i) \<Rightarrow> if may_read fs (RegNode c m t i) then Some c else None | _ \<Rightarrow> None)"

definition os_of :: "(string \<Rightarrow> hash_t) \<Rightarrow> files \<Rightarrow> os" where
  "os_of xxh fs =
     \<lparr>os_stat = sys_stat fs, os_fstat = (\<lambda>_. None), os_open = obj_at fs, os_fd = (\<lambda>_. no_obj),
      os_store_file = (\<lambda>p _ _. map_option xxh (contents_at fs p)), os_xxh = xxh, os_writers = (\<lambda>_. 0)\<rparr>"

section \<open>What the calls change\<close>

text \<open>A node without its times and its number.\<close>

datatype fview = RegView string mode_t | DirView mode_t

fun view :: "fnode \<Rightarrow> fview" where
  "view (RegNode c m _ _) = RegView c m"
| "view (DirNode m _ _) = DirView m"

definition sees :: "files \<Rightarrow> string \<Rightarrow> fview option" where
  "sees fs p = map_option view (at fs p)"

lemma at_put_node [simp]: "at (put_node p n fs) q = (if q = p then Some n else at fs q)"
  by (simp add: at_def put_node_def update_conv')

lemma at_del_node [simp]: "at (del_node p fs) q = (if q = p then None else at fs q)"
  by (simp add: at_def del_node_def delete_conv')

lemma view_with_mtime [simp]: "view (with_mtime t n) = view n"
  by (cases n) simp_all

lemma sees_put_node [simp]: "sees (put_node p n fs) q = (if q = p then Some (view n) else sees fs q)"
  by (simp add: sees_def)

lemma sees_del_node [simp]: "sees (del_node p fs) q = (if q = p then None else sees fs q)"
  by (simp add: sees_def)

lemma sees_touch [simp]: "sees (touch p fs) q = sees fs q"
  by (auto simp: touch_def sees_def split: option.splits)

lemma at_more [simp]: "at (fs\<lparr>f_next_ino := n\<rparr>) q = at fs q"
  by (simp add: at_def)

lemma sees_more [simp]: "sees (fs\<lparr>f_next_ino := n\<rparr>) q = sees fs q"
  by (simp add: sees_def)

lemma sees_add_node [simp]:
  "sees (add_node p mk fs) q = (if q = p then Some (view (mk (f_now fs) (f_next_ino fs))) else sees fs q)"
  by (simp add: add_node_def)

text \<open>The settings of the process that no call changes.\<close>

definition same_setup :: "files \<Rightarrow> files \<Rightarrow> bool" where
  "same_setup fs fs' \<longleftrightarrow> f_umask fs' = f_umask fs \<and> f_privileged fs' = f_privileged fs"

lemma same_setup_refl [simp]: "same_setup fs fs"
  by (simp add: same_setup_def)

lemma same_setup_trans: "same_setup a b \<Longrightarrow> same_setup b c \<Longrightarrow> same_setup a c"
  by (simp add: same_setup_def)

lemma setup_put_node [simp]: "same_setup fs (put_node p n fs')= same_setup fs fs'"
  by (simp add: same_setup_def put_node_def)

lemma setup_del_node [simp]: "same_setup fs (del_node p fs') = same_setup fs fs'"
  by (simp add: same_setup_def del_node_def)

lemma setup_touch [simp]: "same_setup fs (touch p fs') = same_setup fs fs'"
  by (simp add: touch_def split: option.splits)

lemma setup_more [simp]: "same_setup fs (fs'\<lparr>f_next_ino := n\<rparr>) = same_setup fs fs'"
  by (simp add: same_setup_def)

lemma setup_add_node [simp]: "same_setup fs (add_node p mk fs') = same_setup fs fs'"
  by (simp add: add_node_def)

text \<open>The calls in terms of \<open>sees\<close>.\<close>

fun v_mode :: "fview \<Rightarrow> mode_t" where
  "v_mode (RegView _ m) = m"
| "v_mode (DirView m) = m"

definition can_write :: "files \<Rightarrow> fview \<Rightarrow> bool" where
  "can_write fs v \<longleftrightarrow> f_privileged fs \<or> v_mode v AND 0x80 \<noteq> 0"

lemma may_write_view: "may_write fs n = can_write fs (view n)"
  by (cases n) (simp_all add: may_write_def can_write_def)

definition dir_open :: "files \<Rightarrow> string \<Rightarrow> bool" where
  "dir_open fs p \<longleftrightarrow> (\<exists>m. sees fs (dir_of p) = Some (DirView m) \<and> can_write fs (DirView m))"

lemma entry_errno_None: "entry_errno fs p = None \<longleftrightarrow> dir_open fs p"
proof (cases "at fs (dir_of p)")
  case (Some n)
  then show ?thesis by (cases n) (auto simp: entry_errno_def dir_open_def sees_def may_write_view)
qed (simp add: entry_errno_def dir_open_def sees_def)

lemma sees_None: "sees fs p = None \<longleftrightarrow> at fs p = None"
  by (simp add: sees_def)

lemma sees_Dir: "sees fs p = Some (DirView m) \<longleftrightarrow> (\<exists>t i. at fs p = Some (DirNode m t i))"
proof (cases "at fs p")
  case (Some n)
  then show ?thesis by (cases n) (auto simp: sees_def)
qed (simp add: sees_def)

lemma sees_Reg: "sees fs p = Some (RegView c m) \<longleftrightarrow> (\<exists>t i. at fs p = Some (RegNode c m t i))"
proof (cases "at fs p")
  case (Some n)
  then show ?thesis by (cases n) (auto simp: sees_def)
qed (simp add: sees_def)

lemma sys_mkdir_ok:
  assumes "sees fs p = None" "dir_open fs p"
  obtains fs' where "sys_mkdir fs p mode = Inr fs'" "same_setup fs fs'"
    "\<And>q. sees fs' q = (if q = p then Some (DirView (mode AND 0x3FF AND NOT (f_umask fs))) else sees fs q)"
  using assms by (simp add: sys_mkdir_def sees_None flip: entry_errno_None)

lemma sys_mkdir_exists: "sees fs p = Some v \<Longrightarrow> sys_mkdir fs p mode = Inl fEEXIST"
  by (auto simp: sys_mkdir_def sees_def split: option.splits)

fun v_with_mode :: "mode_t \<Rightarrow> fview \<Rightarrow> fview" where
  "v_with_mode m (RegView c _) = RegView c m"
| "v_with_mode m (DirView _) = DirView m"

lemma view_with_mode [simp]: "view (with_mode m n) = v_with_mode m (view n)"
  by (cases n) simp_all

lemma sys_chmod_ok:
  assumes "sees fs p = Some v"
  obtains fs' where "sys_chmod fs p mode = Inr fs'" "same_setup fs fs'"
    "\<And>q. sees fs' q = (if q = p then Some (v_with_mode (mode AND 0xFFF) v) else sees fs q)"
  using assms by (auto simp: sys_chmod_def sees_def)

lemma sys_open_write_ok:
  assumes "case sees fs p of None \<Rightarrow> dir_open fs p | Some v \<Rightarrow> (\<exists>c m. v = RegView c m) \<and> can_write fs v"
  obtains fs' where "sys_open_write fs p True True mode = Inr fs'" "same_setup fs fs'"
    "\<And>q. sees fs' q = (if q = p then
        Some (RegView [] (case sees fs p of None \<Rightarrow> mode AND 0xFFF AND NOT (f_umask fs) | Some v \<Rightarrow> v_mode v))
      else sees fs q)"
proof (cases "at fs p")
  case None
  then have "sees fs p = None" by (simp add: sees_None)
  then show ?thesis using assms that None by (simp add: sys_open_write_def flip: entry_errno_None)
next
  case (Some n)
  then have v: "sees fs p = Some (view n)" by (simp add: sees_def)
  then obtain c m t i where n: "n = RegNode c m t i" using assms by (cases n) auto
  then show ?thesis using assms that Some v by (simp add: sys_open_write_def may_write_view)
qed

lemma sys_pwrite_ok:
  assumes "sees fs p = Some (RegView c m)"
  shows "same_setup fs (sys_pwrite fs p off d)"
    "d \<noteq> [] \<Longrightarrow> sees (sys_pwrite fs p off d) q = (if q = p then Some (RegView (overwrite off d c) m) else sees fs q)"
    "sys_pwrite fs p off [] = fs"
  using assms by (auto simp: sys_pwrite_def sees_Reg split: option.splits fnode.splits)

lemma overwrite_empty: "overwrite 0 d [] = d"
  by (simp add: overwrite_def)

lemma overwrite_append: "overwrite (length c) d c = c @ d"
  by (simp add: overwrite_def)

lemma sys_unlink_ok:
  assumes "sees fs p = Some (RegView c m)" "dir_open fs p"
  obtains fs' where "sys_unlink fs p = Inr fs'" "same_setup fs fs'" "\<And>q. sees fs' q = (if q = p then None else sees fs q)"
  using assms by (auto simp: sys_unlink_def sees_Reg simp flip: entry_errno_None)

lemma has_entries_iff: "has_entries fs p \<longleftrightarrow> (\<exists>q. q \<noteq> p \<and> dir_of q = p \<and> sees fs q \<noteq> None)"
proof -
  have "has_entries fs p \<longleftrightarrow> (\<exists>q\<in>fst ` set (f_nodes fs). q \<noteq> p \<and> dir_of q = p)"
    by (simp add: has_entries_def list_ex_iff case_prod_beta)
  moreover have "sees fs q \<noteq> None \<longleftrightarrow> q \<in> fst ` set (f_nodes fs)" for q
    by (simp only: sees_None at_def map_of_eq_None_iff not_not)
  ultimately show ?thesis by metis
qed

lemma sys_rmdir_ok:
  assumes "sees fs p = Some (DirView m)" "dir_open fs p" "\<And>q. q \<noteq> p \<Longrightarrow> dir_of q = p \<Longrightarrow> sees fs q = None"
  obtains fs' where "sys_rmdir fs p = Inr fs'" "same_setup fs fs'" "\<And>q. sees fs' q = (if q = p then None else sees fs q)"
proof -
  have "\<not> has_entries fs p" using assms(3) by (metis has_entries_iff)
  moreover obtain t i where "at fs p = Some (DirNode m t i)" using assms(1) by (auto simp: sees_Dir)
  ultimately have "sys_rmdir fs p = Inr (touch (dir_of p) (del_node p fs))"
    using assms(2) by (simp add: sys_rmdir_def flip: entry_errno_None)
  then show ?thesis by (rule that) simp_all
qed

lemma sys_set_mtime_ok:
  assumes "sees fs p \<noteq> None"
  obtains fs' where "sys_set_mtime fs p t = Inr fs'" "same_setup fs fs'" "\<And>q. sees fs' q = sees fs q"
  using assms by (auto simp: sys_set_mtime_def sees_def)

end
