(* ===== verification/FB_CacheEntry.thy ===== *)
theory FB_CacheEntry
  imports FB_FileUsage
begin

text \<open>
  The cache entries of \<^verbatim>\<open>src/firebuild/fbbstore.def\<close>, what \<^verbatim>\<open>execed_process_cacher.cc\<close> puts into them from
  a \<open>FileInfo\<close> and what it reads back.  Optional members are options; an absent array is empty.
\<close>

section \<open>Entries\<close>

record fbb_file =
  ff_path :: string
  ff_type :: file_type
  ff_size :: "int option"
  ff_hash :: "hash_t option"
  ff_compressed_hash :: "hash_t option"
  ff_mode :: "mode_t option"
  ff_mode_mask :: "mode_t option"
  ff_inline_data :: string
  ff_timestamp_source :: "string option"

record fbb_append_to_fd =
  fa_fd :: int
  fa_hash :: "hash_t option"
  fa_compressed_hash :: "hash_t option"
  fa_inline_data :: string

record process_inputs =
  in_path :: "fbb_file list"
  in_path_notexist :: "string list"

record process_outputs =
  out_path_isreg :: "fbb_file list"
  out_path_isdir :: "fbb_file list"
  out_path_notexist :: "string list"
  out_append_to_fd :: "fbb_append_to_fd list"
  out_exit_status :: int

record process_inputs_outputs =
  io_inputs :: process_inputs
  io_outputs :: process_outputs
  io_cpu_time_ms :: "int option"

section \<open>Conversions\<close>

text \<open>\<open>add_file\<close>: the file that is added to the vector.  \<open>inline_data\<close> is \<open>None\<close> for a null pointer.\<close>

definition add_file ::
    "bool \<Rightarrow> string \<Rightarrow> file_info \<Rightarrow> bool \<Rightarrow> file_usage option \<Rightarrow> string option \<Rightarrow> fbb_file" where
  "add_file compress_cache file_name fi output_file fu inline_data =
     (let keep_hash = (inline_data = None \<and> fi_hash_known fi); compressed = (output_file \<and> compress_cache) in
      \<lparr>ff_path = file_name, ff_type = fi_type fi,
       ff_size = (if size_known fi then Some (fi_size fi) else None),
       ff_hash = (if keep_hash \<and> \<not> compressed then Some (fi_hash fi) else None),
       ff_compressed_hash = (if keep_hash \<and> compressed then Some (fi_hash fi) else None),
       ff_mode = (if fi_mode_mask fi \<noteq> 0 then Some (fi_mode fi) else None),
       ff_mode_mask = (if fi_mode_mask fi \<noteq> 0 then Some (fi_mode_mask fi) else None),
       ff_inline_data = (case inline_data of None \<Rightarrow> [] | Some d \<Rightarrow> d),
       ff_timestamp_source =
         (case fu of
            None \<Rightarrow> None
          | Some u \<Rightarrow> if output_file \<and> fi_type fi \<noteq> NOTEXIST then fu_timestamp_source u else None)\<rparr>)"

definition with_fallback :: "'a option \<Rightarrow> 'a \<Rightarrow> 'a" where
  "with_fallback v d = (case v of None \<Rightarrow> d | Some x \<Rightarrow> x)"

definition file_to_file_info :: "fbb_file \<Rightarrow> file_info" where
  "file_to_file_info file =
     (let i0 = file_info_of_type (ff_type file);
          i1 = (case ff_size file of None \<Rightarrow> i0 | Some n \<Rightarrow> i0\<lparr>fi_size := n\<rparr>);
          i2 = (case ff_hash file of None \<Rightarrow> i1 | Some h \<Rightarrow> set_hash h i1)
      in set_mode_bits (with_fallback (ff_mode file) 0) (with_fallback (ff_mode_mask file) 0) i2)"

definition file_to_file_usage_update :: "fb_env \<Rightarrow> string \<Rightarrow> fbb_file \<Rightarrow> file_usage_update" where
  "file_to_file_usage_update env filename file =
     FileUsageUpdate env filename DONTKNOW
       ((ff_type file = ISREG \<and> ff_size file \<noteq> None) \<or> ff_type file = ISDIR) (ff_mode file \<noteq> None)"

definition find_input_file :: "process_inputs \<Rightarrow> string \<Rightarrow> fbb_file option" where
  "find_input_file pi path = find (\<lambda>file. ff_path file = path) (in_path pi)"

section \<open>Reading back what was added\<close>

text \<open>An input that is added to an entry and read back admits the same states of the file.\<close>

lemma read_back_shape:
  "fi_type (file_to_file_info (add_file c name fi False fu None)) = fi_type fi"
  "fi_size (file_to_file_info (add_file c name fi False fu None)) = (if size_known fi then fi_size fi else -1)"
  "fi_hash_known (file_to_file_info (add_file c name fi False fu None)) = fi_hash_known fi"
  "fi_hash_known fi \<Longrightarrow> fi_hash (file_to_file_info (add_file c name fi False fu None)) = fi_hash fi"
  by (auto simp: file_to_file_info_def add_file_def Let_def set_mode_bits_def fu_simps)

lemma read_back_mode: "mode_ok (file_to_file_info (add_file c name fi False fu None)) m = mode_ok fi m"
  by (simp add: file_to_file_info_def add_file_def Let_def set_mode_bits_def mode_ok_def with_fallback_def
      set_hash_def file_info_of_type_def mk_file_info_def and.assoc)

lemma read_back_describes: "describes (file_to_file_info (add_file c name fi False fu None)) s = describes fi s"
  using read_back_shape [where c = c and name = name and fi = fi and fu = fu]
    read_back_mode [where c = c and name = name and fi = fi and fu = fu]
  by (cases s; cases "fi_type fi") (auto simp: reg_ok_def dir_ok_def size_known_def)

end
