(* ===== verification/FB_Caches.thy ===== *)
theory FB_Caches
  imports FB_Files FB_Base64
begin

text \<open>
  \<^verbatim>\<open>src/firebuild/blob_cache.cc\<close> and \<^verbatim>\<open>obj_cache.cc\<close>: the two directories of the cache.  Each is a tree
  with the entries of a directory in the order \<open>readdir\<close> gives them; a path is the list of its components
  below the base directory.  The stores run with cache debugging off.  A temporary file is made in the base directory under a name
  (\<open>mkstemp\<close>) that is an argument; zstd is the fields \<open>zstd\<close> and \<open>unzstd\<close> of the configuration.  The cache is apart
  from the files of the build.
\<close>

section \<open>Directories\<close>

datatype cnode = CFile string timespec | CDir "(string \<times> cnode) list"

record cache_config =
  compress_cache :: bool
  zstd :: "string \<Rightarrow> string option"
  unzstd :: "string \<Rightarrow> string option"
  max_entry_size :: int
  max_cache_size :: int
  shortcut_tries :: int
  max_inline_blob_size :: int
  debug_cache :: bool

record caches =
  bc_dir :: cnode
  oc_dir :: cnode
  this_runs_cached_bytes :: int
  stored_cached_bytes :: int
  bc_now :: timespec

fun c_at :: "cnode \<Rightarrow> string list \<Rightarrow> cnode option" where
  "c_at n [] = Some n"
| "c_at (CDir es) (x # xs) = (case map_of es x of None \<Rightarrow> None | Some n \<Rightarrow> c_at n xs)"
| "c_at _ (x # xs) = None"

text \<open>Making a new entry: what \<open>mkdir\<close>, \<open>mkstemp\<close> and \<open>renameat2\<close> with \<open>RENAME_NOREPLACE\<close> do to the directory.\<close>

fun c_link :: "string list \<Rightarrow> cnode \<Rightarrow> cnode \<Rightarrow> int + cnode" where
  "c_link [] new n = Inl fEEXIST"
| "c_link (x # xs) new (CDir es) =
     (case map_of es x of
        None \<Rightarrow> if xs = [] then Inr (CDir (es @ [(x, new)])) else Inl fENOENT
      | Some n \<Rightarrow>
          (case c_link xs new n of Inl e \<Rightarrow> Inl e | Inr n' \<Rightarrow> Inr (CDir (AList.update x n' es))))"
| "c_link (x # xs) new n = Inl fENOTDIR"

definition c_mkdir :: "string list \<Rightarrow> cnode \<Rightarrow> cnode" where
  "c_mkdir p t = (case c_link p (CDir []) t of Inl _ \<Rightarrow> t | Inr t' \<Rightarrow> t')"

fun c_touch :: "string list \<Rightarrow> timespec \<Rightarrow> cnode \<Rightarrow> cnode" where
  "c_touch [] now (CFile d _) = CFile d now"
| "c_touch (x # xs) now (CDir es) =
     (case map_of es x of None \<Rightarrow> CDir es | Some n \<Rightarrow> CDir (AList.update x (c_touch xs now n) es))"
| "c_touch _ now n = n"

definition update_cached_bytes :: "int \<Rightarrow> caches \<Rightarrow> caches" where
  "update_cached_bytes n k = k\<lparr>this_runs_cached_bytes := this_runs_cached_bytes k + n\<rparr>"

section \<open>Names\<close>

definition canonical_digest :: "hash_t \<Rightarrow> byte list" where
  "canonical_digest h = map (\<lambda>i. ucast (drop_bit (120 - 8 * i) h)) [0 ..< 16]"

definition to_ascii :: "hash_t \<Rightarrow> string" where
  "to_ascii h = (case base64_encode (canonical_digest h) of Some s \<Rightarrow> s | None \<Rightarrow> [])"

definition hash_valid_ascii :: "string \<Rightarrow> bool" where
  "hash_valid_ascii s = valid_ascii s 22"

definition subkey_valid_ascii :: "string \<Rightarrow> bool" where
  "subkey_valid_ascii s = valid_ascii s 11"

text \<open>\<open>construct_cached_file_name\<close> and \<open>construct_cached_dir_name\<close>: the path, and the directories that are created.\<close>

definition cached_file_name :: "hash_t \<Rightarrow> string list" where
  "cached_file_name key = (let a = to_ascii key in [take 1 a, take 2 a, a])"

definition create_blob_dirs :: "hash_t \<Rightarrow> cnode \<Rightarrow> cnode" where
  "create_blob_dirs key t = (let a = to_ascii key in c_mkdir [take 1 a, take 2 a] (c_mkdir [take 1 a] t))"

definition create_obj_dirs :: "hash_t \<Rightarrow> cnode \<Rightarrow> cnode" where
  "create_obj_dirs key t =
     (let a = to_ascii key in c_mkdir [take 1 a, take 2 a, a] (c_mkdir [take 1 a, take 2 a] (c_mkdir [take 1 a] t)))"

definition cached_obj_name :: "hash_t \<Rightarrow> string \<Rightarrow> string list" where
  "cached_obj_name key subkey = cached_file_name key @ [subkey]"

section \<open>Blobs\<close>

text \<open>
  The common end of \<open>store_file\<close> and \<open>move_store_file\<close>: the data under its digest, compressed if configured.
  \<open>None\<close> is a failure (or the assertion behind it).
\<close>

definition place_blob :: "cache_config \<Rightarrow> (string \<Rightarrow> hash_t) \<Rightarrow> caches \<Rightarrow> string \<Rightarrow> (caches \<times> hash_t) option" where
  "place_blob cfg xxh k d =
     (let key = xxh d in
      case (if compress_cache cfg then zstd cfg d else Some d) of
        None \<Rightarrow> None
      | Some b \<Rightarrow>
          (let t = create_blob_dirs key (bc_dir k) in
           case c_link (cached_file_name key) (CFile b (bc_now k)) t of
             Inl e \<Rightarrow> if e = fEEXIST then Some (k\<lparr>bc_dir := t\<rparr>, key) else None
           | Inr t' \<Rightarrow> Some (update_cached_bytes (int (length b)) (k\<lparr>bc_dir := t'\<rparr>), key)))"

text \<open>\<open>store_file\<close>: \<open>src\<close> is what the source file holds, \<open>None\<close> if it cannot be opened; \<open>writers\<close> is its \<open>writers_count()\<close>.\<close>

definition store_file ::
    "cache_config \<Rightarrow> (string \<Rightarrow> hash_t) \<Rightarrow> caches \<Rightarrow> int \<Rightarrow> int \<Rightarrow> string option \<Rightarrow> nat \<Rightarrow> nat \<Rightarrow> (caches \<times> hash_t) option" where
  "store_file cfg xxh k writers max_writers src src_skip_bytes sz =
     (if writers > max_writers then None
      else
        (case src of
           None \<Rightarrow> None
         | Some c \<Rightarrow>
             (let len = sz - src_skip_bytes; d = take len (drop src_skip_bytes c) in
              if length d \<noteq> len then None else place_blob cfg xxh k d)))"

definition move_store_file ::
    "cache_config \<Rightarrow> (string \<Rightarrow> hash_t) \<Rightarrow> caches \<Rightarrow> string \<Rightarrow> (caches \<times> hash_t) option" where
  "move_store_file cfg xxh k d = (if d = [] then None else place_blob cfg xxh k d)"

text \<open>\<open>get_fd_for_file\<close>: what can be read from the descriptor; \<open>None\<close> is -1.\<close>

definition get_fd_for_file :: "caches \<Rightarrow> hash_t \<Rightarrow> string option" where
  "get_fd_for_file k key = (case c_at (bc_dir k) (cached_file_name key) of Some (CFile b _) \<Rightarrow> Some b | _ \<Rightarrow> None)"

text \<open>
  \<open>retrieve_file\<close> of an opened blob to a file of the build: \<open>Inl\<close> is \<open>false\<close> with the \<open>errno\<close> of the failed \<open>open\<close>, an
  outer \<open>None\<close> a failed assertion.  Decompression writes from the start of the file, copying from its end if \<open>append\<close>.
\<close>

definition retrieve_file ::
    "cache_config \<Rightarrow> files \<Rightarrow> string \<Rightarrow> string \<Rightarrow> bool \<Rightarrow> bool \<Rightarrow> (int + files) option" where
  "retrieve_file cfg fs blob path_dst appending decompress =
     (case sys_open_write fs path_dst (\<not> appending) (\<not> appending) 0x1B6 of
        Inl e \<Rightarrow> if appending then None else Some (Inl e)
      | Inr fs1 \<Rightarrow>
          if decompress then
            (case unzstd cfg blob of
               None \<Rightarrow> None
             | Some d \<Rightarrow> Some (Inr (sys_pwrite fs1 path_dst 0 d)))
          else Some (Inr (sys_pwrite fs1 path_dst (if appending then file_len fs1 path_dst else 0) blob)))"

section \<open>Objects\<close>

definition kMagicHeader :: string where
  "kMagicHeader = ''FBB'' @ replicate 5 NUL"

definition kZstdMagicHeader :: string where
  "kZstdMagicHeader = [CHR 0x28, CHR 0xB5, CHR 0x2F, CHR 0xFD]"

text \<open>The subkey of the current time: 34 bits of seconds, 30 bits of nanoseconds.\<close>

definition time_subkey :: "timespec \<Rightarrow> string" where
  "time_subkey t = subkey_of (push_bit 30 (word_of_int (fst t)) + word_of_int (snd t))"

text \<open>
  \<open>ObjCache::store\<close> of the serialized entry \<open>entry\<close>.  The temporary file stays in the base directory when the entry
  is too large or cannot be compressed.
\<close>

definition obj_store ::
    "cache_config \<Rightarrow> caches \<Rightarrow> string \<Rightarrow> hash_t \<Rightarrow> string \<Rightarrow> int \<Rightarrow> (caches \<times> bool) option" where
  "obj_store cfg k tmp key entry stored_blob_bytes =
     (case c_link [tmp] (CFile [] (bc_now k)) (oc_dir k) of
        Inl _ \<Rightarrow> None
      | Inr with_tmp \<Rightarrow>
          if stored_blob_bytes + int (length entry) > max_entry_size cfg then Some (k\<lparr>oc_dir := with_tmp\<rparr>, False)
          else
            (case (if compress_cache cfg then zstd cfg (kMagicHeader @ entry) else Some (kMagicHeader @ entry)) of
               None \<Rightarrow> Some (k\<lparr>oc_dir := with_tmp\<rparr>, False)
             | Some b \<Rightarrow>
                 (let t = create_obj_dirs key (oc_dir k) in
                  case c_link (cached_obj_name key (time_subkey (bc_now k))) (CFile b (bc_now k)) t of
                    Inl e \<Rightarrow> if e = fEEXIST then Some (k\<lparr>oc_dir := t\<rparr>, True) else None
                  | Inr t' \<Rightarrow> Some (update_cached_bytes (int (length b)) (k\<lparr>oc_dir := t'\<rparr>), True))))"

text \<open>
  \<open>ObjCache::retrieve\<close>: the entry and the size of its file (\<open>*compressed_len\<close>) if it is compressed.  An outer \<open>None\<close> is
  the assertion that the path is a regular file.
\<close>

definition obj_retrieve :: "cache_config \<Rightarrow> cnode \<Rightarrow> string list \<Rightarrow> (string \<times> nat option) option option" where
  "obj_retrieve cfg t path =
     (case c_at t path of
        Some (CFile b _) \<Rightarrow>
          Some (if length b \<le> length kMagicHeader then None
                else if take 4 b = take 4 kMagicHeader then Some (drop (length kMagicHeader) b, None)
                else if take 4 b = kZstdMagicHeader then
                  (case unzstd cfg b of
                     None \<Rightarrow> None
                   | Some d \<Rightarrow> Some (drop (length kMagicHeader) d, Some (length b)))
                else None)
      | _ \<Rightarrow> None)"

definition mark_as_used :: "caches \<Rightarrow> hash_t \<Rightarrow> string \<Rightarrow> caches" where
  "mark_as_used k key subkey = k\<lparr>oc_dir := c_touch (cached_obj_name key subkey) (bc_now k) (oc_dir k)\<rparr>"

text \<open>
  \<open>list_subkeys_internal\<close> on the entries of a directory: newest first by name or, while debugging the cache, by time.
  The order \<open>std::sort\<close> gives to equal times is that of a stable sort.
\<close>

definition timespec_less :: "timespec \<Rightarrow> timespec \<Rightarrow> bool" where
  "timespec_less a b \<longleftrightarrow> fst a < fst b \<or> fst a = fst b \<and> snd a < snd b"

fun insert_by :: "('a \<Rightarrow> 'a \<Rightarrow> bool) \<Rightarrow> 'a \<Rightarrow> 'a list \<Rightarrow> 'a list" where
  "insert_by before x [] = [x]"
| "insert_by before x (y # ys) = (if before y x then y # insert_by before x ys else x # y # ys)"

definition sort_by :: "('a \<Rightarrow> 'a \<Rightarrow> bool) \<Rightarrow> 'a list \<Rightarrow> 'a list" where
  "sort_by before xs = foldr (insert_by before) xs []"

fun node_mtime :: "cnode \<Rightarrow> timespec" where
  "node_mtime (CFile _ t) = t"
| "node_mtime _ = (0, 0)"

definition list_subkeys_internal :: "cache_config \<Rightarrow> (string \<times> cnode) list \<Rightarrow> string list" where
  "list_subkeys_internal cfg es =
     (let ks = filter (\<lambda>(x, _). subkey_valid_ascii x) es in
      if \<not> debug_cache cfg then sort_by (\<lambda>a b. subkey_less b a) (map fst ks)
      else map fst (sort_by (\<lambda>a b. timespec_less (node_mtime (snd b)) (node_mtime (snd a))) ks))"

definition list_subkeys :: "cache_config \<Rightarrow> caches \<Rightarrow> hash_t \<Rightarrow> string list" where
  "list_subkeys cfg k key =
     (case c_at (oc_dir k) (cached_file_name key) of Some (CDir es) \<Rightarrow> list_subkeys_internal cfg es | _ \<Rightarrow> [])"

end
