(* ===== verification/FB_Shortcut.thy ===== *)
theory FB_Shortcut
  imports FB_CacheEntry FB_Caches FB_Lifecycle
begin

text \<open>
  \<^verbatim>\<open>src/firebuild/execed_process_cacher.cc\<close>: finding a cache entry that matches the file system and applying it.

  \<open>s\<close> is the state of the supervisor, \<open>fs\<close> the files of the build, \<open>k\<close> the cache directories.  \<open>read_entry\<close> reads a
  serialized \<open>process_inputs_outputs\<close>, \<open>None\<close> standing for another tag.  As elsewhere an outer \<open>None\<close> is a
  failed assertion.
\<close>

section \<open>The state\<close>

text \<open>What \<open>set_shortcut_result\<close> is told.\<close>

datatype shortcut_result =
    Mismatch string string
  | ExpectedMissing string string
  | NotWritable string
  | NoCandidate
  | NotRetrieved string
  | ApplyFailed

text \<open>The supervisor after the files changed: its operating system reads them.\<close>

definition see_files :: "files \<Rightarrow> sup \<Rightarrow> sup" where
  "see_files fs s = s\<lparr>s_x := (s_x s)\<lparr>x_os := os_of (os_xxh (x_os (s_x s))) fs\<rparr>\<rparr>"

definition register_opt :: "files \<Rightarrow> sup \<Rightarrow> nat option \<Rightarrow> string \<Rightarrow> (fb_env \<Rightarrow> file_usage_update) \<Rightarrow> sup" where
  "register_opt fs s i name u =
     (case i of
        None \<Rightarrow> s
      | Some j \<Rightarrow> let s' = see_files fs s in fst (register_at s' j name (u (env_of (s_x s')))))"

definition parent_point :: "sup \<Rightarrow> nat \<Rightarrow> nat option" where
  "parent_point s i = parent_exec_point (x_nodes (s_x s)) i"

section \<open>Matching the inputs\<close>

fun inputs_match ::
    "locations \<Rightarrow> os \<Rightarrow> string \<Rightarrow> hash_cache \<Rightarrow> fbb_file list \<Rightarrow> hash_cache \<times> shortcut_result option" where
  "inputs_match locs w subkey db [] = (db, None)"
| "inputs_match locs w subkey db (file # files) =
     (case file_info_matches locs w db (ff_path file) (file_to_file_info file) of
        (db', ok) \<Rightarrow>
          if ok then inputs_match locs w subkey db' files else (db', Some (Mismatch subkey (ff_path file))))"

fun notexist_match ::
    "locations \<Rightarrow> os \<Rightarrow> string \<Rightarrow> hash_cache \<Rightarrow> string list \<Rightarrow> hash_cache \<times> shortcut_result option" where
  "notexist_match locs w subkey db [] = (db, None)"
| "notexist_match locs w subkey db (path # paths) =
     (case file_info_matches locs w db path (file_info_of_type NOTEXIST) of
        (db', ok) \<Rightarrow>
          if ok then notexist_match locs w subkey db' paths else (db', Some (ExpectedMissing subkey path)))"

definition replaceable :: "process_inputs \<Rightarrow> fbb_file \<Rightarrow> bool" where
  "replaceable inputs file \<longleftrightarrow>
     find_input_file inputs (ff_path file) \<noteq> None \<and> fi_mode_mask (file_to_file_info file) AND 0x80 \<noteq> 0"

fun outputs_writable :: "files \<Rightarrow> process_inputs \<Rightarrow> fbb_file list \<Rightarrow> shortcut_result option" where
  "outputs_writable fs inputs [] = None"
| "outputs_writable fs inputs (file # files) =
     (if ff_type file = ISREG \<and> sys_access_w fs (ff_path file) = Some fEACCES \<and> \<not> replaceable inputs file
      then Some (NotWritable (ff_path file)) else outputs_writable fs inputs files)"

definition pio_matches_fs ::
    "locations \<Rightarrow> os \<Rightarrow> files \<Rightarrow> string \<Rightarrow> hash_cache \<Rightarrow> process_inputs_outputs \<Rightarrow> hash_cache \<times> shortcut_result option" where
  "pio_matches_fs locs w fs subkey db io =
     (case inputs_match locs w subkey db (in_path (io_inputs io)) of
        (db1, Some r) \<Rightarrow> (db1, Some r)
      | (db1, None) \<Rightarrow>
          (case notexist_match locs w subkey db1 (in_path_notexist (io_inputs io)) of
             (db2, Some r) \<Rightarrow> (db2, Some r)
           | (db2, None) \<Rightarrow> (db2, outputs_writable fs (io_inputs io) (out_path_isreg (io_outputs io)))))"

text \<open>
  The loop of \<open>find_shortcut\<close>.  \<open>report\<close> is \<open>Options::generate_report()\<close>, \<open>res\<close> the \<open>shortcut_result\<close> of the process.
\<close>

fun try_candidates ::
    "cache_config \<Rightarrow> (string \<Rightarrow> process_inputs_outputs option) \<Rightarrow> locations \<Rightarrow> os \<Rightarrow> files \<Rightarrow> cnode \<Rightarrow> hash_t \<Rightarrow> bool \<Rightarrow>
     int \<Rightarrow> hash_cache \<Rightarrow> shortcut_result option \<Rightarrow> string list \<Rightarrow>
     (hash_cache \<times> shortcut_result option \<times> (string \<times> process_inputs_outputs) option) option" where
  "try_candidates cfg read_entry locs w fs objs key report attempts db res [] = Some (db, res, None)"
| "try_candidates cfg read_entry locs w fs objs key report attempts db res (sk # sks) =
     (if attempts > shortcut_tries cfg then Some (db, res, None)
      else
        (case obj_retrieve cfg objs (cached_obj_name key sk) of
           None \<Rightarrow> None
         | Some None \<Rightarrow>
             try_candidates cfg read_entry locs w fs objs key report (attempts + 1) db
               (if report then Some (NotRetrieved sk) else res) sks
         | Some (Some (buf, _)) \<Rightarrow>
             (case read_entry buf of
                None \<Rightarrow> None
              | Some io \<Rightarrow>
                  (case pio_matches_fs locs w fs sk db io of
                     (db', None) \<Rightarrow> Some (db', res, Some (sk, io))
                   | (db', Some r) \<Rightarrow>
                       try_candidates cfg read_entry locs w fs objs key report (attempts + 1) db'
                         (if report \<and> res = None then Some r else res) sks))))"

definition find_shortcut ::
    "cache_config \<Rightarrow> (string \<Rightarrow> process_inputs_outputs option) \<Rightarrow> sup \<Rightarrow> files \<Rightarrow> caches \<Rightarrow> hash_t \<Rightarrow>
     shortcut_result option \<Rightarrow> (sup \<times> shortcut_result option \<times> (string \<times> process_inputs_outputs) option) option" where
  "find_shortcut cfg read_entry s fs k key res =
     (let s0 = see_files fs s; subkeys = list_subkeys cfg k key; report = x_report (s_x s) in
      case try_candidates cfg read_entry (x_locs (s_x s0)) (env_os (env_of (s_x s0))) fs (oc_dir k) key report 0
             (x_cache (s_x s0)) (if subkeys = [] \<and> report then Some NoCandidate else res) subkeys of
        None \<Rightarrow> None
      | Some (db, res', found) \<Rightarrow> Some (s0\<lparr>s_x := (s_x s0)\<lparr>x_cache := db\<rparr>\<rparr>, res', found))"

section \<open>Restoring the outputs\<close>

text \<open>\<open>restore_dirs\<close>; every failure runs into an assertion.\<close>

definition restore_dir :: "files \<Rightarrow> string \<Rightarrow> mode_t \<Rightarrow> files option" where
  "restore_dir fs path mode =
     (case sys_mkdir fs path mode of
        Inr fs' \<Rightarrow> Some fs'
      | Inl e \<Rightarrow>
          if e = fEEXIST then
            (case sys_stat fs path of
               None \<Rightarrow> None
             | Some st \<Rightarrow>
                 if \<not> S_ISDIR (st_mode st) then None
                 else (case sys_chmod fs path mode of Inl _ \<Rightarrow> None | Inr fs' \<Rightarrow> Some fs'))
          else None)"

fun restore_dirs_loop :: "sup \<Rightarrow> files \<Rightarrow> nat \<Rightarrow> fbb_file list \<Rightarrow> (sup \<times> files) option" where
  "restore_dirs_loop s fs i [] = Some (s, fs)"
| "restore_dirs_loop s fs i (dir # dirs) =
     (case ff_mode dir of
        None \<Rightarrow> None
      | Some mode \<Rightarrow>
          (case restore_dir fs (ff_path dir) mode of
             None \<Rightarrow> None
           | Some fs' \<Rightarrow>
               restore_dirs_loop
                 (register_opt fs' s (parent_point s i) (ff_path dir)
                    (\<lambda>env. file_to_file_usage_update env (ff_path dir) dir)) fs' i dirs))"

definition restore_dirs :: "sup \<Rightarrow> files \<Rightarrow> nat \<Rightarrow> process_outputs \<Rightarrow> (sup \<times> files) option" where
  "restore_dirs s fs i outputs =
     restore_dirs_loop s fs i
       (sort_by (\<lambda>a b. length (ff_path a) < length (ff_path b)) (out_path_isdir outputs))"

text \<open>\<open>remove_files_and_dirs\<close>: failures are ignored.\<close>

definition remove_path :: "files \<Rightarrow> string \<Rightarrow> files" where
  "remove_path fs path =
     (case sys_unlink fs path of
        Inr fs' \<Rightarrow> fs'
      | Inl e \<Rightarrow>
          if e = EISDIR then (case sys_rmdir fs path of Inr fs' \<Rightarrow> fs' | Inl _ \<Rightarrow> fs) else fs)"

fun remove_loop :: "sup \<Rightarrow> files \<Rightarrow> nat \<Rightarrow> string list \<Rightarrow> sup \<times> files" where
  "remove_loop s fs i [] = (s, fs)"
| "remove_loop s fs i (path # paths) =
     (let fs' = remove_path fs path in
      remove_loop
        (register_opt fs' s (parent_point s i) path (\<lambda>env. FileUsageUpdate env path ISDIR True False)) fs' i paths)"

definition remove_files_and_dirs :: "sup \<Rightarrow> files \<Rightarrow> nat \<Rightarrow> process_outputs \<Rightarrow> sup \<times> files" where
  "remove_files_and_dirs s fs i outputs =
     remove_loop s fs i (sort_by (\<lambda>a b. length a > length b) (out_path_notexist outputs))"

text \<open>
  \<open>BlobFds\<close>: the blobs that are opened before anything is changed.  \<open>Some None\<close> is a missing blob, for which
  \<open>apply_shortcut\<close> returns \<open>false\<close>; \<open>None\<close> is the assertion of the accessor of an absent hash.
\<close>

definition blob_key :: "hash_t option \<Rightarrow> hash_t option \<Rightarrow> hash_t option" where
  "blob_key compressed_hash hash = (case compressed_hash of Some h \<Rightarrow> Some h | None \<Rightarrow> hash)"

fun open_blobs :: "caches \<Rightarrow> hash_t option list \<Rightarrow> string list option option" where
  "open_blobs k [] = Some (Some [])"
| "open_blobs k (None # hs) = None"
| "open_blobs k (Some h # hs) =
     (case get_fd_for_file k h of
        None \<Rightarrow> Some None
      | Some b \<Rightarrow> map_option (map_option (\<lambda>bs. b # bs)) (open_blobs k hs))"

definition blobs_needed :: "process_outputs \<Rightarrow> hash_t option list" where
  "blobs_needed outputs =
     map (\<lambda>f. blob_key (ff_compressed_hash f) (ff_hash f))
       (filter (\<lambda>f. ff_type f = ISREG \<and> ff_inline_data f = []) (out_path_isreg outputs)) @
     map (\<lambda>a. blob_key (fa_compressed_hash a) (fa_hash a))
       (filter (\<lambda>a. fa_inline_data a = []) (out_append_to_fd outputs))"

text \<open>The propagation of the inputs to \<open>registration_point\<close>.\<close>

fun register_inputs :: "files \<Rightarrow> sup \<Rightarrow> nat option \<Rightarrow> fbb_file list \<Rightarrow> sup" where
  "register_inputs fs s rp [] = s"
| "register_inputs fs s rp (file # files) =
     register_inputs fs
       (register_opt fs s rp (ff_path file)
          (\<lambda>env. FileUsageUpdate_info env (ff_path file) (file_to_file_info file) False False)) rp files"

fun register_notexist :: "files \<Rightarrow> sup \<Rightarrow> nat option \<Rightarrow> string list \<Rightarrow> sup" where
  "register_notexist fs s rp [] = s"
| "register_notexist fs s rp (path # paths) =
     register_notexist fs
       (register_opt fs s rp path (\<lambda>env. FileUsageUpdate env path NOTEXIST False False)) rp paths"

text \<open>
  The contents of one regular file: \<open>Inl\<close> is \<open>return false\<close>, with the state that is left behind.  The blobs that were not
  used yet are returned with the files.
\<close>

definition restore_contents ::
    "cache_config \<Rightarrow> files \<Rightarrow> process_inputs \<Rightarrow> fbb_file \<Rightarrow> string list \<Rightarrow> (files + files \<times> string list) option" where
  "restore_contents cfg fs inputs file blobs =
     (let path = ff_path file in
      if ff_inline_data file \<noteq> [] then
        (case sys_open_write fs path True True 0x1A4 of
           Inl _ \<Rightarrow> Some (Inl fs)
         | Inr fs1 \<Rightarrow> Some (Inr (sys_pwrite fs1 path 0 (ff_inline_data file), blobs)))
      else
        (case blobs of
           [] \<Rightarrow> None
         | b # bs \<Rightarrow>
             (case retrieve_file cfg fs b path False (ff_compressed_hash file \<noteq> None) of
                None \<Rightarrow> None
              | Some (Inr fs1) \<Rightarrow> Some (Inr (fs1, bs))
              | Some (Inl e) \<Rightarrow>
                  if e = fEACCES \<and> replaceable inputs file then
                    (case sys_unlink fs path of
                       Inl _ \<Rightarrow> None
                     | Inr fs1 \<Rightarrow>
                         (case retrieve_file cfg fs1 b path False (ff_compressed_hash file \<noteq> None) of
                            Some (Inr fs2) \<Rightarrow> Some (Inr (fs2, bs))
                          | _ \<Rightarrow> None))
                  else None)))"

definition restore_mode :: "files \<Rightarrow> fbb_file \<Rightarrow> files" where
  "restore_mode fs file =
     (case ff_mode file of
        None \<Rightarrow> fs
      | Some m \<Rightarrow> (case sys_chmod fs (ff_path file) (m AND 0x1FF) of Inl _ \<Rightarrow> fs | Inr fs' \<Rightarrow> fs'))"

definition restore_timestamp :: "files \<Rightarrow> fbb_file \<Rightarrow> files" where
  "restore_timestamp fs file =
     (case ff_timestamp_source file of
        None \<Rightarrow> fs
      | Some src \<Rightarrow>
          (case sys_stat fs src of
             None \<Rightarrow> fs
           | Some st \<Rightarrow>
               (case sys_set_mtime fs (ff_path file) (st_mtim st) of Inl _ \<Rightarrow> fs | Inr fs' \<Rightarrow> fs')))"

fun restore_files ::
    "cache_config \<Rightarrow> sup \<Rightarrow> files \<Rightarrow> nat option \<Rightarrow> process_inputs \<Rightarrow> fbb_file list \<Rightarrow> string list \<Rightarrow>
     (sup \<times> files + sup \<times> files \<times> string list) option" where
  "restore_files cfg s fs rp inputs [] blobs = Some (Inr (s, fs, blobs))"
| "restore_files cfg s fs rp inputs (file # files) blobs =
     (case (case ff_type file of
              ISREG \<Rightarrow> restore_contents cfg fs inputs file blobs
            | EXIST \<Rightarrow> Some (Inr (fs, blobs))
            | _ \<Rightarrow> None) of
        None \<Rightarrow> None
      | Some (Inl fs1) \<Rightarrow> Some (Inl (s, fs1))
      | Some (Inr (fs1, blobs')) \<Rightarrow>
          (let fs2 = restore_timestamp (restore_mode fs1 file) file;
               s' = register_opt fs2 s rp (ff_path file) (\<lambda>env. file_to_file_usage_update env (ff_path file) file)
           in restore_files cfg s' fs2 rp inputs files blobs'))"

text \<open>\<open>apply_shortcut\<close> up to the replayed data.\<close>

definition restore_outputs ::
    "cache_config \<Rightarrow> sup \<Rightarrow> files \<Rightarrow> nat \<Rightarrow> process_inputs_outputs \<Rightarrow> string list \<Rightarrow>
     (sup \<times> files + sup \<times> files \<times> string list) option" where
  "restore_outputs cfg s fs i io blobs =
     (let rp = (if x_report (s_x s) then Some i else parent_point s i);
          s1 = register_notexist fs (register_inputs fs s rp (in_path (io_inputs io))) rp (in_path_notexist (io_inputs io))
      in
      case restore_dirs s1 fs i (io_outputs io) of
        None \<Rightarrow> None
      | Some (s2, fs2) \<Rightarrow>
          (case restore_files cfg s2 fs2 rp (io_inputs io) (out_path_isreg (io_outputs io)) blobs of
             None \<Rightarrow> None
           | Some (Inl (s3, fs3)) \<Rightarrow> Some (Inl (s3, fs3))
           | Some (Inr (s3, fs3, blobs')) \<Rightarrow>
               (case remove_files_and_dirs s3 fs3 i (io_outputs io) of
                  (s4, fs4) \<Rightarrow> Some (Inr (s4, fs4, blobs')))))"

section \<open>Replaying appended data\<close>

text \<open>The recorders of the parent see the data, if the process has a parent.\<close>

definition record_in_parent ::
    "sup \<Rightarrow> nat \<Rightarrow> nat \<Rightarrow> nat \<Rightarrow> (pipe_world \<Rightarrow> nat list \<Rightarrow> recorders option) \<Rightarrow> sup option" where
  "record_in_parent s p i k f =
     (if pr_parent (proc s p) = None then Some s
      else
        (case parent_point s i of
           None \<Rightarrow> None
         | Some j \<Rightarrow>
             with_pipe s k (\<lambda>q w.
               let recs = (case p_proc2recorders q j of None \<Rightarrow> [] | Some rs \<Rightarrow> rs) in
               map_option (\<lambda>R. (q\<lparr>p_proc2recorders := (p_proc2recorders q)(j := Some recs)\<rparr>, w\<lparr>w_recorders := R\<rparr>))
                 (f w recs))))"

definition read_blob :: "string \<Rightarrow> nat \<Rightarrow> read_result" where
  "read_blob b n = ReadOk (take n b)"

definition replay_to_pipe ::
    "cache_config \<Rightarrow> sup \<Rightarrow> nat \<Rightarrow> nat \<Rightarrow> nat \<Rightarrow> fbb_append_to_fd \<Rightarrow> string list \<Rightarrow> (sup \<times> string list) option" where
  "replay_to_pipe cfg s p i k a blobs =
     (if fa_inline_data a \<noteq> [] then do {
        s1 \<leftarrow> with_pipe s k (\<lambda>q w. pipe_add_data_from_buffer q w (fa_inline_data a));
        s2 \<leftarrow> record_in_parent s1 p i k
               (\<lambda>w recs. record_data_from_buffer (w_max_inline w) (w_alloc w) (w_recorders w) recs (fa_inline_data a));
        Some (s2, blobs) }
      else
        (case blobs of
           [] \<Rightarrow> None
         | b # bs \<Rightarrow>
             if fa_compressed_hash a \<noteq> None then do {
               d \<leftarrow> unzstd cfg b;
               s1 \<leftarrow> with_pipe s k (\<lambda>q w. pipe_add_data_from_buffer q w d);
               Some (s1, bs) }
             else do {
               s1 \<leftarrow> with_pipe s k (\<lambda>q w. pipe_add_data_from_fd q w (read_blob b) (length b));
               s2 \<leftarrow> record_in_parent s1 p i k
                      (\<lambda>w recs. record_data_from_regular_fd (w_max_inline w) (w_alloc w) (w_recorders w) recs b (length b));
               Some (s2, bs) }))"

definition replay_to_file ::
    "cache_config \<Rightarrow> files \<Rightarrow> string \<Rightarrow> fbb_append_to_fd \<Rightarrow> string list \<Rightarrow> (files \<times> string list) option" where
  "replay_to_file cfg fs path a blobs =
     (if fa_inline_data a \<noteq> [] then
        (case sys_open_write fs path True False 0x1A4 of
           Inl _ \<Rightarrow> None
         | Inr fs1 \<Rightarrow> Some (sys_pwrite fs1 path (file_len fs1 path) (fa_inline_data a), blobs))
      else
        (case blobs of
           [] \<Rightarrow> None
         | b # bs \<Rightarrow>
             (case retrieve_file cfg fs b path True (fa_compressed_hash a \<noteq> None) of
                Some (Inr fs1) \<Rightarrow> Some (fs1, bs)
              | _ \<Rightarrow> None)))"

fun replay_appends ::
    "cache_config \<Rightarrow> sup \<Rightarrow> files \<Rightarrow> nat \<Rightarrow> nat \<Rightarrow> fbb_append_to_fd list \<Rightarrow> string list \<Rightarrow> int list \<Rightarrow>
     (sup \<times> files \<times> int list) option" where
  "replay_appends cfg s fs p i [] blobs fds_appended_to = Some (s, fs, fds_appended_to)"
| "replay_appends cfg s fs p i (a # as) blobs fds_appended_to =
     (case get_fd s p (fa_fd a) of
        None \<Rightarrow> None
      | Some f \<Rightarrow>
          if ofd_type (ofd_of s f) = FD_PIPE_OUT then
            (case ffd_pipe f of
               None \<Rightarrow> None
             | Some k \<Rightarrow>
                 (case replay_to_pipe cfg s p i k a blobs of
                    None \<Rightarrow> None
                  | Some (s1, blobs') \<Rightarrow>
                      replay_appends cfg (handle_write_to_inherited s1 p (fa_fd a) False) fs p i as blobs' fds_appended_to))
          else if ofd_type (ofd_of s f) = FD_FILE then
            (case ofd_filename (ofd_of s f) of
               None \<Rightarrow> None
             | Some path \<Rightarrow>
                 (case replay_to_file cfg fs path a blobs of
                    None \<Rightarrow> None
                  | Some (fs1, blobs') \<Rightarrow>
                      replay_appends cfg (handle_write_to_inherited s p (fa_fd a) False) fs1 p i as blobs'
                        (fds_appended_to @ [fa_fd a])))
          else None)"

section \<open>The whole shortcut\<close>

text \<open>\<open>apply_shortcut\<close>: \<open>Inl\<close> is \<open>false\<close>.\<close>

definition apply_shortcut ::
    "cache_config \<Rightarrow> sup \<Rightarrow> files \<Rightarrow> caches \<Rightarrow> nat \<Rightarrow> nat \<Rightarrow> process_inputs_outputs \<Rightarrow>
     (sup \<times> files + sup \<times> files \<times> int list) option" where
  "apply_shortcut cfg s fs k p i io =
     (case open_blobs k (blobs_needed (io_outputs io)) of
        None \<Rightarrow> None
      | Some None \<Rightarrow> Some (Inl (s, fs))
      | Some (Some blobs) \<Rightarrow>
          (case restore_outputs cfg s fs i io blobs of
             None \<Rightarrow> None
           | Some (Inl (s1, fs1)) \<Rightarrow> Some (Inl (s1, fs1))
           | Some (Inr (s1, fs1, blobs')) \<Rightarrow> do {
               (s2, fs2, fds) \<leftarrow> replay_appends cfg s1 fs1 p i (out_append_to_fd (io_outputs io)) blobs' [];
               f \<leftarrow> pr_fork_point (proc s2 p);
               x \<leftarrow> pr_fork (proc s2 f);
               Some (Inr (set_fork f (x\<lparr>fk_exit_status := out_exit_status (io_outputs io)\<rparr>) s2, fs2, fds)) }))"

text \<open>The counters of the cacher and the fingerprints by exec node.\<close>

record cacher =
  no_store :: bool
  no_fetch :: bool
  shortcut_attempts :: int
  shortcut_hits :: int
  fingerprints :: "nat \<Rightarrow> hash_t"
  shortcut_results :: "nat \<Rightarrow> shortcut_result option"

text \<open>
  \<open>shortcut\<close>: the state of the supervisor, the files, the cache directories and the counters afterwards, the list
  of descriptors that were appended to and the returned value.
\<close>

definition shortcut ::
    "cache_config \<Rightarrow> (string \<Rightarrow> process_inputs_outputs option) \<Rightarrow> cacher \<Rightarrow> sup \<Rightarrow> files \<Rightarrow> caches \<Rightarrow> nat \<Rightarrow>
     (cacher \<times> sup \<times> files \<times> caches \<times> int list \<times> bool) option" where
  "shortcut cfg read_entry c s fs k p =
     (let i = exec_point s p in
      if no_fetch c then Some (c, s, fs, k, [], False)
      else
        (let c1 = c\<lparr>shortcut_attempts := shortcut_attempts c + 1\<rparr>;
             was = (\<lambda>b s. s\<lparr>s_execs := (s_execs s)[i := (s_execs s ! i)\<lparr>xi_was_shortcut := b\<rparr>]\<rparr>)
         in
         case (if en_can_shortcut (node (s_x s) i)
               then find_shortcut cfg read_entry s fs k (fingerprints c1 i) (shortcut_results c1 i)
               else Some (s, shortcut_results c1 i, None)) of
           None \<Rightarrow> None
         | Some (s1, res, None) \<Rightarrow>
             Some (c1\<lparr>shortcut_results := (shortcut_results c1)(i := res)\<rparr>, was False s1, fs, k, [], False)
         | Some (s1, res, Some (subkey, io)) \<Rightarrow>
             (let c2 = c1\<lparr>shortcut_results := (shortcut_results c1)(i := res)\<rparr> in
              case apply_shortcut cfg s1 fs k p i io of
                None \<Rightarrow> None
              | Some (Inl (s2, fs2)) \<Rightarrow>
                  Some (if x_report (s_x s)
                        then c2\<lparr>shortcut_results := (shortcut_results c2)(i := Some ApplyFailed)\<rparr> else c2,
                        was False s2, fs2, k, [], False)
              | Some (Inr (s2, fs2, fds)) \<Rightarrow>
                  (let s3 = (case io_cpu_time_ms io of
                               None \<Rightarrow> s2
                             | Some t \<Rightarrow>
                                 s2\<lparr>s_execs := (s_execs s2)[i := (s_execs s2 ! i)
                                   \<lparr>xi_shortcut_cpu_time_ms := xi_shortcut_cpu_time_ms (s_execs s2 ! i) + t\<rparr>]\<rparr>)
                   in Some (c2\<lparr>shortcut_hits := shortcut_hits c2 + 1\<rparr>, was True s3, fs2,
                            mark_as_used k (fingerprints c2 i) subkey, fds, True)))))"

end
