(* ===== verification/FB_Matching.thy ===== *)
theory FB_Matching
  imports FB_Shortcut
begin

text \<open>
  \<open>find_shortcut\<close> against the file system: the entry it picks has inputs that describe the present files, and it is
  the newest such entry among the first \<open>shortcut_tries + 1\<close>.
\<close>

section \<open>A cache that is up to date\<close>

text \<open>
  \<open>cache_current\<close> is what the hash cache relies on: an entry of a read-only location is still valid, and an
  entry whose metadata is unchanged has the present contents and mode.
\<close>

definition entry_now :: "(string \<Rightarrow> stat_key \<Rightarrow> hash_t) \<Rightarrow> os \<Rightarrow> string \<Rightarrow> hash_cache_entry \<Rightarrow> bool" where
  "entry_now F w p e \<longleftrightarrow>
     (case os_stat w p of
        Some st \<Rightarrow>
          if plain st then ent_ok F p e \<and> ent_key e = st_key st \<and> fi_mode (ent_info e) = st_mode st AND 0xFFF
          else fi_type (ent_info e) = NOTEXIST
      | None \<Rightarrow> fi_type (ent_info e) = NOTEXIST)"

definition cache_current :: "locations \<Rightarrow> (string \<Rightarrow> stat_key \<Rightarrow> hash_t) \<Rightarrow> os \<Rightarrow> hash_cache \<Rightarrow> bool" where
  "cache_current locs F w db \<longleftrightarrow>
     (\<forall>p e. db p = Some e \<longrightarrow>
        (if in_read_only_location locs p then entry_now F w p e
         else ent_ok F p e \<and> (\<forall>st. os_stat w p = Some st \<and> ent_key e = st_key st \<longrightarrow>
                                 fi_mode (ent_info e) = st_mode st AND 0xFFF)))"

lemma cache_current_coherent: "cache_current locs F w db \<Longrightarrow> coherent locs F db"
  by (simp add: cache_current_def coherent_def)

lemma cache_current_fresh: "cache_current locs F w db \<Longrightarrow> \<not> in_read_only_location locs p \<Longrightarrow> fresh_mode db w p"
  by (auto simp: cache_current_def fresh_mode_def)

lemma cache_current_upd:
  assumes "cache_current locs F w db" "entry_now F w p e" "\<not> in_read_only_location locs p \<Longrightarrow> ent_ok F p e"
  shows "cache_current locs F w (db(p := Some e))"
proof -
  have "\<forall>st. os_stat w p = Some st \<and> ent_key e = st_key st \<longrightarrow> fi_mode (ent_info e) = st_mode st AND 0xFFF"
    if "\<not> in_read_only_location locs p"
  proof (intro allI impI, elim conjE)
    fix st assume st: "os_stat w p = Some st" "ent_key e = st_key st"
    have "plain st"
    proof (rule ccontr)
      assume "\<not> plain st"
      then have "fi_type (ent_info e) = NOTEXIST" using assms(2) st by (simp add: entry_now_def)
      then show False using assms(3) [OF that] by (simp add: ent_ok_def)
    qed
    then show "fi_mode (ent_info e) = st_mode st AND 0xFFF" using assms(2) st by (simp add: entry_now_def)
  qed
  then show ?thesis using assms by (auto simp: cache_current_def)
qed

lemma cache_current_del: "cache_current locs F w db \<Longrightarrow> cache_current locs F w (db(p := None))"
  by (auto simp: cache_current_def)

lemma entry_now_notexist: "entry_for F w p notexist_entry \<Longrightarrow> entry_now F w p notexist_entry"
  by (auto simp: entry_for_def entry_now_def ent_ok_def notexist_entry_def new_entry_def file_info_of_type_def
      mk_file_info_def split: option.splits if_splits)

lemma update_statinfo_new:
  assumes "e = update_statinfo locs w p (-1) None (new_entry DONTKNOW)"
  shows "entry_now F w p e"
proof -
  have ro: "fi_type (ent_info (new_entry DONTKNOW)) = DONTKNOW"
    by (simp add: new_entry_def file_info_of_type_def mk_file_info_def)
  show ?thesis
  proof (cases "os_stat w p")
    case None
    then show ?thesis using assms ro by (simp add: update_statinfo_def entry_now_def)
  next
    case (Some st)
    show ?thesis
    proof (cases "plain st")
      case False
      then show ?thesis using Some assms ro by (simp add: update_statinfo_def entry_now_def plain_def)
    next
      case True
      have "\<not> same_metadata st (new_entry DONTKNOW)" using ro by (simp add: same_metadata_def)
      then have "e = refreshed st (new_entry DONTKNOW)"
        using Some True assms ro by (auto simp: update_statinfo_def plain_def)
      then show ?thesis
        using Some True refreshed_ok [OF True, of "new_entry DONTKNOW" F p] refreshed_mode [of "new_entry DONTKNOW" st]
        by (simp add: entry_now_def new_entry_mode)
    qed
  qed
qed

lemma entry_now_type: "entry_now F w p e \<Longrightarrow> fi_type (ent_info e) \<noteq> DONTKNOW"
  by (auto simp: entry_now_def ent_ok_def split: option.splits if_splits)

lemma get_entry_now:
  assumes "cache_current locs F w db" "get_entry_with_statinfo locs w db p (-1) None = (db', e)"
  shows "entry_now F w p e \<and> cache_current locs F w db' \<and> (fi_type (ent_info e) \<noteq> NOTEXIST \<longrightarrow> db' p = Some e)"
proof (cases "in_read_only_location locs p")
  case False
  note law = get_entry_with_statinfo_law [OF False cache_current_coherent [OF assms(1)] assms(2)]
  have m: "fi_mode (ent_info e) = st_mode st AND 0xFFF" if "os_stat w p = Some st" "plain st" for st
    using get_entry_mode [OF False cache_current_coherent [OF assms(1)] cache_current_fresh [OF assms(1) False] assms(2) that] .
  have now: "entry_now F w p e"
    using law m by (auto simp: entry_for_def entry_now_def notexist_entry_def new_entry_def file_info_of_type_def
        mk_file_info_def split: option.splits if_splits)
  have db: "db' = db(p := None) \<or> db' = db \<or> db' = db(p := Some e) \<and> fi_type (ent_info e) \<noteq> NOTEXIST"
    using assms(2) False by (auto simp: get_entry_with_statinfo_def Let_def split: option.splits if_splits)
  have "ent_ok F p e" if "fi_type (ent_info e) \<noteq> NOTEXIST"
    using now that by (auto simp: entry_now_def split: option.splits if_splits)
  then have "cache_current locs F w db'"
    using db cache_current_upd [OF assms(1) now] cache_current_del [OF assms(1)] assms(1) by auto
  then show ?thesis using now law by simp
next
  case True
  show ?thesis
  proof (cases "db p")
    case None
    let ?e = "update_statinfo locs w p (-1) None (new_entry DONTKNOW)"
    have e: "db' = db(p := Some e)" "e = ?e"
      using assms(2) None True by (auto simp: get_entry_with_statinfo_def Let_def)
    have now: "entry_now F w p e" by (rule update_statinfo_new [OF e(2)])
    then show ?thesis using cache_current_upd [OF assms(1) now] True e(1) by simp
  next
    case (Some e0)
    then have now: "entry_now F w p e0" using assms(1) True by (auto simp: cache_current_def)
    then have "update_statinfo locs w p (-1) None e0 = e0"
      using True entry_now_type [OF now] by (simp add: update_statinfo_def)
    then have "db' = db(p := Some e0)" "e = e0"
      using assms(2) Some True by (auto simp: get_entry_with_statinfo_def Let_def)
    then show ?thesis using now Some assms(1) by (simp add: fun_upd_idem)
  qed
qed

lemma get_hash_now:
  assumes "cache_current locs F w db" "consistent F w" "os_stat w p = Some st" "plain st" "db p = Some e0"
    and "entry_now F w p e0" "os_writers w p \<le> 0"
    and "get_entry_with_statinfo_and_hash locs w db p 0 (-1) None False True = (db', e, s)"
  shows "cache_current locs F w db' \<and> (path_hash w p st \<noteq> None \<longrightarrow>
    fi_type (ent_info e) \<in> {ISREG, ISDIR} \<and> fi_hash_known (ent_info e) \<and> fi_hash (ent_info e) = F p (st_key st))"
proof -
  have k: "ent_ok F p e0" "ent_key e0 = st_key st" "fi_mode (ent_info e0) = st_mode st AND 0xFFF"
    using assms(3,4,6) by (auto simp: entry_now_def)
  obtain e1 ok stored where u: "update_hash locs w p (-1) None e0 False True = (e1, ok, stored)" by (metis prod_cases3)
  note law = update_hash_skip [OF assms(2-4) k(1,2) u]
  have m: "fi_mode (ent_info e1) = fi_mode (ent_info e0)"
    using u by (auto simp: update_hash_def Let_def set_hash_def split: if_splits option.splits)
  have r: "if ok then e = e1 \<and> db' = db(p := Some e1) else e = notexist_entry \<and> db' = db(p := None)"
    using assms(5,7,8) u law by (auto simp: get_entry_with_statinfo_and_hash_def ent_ok_def split: if_splits)
  show ?thesis
  proof (cases ok)
    case True
    then have now: "entry_now F w p e1" using law m k assms(3,4) by (simp add: entry_now_def)
    show ?thesis
      using True r law cache_current_upd [OF assms(1) now] by (auto simp: ent_ok_def)
  next
    case False
    then show ?thesis using r law cache_current_del [OF assms(1)] by simp
  qed
qed

text \<open>Nobody writes the path, and if there is a file or directory it can be read.\<close>

definition quiet :: "os \<Rightarrow> string \<Rightarrow> bool" where
  "quiet w p \<longleftrightarrow> os_writers w p \<le> 0 \<and>
     (\<forall>st. os_stat w p = Some st \<and> plain st \<longrightarrow> path_hash w p st \<noteq> None)"

lemma match_type_missing:
  "fi_type i = NOTEXIST \<Longrightarrow> fi_type q \<noteq> DONTKNOW \<Longrightarrow> match_type q i = Some (describes q Absent)"
  by (cases "fi_type q") (simp_all add: match_type_def)

lemma file_info_matches_now:
  assumes "cache_current locs F w db" "consistent F w" "\<not> in_ignore_location locs p" "quiet w p"
    and "wf_info q" "fi_type q \<noteq> DONTKNOW" "file_info_matches locs w db p q = (db', ok)"
  shows "(ok \<longleftrightarrow> describes q (file_state_of F w p)) \<and> cache_current locs F w db'"
proof -
  obtain db1 e where g: "get_entry_with_statinfo locs w db p (-1) None = (db1, e)"
    by (cases "get_entry_with_statinfo locs w db p (-1) None")
  note law = get_entry_now [OF assms(1) g]
  show ?thesis
  proof (cases "\<exists>st. os_stat w p = Some st \<and> plain st")
    case False
    then have n: "fi_type (ent_info e) = NOTEXIST" and a: "file_state_of F w p = Absent"
      using law by (auto simp: entry_now_def file_state_of_def plain_def split: option.splits if_splits)
    show ?thesis
      using g law assms(3,7) match_type_missing [OF n assms(6)] a by (auto simp: file_info_matches_def)
  next
    case True
    then obtain st where st: "os_stat w p = Some st" "plain st" by blast
    then have e: "ent_ok F p e" "ent_key e = st_key st" "fi_mode (ent_info e) = st_mode st AND 0xFFF"
      using law by (auto simp: entry_now_def)
    then have d1: "db1 p = Some e" using law by (auto simp: ent_ok_def)
    note m = match_entry [OF st e assms(5,6)]
    obtain db2 e2 s where g2: "get_entry_with_statinfo_and_hash locs w db1 p 0 (-1) None False True = (db2, e2, s)"
      by (metis prod_cases3)
    have r: "os_writers w p \<le> 0" "path_hash w p st \<noteq> None" using assms(4) st by (auto simp: quiet_def)
    note law2 = get_hash_now [OF conjunct1 [OF conjunct2 [OF law]] assms(2) st d1 conjunct1 [OF law] r(1) g2]
    have h: "fi_hash_known (ent_info e) \<Longrightarrow> fi_hash (ent_info e) = F p (st_key st)"
      using e by (simp add: ent_ok_def)
    show ?thesis
      using assms(3,7) g g2 m law law2 r(2) h
      by (auto simp: file_info_matches_def split: option.splits if_splits)
  qed
qed

section \<open>Matching an entry\<close>

text \<open>An input of an entry as \<open>add_file\<close> makes it from a well-formed state that is known.\<close>

definition wf_input :: "locations \<Rightarrow> os \<Rightarrow> fbb_file \<Rightarrow> bool" where
  "wf_input locs w f \<longleftrightarrow>
     \<not> in_ignore_location locs (ff_path f) \<and> quiet w (ff_path f) \<and>
     wf_info (file_to_file_info f) \<and> fi_type (file_to_file_info f) \<noteq> DONTKNOW"

definition wf_inputs :: "locations \<Rightarrow> os \<Rightarrow> process_inputs \<Rightarrow> bool" where
  "wf_inputs locs w pi \<longleftrightarrow>
     (\<forall>f\<in>set (in_path pi). wf_input locs w f) \<and>
     (\<forall>p\<in>set (in_path_notexist pi). \<not> in_ignore_location locs p \<and> quiet w p)"

definition inputs_hold :: "(string \<Rightarrow> stat_key \<Rightarrow> hash_t) \<Rightarrow> os \<Rightarrow> process_inputs \<Rightarrow> bool" where
  "inputs_hold F w pi \<longleftrightarrow>
     (\<forall>f\<in>set (in_path pi). describes (file_to_file_info f) (file_state_of F w (ff_path f))) \<and>
     (\<forall>p\<in>set (in_path_notexist pi). file_state_of F w p = Absent)"

definition output_blocked :: "files \<Rightarrow> process_inputs \<Rightarrow> fbb_file \<Rightarrow> bool" where
  "output_blocked fs pi f \<longleftrightarrow>
     ff_type f = ISREG \<and> sys_access_w fs (ff_path f) = Some fEACCES \<and> \<not> replaceable pi f"

definition applicable_now ::
    "(string \<Rightarrow> stat_key \<Rightarrow> hash_t) \<Rightarrow> os \<Rightarrow> files \<Rightarrow> process_inputs_outputs \<Rightarrow> bool" where
  "applicable_now F w fs io \<longleftrightarrow>
     inputs_hold F w (io_inputs io) \<and> (\<forall>f\<in>set (out_path_isreg (io_outputs io)). \<not> output_blocked fs (io_inputs io) f)"

lemma inputs_match_now:
  assumes "cache_current locs F w db" "consistent F w" "\<forall>f\<in>set files. wf_input locs w f"
    and "inputs_match locs w sk db files = (db', r)"
  shows "cache_current locs F w db' \<and>
    (r = None \<longleftrightarrow> (\<forall>f\<in>set files. describes (file_to_file_info f) (file_state_of F w (ff_path f))))"
  using assms
proof (induction locs w sk db files rule: inputs_match.induct)
  case (2 locs w sk db f files)
  obtain db1 ok where m: "file_info_matches locs w db (ff_path f) (file_to_file_info f) = (db1, ok)" by fastforce
  have now: "(ok \<longleftrightarrow> describes (file_to_file_info f) (file_state_of F w (ff_path f))) \<and> cache_current locs F w db1"
    using 2(4) by (intro file_info_matches_now [OF 2(2,3) _ _ _ _ m]) (auto simp: wf_input_def)
  show ?case
  proof (cases ok)
    case True
    then show ?thesis using 2(1) [OF m [symmetric] True] 2(3-5) m now by simp
  qed (use 2(5) m now in auto)
qed simp

lemma describes_notexist: "describes (file_info_of_type NOTEXIST) x \<longleftrightarrow> x = Absent"
  by (cases x) (simp_all add: file_info_of_type_def mk_file_info_def)

lemma wf_notexist: "wf_info (file_info_of_type NOTEXIST)" "fi_type (file_info_of_type NOTEXIST) \<noteq> DONTKNOW"
  by (simp_all add: wf_info_def file_info_of_type_def mk_file_info_def)

lemma notexist_match_now:
  assumes "cache_current locs F w db" "consistent F w"
    and "\<forall>p\<in>set paths. \<not> in_ignore_location locs p \<and> quiet w p"
    and "notexist_match locs w sk db paths = (db', r)"
  shows "cache_current locs F w db' \<and> (r = None \<longleftrightarrow> (\<forall>p\<in>set paths. file_state_of F w p = Absent))"
  using assms
proof (induction locs w sk db paths rule: notexist_match.induct)
  case (2 locs w sk db p paths)
  obtain db1 ok where m: "file_info_matches locs w db p (file_info_of_type NOTEXIST) = (db1, ok)" by fastforce
  have now: "(ok \<longleftrightarrow> file_state_of F w p = Absent) \<and> cache_current locs F w db1"
    using 2(4) file_info_matches_now [OF 2(2,3) _ _ wf_notexist m] by (auto simp: describes_notexist)
  show ?case
  proof (cases ok)
    case True
    then show ?thesis using 2(1) [OF m [symmetric] True] 2(3-5) m now by simp
  qed (use 2(5) m now in auto)
qed simp

lemma outputs_writable_iff:
  "outputs_writable fs pi files = None \<longleftrightarrow> (\<forall>f\<in>set files. \<not> output_blocked fs pi f)"
  by (induction files) (auto simp: output_blocked_def)

lemma pio_matches_now:
  assumes "cache_current locs F w db" "consistent F w" "wf_inputs locs w (io_inputs io)"
    and "pio_matches_fs locs w fs sk db io = (db', r)"
  shows "cache_current locs F w db' \<and> (r = None \<longleftrightarrow> applicable_now F w fs io)"
proof -
  obtain db1 r1 where i: "inputs_match locs w sk db (in_path (io_inputs io)) = (db1, r1)" by fastforce
  obtain db2 r2 where n: "notexist_match locs w sk db1 (in_path_notexist (io_inputs io)) = (db2, r2)" by fastforce
  have w: "\<forall>f\<in>set (in_path (io_inputs io)). wf_input locs w f"
    "\<forall>p\<in>set (in_path_notexist (io_inputs io)). \<not> in_ignore_location locs p \<and> quiet w p"
    using assms(3) by (auto simp: wf_inputs_def)
  note ir = inputs_match_now [OF assms(1,2) w(1) i]
  note nr = notexist_match_now [OF conjunct1 [OF ir] assms(2) w(2) n]
  show ?thesis
    using assms(4) i n ir nr
    by (auto simp: pio_matches_fs_def applicable_now_def inputs_hold_def outputs_writable_iff
        simp del: file_info_of_type_def split: option.splits)
qed

section \<open>The candidates\<close>

text \<open>The entry a candidate holds; \<open>Some None\<close> if it cannot be retrieved.\<close>

definition candidate ::
    "cache_config \<Rightarrow> (string \<Rightarrow> process_inputs_outputs option) \<Rightarrow> cnode \<Rightarrow> hash_t \<Rightarrow> string \<Rightarrow> process_inputs_outputs option option" where
  "candidate cfg read_entry objs key sk =
     (case obj_retrieve cfg objs (cached_obj_name key sk) of
        None \<Rightarrow> None
      | Some None \<Rightarrow> Some None
      | Some (Some (buf, _)) \<Rightarrow> (case read_entry buf of None \<Rightarrow> None | Some io \<Rightarrow> Some (Some io)))"

fun first_applicable ::
    "(string \<Rightarrow> process_inputs_outputs option option) \<Rightarrow> (process_inputs_outputs \<Rightarrow> bool) \<Rightarrow> string list \<Rightarrow>
     (string \<times> process_inputs_outputs) option" where
  "first_applicable cand ok [] = None"
| "first_applicable cand ok (sk # sks) =
     (case cand sk of
        Some (Some io) \<Rightarrow> if ok io then Some (sk, io) else first_applicable cand ok sks
      | _ \<Rightarrow> first_applicable cand ok sks)"

lemma try_candidates_now:
  assumes "cache_current locs F w db" "consistent F w" "0 \<le> attempts"
    and "\<forall>sk\<in>set sks. case candidate cfg read_entry objs key sk of
           None \<Rightarrow> False | Some None \<Rightarrow> True | Some (Some io) \<Rightarrow> wf_inputs locs w (io_inputs io)"
  shows "\<exists>db' res'. cache_current locs F w db' \<and>
    try_candidates cfg read_entry locs w fs objs key report attempts db res sks =
      Some (db', res', first_applicable (candidate cfg read_entry objs key) (applicable_now F w fs)
                         (take (nat (shortcut_tries cfg + 1 - attempts)) sks))"
  using assms
proof (induction sks arbitrary: attempts db res)
  case (Cons sk sks)
  show ?case
  proof (cases "attempts > shortcut_tries cfg")
    case True
    then show ?thesis using Cons.prems(1) by simp
  next
    case False
    then have n: "nat (shortcut_tries cfg + 1 - attempts) = Suc (nat (shortcut_tries cfg + 1 - (attempts + 1)))"
      using Cons.prems(3) by simp
    have rest: "\<exists>db' res'. cache_current locs F w db' \<and>
      try_candidates cfg read_entry locs w fs objs key report (attempts + 1) d r sks =
        Some (db', res', first_applicable (candidate cfg read_entry objs key) (applicable_now F w fs)
                           (take (nat (shortcut_tries cfg + 1 - (attempts + 1))) sks))"
      if "cache_current locs F w d" for d r
      using Cons.IH [OF that Cons.prems(2), of "attempts + 1" r] Cons.prems(3,4) by simp
    show ?thesis
    proof (cases "candidate cfg read_entry objs key sk")
      case None
      then show ?thesis using Cons.prems(4) by simp
    next
      case c: (Some m)
      show ?thesis
      proof (cases m)
        case None
        then have "obj_retrieve cfg objs (cached_obj_name key sk) = Some None"
          using c by (auto simp: candidate_def split: option.splits)
        then show ?thesis using rest [OF Cons.prems(1)] False c None unfolding n by simp
      next
        case (Some io)
        then obtain buf x where b: "obj_retrieve cfg objs (cached_obj_name key sk) = Some (Some (buf, x))"
          "read_entry buf = Some io" using c by (auto simp: candidate_def split: option.splits)
        obtain db1 r1 where m: "pio_matches_fs locs w fs sk db io = (db1, r1)" by fastforce
        have "wf_inputs locs w (io_inputs io)" using Cons.prems(4) c Some by simp
        note now = pio_matches_now [OF Cons.prems(1,2) this m]
        show ?thesis
        proof (cases r1)
          case None
          then show ?thesis using now b m c Some False unfolding n by simp
        next
          case (Some r)
          then show ?thesis
            using rest [of db1 "if report \<and> res = None then Some r else res"] now b m c \<open>m = Some io\<close> False
            unfolding n by simp
        qed
      qed
    qed
  qed
qed simp

end
