(* ===== verification/FB_EntryFormat.thy ===== *)
theory FB_EntryFormat
  imports FB_CacheEntry FB_FbbRead "HOL-Library.Monad_Syntax"
begin

text \<open>
  The serialized form of a cache entry: the messages of \<^verbatim>\<open>src/firebuild/fbbstore.def\<close> for the templates of \<open>FB_Fbb\<close>, the
  builders that \<open>add_file\<close> and \<open>store\<close> fill in, and the reading of an entry through the getters.
\<close>

section \<open>Messages\<close>

abbreviation size_t_type :: field_type where "size_t_type \<equiv> SCALAR 8 8"
abbreviation XXH128_hash_type :: field_type where "XXH128_hash_type \<equiv> SCALAR 16 8"
abbreviation mode_t_type :: field_type where "mode_t_type \<equiv> SCALAR 4 4"
abbreviation int_type :: field_type where "int_type \<equiv> SCALAR 4 4"
abbreviation char_type :: field_type where "char_type \<equiv> SCALAR 1 1"

abbreviation (input) TAG_file :: nat where "TAG_file \<equiv> 1"
abbreviation (input) TAG_append_to_fd :: nat where "TAG_append_to_fd \<equiv> 3"
abbreviation (input) TAG_process_inputs :: nat where "TAG_process_inputs \<equiv> 4"
abbreviation (input) TAG_process_outputs :: nat where "TAG_process_outputs \<equiv> 5"
abbreviation (input) TAG_process_inputs_outputs :: nat where "TAG_process_inputs_outputs \<equiv> 6"

definition fbbstore :: messages where
  "fbbstore =
     [(''file'',
       [(REQUIRED, STRING, ''path''), (REQUIRED, int_type, ''type''), (OPTIONAL, size_t_type, ''size''),
        (OPTIONAL, XXH128_hash_type, ''hash''), (OPTIONAL, XXH128_hash_type, ''compressed_hash''),
        (OPTIONAL, mode_t_type, ''mode''), (OPTIONAL, mode_t_type, ''mode_mask''),
        (ARRAY, char_type, ''inline_data''), (OPTIONAL, STRING, ''timestamp_source'')]),
      (''dir'', [(REQUIRED, STRING, ''path''), (ARRAY, STRING, ''entry'')]),
      (''append_to_fd'',
       [(REQUIRED, int_type, ''fd''), (OPTIONAL, XXH128_hash_type, ''hash''),
        (OPTIONAL, XXH128_hash_type, ''compressed_hash''), (ARRAY, char_type, ''inline_data'')]),
      (''process_inputs'', [(ARRAY, FBB, ''path''), (ARRAY, STRING, ''path_notexist'')]),
      (''process_outputs'',
       [(ARRAY, FBB, ''path_isreg''), (ARRAY, FBB, ''path_isdir''), (ARRAY, STRING, ''path_notexist''),
        (ARRAY, FBB, ''append_to_fd''), (REQUIRED, int_type, ''exit_status'')]),
      (''process_inputs_outputs'',
       [(REQUIRED, FBB, ''inputs''), (REQUIRED, FBB, ''outputs''), (OPTIONAL, int_type, ''cpu_time_ms'')])]"

section \<open>Scalars in memory\<close>

fun le_bytes :: "nat \<Rightarrow> nat \<Rightarrow> string" where
  "le_bytes 0 n = []"
| "le_bytes (Suc k) n = char_of n # le_bytes k (n div 256)"

fun le_nat :: "string \<Rightarrow> nat" where
  "le_nat [] = 0"
| "le_nat (c # cs) = of_char c + 256 * le_nat cs"

definition int32 :: "int \<Rightarrow> string" where
  "int32 n = le_bytes 4 (unat (word_of_int n :: 32 word))"

definition int32_of :: "string \<Rightarrow> int" where
  "int32_of bs = sint (word_of_nat (le_nat bs) :: 32 word)"

definition int64 :: "int \<Rightarrow> string" where
  "int64 n = le_bytes 8 (unat (word_of_int n :: 64 word))"

definition int64_of :: "string \<Rightarrow> int" where
  "int64_of bs = sint (word_of_nat (le_nat bs) :: 64 word)"

definition hash_bytes :: "hash_t \<Rightarrow> string" where
  "hash_bytes h = le_bytes 16 (unat h)"

definition hash_of :: "string \<Rightarrow> hash_t" where
  "hash_of bs = word_of_nat (le_nat bs)"

definition mode_bytes :: "mode_t \<Rightarrow> string" where
  "mode_bytes m = le_bytes 4 (unat m)"

definition mode_of :: "string \<Rightarrow> mode_t" where
  "mode_of bs = word_of_nat (le_nat bs)"

section \<open>Building an entry\<close>

definition file_builder :: "fbb_file \<Rightarrow> builder" where
  "file_builder f =
     Builder TAG_file
       [FString (Some (ff_path f)), FScalar (Some (int32 (file_type_to_int (ff_type f)))),
        FScalar (map_option int64 (ff_size f)), FScalar (map_option hash_bytes (ff_hash f)),
        FScalar (map_option hash_bytes (ff_compressed_hash f)), FScalar (map_option mode_bytes (ff_mode f)),
        FScalar (map_option mode_bytes (ff_mode_mask f)), FScalars (map (\<lambda>c. [c]) (ff_inline_data f)),
        FString (ff_timestamp_source f)]"

definition append_to_fd_builder :: "fbb_append_to_fd \<Rightarrow> builder" where
  "append_to_fd_builder a =
     Builder TAG_append_to_fd
       [FScalar (Some (int32 (fa_fd a))), FScalar (map_option hash_bytes (fa_hash a)),
        FScalar (map_option hash_bytes (fa_compressed_hash a)), FScalars (map (\<lambda>c. [c]) (fa_inline_data a))]"

definition inputs_builder :: "process_inputs \<Rightarrow> builder" where
  "inputs_builder pi =
     Builder TAG_process_inputs [FFbbs (map file_builder (in_path pi)), FStrings (in_path_notexist pi)]"

definition outputs_builder :: "process_outputs \<Rightarrow> builder" where
  "outputs_builder po =
     Builder TAG_process_outputs
       [FFbbs (map file_builder (out_path_isreg po)), FFbbs (map file_builder (out_path_isdir po)),
        FStrings (out_path_notexist po), FFbbs (map append_to_fd_builder (out_append_to_fd po)),
        FScalar (Some (int32 (out_exit_status po)))]"

definition entry_builder :: "process_inputs_outputs \<Rightarrow> builder" where
  "entry_builder io =
     Builder TAG_process_inputs_outputs
       [FFbb (Some (inputs_builder (io_inputs io))), FFbb (Some (outputs_builder (io_outputs io))),
        FScalar (map_option int32 (io_cpu_time_ms io))]"

definition serialize_entry :: "process_inputs_outputs \<Rightarrow> string" where
  "serialize_entry io = builder_serialize fbbstore (entry_builder io)"

section \<open>Reading an entry\<close>

text \<open>An optional scalar, an array of characters and the nested messages of an array.\<close>

definition read_optional :: "nat \<Rightarrow> nat \<Rightarrow> string \<Rightarrow> string option option" where
  "read_optional tag k mem =
     (case serialized_has fbbstore tag k mem of
        None \<Rightarrow> None
      | Some b \<Rightarrow> if b then map_option Some (serialized_get_scalar fbbstore tag k mem) else Some None)"

definition read_chars :: "nat \<Rightarrow> nat \<Rightarrow> string \<Rightarrow> string option" where
  "read_chars tag k mem =
     (case serialized_get_count fbbstore tag k mem of
        None \<Rightarrow> None
      | Some n \<Rightarrow> map_option concat (those (map (\<lambda>i. serialized_get_scalar_at fbbstore tag k i mem) [0..<n])))"

definition read_strings :: "nat \<Rightarrow> nat \<Rightarrow> string \<Rightarrow> string list option" where
  "read_strings tag k mem = Option.bind (serialized_get_as_vector fbbstore tag k mem) those"

definition read_fbbs :: "(string \<Rightarrow> 'a option) \<Rightarrow> nat \<Rightarrow> nat \<Rightarrow> string \<Rightarrow> 'a list option" where
  "read_fbbs rd tag k mem =
     (case serialized_get_count fbbstore tag k mem of
        None \<Rightarrow> None
      | Some n \<Rightarrow> those (map (\<lambda>i. Option.bind (serialized_get_at fbbstore tag k i mem) rd) [0..<n]))"

definition read_fbb :: "(string \<Rightarrow> 'a option) \<Rightarrow> nat \<Rightarrow> nat \<Rightarrow> string \<Rightarrow> 'a option" where
  "read_fbb rd tag k mem = (case serialized_get fbbstore tag k mem of Some (Some p) \<Rightarrow> rd p | _ \<Rightarrow> None)"

definition read_string :: "nat \<Rightarrow> nat \<Rightarrow> string \<Rightarrow> string option option" where
  "read_string tag k mem =
     (case serialized_has fbbstore tag k mem of
        None \<Rightarrow> None
      | Some b \<Rightarrow> if b then map_option Some (serialized_get_as_string fbbstore tag k mem) else Some None)"

definition read_file :: "string \<Rightarrow> fbb_file option" where
  "read_file mem = do {
     path \<leftarrow> serialized_get_as_string fbbstore TAG_file 0 mem;
     t \<leftarrow> serialized_get_scalar fbbstore TAG_file 1 mem;
     ty \<leftarrow> int_to_file_type (int32_of t);
     sz \<leftarrow> read_optional TAG_file 2 mem;
     h \<leftarrow> read_optional TAG_file 3 mem;
     ch \<leftarrow> read_optional TAG_file 4 mem;
     m \<leftarrow> read_optional TAG_file 5 mem;
     mm \<leftarrow> read_optional TAG_file 6 mem;
     d \<leftarrow> read_chars TAG_file 7 mem;
     ts \<leftarrow> read_string TAG_file 8 mem;
     Some \<lparr>ff_path = path, ff_type = ty, ff_size = map_option int64_of sz, ff_hash = map_option hash_of h,
       ff_compressed_hash = map_option hash_of ch, ff_mode = map_option mode_of m, ff_mode_mask = map_option mode_of mm,
       ff_inline_data = d, ff_timestamp_source = ts\<rparr> }"

definition read_append_to_fd :: "string \<Rightarrow> fbb_append_to_fd option" where
  "read_append_to_fd mem = do {
     fd \<leftarrow> serialized_get_scalar fbbstore TAG_append_to_fd 0 mem;
     h \<leftarrow> read_optional TAG_append_to_fd 1 mem;
     ch \<leftarrow> read_optional TAG_append_to_fd 2 mem;
     d \<leftarrow> read_chars TAG_append_to_fd 3 mem;
     Some \<lparr>fa_fd = int32_of fd, fa_hash = map_option hash_of h, fa_compressed_hash = map_option hash_of ch,
       fa_inline_data = d\<rparr> }"

definition read_inputs :: "string \<Rightarrow> process_inputs option" where
  "read_inputs mem = do {
     fs \<leftarrow> read_fbbs read_file TAG_process_inputs 0 mem;
     ps \<leftarrow> read_strings TAG_process_inputs 1 mem;
     Some \<lparr>in_path = fs, in_path_notexist = ps\<rparr> }"

definition read_outputs :: "string \<Rightarrow> process_outputs option" where
  "read_outputs mem = do {
     rs \<leftarrow> read_fbbs read_file TAG_process_outputs 0 mem;
     ds \<leftarrow> read_fbbs read_file TAG_process_outputs 1 mem;
     ps \<leftarrow> read_strings TAG_process_outputs 2 mem;
     as \<leftarrow> read_fbbs read_append_to_fd TAG_process_outputs 3 mem;
     e \<leftarrow> serialized_get_scalar fbbstore TAG_process_outputs 4 mem;
     Some \<lparr>out_path_isreg = rs, out_path_isdir = ds, out_path_notexist = ps, out_append_to_fd = as,
       out_exit_status = int32_of e\<rparr> }"

definition read_entry :: "string \<Rightarrow> process_inputs_outputs option" where
  "read_entry mem = do {
     i \<leftarrow> read_fbb read_inputs TAG_process_inputs_outputs 0 mem;
     po \<leftarrow> read_fbb read_outputs TAG_process_inputs_outputs 1 mem;
     t \<leftarrow> read_optional TAG_process_inputs_outputs 2 mem;
     Some \<lparr>io_inputs = i, io_outputs = po, io_cpu_time_ms = map_option int32_of t\<rparr> }"

section \<open>Round trip\<close>

lemma length_le_bytes [simp]: "length (le_bytes k n) = k"
  by (induction k arbitrary: n) simp_all

lemma le_nat_le_bytes: "le_nat (le_bytes k n) = n mod 256 ^ k"
proof (induction k arbitrary: n)
  case (Suc k)
  have "n mod (256 * 256 ^ k) = n mod 256 + 256 * (n div 256 mod 256 ^ k)"
    by (simp add: mod_mult2_eq add.commute)
  then show ?case using Suc by (simp add: of_char_of)
qed simp

lemma scalar_lengths [simp]:
  "length (int32 n) = 4" "length (int64 n) = 8" "length (hash_bytes h) = 16" "length (mode_bytes m) = 4"
  by (simp_all add: int32_def int64_def hash_bytes_def mode_bytes_def)

lemma le_nat_unat: "256 ^ k = (2 :: nat) ^ LENGTH('a) \<Longrightarrow> le_nat (le_bytes k (unat (w :: 'a::len word))) = unat w"
  using unsigned_less [of w] by (simp add: le_nat_le_bytes)

lemma hash_of_bytes [simp]: "hash_of (hash_bytes h) = h"
  by (simp add: hash_of_def hash_bytes_def le_nat_unat)

lemma mode_of_bytes [simp]: "mode_of (mode_bytes m) = m"
  by (simp add: mode_of_def mode_bytes_def le_nat_unat)

definition is_int32 :: "int \<Rightarrow> bool" where "is_int32 n \<longleftrightarrow> - (2 ^ 31) \<le> n \<and> n < 2 ^ 31"
definition is_int64 :: "int \<Rightarrow> bool" where "is_int64 n \<longleftrightarrow> - (2 ^ 63) \<le> n \<and> n < 2 ^ 63"

lemma int32_of_int32 [simp]: "is_int32 n \<Longrightarrow> int32_of (int32 n) = n"
  by (simp add: int32_of_def int32_def le_nat_unat is_int32_def sint_sbintrunc' signed_take_bit_int_eq_self)

lemma int64_of_int64 [simp]: "is_int64 n \<Longrightarrow> int64_of (int64 n) = n"
  by (simp add: int64_of_def int64_def le_nat_unat is_int64_def sint_sbintrunc' signed_take_bit_int_eq_self)

lemma file_type_int [simp]: "int_to_file_type (file_type_to_int t) = Some t" "is_int32 (file_type_to_int t)"
  by (cases t; simp add: int_to_file_type_def is_int32_def)+

lemma those_map_Some: "(\<And>x. x \<in> set xs \<Longrightarrow> f x = Some (g x)) \<Longrightarrow> those (map f xs) = Some (map g xs)"
  by (induction xs) auto

lemma those_Some: "those (map Some xs) = Some xs"
  using those_map_Some [of xs Some "\<lambda>x. x"] by simp

text \<open>The readers against \<open>reads_field\<close>.\<close>

lemma read_optional_field:
  assumes "reads_field fbbstore tag k (FScalar x) mem" "optional_scalar (fields_of fbbstore tag ! k)"
  shows "read_optional tag k mem = Some x"
  using assms by (cases x) (auto simp: read_optional_def Let_def)

lemma read_required_field:
  "reads_field fbbstore tag k (FScalar (Some x)) mem \<Longrightarrow> serialized_get_scalar fbbstore tag k mem = Some x"
  by (simp add: Let_def)

lemma read_string_field: "reads_field fbbstore tag k (FString x) mem \<Longrightarrow> read_string tag k mem = Some x"
  by (cases x) (auto simp: read_string_def)

lemma read_path_field:
  "reads_field fbbstore tag k (FString (Some x)) mem \<Longrightarrow> serialized_get_as_string fbbstore tag k mem = Some x"
  by simp

lemma read_strings_field: "reads_field fbbstore tag k (FStrings xs) mem \<Longrightarrow> read_strings tag k mem = Some xs"
  by (simp add: read_strings_def those_Some)

lemma read_chars_field:
  assumes "reads_field fbbstore tag k (FScalars (map (\<lambda>c. [c]) d)) mem"
  shows "read_chars tag k mem = Some d"
proof -
  have "those (map (\<lambda>i. serialized_get_scalar_at fbbstore tag k i mem) [0..<length d]) = Some (map (\<lambda>i. [d ! i]) [0..<length d])"
    using assms by (intro those_map_Some) simp
  moreover have "concat (map (\<lambda>i. [d ! i]) [0..<length d]) = d" using map_nth [of d] by simp
  ultimately show ?thesis using assms by (simp add: read_chars_def)
qed

lemma read_fbbs_field:
  assumes "reads_field fbbstore tag k (FFbbs (map (\<lambda>x. reads fbbstore (enc x)) xs)) mem"
    and "\<And>x p. x \<in> set xs \<Longrightarrow> reads fbbstore (enc x) p \<Longrightarrow> rd p = Some x"
  shows "read_fbbs rd tag k mem = Some xs"
proof -
  have "those (map (\<lambda>i. Option.bind (serialized_get_at fbbstore tag k i mem) rd) [0..<length xs]) =
      Some (map (\<lambda>i. xs ! i) [0..<length xs])"
  proof (rule those_map_Some)
    fix i assume "i \<in> set [0..<length xs]"
    then obtain p where "serialized_get_at fbbstore tag k i mem = Some p" "reads fbbstore (enc (xs ! i)) p" "xs ! i \<in> set xs"
      using assms(1) by auto
    then show "Option.bind (serialized_get_at fbbstore tag k i mem) rd = Some (xs ! i)" using assms(2) by simp
  qed
  then show ?thesis using assms(1) by (simp add: read_fbbs_def map_nth)
qed

lemma read_fbb_field:
  assumes "reads_field fbbstore tag k (FFbb (Some (reads fbbstore (enc x)))) mem"
    and "\<And>p. reads fbbstore (enc x) p \<Longrightarrow> rd p = Some x"
  shows "read_fbb rd tag k mem = Some x"
  using assms by (auto simp: read_fbb_def)

lemma reads_fields:
  "reads ms (Builder tag vs) mem \<Longrightarrow> k < length vs \<Longrightarrow> reads_field ms tag k (map_fval (reads ms) (vs ! k)) mem"
  by simp

text \<open>The numbers of an entry that have the width of their C types.\<close>

definition fits_file :: "fbb_file \<Rightarrow> bool" where
  "fits_file f \<longleftrightarrow> (\<forall>n\<in>set_option (ff_size f). is_int64 n)"

definition fits_entry :: "process_inputs_outputs \<Rightarrow> bool" where
  "fits_entry io \<longleftrightarrow>
     list_all fits_file (in_path (io_inputs io)) \<and> list_all fits_file (out_path_isreg (io_outputs io)) \<and>
     list_all fits_file (out_path_isdir (io_outputs io)) \<and>
     list_all (\<lambda>a. is_int32 (fa_fd a)) (out_append_to_fd (io_outputs io)) \<and> is_int32 (out_exit_status (io_outputs io)) \<and>
     (\<forall>t\<in>set_option (io_cpu_time_ms io). is_int32 t)"

lemma map_option_id: "(\<And>x. x \<in> set_option v \<Longrightarrow> f (g x) = x) \<Longrightarrow> map_option f (map_option g v) = v"
  by (cases v) simp_all

lemma read_file_builder:
  assumes "reads fbbstore (file_builder f) mem" "fits_file f"
  shows "read_file mem = Some f"
proof -
  note r = reads_fields [OF assms(1) [unfolded file_builder_def]]
  have opt: "optional_scalar (fields_of fbbstore TAG_file ! k)" if "k \<in> {2, 3, 4, 5, 6}" for k
    using that by (auto simp: fbbstore_def fields_of_def)
  have "serialized_get_as_string fbbstore TAG_file 0 mem = Some (ff_path f)"
    "serialized_get_scalar fbbstore TAG_file 1 mem = Some (int32 (file_type_to_int (ff_type f)))"
    "read_chars TAG_file 7 mem = Some (ff_inline_data f)"
    "read_string TAG_file 8 mem = Some (ff_timestamp_source f)"
    using r [of 0] r [of 1] r [of 7] r [of 8]
    by (simp_all add: read_path_field read_required_field read_chars_field read_string_field
        del: reads_field.simps reads.simps)
  moreover have "read_optional TAG_file 2 mem = Some (map_option int64 (ff_size f))"
    "read_optional TAG_file 3 mem = Some (map_option hash_bytes (ff_hash f))"
    "read_optional TAG_file 4 mem = Some (map_option hash_bytes (ff_compressed_hash f))"
    "read_optional TAG_file 5 mem = Some (map_option mode_bytes (ff_mode f))"
    "read_optional TAG_file 6 mem = Some (map_option mode_bytes (ff_mode_mask f))"
    using r [of 2] r [of 3] r [of 4] r [of 5] r [of 6] opt
    by (simp_all add: read_optional_field del: reads_field.simps reads.simps)
  moreover have "map_option int64_of (map_option int64 (ff_size f)) = ff_size f"
    using assms(2) by (intro map_option_id) (auto simp: fits_file_def)
  ultimately show ?thesis by (simp add: read_file_def map_option_id del: option.map_comp)
qed

lemma read_append_to_fd_builder:
  assumes "reads fbbstore (append_to_fd_builder a) mem" "is_int32 (fa_fd a)"
  shows "read_append_to_fd mem = Some a"
proof -
  note r = reads_fields [OF assms(1) [unfolded append_to_fd_builder_def]]
  have opt: "optional_scalar (fields_of fbbstore TAG_append_to_fd ! k)" if "k \<in> {1, 2}" for k
    using that by (auto simp: fbbstore_def fields_of_def)
  have "serialized_get_scalar fbbstore TAG_append_to_fd 0 mem = Some (int32 (fa_fd a))"
    "read_chars TAG_append_to_fd 3 mem = Some (fa_inline_data a)"
    using r [of 0] r [of 3]
    by (simp_all add: read_required_field read_chars_field del: reads_field.simps reads.simps)
  moreover have "read_optional TAG_append_to_fd 1 mem = Some (map_option hash_bytes (fa_hash a))"
    "read_optional TAG_append_to_fd 2 mem = Some (map_option hash_bytes (fa_compressed_hash a))"
    using r [of 1] r [of 2] opt
    by (simp_all add: read_optional_field del: reads_field.simps reads.simps)
  ultimately show ?thesis
    using assms(2) by (simp add: read_append_to_fd_def map_option_id del: option.map_comp)
qed

lemma read_inputs_builder:
  assumes "reads fbbstore (inputs_builder pi) mem" "list_all fits_file (in_path pi)"
  shows "read_inputs mem = Some pi"
proof -
  note r = reads_fields [OF assms(1) [unfolded inputs_builder_def]]
  have "read_fbbs read_file TAG_process_inputs 0 mem = Some (in_path pi)"
  proof (rule read_fbbs_field [where enc = file_builder])
    show "reads_field fbbstore TAG_process_inputs 0 (FFbbs (map (\<lambda>f. reads fbbstore (file_builder f)) (in_path pi))) mem"
      using r [of 0] by (simp add: comp_def del: reads_field.simps reads.simps)
  qed (use assms(2) in \<open>auto simp: list_all_iff intro: read_file_builder\<close>)
  moreover have "read_strings TAG_process_inputs 1 mem = Some (in_path_notexist pi)"
    using r [of 1] by (simp add: read_strings_field del: reads_field.simps reads.simps)
  ultimately show ?thesis by (simp add: read_inputs_def)
qed

lemma read_outputs_builder:
  assumes "reads fbbstore (outputs_builder po) mem" "list_all fits_file (out_path_isreg po)"
    "list_all fits_file (out_path_isdir po)" "list_all (\<lambda>a. is_int32 (fa_fd a)) (out_append_to_fd po)"
    "is_int32 (out_exit_status po)"
  shows "read_outputs mem = Some po"
proof -
  note r = reads_fields [OF assms(1) [unfolded outputs_builder_def]]
  have "read_fbbs read_file TAG_process_outputs 0 mem = Some (out_path_isreg po)"
  proof (rule read_fbbs_field [where enc = file_builder])
    show "reads_field fbbstore TAG_process_outputs 0 (FFbbs (map (\<lambda>f. reads fbbstore (file_builder f)) (out_path_isreg po))) mem"
      using r [of 0] by (simp add: comp_def del: reads_field.simps reads.simps)
  qed (use assms(2) in \<open>auto simp: list_all_iff intro: read_file_builder\<close>)
  moreover have "read_fbbs read_file TAG_process_outputs 1 mem = Some (out_path_isdir po)"
  proof (rule read_fbbs_field [where enc = file_builder])
    show "reads_field fbbstore TAG_process_outputs 1 (FFbbs (map (\<lambda>f. reads fbbstore (file_builder f)) (out_path_isdir po))) mem"
      using r [of 1] by (simp add: comp_def del: reads_field.simps reads.simps)
  qed (use assms(3) in \<open>auto simp: list_all_iff intro: read_file_builder\<close>)
  moreover have "read_fbbs read_append_to_fd TAG_process_outputs 3 mem = Some (out_append_to_fd po)"
  proof (rule read_fbbs_field [where enc = append_to_fd_builder])
    show "reads_field fbbstore TAG_process_outputs 3
        (FFbbs (map (\<lambda>a. reads fbbstore (append_to_fd_builder a)) (out_append_to_fd po))) mem"
      using r [of 3] by (simp add: comp_def del: reads_field.simps reads.simps)
  qed (use assms(4) in \<open>auto simp: list_all_iff intro: read_append_to_fd_builder\<close>)
  moreover have "read_strings TAG_process_outputs 2 mem = Some (out_path_notexist po)"
    "serialized_get_scalar fbbstore TAG_process_outputs 4 mem = Some (int32 (out_exit_status po))"
    using r [of 2] r [of 4] by (simp_all add: read_strings_field read_required_field del: reads_field.simps reads.simps)
  ultimately show ?thesis using assms(5) by (simp add: read_outputs_def)
qed

lemma read_entry_builder:
  assumes "reads fbbstore (entry_builder io) mem" "fits_entry io"
  shows "read_entry mem = Some io"
proof -
  note r = reads_fields [OF assms(1) [unfolded entry_builder_def]]
  have opt: "optional_scalar (fields_of fbbstore TAG_process_inputs_outputs ! 2)"
    by (simp add: fbbstore_def fields_of_def)
  have "read_fbb read_inputs TAG_process_inputs_outputs 0 mem = Some (io_inputs io)"
  proof (rule read_fbb_field [where enc = inputs_builder])
    show "reads_field fbbstore TAG_process_inputs_outputs 0 (FFbb (Some (reads fbbstore (inputs_builder (io_inputs io))))) mem"
      using r [of 0] by (simp del: reads_field.simps reads.simps)
  qed (use assms(2) in \<open>auto simp: fits_entry_def intro: read_inputs_builder\<close>)
  moreover have "read_fbb read_outputs TAG_process_inputs_outputs 1 mem = Some (io_outputs io)"
  proof (rule read_fbb_field [where enc = outputs_builder])
    show "reads_field fbbstore TAG_process_inputs_outputs 1 (FFbb (Some (reads fbbstore (outputs_builder (io_outputs io))))) mem"
      using r [of 1] by (simp del: reads_field.simps reads.simps)
  qed (use assms(2) in \<open>auto simp: fits_entry_def intro: read_outputs_builder\<close>)
  moreover have "read_optional TAG_process_inputs_outputs 2 mem = Some (map_option int32 (io_cpu_time_ms io))"
    using r [of 2] opt by (simp add: read_optional_field del: reads_field.simps reads.simps)
  moreover have "map_option int32_of (map_option int32 (io_cpu_time_ms io)) = io_cpu_time_ms io"
    using assms(2) by (intro map_option_id) (auto simp: fits_entry_def)
  ultimately show ?thesis by (simp add: read_entry_def del: option.map_comp)
qed

section \<open>The builders are well-typed\<close>

lemma fbbstore_wf: "wf_messages fbbstore"
  by (simp add: wf_messages_def fbbstore_def)

definition sound_builder :: "builder \<Rightarrow> bool" where
  "sound_builder b \<longleftrightarrow> typed_builder fbbstore b \<and> complete fbbstore b"

lemma all_less_Suc: "(\<forall>k<Suc n. P k) \<longleftrightarrow> P 0 \<and> (\<forall>k<n. P (Suc k))"
  using less_Suc_eq_0_disj by auto

lemma sound_file: "sound_builder (file_builder f)"
  by (cases "ff_size f"; cases "ff_hash f"; cases "ff_compressed_hash f"; cases "ff_mode f"; cases "ff_mode_mask f")
    (simp_all add: sound_builder_def file_builder_def fbbstore_def fields_of_def typed_values_def all_less_Suc)

lemma sound_append_to_fd: "sound_builder (append_to_fd_builder a)"
  by (cases "fa_hash a"; cases "fa_compressed_hash a")
    (simp_all add: sound_builder_def append_to_fd_builder_def fbbstore_def fields_of_def typed_values_def all_less_Suc)

lemma sound_inputs: "sound_builder (inputs_builder pi)"
  using sound_file unfolding sound_builder_def inputs_builder_def
  by (simp add: fields_of_def typed_values_def all_less_Suc list_all_iff fbbstore_def)

lemma sound_outputs: "sound_builder (outputs_builder po)"
  using sound_file sound_append_to_fd unfolding sound_builder_def outputs_builder_def
  by (simp add: fields_of_def typed_values_def all_less_Suc list_all_iff fbbstore_def)

lemma sound_entry: "sound_builder (entry_builder io)"
  using sound_inputs [of "io_inputs io"] sound_outputs [of "io_outputs io"] unfolding sound_builder_def entry_builder_def
  by (cases "io_cpu_time_ms io") (simp_all add: fields_of_def typed_values_def all_less_Suc fbbstore_def)

lemma entry_roundtrip:
  assumes "fits_entry io" "length (serialize_entry io) < 2 ^ 32"
  shows "read_entry (serialize_entry io @ rest) = Some io"
proof -
  have "ok_builder fbbstore (entry_builder io)"
    using sound_entry [of io] typed_ok [OF fbbstore_wf] by (simp add: sound_builder_def)
  then have "reads fbbstore (entry_builder io) (serialize_entry io @ rest)"
    using assms(2) unfolding serialize_entry_def by (rule builder_serialize_reads)
  then show ?thesis using assms(1) by (rule read_entry_builder)
qed

end
