(* ===== verification/FB_CacheLaws.thy ===== *)
theory FB_CacheLaws
  imports FB_Caches FB_EntryFormat
begin

text \<open>
  The laws of the cache directories: what is found under a path after an entry was made, the size of all the
  files, and the round trips of blobs and objects.
\<close>

section \<open>Paths\<close>

fun is_file :: "cnode option \<Rightarrow> bool" where
  "is_file (Some (CFile _ _)) = True"
| "is_file _ = False"

lemma c_link_at: "c_link p new t = Inr t' \<Longrightarrow> c_at t' p = Some new"
  by (induction p new t arbitrary: t' rule: c_link.induct)
    (auto simp: update_conv' split: option.splits sum.splits if_splits)

lemma c_link_other:
  "c_link p new t = Inr t' \<Longrightarrow> c_at t q = Some (CFile b m) \<Longrightarrow> c_at t' q = Some (CFile b m)"
proof (induction p new t arbitrary: t' q rule: c_link.induct)
  case (2 x xs new es)
  obtain y ys where q: "q = y # ys" using 2(3) by (cases q) auto
  show ?case
  proof (cases "map_of es x")
    case None
    then have "t' = CDir (es @ [(x, new)])" using 2(2) by (auto split: if_splits)
    then show ?thesis using 2(3) q None by (auto simp: map_add_def split: option.splits)
  next
    case (Some n)
    then obtain n' where n: "c_link xs new n = Inr n'" "t' = CDir (AList.update x n' es)"
      using 2(2) by (auto split: sum.splits)
    show ?thesis
    proof (cases "y = x")
      case True
      then show ?thesis using 2(1) [OF Some n(1)] 2(3) q Some n(2) by (simp add: update_conv')
    next
      case False
      then show ?thesis using 2(3) q n(2) by (simp add: update_conv')
    qed
  qed
qed auto

text \<open>Nothing is at the path, and what is there of the directories above are directories.\<close>

fun clear_way :: "cnode \<Rightarrow> string list \<Rightarrow> bool" where
  "clear_way (CDir es) (x # xs) = (case map_of es x of None \<Rightarrow> True | Some n \<Rightarrow> xs \<noteq> [] \<and> clear_way n xs)"
| "clear_way _ _ = False"

definition has_dir :: "cnode \<Rightarrow> string list \<Rightarrow> bool" where
  "has_dir t p \<longleftrightarrow> (\<exists>es. c_at t p = Some (CDir es))"

lemma c_link_ok: "has_dir t q \<Longrightarrow> clear_way t (q @ [x]) \<Longrightarrow> \<exists>t'. c_link (q @ [x]) new t = Inr t'"
proof (induction q arbitrary: t)
  case Nil
  then show ?case by (cases t) (auto simp: has_dir_def split: option.splits)
next
  case (Cons y q)
  obtain es where t: "t = CDir es" using Cons(3) by (cases t) auto
  then obtain n where n: "map_of es y = Some n" "has_dir n q"
    using Cons(2) by (auto simp: has_dir_def split: option.splits)
  then obtain n' where "c_link (q @ [x]) new n = Inr n'" using Cons(1) [of n] Cons(3) t by auto
  then show ?case using t n by simp
qed

lemma c_mkdir_ok:
  assumes "has_dir t q" "clear_way t (q @ x # y # r)"
  shows "has_dir (c_mkdir (q @ [x]) t) (q @ [x]) \<and> clear_way (c_mkdir (q @ [x]) t) (q @ x # y # r)"
  using assms
proof (induction q arbitrary: t)
  case Nil
  then show ?case
    by (cases t) (auto simp: has_dir_def c_mkdir_def split: option.splits elim: clear_way.elims)
next
  case (Cons z q)
  obtain es where t: "t = CDir es" using Cons(3) by (cases t) auto
  then obtain n where n: "map_of es z = Some n" "has_dir n q"
    using Cons(2) by (auto simp: has_dir_def split: option.splits)
  then have ih: "has_dir (c_mkdir (q @ [x]) n) (q @ [x])" "clear_way (c_mkdir (q @ [x]) n) (q @ x # y # r)"
    using Cons(1) [of n] Cons(3) t by auto
  show ?case
  proof (cases "c_link (q @ [x]) (CDir []) n")
    case (Inl e)
    then have "c_mkdir ((z # q) @ [x]) t = t" "c_mkdir (q @ [x]) n = n" using t n by (simp_all add: c_mkdir_def)
    then show ?thesis using Cons(3) ih(1) t n by (simp add: has_dir_def)
  next
    case (Inr n')
    then have m: "c_mkdir ((z # q) @ [x]) t = CDir (AList.update z n' es)" "c_mkdir (q @ [x]) n = n'"
      using t n by (simp_all add: c_mkdir_def)
    show ?thesis using ih unfolding m by (simp add: update_conv' has_dir_def)
  qed
qed

lemma c_mkdir_other: "c_at t q = Some (CFile b m) \<Longrightarrow> c_at (c_mkdir p t) q = Some (CFile b m)"
  by (auto simp: c_mkdir_def split: sum.splits intro: c_link_other)

section \<open>Sizes\<close>

text \<open>\<open>recursive_total_file_size\<close>, and that no directory has two entries of a name.\<close>

fun recursive_total_file_size :: "cnode \<Rightarrow> int" where
  "recursive_total_file_size (CFile b _) = int (length b)"
| "recursive_total_file_size (CDir es) = sum_list (map (\<lambda>(_, n). recursive_total_file_size n) es)"

fun c_wf :: "cnode \<Rightarrow> bool" where
  "c_wf (CFile _ _) = True"
| "c_wf (CDir es) = (distinct (map fst es) \<and> (\<forall>(x, n)\<in>set es. c_wf n))"

abbreviation csize :: "cnode \<Rightarrow> int" where "csize \<equiv> recursive_total_file_size"

lemma sum_list_update:
  "distinct (map fst es) \<Longrightarrow> map_of es x = Some n \<Longrightarrow>
   sum_list (map (\<lambda>(_, n). f n) (AList.update x n' es)) = sum_list (map (\<lambda>(_, n). f n) es) - f n + (f n' :: int)"
proof (induction es)
  case (Cons a es)
  show ?case
  proof (cases "fst a = x")
    case True
    then show ?thesis using Cons.prems by (cases a) auto
  next
    case False
    then show ?thesis using Cons by (cases a) auto
  qed
qed simp

lemma c_wf_entry: "c_wf (CDir es) \<Longrightarrow> map_of es x = Some n \<Longrightarrow> c_wf n"
  using map_of_SomeD by fastforce

lemma set_update_subset: "set (AList.update x n es) \<subseteq> insert (x, n) (set es)"
  by (induction es) auto

lemma c_wf_update: "c_wf (CDir es) \<Longrightarrow> c_wf n \<Longrightarrow> c_wf (CDir (AList.update x n es))"
  using set_update_subset [of x n es] by (auto simp: distinct_update)

lemma c_link_size:
  "c_link p new t = Inr t' \<Longrightarrow> c_wf t \<Longrightarrow> c_wf new \<Longrightarrow> c_wf t' \<and> csize t' = csize t + csize new"
proof (induction p new t arbitrary: t' rule: c_link.induct)
  case (2 x xs new es)
  show ?case
  proof (cases "map_of es x")
    case None
    then have "t' = CDir (es @ [(x, new)])" using 2(2) by (auto split: if_splits)
    moreover have "x \<notin> fst ` set es" using None by (simp add: map_of_eq_None_iff)
    ultimately show ?thesis using 2(3,4) by auto
  next
    case (Some n)
    then obtain n' where n: "c_link xs new n = Inr n'" "t' = CDir (AList.update x n' es)"
      using 2(2) by (auto split: sum.splits)
    have "c_wf n" using 2(3) Some by (rule c_wf_entry)
    then have ih: "c_wf n'" "csize n' = csize n + csize new" using 2(1) [OF Some n(1)] 2(4) by auto
    have "csize t' = csize (CDir es) - csize n + csize n'"
      using 2(3) Some n(2) sum_list_update [of es x n csize n'] by simp
    then show ?thesis using ih c_wf_update [OF 2(3) ih(1)] n(2) by simp
  qed
qed auto

lemma c_mkdir_size: "c_wf t \<Longrightarrow> c_wf (c_mkdir p t) \<and> csize (c_mkdir p t) = csize t"
  using c_link_size [of p "CDir []" t] by (auto simp: c_mkdir_def split: sum.splits)

section \<open>Storing\<close>

text \<open>The cached bytes that are kept track of are the sizes of the files in the two directories.\<close>

definition bytes_accounted :: "caches \<Rightarrow> bool" where
  "bytes_accounted k \<longleftrightarrow> c_wf (bc_dir k) \<and> c_wf (oc_dir k) \<and>
     stored_cached_bytes k + this_runs_cached_bytes k = csize (bc_dir k) + csize (oc_dir k)"

lemma create_blob_dirs_laws:
  assumes "c_wf t"
  shows "c_wf (create_blob_dirs key t)" "csize (create_blob_dirs key t) = csize t"
  using assms by (simp_all add: create_blob_dirs_def Let_def c_mkdir_size)

lemma create_obj_dirs_laws:
  assumes "c_wf t"
  shows "c_wf (create_obj_dirs key t)" "csize (create_obj_dirs key t) = csize t"
  using assms by (simp_all add: create_obj_dirs_def Let_def c_mkdir_size)

lemma place_blob_accounted:
  assumes "bytes_accounted k" "place_blob cfg xxh k d = Some (k', key)"
  shows "bytes_accounted k'"
proof -
  obtain b where b: "(if compress_cache cfg then zstd cfg d else Some d) = Some b"
    using assms(2) by (auto simp: place_blob_def Let_def split: option.splits)
  let ?t = "create_blob_dirs (xxh d) (bc_dir k)"
  have t: "c_wf ?t" "csize ?t = csize (bc_dir k)"
    using assms(1) create_blob_dirs_laws by (auto simp: bytes_accounted_def)
  show ?thesis
  proof (cases "c_link (cached_file_name (xxh d)) (CFile b (bc_now k)) ?t")
    case (Inl e)
    then have "k' = k\<lparr>bc_dir := ?t\<rparr>" using assms(2) b by (auto simp: place_blob_def Let_def split: if_splits)
    then show ?thesis using assms(1) t by (simp add: bytes_accounted_def)
  next
    case (Inr t')
    then have "k' = update_cached_bytes (int (length b)) (k\<lparr>bc_dir := t'\<rparr>)" using assms(2) b by (simp add: place_blob_def Let_def)
    then show ?thesis using assms(1) t c_link_size [OF Inr t(1)] by (simp add: bytes_accounted_def update_cached_bytes_def)
  qed
qed

lemma obj_store_accounted:
  assumes "bytes_accounted k" "obj_store cfg k tmp key entry n = Some (k', ok)"
  shows "bytes_accounted k'"
proof -
  obtain w where w: "c_link [tmp] (CFile [] (bc_now k)) (oc_dir k) = Inr w"
    using assms(2) by (auto simp: obj_store_def split: sum.splits)
  have ws: "bytes_accounted (k\<lparr>oc_dir := w\<rparr>)"
    using assms(1) c_link_size [OF w] by (simp add: bytes_accounted_def)
  let ?b = "if compress_cache cfg then zstd cfg (kMagicHeader @ entry) else Some (kMagicHeader @ entry)"
  let ?t = "create_obj_dirs key (oc_dir k)"
  have t: "c_wf ?t" "csize ?t = csize (oc_dir k)"
    using assms(1) create_obj_dirs_laws by (auto simp: bytes_accounted_def)
  show ?thesis
  proof (cases "n + int (length entry) > max_entry_size cfg \<or> ?b = None")
    case True
    then show ?thesis using assms(2) w ws by (auto simp: obj_store_def split: if_splits)
  next
    case False
    then obtain b where b: "?b = Some b" by auto
    show ?thesis
    proof (cases "c_link (cached_obj_name key (time_subkey (bc_now k))) (CFile b (bc_now k)) ?t")
      case (Inl e)
      then have "k' = k\<lparr>oc_dir := ?t\<rparr>" using assms(2) w False b by (auto simp: obj_store_def Let_def split: if_splits)
      then show ?thesis using assms(1) t by (simp add: bytes_accounted_def)
    next
      case (Inr t')
      then have "k' = update_cached_bytes (int (length b)) (k\<lparr>oc_dir := t'\<rparr>)"
        using assms(2) w False b by (simp add: obj_store_def Let_def)
      then show ?thesis using assms(1) t c_link_size [OF Inr t(1)] by (simp add: bytes_accounted_def update_cached_bytes_def)
    qed
  qed
qed

section \<open>Names\<close>

lemma length_canonical_digest [simp]: "length (canonical_digest h) = 16"
  by (simp add: canonical_digest_def)

lemma canonical_digest_inj: "canonical_digest g = canonical_digest h \<Longrightarrow> g = h"
proof (rule bit_word_eqI)
  fix n assume e: "canonical_digest g = canonical_digest h" and n: "n < LENGTH(128)"
  let ?i = "15 - n div 8"
  have i: "?i < 16" "120 - 8 * ?i + n mod 8 = n" using n by (auto, presburger)
  have "canonical_digest g ! ?i = canonical_digest h ! ?i" using e by simp
  then have "(ucast (drop_bit (120 - 8 * ?i) g) :: byte) = ucast (drop_bit (120 - 8 * ?i) h)"
    using i(1) by (simp add: canonical_digest_def)
  then have "bit (ucast (drop_bit (120 - 8 * ?i) g) :: byte) (n mod 8) = bit (ucast (drop_bit (120 - 8 * ?i) h) :: byte) (n mod 8)"
    by simp
  then show "bit g n = bit h n" using i(2) by (simp add: bit_ucast_iff bit_drop_bit_eq)
qed

lemma to_ascii_sextets: "to_ascii h = map code_char (sextets_of (canonical_digest h))"
  by (simp add: to_ascii_def encode_sextets)

lemma to_ascii_eq: "to_ascii g = to_ascii h \<longleftrightarrow> g = h"
proof
  assume "to_ascii g = to_ascii h"
  then have "sextets_of (canonical_digest g) = sextets_of (canonical_digest h)"
    unfolding to_ascii_sextets
    using map_code_char_less [OF _ sextets_of_less sextets_of_less, of "canonical_digest g" "canonical_digest h"]
      map_code_char_less [OF _ sextets_of_less sextets_of_less, of "canonical_digest h" "canonical_digest g"]
    by (simp add: length_sextets_of)
  then show "g = h" by (simp add: encode_order(2) canonical_digest_inj)
qed simp

lemma cached_file_name_eq: "cached_file_name g = cached_file_name h \<longleftrightarrow> g = h"
  by (auto simp: cached_file_name_def Let_def to_ascii_eq)

section \<open>Blobs\<close>

lemma c_at_prefix: "c_at t (p @ q) = Some n \<Longrightarrow> \<exists>m. c_at t p = Some m"
  by (induction t p rule: c_at.induct) (auto split: option.splits)

lemma c_link_exists: "c_at t p = Some n \<Longrightarrow> c_link p new t = Inl fEEXIST"
  by (induction p new t rule: c_link.induct) (auto split: option.splits)

lemma c_mkdir_exists: "c_at t (p @ q) = Some n \<Longrightarrow> c_mkdir p t = t"
  using c_at_prefix [of t p q n] by (auto simp: c_mkdir_def c_link_exists)

lemma c_link_new:
  "c_link p new t = Inr t' \<Longrightarrow> c_at t' q = Some (CFile b m) \<Longrightarrow> c_at t q = Some (CFile b m) \<or> (\<exists>r. q = p @ r \<and> c_at new r = Some (CFile b m))"
proof (induction p new t arbitrary: t' q rule: c_link.induct)
  case (2 x xs new es)
  show ?case
  proof (cases "map_of es x")
    case None
    then have t': "t' = CDir (es @ [(x, new)])" "xs = []" using 2(2) by (auto split: if_splits)
    obtain y ys where q: "q = y # ys" using 2(3) t' by (cases q) auto
    show ?thesis using 2(3) t' q None by (auto simp: map_add_def split: option.splits if_splits)
  next
    case (Some n)
    then obtain n' where n: "c_link xs new n = Inr n'" "t' = CDir (AList.update x n' es)"
      using 2(2) by (auto split: sum.splits)
    obtain y ys where q: "q = y # ys" using 2(3) n by (cases q) auto
    show ?thesis
    proof (cases "y = x")
      case True
      then show ?thesis using 2(1) [OF Some n(1)] 2(3) q Some n(2) by (simp add: update_conv')
    next
      case False
      then show ?thesis using 2(3) q n(2) by (simp add: update_conv')
    qed
  qed
qed auto

lemma c_mkdir_new: "c_at (c_mkdir p t) q = Some (CFile b m) \<Longrightarrow> c_at t q = Some (CFile b m)"
proof (cases "c_link p (CDir []) t")
  case (Inr t')
  assume "c_at (c_mkdir p t) q = Some (CFile b m)"
  then have "c_at t' q = Some (CFile b m)" using Inr by (simp add: c_mkdir_def)
  moreover have "c_at (CDir []) r \<noteq> Some (CFile b m)" for r by (cases r) simp_all
  ultimately show ?thesis using c_link_new [OF Inr, of q b m] by auto
qed (simp add: c_mkdir_def)

lemma create_blob_dirs_file: "c_at (create_blob_dirs key t) q = Some (CFile b m) \<longleftrightarrow> c_at t q = Some (CFile b m)"
  by (auto simp: create_blob_dirs_def Let_def dest!: c_mkdir_new intro: c_mkdir_other)

lemma create_obj_dirs_file: "c_at (create_obj_dirs key t) q = Some (CFile b m) \<longleftrightarrow> c_at t q = Some (CFile b m)"
  by (auto simp: create_obj_dirs_def Let_def dest!: c_mkdir_new intro: c_mkdir_other)

lemma blob_dirs_clear:
  assumes "has_dir t []" "clear_way t (cached_file_name key)"
  shows "has_dir (create_blob_dirs key t) [take 1 (to_ascii key), take 2 (to_ascii key)]"
    "clear_way (create_blob_dirs key t) (cached_file_name key)"
proof -
  let ?a = "to_ascii key"
  have "has_dir (c_mkdir [take 1 ?a] t) [take 1 ?a]" "clear_way (c_mkdir [take 1 ?a] t) (cached_file_name key)"
    using c_mkdir_ok [of t "[]"] assms by (auto simp: cached_file_name_def Let_def)
  then show "has_dir (create_blob_dirs key t) [take 1 ?a, take 2 ?a]"
    "clear_way (create_blob_dirs key t) (cached_file_name key)"
    using c_mkdir_ok [of "c_mkdir [take 1 ?a] t" "[take 1 ?a]" "take 2 ?a" "?a" "[]"]
    by (auto simp: create_blob_dirs_def cached_file_name_def Let_def)
qed

lemma obj_dirs_clear:
  assumes "has_dir t []" "clear_way t (cached_obj_name key subkey)"
  shows "has_dir (create_obj_dirs key t) (cached_file_name key)"
    "clear_way (create_obj_dirs key t) (cached_obj_name key subkey)"
proof -
  let ?a = "to_ascii key"
  let ?t1 = "c_mkdir [take 1 ?a] t" let ?t2 = "c_mkdir [take 1 ?a, take 2 ?a] ?t1"
  have 1: "has_dir ?t1 [take 1 ?a]" "clear_way ?t1 (cached_obj_name key subkey)"
    using c_mkdir_ok [of t "[]"] assms by (auto simp: cached_obj_name_def cached_file_name_def Let_def)
  have 2: "has_dir ?t2 [take 1 ?a, take 2 ?a]" "clear_way ?t2 (cached_obj_name key subkey)"
    using c_mkdir_ok [of ?t1 "[take 1 ?a]" "take 2 ?a" ?a "[subkey]"] 1
    by (auto simp: cached_obj_name_def cached_file_name_def Let_def)
  show "has_dir (create_obj_dirs key t) (cached_file_name key)"
    "clear_way (create_obj_dirs key t) (cached_obj_name key subkey)"
    using c_mkdir_ok [of ?t2 "[take 1 ?a, take 2 ?a]" ?a subkey "[]"] 2
    by (auto simp: create_obj_dirs_def cached_obj_name_def cached_file_name_def Let_def)
qed

text \<open>The data a blob stands for.\<close>

definition pack :: "cache_config \<Rightarrow> string \<Rightarrow> string option" where
  "pack cfg d = (if compress_cache cfg then zstd cfg d else Some d)"

definition unpack :: "cache_config \<Rightarrow> string \<Rightarrow> string option" where
  "unpack cfg b = (if compress_cache cfg then unzstd cfg b else Some b)"

text \<open>What the code relies on of zstd: compression works, decompression undoes it, and what is
  compressed starts with the magic number and is longer than 8 bytes.\<close>

definition zstd_ok :: "cache_config \<Rightarrow> bool" where
  "zstd_ok cfg \<longleftrightarrow> (\<forall>d. \<exists>b. zstd cfg d = Some b \<and> unzstd cfg b = Some d \<and> take 4 b = kZstdMagicHeader \<and> 8 < length b)"

definition blobs_ok :: "cache_config \<Rightarrow> (string \<Rightarrow> hash_t) \<Rightarrow> caches \<Rightarrow> bool" where
  "blobs_ok cfg xxh k \<longleftrightarrow> (\<forall>key b. get_fd_for_file k key = Some b \<longrightarrow> (\<exists>d. unpack cfg b = Some d \<and> xxh d = key))"

text \<open>The place of a blob is free or taken by a blob.\<close>

definition blob_place :: "caches \<Rightarrow> hash_t \<Rightarrow> bool" where
  "blob_place k key \<longleftrightarrow> has_dir (bc_dir k) [] \<and>
     (clear_way (bc_dir k) (cached_file_name key) \<or> get_fd_for_file k key \<noteq> None)"

lemma pack_unpack: "zstd_ok cfg \<Longrightarrow> \<exists>b. pack cfg d = Some b \<and> unpack cfg b = Some d"
  by (auto simp: pack_def unpack_def zstd_ok_def)

lemma get_fd_iff: "get_fd_for_file k key = Some b \<longleftrightarrow> (\<exists>m. c_at (bc_dir k) (cached_file_name key) = Some (CFile b m))"
  by (auto simp: get_fd_for_file_def split: option.splits cnode.splits)

lemma place_blob_fds:
  assumes "place_blob cfg xxh k d = Some (k', key)" "get_fd_for_file k' key' = Some b"
  shows "get_fd_for_file k key' = Some b \<or> key' = xxh d \<and> pack cfg d = Some b"
proof -
  obtain c where c: "pack cfg d = Some c" using assms(1) by (auto simp: place_blob_def pack_def Let_def split: option.splits)
  let ?t = "create_blob_dirs (xxh d) (bc_dir k)"
  obtain m where m: "c_at (bc_dir k') (cached_file_name key') = Some (CFile b m)" using assms(2) by (auto simp: get_fd_iff)
  show ?thesis
  proof (cases "c_link (cached_file_name (xxh d)) (CFile c (bc_now k)) ?t")
    case (Inl e)
    then have "bc_dir k' = ?t" using assms(1) c by (auto simp: place_blob_def pack_def Let_def split: if_splits)
    then show ?thesis using m by (auto simp: create_blob_dirs_file get_fd_iff)
  next
    case (Inr t')
    then have "bc_dir k' = t'" using assms(1) c
      by (auto simp: place_blob_def pack_def Let_def update_cached_bytes_def split: if_splits)
    then have t': "c_at t' (cached_file_name key') = Some (CFile b m)" using m by simp
    from c_link_new [OF Inr t'] show ?thesis
    proof (elim disjE exE conjE)
      fix r assume "cached_file_name key' = cached_file_name (xxh d) @ r" "c_at (CFile c (bc_now k)) r = Some (CFile b m)"
      then show ?thesis using c by (cases r) (auto simp: cached_file_name_eq)
    qed (auto simp: create_blob_dirs_file get_fd_iff)
  qed
qed

lemma place_blob_ok:
  assumes "blobs_ok cfg xxh k" "zstd_ok cfg" "place_blob cfg xxh k d = Some (k', key)"
  shows "blobs_ok cfg xxh k'"
  unfolding blobs_ok_def
proof (intro allI impI)
  fix key' b assume "get_fd_for_file k' key' = Some b"
  then show "\<exists>d. unpack cfg b = Some d \<and> xxh d = key'"
    using place_blob_fds [OF assms(3)] assms(1) pack_unpack [OF assms(2), of d] by (fastforce simp: blobs_ok_def)
qed

lemma place_blob_total:
  assumes "blob_place k (xxh d)" "zstd_ok cfg"
  shows "\<exists>k' b. place_blob cfg xxh k d = Some (k', xxh d) \<and> get_fd_for_file k' (xxh d) = Some b \<and>
    (\<forall>key c. get_fd_for_file k key = Some c \<longrightarrow> get_fd_for_file k' key = Some c) \<and> oc_dir k' = oc_dir k"
proof -
  obtain b where b: "pack cfg d = Some b" "unpack cfg b = Some d" using pack_unpack [OF assms(2)] by blast
  let ?t = "create_blob_dirs (xxh d) (bc_dir k)" and ?a = "to_ascii (xxh d)"
  have keep: "get_fd_for_file (k\<lparr>bc_dir := ?t\<rparr>) key = Some c" if "get_fd_for_file k key = Some c" for key c
    using that by (auto simp: get_fd_iff create_blob_dirs_file)
  show ?thesis
  proof (cases "get_fd_for_file k (xxh d)")
    case (Some c)
    then obtain m where "c_at ?t (cached_file_name (xxh d)) = Some (CFile c m)" by (auto simp: get_fd_iff create_blob_dirs_file)
    then have "place_blob cfg xxh k d = Some (k\<lparr>bc_dir := ?t\<rparr>, xxh d)"
      using b(1) by (simp add: place_blob_def pack_def Let_def c_link_exists)
    then show ?thesis using keep Some by auto
  next
    case None
    then have "has_dir ?t [take 1 ?a, take 2 ?a]" "clear_way ?t ([take 1 ?a, take 2 ?a] @ [?a])"
      using assms(1) blob_dirs_clear [of "bc_dir k" "xxh d"] by (auto simp: blob_place_def cached_file_name_def Let_def)
    then obtain t' where t': "c_link (cached_file_name (xxh d)) (CFile b (bc_now k)) ?t = Inr t'"
      using c_link_ok [of ?t "[take 1 ?a, take 2 ?a]" ?a "CFile b (bc_now k)"] by (auto simp: cached_file_name_def Let_def)
    let ?k = "update_cached_bytes (int (length b)) (k\<lparr>bc_dir := t'\<rparr>)"
    have "place_blob cfg xxh k d = Some (?k, xxh d)" using t' b(1) by (simp add: place_blob_def pack_def Let_def)
    moreover have "get_fd_for_file ?k (xxh d) = Some b"
      using c_link_at [OF t'] by (simp add: get_fd_for_file_def update_cached_bytes_def)
    moreover have "get_fd_for_file ?k key = Some c" if "get_fd_for_file k key = Some c" for key c
      using that c_link_other [OF t'] by (auto simp: get_fd_iff update_cached_bytes_def create_blob_dirs_file)
    ultimately show ?thesis by (auto simp: update_cached_bytes_def)
  qed
qed

text \<open>A blob that was stored is read back, if no other contents have its digest.\<close>

lemma blob_roundtrip:
  assumes "blobs_ok cfg xxh k" "zstd_ok cfg" "blob_place k (xxh d)" "\<And>d'. xxh d' = xxh d \<Longrightarrow> d' = d"
  obtains k' b where "place_blob cfg xxh k d = Some (k', xxh d)" "get_fd_for_file k' (xxh d) = Some b" "unpack cfg b = Some d"
    "blobs_ok cfg xxh k'" "\<And>key c. get_fd_for_file k key = Some c \<Longrightarrow> get_fd_for_file k' key = Some c" "oc_dir k' = oc_dir k"
proof -
  obtain k' b where k: "place_blob cfg xxh k d = Some (k', xxh d)" "get_fd_for_file k' (xxh d) = Some b"
    "\<And>key c. get_fd_for_file k key = Some c \<Longrightarrow> get_fd_for_file k' key = Some c" "oc_dir k' = oc_dir k"
    using place_blob_total [of k xxh d cfg, OF assms(3,2)] by blast
  have ok: "blobs_ok cfg xxh k'" by (rule place_blob_ok [OF assms(1,2) k(1)])
  then obtain d' where "unpack cfg b = Some d'" "xxh d' = xxh d" using k(2) by (auto simp: blobs_ok_def)
  then have "unpack cfg b = Some d" using assms(4) by simp
  then show ?thesis using that k ok by blast
qed

section \<open>Objects\<close>

lemma set_insert_by [simp]: "set (insert_by f x xs) = insert x (set xs)"
  by (induction xs) auto

lemma set_sort_by [simp]: "set (sort_by f xs) = set xs"
  by (induction xs) (auto simp: sort_by_def)

lemma set_list_subkeys: "set (list_subkeys_internal cfg es) = {x \<in> fst ` set es. subkey_valid_ascii x}"
  by (auto simp: list_subkeys_internal_def Let_def image_iff)

lemma time_subkey_valid: "subkey_valid_ascii (time_subkey t)" "length (time_subkey t) = 11"
proof -
  let ?bs = "be_bytes (push_bit 30 (word_of_int (fst t)) + word_of_int (snd t))"
  have "time_subkey t = map code_char (sextets_of ?bs)"
    by (simp add: time_subkey_def subkey_of_def encode_sextets length_be_bytes)
  then show "subkey_valid_ascii (time_subkey t)" "length (time_subkey t) = 11"
    using valid_map_code_char [OF sextets_of_less, of ?bs]
    by (simp_all add: subkey_valid_ascii_def valid_ascii_def length_sextets_of length_be_bytes)
qed

lemma serialize_entry_nonempty:
  assumes "fits_entry io" "length (serialize_entry io) < 2 ^ 32"
  shows "serialize_entry io \<noteq> []"
proof
  assume e: "serialize_entry io = []"
  have "ok_builder fbbstore (entry_builder io)"
    using sound_entry [of io] typed_ok [OF fbbstore_wf] by (simp add: sound_builder_def)
  from builder_serialize_reads [OF this, of "replicate 4 NUL"]
  have "reads fbbstore (entry_builder io) (replicate 4 NUL)"
    using assms(2) e by (simp add: serialize_entry_def)
  then have "get_tag (replicate 4 NUL) = TAG_process_inputs_outputs" by (simp add: entry_builder_def)
  then show False by (simp add: get_tag_def u32_def)
qed

lemma retrieve_stored:
  assumes "if compress_cache cfg then zstd cfg (kMagicHeader @ d) = Some b else b = kMagicHeader @ d"
    and "zstd_ok cfg" "d \<noteq> []" "c_at t p = Some (CFile b m)"
  obtains x where "obj_retrieve cfg t p = Some (Some (d, x))"
proof (cases "compress_cache cfg")
  case True
  obtain b' where b': "zstd cfg (kMagicHeader @ d) = Some b'" "unzstd cfg b' = Some (kMagicHeader @ d)"
    "take 4 b' = kZstdMagicHeader" "8 < length b'"
    using assms(2) unfolding zstd_ok_def by blast
  have "b' = b" using assms(1) True b'(1) by simp
  then have "obj_retrieve cfg t p = Some (Some (d, Some (length b)))"
    using assms(4) b' by (simp add: obj_retrieve_def kMagicHeader_def kZstdMagicHeader_def)
  then show ?thesis by (rule that)
next
  case False
  then have "obj_retrieve cfg t p = Some (Some (d, None))"
    using assms by (auto simp: obj_retrieve_def kMagicHeader_def)
  then show ?thesis by (rule that)
qed

lemma c_at_snoc: "c_at t (p @ [x]) = Some n \<Longrightarrow> \<exists>es. c_at t p = Some (CDir es) \<and> map_of es x = Some n"
proof (induction p arbitrary: t)
  case Nil
  then show ?case by (cases t) (auto split: option.splits)
next
  case (Cons y p)
  then show ?case by (cases t) (auto split: option.splits)
qed

text \<open>An entry that was stored is listed, and retrieving and reading it gives it back.\<close>

lemma obj_roundtrip:
  fixes key :: hash_t and k :: caches
  defines "path \<equiv> cached_obj_name key (time_subkey (bc_now k))"
  assumes "has_dir (oc_dir k) []" "c_at (oc_dir k) [tmp] = None" "clear_way (oc_dir k) path" "zstd_ok cfg"
    and "n + int (length (serialize_entry io)) \<le> max_entry_size cfg"
    and "fits_entry io" "length (serialize_entry io) < 2 ^ 32"
  obtains k' x where "obj_store cfg k tmp key (serialize_entry io) n = Some (k', True)"
    "obj_retrieve cfg (oc_dir k') path = Some (Some (serialize_entry io, x))"
    "read_entry (serialize_entry io) = Some io" "time_subkey (bc_now k) \<in> set (list_subkeys cfg k' key)"
    "bc_dir k' = bc_dir k" "\<And>q b m. c_at (oc_dir k) q = Some (CFile b m) \<Longrightarrow> c_at (oc_dir k') q = Some (CFile b m)"
proof -
  obtain es where es: "oc_dir k = CDir es" using assms(2) by (auto simp: has_dir_def)
  then obtain w where w: "c_link [tmp] (CFile [] (bc_now k)) (oc_dir k) = Inr w"
    using assms(3) by (auto split: option.splits)
  obtain b where b: "(if compress_cache cfg then zstd cfg (kMagicHeader @ serialize_entry io)
      else Some (kMagicHeader @ serialize_entry io)) = Some b"
  proof (cases "compress_cache cfg")
    case True
    then show ?thesis using that assms(5) unfolding zstd_ok_def by meson
  qed (use that in simp)
  let ?t = "create_obj_dirs key (oc_dir k)"
  have "has_dir ?t (cached_file_name key)" "clear_way ?t (cached_file_name key @ [time_subkey (bc_now k)])"
    using obj_dirs_clear [OF assms(2), of key "time_subkey (bc_now k)"] assms(4)
    by (simp_all add: path_def cached_obj_name_def)
  then obtain t' where t': "c_link path (CFile b (bc_now k)) ?t = Inr t'"
    using c_link_ok unfolding path_def cached_obj_name_def by blast
  let ?k = "update_cached_bytes (int (length b)) (k\<lparr>oc_dir := t'\<rparr>)"
  have k: "oc_dir ?k = t'" "bc_dir ?k = bc_dir k" by (simp_all add: update_cached_bytes_def)
  have st: "obj_store cfg k tmp key (serialize_entry io) n = Some (?k, True)"
    using w b t' assms(6) by (simp add: obj_store_def path_def Let_def)
  have at: "c_at t' path = Some (CFile b (bc_now k))" by (rule c_link_at [OF t'])
  have ne: "serialize_entry io \<noteq> []" by (rule serialize_entry_nonempty [OF assms(7,8)])
  have b': "if compress_cache cfg then zstd cfg (kMagicHeader @ serialize_entry io) = Some b
      else b = kMagicHeader @ serialize_entry io"
    using b by (auto split: if_splits)
  obtain x where x: "obj_retrieve cfg (oc_dir ?k) path = Some (Some (serialize_entry io, x))"
    using retrieve_stored [OF b' assms(5) ne] at k(1) by metis
  have rd: "read_entry (serialize_entry io) = Some io" using entry_roundtrip [OF assms(7,8), of "[]"] by simp
  obtain ds where ds: "c_at t' (cached_file_name key) = Some (CDir ds)" "map_of ds (time_subkey (bc_now k)) \<noteq> None"
    using c_at_snoc [OF at [unfolded path_def cached_obj_name_def]] by auto
  have "time_subkey (bc_now k) \<in> fst ` set ds" using ds(2) by (simp add: map_of_eq_None_iff)
  then have "time_subkey (bc_now k) \<in> set (list_subkeys cfg ?k key)"
    using ds(1) k(1) by (simp add: list_subkeys_def set_list_subkeys time_subkey_valid)
  moreover have "c_at (oc_dir ?k) q = Some (CFile c m)" if "c_at (oc_dir k) q = Some (CFile c m)" for q c m
    using that c_link_other [OF t'] k(1) by (simp add: create_obj_dirs_file)
  ultimately show ?thesis using that st x rd k(2) by blast
qed

end
