(* ===== verification/FB_Restore.thy ===== *)
theory FB_Restore
  imports FB_Shortcut FB_CacheLaws "HOL-Library.Multiset"
begin

text \<open>
  Applying a cache entry to the files of the build: \<open>restore_outputs\<close> makes the directories, writes the files and
  removes the paths of the entry, and leaves every other path as it is.
\<close>

section \<open>Directories\<close>

lemma last_slash_less: "last_slash p n = Some k \<Longrightarrow> k < n"
  by (induction n arbitrary: k) (auto split: if_splits simp: less_Suc_eq)

lemma dir_of_shorter: "GetParentDir p (length p) \<noteq> None \<Longrightarrow> length (dir_of p) < length p"
  using last_slash_less [of p "length p"]
  by (auto simp: dir_of_def GetParentDir_def split: option.splits if_splits)

text \<open>The mode a directory has after \<open>restore_dir\<close>.\<close>

definition dir_result :: "files \<Rightarrow> fbb_file \<Rightarrow> fview option" where
  "dir_result fs d =
     (case ff_mode d of
        None \<Rightarrow> None
      | Some m \<Rightarrow>
          Some (DirView (if sees fs (ff_path d) = None then m AND 0x3FF AND NOT (f_umask fs) else m AND 0xFFF)))"

definition after_dirs :: "files \<Rightarrow> fbb_file list \<Rightarrow> string \<Rightarrow> fview option" where
  "after_dirs fs ds q = (case find (\<lambda>d. ff_path d = q) ds of Some d \<Rightarrow> dir_result fs d | None \<Rightarrow> sees fs q)"

definition open_view :: "files \<Rightarrow> fview option \<Rightarrow> bool" where
  "open_view fs v \<longleftrightarrow> (case v of Some (DirView m) \<Rightarrow> can_write fs (DirView m) | _ \<Rightarrow> False)"

lemma dir_open_view: "dir_open fs p \<longleftrightarrow> open_view fs (sees fs (dir_of p))"
  by (auto simp: dir_open_def open_view_def split: option.splits fview.splits)

lemma open_view_setup: "same_setup fs fs' \<Longrightarrow> open_view fs' v = open_view fs v"
  by (auto simp: same_setup_def open_view_def can_write_def split: option.splits fview.splits)

lemma can_write_setup: "same_setup fs fs' \<Longrightarrow> can_write fs' v = can_write fs v"
  by (simp add: same_setup_def can_write_def)

text \<open>The directories can be made: each is there already, or its parent is there or made before it, and writable.\<close>

definition dirs_ok :: "files \<Rightarrow> fbb_file list \<Rightarrow> bool" where
  "dirs_ok fs ds \<longleftrightarrow> (\<forall>d\<in>set ds. ff_mode d \<noteq> None \<and>
     (case sees fs (ff_path d) of
        Some (DirView _) \<Rightarrow> True
      | Some (RegView _ _) \<Rightarrow> False
      | None \<Rightarrow> GetParentDir (ff_path d) (length (ff_path d)) \<noteq> None \<and> open_view fs (after_dirs fs ds (dir_of (ff_path d)))))"

lemma S_ISDIR_stat: "S_ISDIR (st_mode (stat_of n)) \<longleftrightarrow> (\<exists>m t i. n = DirNode m t i)"
  by (cases n) (simp_all add: S_ISDIR_def bit.conj_disj_distrib2 and.assoc)

lemma restore_dir_ok:
  assumes "case sees fs p of Some (DirView _) \<Rightarrow> True | Some (RegView _ _) \<Rightarrow> False | None \<Rightarrow> dir_open fs p"
  obtains fs' where "restore_dir fs p mode = Some fs'" "same_setup fs fs'"
    "\<And>q. sees fs' q = (if q = p then
        Some (DirView (if sees fs p = None then mode AND 0x3FF AND NOT (f_umask fs) else mode AND 0xFFF)) else sees fs q)"
proof (cases "sees fs p")
  case None
  then obtain fs' where f: "sys_mkdir fs p mode = Inr fs'" "same_setup fs fs'"
    "\<And>q. sees fs' q = (if q = p then Some (DirView (mode AND 0x3FF AND NOT (f_umask fs))) else sees fs q)"
    using assms sys_mkdir_ok [of fs p mode] by auto
  have "restore_dir fs p mode = Some fs'" using f(1) by (simp add: restore_dir_def)
  then show ?thesis using that f None by simp
next
  case (Some v)
  then obtain m where v: "v = DirView m" using assms by (cases v) auto
  then obtain t i where n: "at fs p = Some (DirNode m t i)" using Some by (auto simp: sees_Dir)
  obtain fs' where f: "sys_chmod fs p mode = Inr fs'" "same_setup fs fs'"
    "\<And>q. sees fs' q = (if q = p then Some (v_with_mode (mode AND 0xFFF) v) else sees fs q)"
    using sys_chmod_ok [OF Some, of mode] by blast
  have "restore_dir fs p mode = Some fs'"
    using f(1) sys_mkdir_exists [OF Some] n S_ISDIR_stat [of "DirNode m t i"] by (simp add: restore_dir_def sys_stat_def)
  then show ?thesis using that f Some v by simp
qed

lemma find_path_append:
  "find P (xs @ ys) = (case find P xs of None \<Rightarrow> find P ys | Some x \<Rightarrow> Some x)"
  by (induction xs) auto

lemma find_None_path: "find (\<lambda>d. ff_path d = q) ds = None \<longleftrightarrow> q \<notin> ff_path ` set ds"
  by (auto simp: find_None_iff)

lemma find_Some_path: "distinct (map ff_path ds) \<Longrightarrow> d \<in> set ds \<Longrightarrow> find (\<lambda>e. ff_path e = ff_path d) ds = Some d"
  by (induction ds) (auto simp: image_iff)

lemma restore_dirs_loop_ok:
  assumes "distinct (map ff_path (done @ ds))" "sorted_wrt (\<lambda>a b. \<not> length (ff_path b) < length (ff_path a)) (done @ ds)"
    and "dirs_ok fs0 (done @ ds)" "same_setup fs0 fs" "\<And>q. sees fs q = after_dirs fs0 done q"
  shows "\<exists>s' fs'. restore_dirs_loop s fs i ds = Some (s', fs') \<and> same_setup fs0 fs' \<and>
    (\<forall>q. sees fs' q = after_dirs fs0 (done @ ds) q)"
  using assms
proof (induction ds arbitrary: s fs "done")
  case (Cons d ds)
  let ?p = "ff_path d"
  obtain m where m: "ff_mode d = Some m" using Cons.prems(3) by (auto simp: dirs_ok_def)
  have new: "?p \<notin> ff_path ` set done" using Cons.prems(1) by auto
  then have here: "sees fs ?p = sees fs0 ?p" 
    using Cons.prems(5) [of ?p] find_None_path [THEN iffD2, OF new] by (simp add: after_dirs_def)
  have um: "f_umask fs = f_umask fs0" using Cons.prems(4) by (simp add: same_setup_def)
  have ok: "case sees fs ?p of Some (DirView _) \<Rightarrow> True | Some (RegView _ _) \<Rightarrow> False | None \<Rightarrow> dir_open fs ?p"
  proof (cases "sees fs0 ?p")
    case None
    then have par: "GetParentDir ?p (length ?p) \<noteq> None" "open_view fs0 (after_dirs fs0 (done @ d # ds) (dir_of ?p))"
      using Cons.prems(3) by (auto simp: dirs_ok_def)
    have "length (dir_of ?p) < length ?p" by (rule dir_of_shorter [OF par(1)])
    then have "dir_of ?p \<notin> ff_path ` set (d # ds)" using Cons.prems(2) by (auto simp: sorted_wrt_append)
    then have "find (\<lambda>e. ff_path e = dir_of ?p) (d # ds) = None" by (rule find_None_path [THEN iffD2])
    then have "after_dirs fs0 (done @ d # ds) (dir_of ?p) = after_dirs fs0 done (dir_of ?p)"
      unfolding after_dirs_def find_path_append by (auto split: option.splits)
    then show ?thesis
      using par(2) None here Cons.prems(4,5) by (simp add: dir_open_view open_view_setup)
  next
    case (Some v)
    moreover have "case sees fs0 ?p of Some (DirView _) \<Rightarrow> True | Some (RegView _ _) \<Rightarrow> False | None \<Rightarrow> True"
      using Cons.prems(3) by (auto simp: dirs_ok_def split: option.splits fview.splits)
    ultimately show ?thesis using here by (auto split: fview.splits)
  qed
  obtain fs1 where f: "restore_dir fs ?p m = Some fs1" "same_setup fs fs1"
    "\<And>q. sees fs1 q = (if q = ?p then
        Some (DirView (if sees fs ?p = None then m AND 0x3FF AND NOT (f_umask fs) else m AND 0xFFF)) else sees fs q)"
    using restore_dir_ok [OF ok] by metis
  let ?s = "register_opt fs1 s (parent_point s i) ?p (\<lambda>env. file_to_file_usage_update env ?p d)"
  have step: "sees fs1 q = after_dirs fs0 (done @ [d]) q" for q
  proof (cases "q = ?p")
    case True
    then show ?thesis
      using f(3) [of q] find_None_path [THEN iffD2, OF new] here um m
      by (simp add: after_dirs_def find_path_append dir_result_def)
  next
    case False
    then have "after_dirs fs0 (done @ [d]) q = after_dirs fs0 done q"
      by (simp add: after_dirs_def find_path_append split: option.split)
    then show ?thesis using f(3) [of q] Cons.prems(5) [of q] False by simp
  qed
  have "\<exists>s' fs'. restore_dirs_loop ?s fs1 i ds = Some (s', fs') \<and> same_setup fs0 fs' \<and>
    (\<forall>q. sees fs' q = after_dirs fs0 ((done @ [d]) @ ds) q)"
  proof (rule Cons.IH)
    show "same_setup fs0 fs1" by (rule same_setup_trans [OF Cons.prems(4) f(2)])
    show "sees fs1 q = after_dirs fs0 (done @ [d]) q" for q by (rule step)
  qed (use Cons.prems(1-3) in simp_all)
  then show ?case by (simp only: restore_dirs_loop.simps m f(1) option.case append_assoc append_Cons append_Nil)
qed simp

lemma sorted_insert_by:
  assumes "sorted_wrt (\<lambda>a b. \<not> f b < (f a :: nat)) xs"
  shows "sorted_wrt (\<lambda>a b. \<not> f b < f a) (insert_by (\<lambda>a b. f a < f b) x xs)"
  using assms by (induction xs) auto

lemma sorted_sort_by: "sorted_wrt (\<lambda>a b. \<not> f b < (f a :: nat)) (sort_by (\<lambda>a b. f a < f b) xs)"
  unfolding sort_by_def by (induction xs) (auto intro: sorted_insert_by)

lemma sorted_sort_by_desc: "sorted_wrt (\<lambda>a b. length b \<le> length a) (sort_by (\<lambda>a b. length a > length b) (xs :: 'a list list))"
proof -
  have "sorted_wrt (\<lambda>a b. length b \<le> length a) (insert_by (\<lambda>a b. length a > length b) x ys)"
    if "sorted_wrt (\<lambda>a b. length b \<le> length a) ys" for x :: "'a list" and ys
    using that by (induction ys) auto
  then show ?thesis unfolding sort_by_def by (induction xs) auto
qed

lemma mset_insert_by: "mset (insert_by f x xs) = add_mset x (mset xs)"
  by (induction xs) auto

lemma mset_sort_by: "mset (sort_by f xs) = mset xs"
  unfolding sort_by_def by (induction xs) (auto simp: mset_insert_by)

lemma find_perm:
  assumes "mset xs = mset ys" "distinct (map ff_path ys)"
  shows "find (\<lambda>d. ff_path d = q) xs = find (\<lambda>d. ff_path d = q) ys"
proof (cases "q \<in> ff_path ` set ys")
  case True
  then obtain d where d: "d \<in> set ys" "ff_path d = q" by auto
  have "set xs = set ys" using assms(1) by (rule mset_eq_setD)
  moreover have "distinct (map ff_path xs)"
    using assms by (metis mset_map mset_eq_imp_distinct_iff)
  ultimately show ?thesis using d assms(2) find_Some_path [of xs d] find_Some_path [of ys d] by simp
next
  case False
  moreover have "set xs = set ys" using assms(1) by (rule mset_eq_setD)
  ultimately show ?thesis by (metis find_None_path)
qed

lemma restore_dirs_ok:
  assumes "distinct (map ff_path (out_path_isdir po))" "dirs_ok fs (out_path_isdir po)"
  shows "\<exists>s' fs'. restore_dirs s fs i po = Some (s', fs') \<and> same_setup fs fs' \<and>
    (\<forall>q. sees fs' q = after_dirs fs (out_path_isdir po) q)"
proof -
  let ?ds = "sort_by (\<lambda>a b. length (ff_path a) < length (ff_path b)) (out_path_isdir po)"
  have m: "mset ?ds = mset (out_path_isdir po)" by (rule mset_sort_by)
  have a: "after_dirs fs ?ds = after_dirs fs (out_path_isdir po)"
    using find_perm [OF m assms(1)] by (intro ext) (simp add: after_dirs_def)
  have "set ?ds = set (out_path_isdir po)" using m by (rule mset_eq_setD)
  then have "dirs_ok fs ?ds" using assms(2) unfolding dirs_ok_def a by simp
  moreover have "distinct (map ff_path ?ds)" using assms(1) m by (metis mset_map mset_eq_imp_distinct_iff)
  ultimately have "\<exists>s' fs'. restore_dirs_loop s fs i ?ds = Some (s', fs') \<and> same_setup fs fs' \<and>
    (\<forall>q. sees fs' q = after_dirs fs ([] @ ?ds) q)"
    using sorted_sort_by [of "\<lambda>d. length (ff_path d)"]
    by (intro restore_dirs_loop_ok) (simp_all add: after_dirs_def)
  then show ?thesis using a by (simp add: restore_dirs_def)
qed

section \<open>Files\<close>

text \<open>
  \<open>has_data\<close>: the data of a regular file is in the entry, or in a blob that is there and reads as it.
\<close>

definition needs_blob :: "fbb_file \<Rightarrow> bool" where
  "needs_blob f \<longleftrightarrow> ff_type f = ISREG \<and> ff_inline_data f = []"

definition blob_reads :: "cache_config \<Rightarrow> hash_t option \<Rightarrow> string \<Rightarrow> string \<Rightarrow> bool" where
  "blob_reads cfg compressed_hash b d \<longleftrightarrow> (if compressed_hash \<noteq> None then unzstd cfg b = Some d else b = d)"

definition file_key :: "fbb_file \<Rightarrow> hash_t option" where
  "file_key f = blob_key (ff_compressed_hash f) (ff_hash f)"

definition file_blob :: "caches \<Rightarrow> fbb_file \<Rightarrow> string" where
  "file_blob k f = (case file_key f of None \<Rightarrow> [] | Some h \<Rightarrow> (case get_fd_for_file k h of None \<Rightarrow> [] | Some b \<Rightarrow> b))"

definition has_data :: "cache_config \<Rightarrow> caches \<Rightarrow> fbb_file \<Rightarrow> string \<Rightarrow> bool" where
  "has_data cfg k f d \<longleftrightarrow>
     (if ff_inline_data f \<noteq> [] then d = ff_inline_data f
      else (\<exists>h b. file_key f = Some h \<and> get_fd_for_file k h = Some b \<and> blob_reads cfg (ff_compressed_hash f) b d))"

text \<open>
  In what follows \<open>V\<close> is what the paths show and \<open>fs\<close> gives the settings.  A regular file can be written at the path,
  perhaps after removing what is there.
\<close>

definition file_place :: "files \<Rightarrow> (string \<Rightarrow> fview option) \<Rightarrow> process_inputs \<Rightarrow> fbb_file \<Rightarrow> bool" where
  "file_place fs V inputs f \<longleftrightarrow>
     (case V (ff_path f) of
        None \<Rightarrow> open_view fs (V (dir_of (ff_path f)))
      | Some (DirView _) \<Rightarrow> False
      | Some (RegView c m) \<Rightarrow>
          can_write fs (RegView c m) \<or>
          ff_inline_data f = [] \<and> replaceable inputs f \<and> open_view fs (V (dir_of (ff_path f))))"

definition new_mode :: "files \<Rightarrow> fbb_file \<Rightarrow> mode_t" where
  "new_mode fs f = (if ff_inline_data f \<noteq> [] then 0x1A4 else 0x1B6) AND 0xFFF AND NOT (f_umask fs)"

definition kept_mode :: "files \<Rightarrow> (string \<Rightarrow> fview option) \<Rightarrow> fbb_file \<Rightarrow> mode_t" where
  "kept_mode fs V f =
     (case V (ff_path f) of
        Some v \<Rightarrow> if can_write fs v then v_mode v else new_mode fs f
      | None \<Rightarrow> new_mode fs f)"

lemma pwrite_whole:
  assumes "sees fs p = Some (RegView [] m)"
  shows "same_setup fs (sys_pwrite fs p 0 d)"
    "sees (sys_pwrite fs p 0 d) q = (if q = p then Some (RegView d m) else sees fs q)"
  using sys_pwrite_ok(1) [OF assms, of 0 d] sys_pwrite_ok(2) [OF assms, of d 0 q] sys_pwrite_ok(3) [OF assms, of 0]
    assms by (cases "d = []"; simp add: overwrite_empty)+

lemma retrieve_file_ok:
  assumes "case sees fs p of None \<Rightarrow> dir_open fs p | Some v \<Rightarrow> (\<exists>c m. v = RegView c m) \<and> can_write fs v"
    and "blob_reads cfg ch b d"
  obtains fs' where "retrieve_file cfg fs b p False (ch \<noteq> None) = Some (Inr fs')" "same_setup fs fs'"
    "\<And>q. sees fs' q = (if q = p then
        Some (RegView d (case sees fs p of None \<Rightarrow> 0x1B6 AND 0xFFF AND NOT (f_umask fs) | Some v \<Rightarrow> v_mode v)) else sees fs q)"
proof -
  obtain fs1 where f: "sys_open_write fs p True True 0x1B6 = Inr fs1" "same_setup fs fs1"
    "\<And>q. sees fs1 q = (if q = p then
        Some (RegView [] (case sees fs p of None \<Rightarrow> 0x1B6 AND 0xFFF AND NOT (f_umask fs) | Some v \<Rightarrow> v_mode v)) else sees fs q)"
    using sys_open_write_ok [OF assms(1)] by metis
  have p: "sees fs1 p = Some (RegView [] (case sees fs p of None \<Rightarrow> 0x1B6 AND 0xFFF AND NOT (f_umask fs) | Some v \<Rightarrow> v_mode v))"
    using f(3) by simp
  have "retrieve_file cfg fs b p False (ch \<noteq> None) = Some (Inr (sys_pwrite fs1 p 0 d))"
    using f(1) assms(2) by (simp add: retrieve_file_def blob_reads_def split: if_splits)
  then show ?thesis
  proof (rule that)
    show "same_setup fs (sys_pwrite fs1 p 0 d)" using f(2) pwrite_whole(1) [OF p] by (rule same_setup_trans)
    show "sees (sys_pwrite fs1 p 0 d) q = (if q = p then
        Some (RegView d (case sees fs p of None \<Rightarrow> 0x1B6 AND 0xFFF AND NOT (f_umask fs) | Some v \<Rightarrow> v_mode v)) else sees fs q)" for q
      using pwrite_whole(2) [OF p, of d q] f(3) [of q] by simp
  qed
qed

lemma retrieve_file_denied:
  assumes "sees fs p = Some (RegView c m)" "\<not> can_write fs (RegView c m)"
  shows "retrieve_file cfg fs b p False z = Some (Inl fEACCES)"
  using assms by (auto simp: retrieve_file_def sys_open_write_def sees_Reg may_write_view)

lemma restore_contents_ok:
  assumes "file_place fs (sees fs) inputs f"
    and "if ff_inline_data f \<noteq> [] then d = ff_inline_data f \<and> bs' = bs else (\<exists>b. bs' = b # bs \<and> blob_reads cfg (ff_compressed_hash f) b d)"
  obtains fs' where "restore_contents cfg fs inputs f bs' = Some (Inr (fs', bs))" "same_setup fs fs'"
    "\<And>q. sees fs' q = (if q = ff_path f then Some (RegView d (kept_mode fs (sees fs) f)) else sees fs q)"
proof -
  let ?p = "ff_path f"
  let ?w = "case sees fs ?p of None \<Rightarrow> dir_open fs ?p | Some v \<Rightarrow> (\<exists>c m. v = RegView c m) \<and> can_write fs v"
  show ?thesis
  proof (cases "ff_inline_data f \<noteq> []")
    case True
    then have w: ?w using assms(1) by (auto simp: file_place_def dir_open_view split: option.splits fview.splits)
    obtain fs1 where o1: "sys_open_write fs ?p True True 0x1A4 = Inr fs1" "same_setup fs fs1"
      "\<And>q. sees fs1 q = (if q = ?p then
        Some (RegView [] (case sees fs ?p of None \<Rightarrow> 0x1A4 AND 0xFFF AND NOT (f_umask fs) | Some v \<Rightarrow> v_mode v)) else sees fs q)"
      using sys_open_write_ok [OF w] by metis
    have m: "(case sees fs ?p of None \<Rightarrow> 0x1A4 AND 0xFFF AND NOT (f_umask fs) | Some v \<Rightarrow> v_mode v) = kept_mode fs (sees fs) f"
      using w True by (auto simp: kept_mode_def new_mode_def split: option.splits)
    have p: "sees fs1 ?p = Some (RegView [] (kept_mode fs (sees fs) f))" using o1(3) m by simp
    have "restore_contents cfg fs inputs f bs' = Some (Inr (sys_pwrite fs1 ?p 0 d, bs))"
      using True o1(1) assms(2) by (simp add: restore_contents_def Let_def)
    then show ?thesis
      using that same_setup_trans [OF o1(2) pwrite_whole(1) [OF p]] pwrite_whole(2) [OF p] o1(3) by simp
  next
    case False
    then obtain b where b: "bs' = b # bs" "blob_reads cfg (ff_compressed_hash f) b d" using assms(2) by auto
    show ?thesis
    proof (cases ?w)
      case True
      obtain fs' where r: "retrieve_file cfg fs b ?p False (ff_compressed_hash f \<noteq> None) = Some (Inr fs')" "same_setup fs fs'"
        "\<And>q. sees fs' q = (if q = ?p then
          Some (RegView d (case sees fs ?p of None \<Rightarrow> 0x1B6 AND 0xFFF AND NOT (f_umask fs) | Some v \<Rightarrow> v_mode v)) else sees fs q)"
        using retrieve_file_ok [OF True b(2)] by metis
      have m: "(case sees fs ?p of None \<Rightarrow> 0x1B6 AND 0xFFF AND NOT (f_umask fs) | Some v \<Rightarrow> v_mode v) = kept_mode fs (sees fs) f"
        using True False by (auto simp: kept_mode_def new_mode_def split: option.splits)
      have "restore_contents cfg fs inputs f bs' = Some (Inr (fs', bs))"
        using False b(1) r(1) by (simp add: restore_contents_def Let_def)
      then show ?thesis using that r(2,3) m by simp
    next
      case denied: False
      obtain c m where v: "sees fs ?p = Some (RegView c m)" "\<not> can_write fs (RegView c m)" "replaceable inputs f" "dir_open fs ?p"
        using assms(1) denied by (auto simp: file_place_def dir_open_view split: option.splits fview.splits)
      obtain fs1 where u: "sys_unlink fs ?p = Inr fs1" "same_setup fs fs1" "\<And>q. sees fs1 q = (if q = ?p then None else sees fs q)"
        using sys_unlink_ok [OF v(1,4)] by metis
      have "dir_of ?p \<noteq> ?p" using v(1,4) by (auto simp: dir_open_def)
      then have "dir_open fs1 ?p" using v(4) u(2,3) by (simp add: dir_open_view open_view_setup)
      then have w: "case sees fs1 ?p of None \<Rightarrow> dir_open fs1 ?p | Some v \<Rightarrow> (\<exists>c m. v = RegView c m) \<and> can_write fs1 v"
        using u(3) by simp
      obtain fs' where r: "retrieve_file cfg fs1 b ?p False (ff_compressed_hash f \<noteq> None) = Some (Inr fs')" "same_setup fs1 fs'"
        "\<And>q. sees fs' q = (if q = ?p then
          Some (RegView d (case sees fs1 ?p of None \<Rightarrow> 0x1B6 AND 0xFFF AND NOT (f_umask fs1) | Some v \<Rightarrow> v_mode v)) else sees fs1 q)"
        using retrieve_file_ok [OF w b(2)] by metis
      have m: "0x1B6 AND 0xFFF AND NOT (f_umask fs1) = kept_mode fs (sees fs) f"
        using u(2) v(1,2) False by (simp add: kept_mode_def new_mode_def same_setup_def)
      have "restore_contents cfg fs inputs f bs' = Some (Inr (fs', bs))"
        using False b(1) retrieve_file_denied [OF v(1,2)] v(3) u(1) r(1) by (simp add: restore_contents_def Let_def)
      then show ?thesis using that same_setup_trans [OF u(2) r(2)] r(3) u(3) m by simp
    qed
  qed
qed

text \<open>The mode and the time stamp.\<close>

definition mode_view :: "fbb_file \<Rightarrow> fview \<Rightarrow> fview" where
  "mode_view f v = (case ff_mode f of None \<Rightarrow> v | Some m \<Rightarrow> v_with_mode (m AND 0x1FF) v)"

lemma restore_mode_ok:
  "same_setup fs (restore_mode fs f)"
  "sees (restore_mode fs f) q = (if q = ff_path f then map_option (mode_view f) (sees fs q) else sees fs q)"
proof -
  have "same_setup fs (restore_mode fs f) \<and>
    sees (restore_mode fs f) q = (if q = ff_path f then map_option (mode_view f) (sees fs q) else sees fs q)"
  proof (cases "ff_mode f")
    case None
    then have "mode_view f = (\<lambda>v. v)" by (simp add: mode_view_def fun_eq_iff)
    then show ?thesis using None by (simp add: restore_mode_def option.map_ident)
  next
    case (Some m)
    show ?thesis
    proof (cases "sees fs (ff_path f)")
      case None
      then have "sys_chmod fs (ff_path f) (m AND 0x1FF) = Inl fENOENT" by (simp add: sys_chmod_def sees_None)
      then show ?thesis using Some None by (auto simp: restore_mode_def)
    next
      case v: (Some v)
      obtain fs' where f: "sys_chmod fs (ff_path f) (m AND 0x1FF) = Inr fs'" "same_setup fs fs'"
        "\<And>q. sees fs' q = (if q = ff_path f then Some (v_with_mode ((m AND 0x1FF) AND 0xFFF) v) else sees fs q)"
        using sys_chmod_ok [OF v] by metis
      then show ?thesis using Some v by (simp add: restore_mode_def mode_view_def and.assoc)
    qed
  qed
  then show "same_setup fs (restore_mode fs f)"
    "sees (restore_mode fs f) q = (if q = ff_path f then map_option (mode_view f) (sees fs q) else sees fs q)" by auto
qed

lemma restore_timestamp_ok: "same_setup fs (restore_timestamp fs f)" "sees (restore_timestamp fs f) q = sees fs q"
proof -
  have "same_setup fs (case sys_set_mtime fs p t of Inl _ \<Rightarrow> fs | Inr fs' \<Rightarrow> fs') \<and>
    sees (case sys_set_mtime fs p t of Inl _ \<Rightarrow> fs | Inr fs' \<Rightarrow> fs') q = sees fs q" for p t
    by (auto simp: sys_set_mtime_def sees_def split: option.splits)
  then show "same_setup fs (restore_timestamp fs f)" "sees (restore_timestamp fs f) q = sees fs q"
    by (auto simp: restore_timestamp_def split: option.splits)
qed

definition file_result :: "files \<Rightarrow> (string \<Rightarrow> fview option) \<Rightarrow> (fbb_file \<Rightarrow> string) \<Rightarrow> fbb_file \<Rightarrow> fview option" where
  "file_result fs V D f =
     map_option (mode_view f)
       (if ff_type f = ISREG then Some (RegView (D f) (kept_mode fs V f)) else V (ff_path f))"

definition after_files ::
    "files \<Rightarrow> (string \<Rightarrow> fview option) \<Rightarrow> (fbb_file \<Rightarrow> string) \<Rightarrow> fbb_file list \<Rightarrow> string \<Rightarrow> fview option" where
  "after_files fs V D files q =
     (case find (\<lambda>f. ff_path f = q) files of Some f \<Rightarrow> file_result fs V D f | None \<Rightarrow> V q)"

text \<open>
  The files can be written.  The directory of a file that is created anew is not itself among the files (its mode
  would change on the way).
\<close>

definition files_ok :: "files \<Rightarrow> (string \<Rightarrow> fview option) \<Rightarrow> process_inputs \<Rightarrow> fbb_file list \<Rightarrow> bool" where
  "files_ok fs V inputs files \<longleftrightarrow>
     (\<forall>f\<in>set files. ff_type f = EXIST \<or>
        ff_type f = ISREG \<and> file_place fs V inputs f \<and> dir_of (ff_path f) \<notin> ff_path ` set files)"

lemma file_place_cong:
  assumes "same_setup fs fs'" "V' (ff_path f) = V (ff_path f)" "V' (dir_of (ff_path f)) = V (dir_of (ff_path f))"
  shows "file_place fs' V' inputs f = file_place fs V inputs f"
  by (simp add: file_place_def assms(2,3) open_view_setup [OF assms(1)] can_write_setup [OF assms(1)]
      split: option.split fview.split)

lemma file_result_cong:
  assumes "same_setup fs fs'" "V' (ff_path f) = V (ff_path f)"
  shows "file_result fs' V' D f = file_result fs V D f"
proof -
  have "new_mode fs' f = new_mode fs f" using assms(1) by (simp add: new_mode_def same_setup_def)
  moreover have "can_write fs' = can_write fs" using can_write_setup [OF assms(1)] by (rule ext)
  ultimately have "kept_mode fs' V' f = kept_mode fs V f"
    using assms(2) by (auto simp: kept_mode_def split: option.splits)
  then show ?thesis using assms(2) by (simp add: file_result_def)
qed

lemma restore_files_ok:
  assumes "distinct (map ff_path files)" "files_ok fs (sees fs) inputs files"
    and "\<And>f. f \<in> set files \<Longrightarrow> ff_type f = ISREG \<Longrightarrow> has_data cfg k f (D f)"
  shows "\<exists>s' fs'. restore_files cfg s fs rp inputs files (map (file_blob k) (filter needs_blob files) @ rest) =
      Some (Inr (s', fs', rest)) \<and> same_setup fs fs' \<and> (\<forall>q. sees fs' q = after_files fs (sees fs) D files q)"
  using assms
proof (induction files arbitrary: s fs)
  case (Cons f files)
  let ?p = "ff_path f" and ?bs = "map (file_blob k) (filter needs_blob files) @ rest"
  let ?bs' = "map (file_blob k) (filter needs_blob (f # files)) @ rest"
  have t: "ff_type f = EXIST \<or> ff_type f = ISREG \<and> file_place fs (sees fs) inputs f" using Cons.prems(2) by (auto simp: files_ok_def)
  obtain fs1 where c: "(case ff_type f of ISREG \<Rightarrow> restore_contents cfg fs inputs f ?bs' | EXIST \<Rightarrow> Some (Inr (fs, ?bs'))
        | _ \<Rightarrow> None) = Some (Inr (fs1, ?bs))" "same_setup fs fs1"
    "\<And>q. sees fs1 q = (if q = ?p \<and> ff_type f = ISREG then Some (RegView (D f) (kept_mode fs (sees fs) f)) else sees fs q)"
  proof (cases "ff_type f = ISREG")
    case True
    have d: "has_data cfg k f (D f)" using Cons.prems(3) True by simp
    have dd: "if ff_inline_data f \<noteq> [] then D f = ff_inline_data f \<and> ?bs' = ?bs
        else (\<exists>b. ?bs' = b # ?bs \<and> blob_reads cfg (ff_compressed_hash f) b (D f))"
      using d True by (auto simp: has_data_def needs_blob_def file_blob_def)
    have pl: "file_place fs (sees fs) inputs f" using t True by auto
    obtain fs1 where "restore_contents cfg fs inputs f ?bs' = Some (Inr (fs1, ?bs))" "same_setup fs fs1"
      "\<And>q. sees fs1 q = (if q = ?p then Some (RegView (D f) (kept_mode fs (sees fs) f)) else sees fs q)"
      using restore_contents_ok [OF pl dd] by blast
    then show ?thesis using that True by simp
  next
    case False
    then show ?thesis using that [of fs] t by (simp add: needs_blob_def)
  qed
  let ?fs2 = "restore_timestamp (restore_mode fs1 f) f"
  let ?s = "register_opt ?fs2 s rp ?p (\<lambda>env. file_to_file_usage_update env ?p f)"
  have su: "same_setup fs ?fs2"
    by (rule same_setup_trans [OF c(2) same_setup_trans [OF restore_mode_ok(1) restore_timestamp_ok(1)]])
  have v: "sees ?fs2 q = (if q = ?p then file_result fs (sees fs) D f else sees fs q)" for q
    by (simp add: restore_timestamp_ok(2) restore_mode_ok(2) file_result_def c(3))
  have fresh: "ff_path g \<noteq> ?p" if "g \<in> set files" for g
  proof
    assume "ff_path g = ?p"
    then have "?p \<in> ff_path ` set files" using that by (metis imageI)
    then show False using Cons.prems(1) by simp
  qed
  have other: "sees ?fs2 (ff_path g) = sees fs (ff_path g)" if "g \<in> set files" for g
    using fresh [OF that] v [of "ff_path g"] by simp
  have ds: "distinct (map ff_path files)" using Cons.prems(1) by simp
  have hd: "has_data cfg k g (D g)" if "g \<in> set files" "ff_type g = ISREG" for g using Cons.prems(3) that by simp
  have ok2: "files_ok ?fs2 (sees ?fs2) inputs files"
    unfolding files_ok_def
  proof
    fix g assume g: "g \<in> set files"
    have d: "ff_type g = EXIST \<or> ff_type g = ISREG \<and> file_place fs (sees fs) inputs g \<and> dir_of (ff_path g) \<notin> ff_path ` set (f # files)"
      using Cons.prems(2) [unfolded files_ok_def, rule_format, of g] g by simp
    have "file_place ?fs2 (sees ?fs2) inputs g = file_place fs (sees fs) inputs g" if "dir_of (ff_path g) \<noteq> ?p"
      using that v [of "dir_of (ff_path g)"] by (intro file_place_cong su other g) simp
    then show "ff_type g = EXIST \<or> ff_type g = ISREG \<and> file_place ?fs2 (sees ?fs2) inputs g \<and> dir_of (ff_path g) \<notin> ff_path ` set files"
      using d by (metis image_insert insert_iff list.set(2))
  qed
  have "\<exists>s' fs'. restore_files cfg ?s ?fs2 rp inputs files ?bs = Some (Inr (s', fs', rest)) \<and> same_setup ?fs2 fs' \<and>
      (\<forall>q. sees fs' q = after_files ?fs2 (sees ?fs2) D files q)"
    by (rule Cons.IH [OF ds ok2 hd])
  then obtain s' fs' where r: "restore_files cfg ?s ?fs2 rp inputs files ?bs = Some (Inr (s', fs', rest)) \<and> same_setup ?fs2 fs' \<and>
      (\<forall>q. sees fs' q = after_files ?fs2 (sees ?fs2) D files q)"
    by (elim exE) (rule that)
  note r1 = r [THEN conjunct1] and r2 = r [THEN conjunct2, THEN conjunct1] and r3 = r [THEN conjunct2, THEN conjunct2]
  have "after_files ?fs2 (sees ?fs2) D files q = after_files fs (sees fs) D (f # files) q" for q
  proof (cases "find (\<lambda>g. ff_path g = q) files")
    case None
    then show ?thesis using v [of q] by (simp add: after_files_def)
  next
    case (Some g)
    then have g: "g \<in> set files" "ff_path g = q" by (auto simp: find_Some_iff)
    then have "?p \<noteq> q" using fresh by blast
    then show ?thesis using Some file_result_cong [OF su, of "sees ?fs2" g "sees fs", OF other [OF g(1)]] by (simp add: after_files_def)
  qed
  then have "\<forall>q. sees fs' q = after_files fs (sees fs) D (f # files) q" using r3 by simp
  moreover have "restore_files cfg s fs rp inputs (f # files) ?bs' = Some (Inr (s', fs', rest))"
    using c(1) r1 unfolding restore_files.simps by (simp only: option.case sum.case prod.case Let_def)
  ultimately show ?case using same_setup_trans [OF su r2] by (intro exI conjI)
qed (simp add: after_files_def)

section \<open>Removal\<close>

text \<open>
  A path can be removed: nothing is there, or its directory can be written and, if it is a directory, all its
  entries are to be removed too.
\<close>

definition removable :: "files \<Rightarrow> (string \<Rightarrow> fview option) \<Rightarrow> string set \<Rightarrow> string \<Rightarrow> bool" where
  "removable fs V P p \<longleftrightarrow> V p = None \<or>
     GetParentDir p (length p) \<noteq> None \<and> open_view fs (V (dir_of p)) \<and>
     (\<forall>m. V p = Some (DirView m) \<longrightarrow> (\<forall>q. q \<noteq> p \<longrightarrow> dir_of q = p \<longrightarrow> V q \<noteq> None \<longrightarrow> q \<in> P))"

lemma remove_path_ok:
  assumes "removable fs (sees fs) {} p"
  shows "same_setup fs (remove_path fs p)" "sees (remove_path fs p) q = (if q = p then None else sees fs q)"
proof -
  have "same_setup fs (remove_path fs p) \<and> (\<forall>q. sees (remove_path fs p) q = (if q = p then None else sees fs q))"
  proof (cases "sees fs p")
    case None
    then have "remove_path fs p = fs" by (simp add: remove_path_def sys_unlink_def sees_None)
    then show ?thesis using None by simp
  next
    case (Some v)
    then have o: "dir_open fs p" using assms by (simp add: removable_def dir_open_view)
    show ?thesis
    proof (cases v)
      case (RegView c m)
      then obtain fs' where "sys_unlink fs p = Inr fs'" "same_setup fs fs'" "\<And>q. sees fs' q = (if q = p then None else sees fs q)"
        using sys_unlink_ok [of fs p c m] Some o by metis
      then show ?thesis by (simp add: remove_path_def)
    next
      case (DirView m)
      then have "sees fs q = None" if "q \<noteq> p" "dir_of q = p" for q
        using assms Some that by (auto simp: removable_def)
      then obtain fs' where f: "sys_rmdir fs p = Inr fs'" "same_setup fs fs'" "\<And>q. sees fs' q = (if q = p then None else sees fs q)"
        using sys_rmdir_ok [of fs p m] Some DirView o by metis
      have "sys_unlink fs p = Inl EISDIR" using Some DirView by (auto simp: sys_unlink_def sees_Dir)
      then show ?thesis using f by (simp add: remove_path_def)
    qed
  qed
  then show "same_setup fs (remove_path fs p)" "sees (remove_path fs p) q = (if q = p then None else sees fs q)" by auto
qed

lemma remove_loop_ok:
  assumes "distinct ps" "sorted_wrt (\<lambda>a b. length b \<le> length a) ps" "\<And>p. p \<in> set ps \<Longrightarrow> removable fs (sees fs) (set ps) p"
  shows "\<exists>s' fs'. remove_loop s fs i ps = (s', fs') \<and> same_setup fs fs' \<and>
    (\<forall>q. sees fs' q = (if q \<in> set ps then None else sees fs q))"
  using assms
proof (induction ps arbitrary: s fs)
  case (Cons p ps)
  have shorter: "length (dir_of q) < length q" if "q \<in> set (p # ps)" "sees fs q \<noteq> None" for q
    using Cons.prems(3) [OF that(1)] that(2) dir_of_shorter by (simp add: removable_def)
  have "q \<notin> set (p # ps)" if "q \<noteq> p" "dir_of q = p" "sees fs q \<noteq> None" for q
    using shorter [of q] that Cons.prems(2) by auto
  then have "removable fs (sees fs) {} p"
    using Cons.prems(3) [of p] by (auto simp: removable_def)
  note r = remove_path_ok [OF this]
  let ?fs = "remove_path fs p"
  have rm: "removable ?fs (sees ?fs) (set ps) q" if q: "q \<in> set ps" for q
  proof (cases "sees fs q")
    case None
    then show ?thesis using r(2) by (simp add: removable_def)
  next
    case (Some v)
    have "dir_of q \<noteq> p" using shorter [of q] q Some Cons.prems(2) by auto
    moreover have "q \<noteq> p" using q Cons.prems(1) by auto
    ultimately show ?thesis
      using Cons.prems(3) [of q] q Some r(2) open_view_setup [OF r(1)] by (auto simp: removable_def split: if_splits)
  qed
  let ?s = "register_opt ?fs s (parent_point s i) p (\<lambda>env. FileUsageUpdate env p ISDIR True False)"
  have ds: "distinct ps" and so: "sorted_wrt (\<lambda>a b. length b \<le> length a) ps" using Cons.prems(1,2) by simp_all
  have "\<exists>s' fs'. remove_loop ?s ?fs i ps = (s', fs') \<and> same_setup ?fs fs' \<and>
      (\<forall>q. sees fs' q = (if q \<in> set ps then None else sees ?fs q))"
    by (rule Cons.IH [OF ds so rm])
  then obtain s' fs' where l: "remove_loop ?s ?fs i ps = (s', fs') \<and> same_setup ?fs fs' \<and>
      (\<forall>q. sees fs' q = (if q \<in> set ps then None else sees ?fs q))"
    by (elim exE) (rule that)
  have "remove_loop s fs i (p # ps) = (s', fs')" using l by (simp only: remove_loop.simps Let_def)
  moreover have "\<forall>q. sees fs' q = (if q \<in> set (p # ps) then None else sees fs q)" using l r(2) by simp
  moreover have "same_setup fs fs'" using same_setup_trans [OF r(1)] l by simp
  ultimately show ?case by (intro exI conjI)
qed simp

lemma remove_files_and_dirs_ok:
  assumes "distinct (out_path_notexist po)" "\<And>p. p \<in> set (out_path_notexist po) \<Longrightarrow> removable fs (sees fs) (set (out_path_notexist po)) p"
  shows "\<exists>s' fs'. remove_files_and_dirs s fs i po = (s', fs') \<and> same_setup fs fs' \<and>
    (\<forall>q. sees fs' q = (if q \<in> set (out_path_notexist po) then None else sees fs q))"
proof -
  let ?ps = "sort_by (\<lambda>a b. length a > length b) (out_path_notexist po)"
  have m: "mset ?ps = mset (out_path_notexist po)" by (rule mset_sort_by)
  have st: "set ?ps = set (out_path_notexist po)" using m by (rule mset_eq_setD)
  have d: "distinct ?ps" using assms(1) m mset_eq_imp_distinct_iff by blast
  have "sorted_wrt (\<lambda>a b. length b \<le> length a) ?ps" by (rule sorted_sort_by_desc)
  from remove_loop_ok [OF d this, of fs s i] show ?thesis
    using assms(2) unfolding st remove_files_and_dirs_def by simp
qed

section \<open>The whole entry\<close>

text \<open>The data of an output: inline, or the blob that is stored under its key, decompressed if the entry says so.\<close>

definition file_data :: "cache_config \<Rightarrow> caches \<Rightarrow> fbb_file \<Rightarrow> string option" where
  "file_data cfg k f =
     (if ff_inline_data f \<noteq> [] then Some (ff_inline_data f)
      else
        (case file_key f of
           None \<Rightarrow> None
         | Some h \<Rightarrow>
             (case get_fd_for_file k h of
                None \<Rightarrow> None
              | Some b \<Rightarrow> if ff_compressed_hash f \<noteq> None then unzstd cfg b else Some b)))"

lemma has_data_iff: "has_data cfg k f d \<longleftrightarrow> file_data cfg k f = Some d"
  by (auto simp: has_data_def file_data_def blob_reads_def split: option.splits)

lemma open_blobs_append:
  "open_blobs k (map key xs @ hs) = Some (Some blobs) \<Longrightarrow>
   \<exists>rest. blobs = map (\<lambda>x. case key x of None \<Rightarrow> [] | Some h \<Rightarrow> (case get_fd_for_file k h of None \<Rightarrow> [] | Some b \<Rightarrow> b)) xs @ rest \<and>
     open_blobs k hs = Some (Some rest)"
proof (induction xs arbitrary: blobs)
  case (Cons x xs)
  then show ?case by (cases "key x") (auto split: option.splits)
qed simp

lemma open_blobs_files:
  assumes "open_blobs k (blobs_needed po) = Some (Some blobs)"
  obtains rest where "blobs = map (file_blob k) (filter needs_blob (out_path_isreg po)) @ rest"
proof -
  have "(\<lambda>f. ff_type f = ISREG \<and> ff_inline_data f = []) = needs_blob" by (simp add: needs_blob_def fun_eq_iff)
  then show ?thesis
    using open_blobs_append [OF assms [unfolded blobs_needed_def]] that
    by (auto simp: file_blob_def [abs_def] file_key_def)
qed

text \<open>The paths of an entry: each is named once.\<close>

definition entry_paths :: "process_outputs \<Rightarrow> string list" where
  "entry_paths po = map ff_path (out_path_isdir po) @ map ff_path (out_path_isreg po) @ out_path_notexist po"

text \<open>The entry can be applied to the files.\<close>

definition can_restore :: "cache_config \<Rightarrow> caches \<Rightarrow> files \<Rightarrow> process_inputs_outputs \<Rightarrow> bool" where
  "can_restore cfg k fs io \<longleftrightarrow>
     (let po = io_outputs io; V1 = after_dirs fs (out_path_isdir po);
          V2 = after_files fs V1 (the \<circ> file_data cfg k) (out_path_isreg po)
      in distinct (entry_paths po) \<and> dirs_ok fs (out_path_isdir po) \<and> files_ok fs V1 (io_inputs io) (out_path_isreg po) \<and>
         (\<forall>f\<in>set (out_path_isreg po). ff_type f = ISREG \<longrightarrow> file_data cfg k f \<noteq> None) \<and>
         (\<forall>p\<in>set (out_path_notexist po). removable fs V2 (set (out_path_notexist po)) p))"

lemma files_ok_setup: "same_setup fs fs' \<Longrightarrow> files_ok fs' V inputs files = files_ok fs V inputs files"
  by (simp add: files_ok_def file_place_cong [of fs fs' V _ V])

lemma after_files_setup: "same_setup fs fs' \<Longrightarrow> after_files fs' V D files = after_files fs V D files"
  by (simp add: after_files_def fun_eq_iff file_result_cong [of fs fs' V _ V] split: option.split)

lemma removable_setup: "same_setup fs fs' \<Longrightarrow> removable fs' V P p = removable fs V P p"
  by (simp add: removable_def open_view_setup)

lemma restore_outputs_views:
  assumes "can_restore cfg k fs io" "open_blobs k (blobs_needed (io_outputs io)) = Some (Some blobs)"
  obtains s' fs' rest where "restore_outputs cfg s fs i io blobs = Some (Inr (s', fs', rest))" "same_setup fs fs'"
    "\<And>q. sees fs' q = (if q \<in> set (out_path_notexist (io_outputs io)) then None
       else after_files fs (after_dirs fs (out_path_isdir (io_outputs io))) (the \<circ> file_data cfg k) (out_path_isreg (io_outputs io)) q)"
proof -
  let ?po = "io_outputs io" and ?D = "the \<circ> file_data cfg k"
  let ?V1 = "after_dirs fs (out_path_isdir ?po)"
  let ?V2 = "after_files fs ?V1 ?D (out_path_isreg ?po)"
  have ds: "distinct (map ff_path (out_path_isdir ?po))" "distinct (map ff_path (out_path_isreg ?po))" "distinct (out_path_notexist ?po)"
    and ok: "dirs_ok fs (out_path_isdir ?po)" "files_ok fs ?V1 (io_inputs io) (out_path_isreg ?po)"
      "\<And>f. f \<in> set (out_path_isreg ?po) \<Longrightarrow> ff_type f = ISREG \<Longrightarrow> file_data cfg k f \<noteq> None"
      "\<And>p. p \<in> set (out_path_notexist ?po) \<Longrightarrow> removable fs ?V2 (set (out_path_notexist ?po)) p"
    using assms(1) by (simp_all add: can_restore_def Let_def entry_paths_def)
  obtain rest where b: "blobs = map (file_blob k) (filter needs_blob (out_path_isreg ?po)) @ rest"
    by (rule open_blobs_files [OF assms(2)])
  let ?rp = "if x_report (s_x s) then Some i else parent_point s i"
  let ?s1 = "register_notexist fs (register_inputs fs s ?rp (in_path (io_inputs io))) ?rp (in_path_notexist (io_inputs io))"
  have "\<exists>s2 fs2. restore_dirs ?s1 fs i ?po = Some (s2, fs2) \<and> same_setup fs fs2 \<and> (\<forall>q. sees fs2 q = ?V1 q)"
    by (rule restore_dirs_ok [OF ds(1) ok(1)])
  then obtain s2 fs2 where d: "restore_dirs ?s1 fs i ?po = Some (s2, fs2)" "same_setup fs fs2" "sees fs2 = ?V1"
    by (elim exE conjE) (simp add: fun_eq_iff)
  have hd: "has_data cfg k f (?D f)" if "f \<in> set (out_path_isreg ?po)" "ff_type f = ISREG" for f
    using ok(3) [OF that] by (auto simp: has_data_iff)
  have f2: "files_ok fs2 (sees fs2) (io_inputs io) (out_path_isreg ?po)" using ok(2) files_ok_setup [OF d(2)] d(3) by simp
  have "\<exists>s3 fs3. restore_files cfg s2 fs2 ?rp (io_inputs io) (out_path_isreg ?po) blobs = Some (Inr (s3, fs3, rest)) \<and>
      same_setup fs2 fs3 \<and> (\<forall>q. sees fs3 q = after_files fs2 (sees fs2) ?D (out_path_isreg ?po) q)"
    unfolding b by (rule restore_files_ok [OF ds(2) f2 hd])
  then obtain s3 fs3 where f: "restore_files cfg s2 fs2 ?rp (io_inputs io) (out_path_isreg ?po) blobs = Some (Inr (s3, fs3, rest))"
    "same_setup fs2 fs3" "sees fs3 = ?V2"
    using after_files_setup [OF d(2)] d(3) by (elim exE conjE) (simp add: fun_eq_iff)
  have su: "same_setup fs fs3" by (rule same_setup_trans [OF d(2) f(2)])
  have rm: "removable fs3 (sees fs3) (set (out_path_notexist ?po)) p" if "p \<in> set (out_path_notexist ?po)" for p
    using ok(4) [OF that] removable_setup [OF su] f(3) by simp
  have "\<exists>s4 fs4. remove_files_and_dirs s3 fs3 i ?po = (s4, fs4) \<and> same_setup fs3 fs4 \<and>
      (\<forall>q. sees fs4 q = (if q \<in> set (out_path_notexist ?po) then None else sees fs3 q))"
    by (rule remove_files_and_dirs_ok [OF ds(3) rm])
  then obtain s4 fs4 where x: "remove_files_and_dirs s3 fs3 i ?po = (s4, fs4)" "same_setup fs3 fs4"
    "\<And>q. sees fs4 q = (if q \<in> set (out_path_notexist ?po) then None else sees fs3 q)"
    by blast
  have "restore_outputs cfg s fs i io blobs = Some (Inr (s4, fs4, rest))"
    using d(1) f(1) x(1) by (simp only: restore_outputs_def Let_def option.case sum.case prod.case)
  then show ?thesis by (rule that) (use same_setup_trans [OF su x(2)] x(3) f(3) in simp_all)
qed


text \<open>A build directory and an entry: a directory and a file in it are made, a file is replaced from a blob, a directory
  with a file in it is removed.\<close>

definition demo_files :: files where
  "demo_files =
     \<lparr>f_nodes = [(''/'', DirNode 0x1ED (0, 0) 1), (''/b'', DirNode 0x1ED (0, 0) 2), (''/b/o'', RegNode ''old'' 0x1A4 (0, 0) 3),
        (''/b/t'', DirNode 0x1ED (0, 0) 4), (''/b/t/x'', RegNode ''x'' 0x1A4 (0, 0) 5)],
      f_now = (1, 0), f_next_ino = 6, f_umask = 0x12, f_privileged = False\<rparr>"

definition demo_file :: "string \<Rightarrow> mode_t option \<Rightarrow> string \<Rightarrow> hash_t option \<Rightarrow> fbb_file" where
  "demo_file p m d h =
     \<lparr>ff_path = p, ff_type = ISREG, ff_size = None, ff_hash = h, ff_compressed_hash = None, ff_mode = m,
      ff_mode_mask = None, ff_inline_data = d, ff_timestamp_source = None\<rparr>"

definition demo_entry :: process_inputs_outputs where
  "demo_entry =
     \<lparr>io_inputs = \<lparr>in_path = [], in_path_notexist = []\<rparr>,
      io_outputs = \<lparr>out_path_isreg = [demo_file ''/b/d/f'' (Some 0x1A4) ''hi'' None, demo_file ''/b/o'' None [] (Some 7)],
        out_path_isdir = [demo_file ''/b/d'' (Some 0x1FF) [] None], out_path_notexist = [''/b/t'', ''/b/t/x''],
        out_append_to_fd = [], out_exit_status = 0\<rparr>,
      io_cpu_time_ms = None\<rparr>"

definition demo_caches :: caches where
  "demo_caches =
     \<lparr>bc_dir = CDir [(take 1 (to_ascii 7), CDir [(take 2 (to_ascii 7), CDir [(to_ascii 7, CFile ''new'' (0, 0))])])],
      oc_dir = CDir [], this_runs_cached_bytes = 3, stored_cached_bytes = 0, bc_now = (1, 0)\<rparr>"

definition demo_config :: cache_config where
  "demo_config =
     \<lparr>compress_cache = False, zstd = (\<lambda>d. Some (kZstdMagicHeader @ replicate 5 NUL @ d)), unzstd = (\<lambda>b. Some (drop 9 b)),
      max_entry_size = 1000000, max_cache_size = 1000000, shortcut_tries = 20, max_inline_blob_size = 4096, debug_cache = False\<rparr>"

lemmas demo_defs = demo_files_def demo_file_def demo_entry_def demo_caches_def demo_config_def

lemma demo_blob: "get_fd_for_file demo_caches 7 = Some ''new''"
  by (simp add: demo_caches_def get_fd_for_file_def cached_file_name_def Let_def)

lemma demo_blobs: "open_blobs demo_caches (blobs_needed (io_outputs demo_entry)) = Some (Some [''new''])"
  by (simp add: demo_entry_def demo_file_def blobs_needed_def blob_key_def demo_blob)

lemma demo_dirs: "dirs_ok demo_files (out_path_isdir (io_outputs demo_entry))"
  by (simp add: demo_defs dirs_ok_def after_dirs_def sees_def at_def open_view_def can_write_def dir_of_def GetParentDir_def)

lemma demo_data: "\<forall>f\<in>set (out_path_isreg (io_outputs demo_entry)). file_data demo_config demo_caches f \<noteq> None"
  by (simp add: demo_entry_def demo_file_def file_data_def file_key_def blob_key_def demo_blob)

lemma demo_place: "files_ok demo_files (after_dirs demo_files (out_path_isdir (io_outputs demo_entry))) (io_inputs demo_entry)
    (out_path_isreg (io_outputs demo_entry))"
  by (simp add: demo_defs files_ok_def file_place_def after_dirs_def dir_result_def sees_def at_def open_view_def can_write_def
      dir_of_def GetParentDir_def)

lemma demo_removable: "\<forall>p\<in>set (out_path_notexist (io_outputs demo_entry)).
    removable demo_files (after_files demo_files (after_dirs demo_files (out_path_isdir (io_outputs demo_entry))) D
      (out_path_isreg (io_outputs demo_entry))) (set (out_path_notexist (io_outputs demo_entry))) p"
  by (auto simp: demo_defs removable_def after_files_def file_result_def mode_view_def after_dirs_def dir_result_def sees_def at_def
      open_view_def can_write_def dir_of_def GetParentDir_def split: if_splits)


end
