(* ===== verification/FB_CacheRuns.thy ===== *)
theory FB_CacheRuns
  imports FB_Matching FB_Restore FB_Runs
begin

text \<open>
  The caches in use: the invariants of the two directories along stores and uses, what is stored is found and read back, and
  the order in which entries are tried.
\<close>

section \<open>Runs\<close>

text \<open>
  The operations of the caches during a build; time passes between them.  \<open>c_at\<close> of the used entry need not be there.
\<close>

inductive cache_step :: "cache_config \<Rightarrow> (string \<Rightarrow> hash_t) \<Rightarrow> caches \<Rightarrow> caches \<Rightarrow> bool" for cfg xxh where
  tick: "cache_step cfg xxh k (k\<lparr>bc_now := t\<rparr>)"
| store_file: "store_file cfg xxh k writers max_writers src skip sz = Some (k', key) \<Longrightarrow> cache_step cfg xxh k k'"
| move_store_file: "move_store_file cfg xxh k d = Some (k', key) \<Longrightarrow> cache_step cfg xxh k k'"
| obj_store: "obj_store cfg k tmp key entry n = Some (k', stored) \<Longrightarrow> cache_step cfg xxh k k'"
| mark_as_used: "cache_step cfg xxh k (mark_as_used k key subkey)"

inductive cache_run :: "cache_config \<Rightarrow> (string \<Rightarrow> hash_t) \<Rightarrow> caches \<Rightarrow> caches \<Rightarrow> bool" for cfg xxh where
  refl: "cache_run cfg xxh k k"
| step: "cache_run cfg xxh k k' \<Longrightarrow> cache_step cfg xxh k' k'' \<Longrightarrow> cache_run cfg xxh k k''"

lemma c_touch_size: "c_wf t \<Longrightarrow> c_wf (c_touch p now t) \<and> csize (c_touch p now t) = csize t"
proof (induction p now t rule: c_touch.induct)
  case (2 x xs now es)
  show ?case
  proof (cases "map_of es x")
    case (Some n)
    note ih = 2(1) [OF Some c_wf_entry [OF 2(2) Some]]
    then show ?thesis
      using 2(2) Some sum_list_update [of es x n csize "c_touch xs now n"] c_wf_update [OF 2(2), of "c_touch xs now n" x] by auto
  qed (use 2 in simp)
qed auto

lemma blob_store_cases:
  assumes "store_file cfg xxh k writers max_writers src skip sz = Some (k', key)"
  obtains d where "place_blob cfg xxh k d = Some (k', key)"
  using assms by (auto simp: store_file_def Let_def split: if_splits option.splits)

lemma move_store_cases:
  assumes "move_store_file cfg xxh k d = Some (k', key)"
  shows "place_blob cfg xxh k d = Some (k', key)"
  using assms by (auto simp: move_store_file_def split: if_splits)

lemma obj_store_blobs: "obj_store cfg k tmp key entry n = Some (k', stored) \<Longrightarrow> bc_dir k' = bc_dir k"
  by (auto simp: obj_store_def Let_def update_cached_bytes_def split: sum.splits if_splits option.splits)

lemma same_blobs: "bc_dir k' = bc_dir k \<Longrightarrow> get_fd_for_file k' key = get_fd_for_file k key"
  by (simp add: get_fd_for_file_def)

lemma place_blob_keeps:
  assumes "place_blob cfg xxh k d = Some (k', key)" "get_fd_for_file k h = Some b"
  shows "get_fd_for_file k' h = Some b"
proof -
  let ?t = "create_blob_dirs (xxh d) (bc_dir k)"
  obtain m where m: "c_at (bc_dir k) (cached_file_name h) = Some (CFile b m)" using assms(2) by (auto simp: get_fd_iff)
  obtain c where c: "(if compress_cache cfg then zstd cfg d else Some d) = Some c"
    using assms(1) by (auto simp: place_blob_def Let_def split: option.splits)
  show ?thesis
  proof (cases "c_link (cached_file_name (xxh d)) (CFile c (bc_now k)) ?t")
    case (Inl e)
    then have "bc_dir k' = ?t" using assms(1) c by (auto simp: place_blob_def Let_def split: if_splits)
    then show ?thesis using m by (auto simp: get_fd_iff create_blob_dirs_file)
  next
    case (Inr t')
    then have "bc_dir k' = t'" using assms(1) c by (auto simp: place_blob_def Let_def update_cached_bytes_def)
    then show ?thesis using m c_link_other [OF Inr] by (auto simp: get_fd_iff create_blob_dirs_file)
  qed
qed

lemma cache_step_keeps:
  assumes "cache_step cfg xxh k k'" "get_fd_for_file k h = Some b"
  shows "get_fd_for_file k' h = Some b"
  using assms(1)
proof (cases rule: cache_step.cases)
  case (store_file writers max_writers src skip sz key)
  then show ?thesis using blob_store_cases place_blob_keeps assms(2) by metis
next
  case (move_store_file d key)
  then show ?thesis using move_store_cases place_blob_keeps assms(2) by metis
next
  case (obj_store tmp key entry n stored)
  then show ?thesis using obj_store_blobs same_blobs assms(2) by metis
qed (use assms(2) in \<open>simp_all add: get_fd_for_file_def mark_as_used_def\<close>)

lemma cache_run_keeps: "cache_run cfg xxh k k' \<Longrightarrow> get_fd_for_file k h = Some b \<Longrightarrow> get_fd_for_file k' h = Some b"
  by (induction rule: cache_run.induct) (auto dest: cache_step_keeps)

lemma cache_step_inv:
  assumes "cache_step cfg xxh k k'" "bytes_accounted k" "zstd_ok cfg" "blobs_ok cfg xxh k"
  shows "bytes_accounted k' \<and> blobs_ok cfg xxh k'"
  using assms
proof (cases rule: cache_step.cases)
  case (tick t)
  then show ?thesis using assms by (simp add: bytes_accounted_def blobs_ok_def get_fd_for_file_def)
next
  case (store_file writers max_writers src skip sz key)
  then obtain d where d: "place_blob cfg xxh k d = Some (k', key)" by (rule blob_store_cases)
  show ?thesis
    using place_blob_accounted [OF assms(2) d] place_blob_ok [OF assms(4,3) d] by blast
next
  case (move_store_file d key)
  then have d: "place_blob cfg xxh k d = Some (k', key)" by (rule move_store_cases)
  show ?thesis
    using place_blob_accounted [OF assms(2) d] place_blob_ok [OF assms(4,3) d] by blast
next
  case (obj_store tmp key entry n stored)
  then show ?thesis
    using obj_store_accounted [OF assms(2)] obj_store_blobs same_blobs assms(4) by (metis blobs_ok_def)
next
  case (mark_as_used key subkey)
  then show ?thesis
    using assms c_touch_size by (simp add: bytes_accounted_def blobs_ok_def get_fd_for_file_def mark_as_used_def)
qed

text \<open>
  C8: Along every sequence of stores and uses the count of cached bytes stays the total size of the files in both
  directories, every blob stays the (compressed) data of which its name is the digest, and no blob is changed or lost.
\<close>

theorem cache_run_inv:
  assumes "cache_run cfg xxh k k'" "bytes_accounted k" "zstd_ok cfg" "blobs_ok cfg xxh k"
  shows "bytes_accounted k' \<and> blobs_ok cfg xxh k' \<and> (\<forall>h b. get_fd_for_file k h = Some b \<longrightarrow> get_fd_for_file k' h = Some b)"
proof -
  have "bytes_accounted k' \<and> blobs_ok cfg xxh k'"
    using assms
  proof (induction rule: cache_run.induct)
    case (step k k' k'')
    then show ?case using cache_step_inv [OF step(2)] by blast
  qed simp
  then show ?thesis using cache_run_keeps [OF assms(1)] by blast
qed

section \<open>The order of the candidates\<close>

lemma sorted_by_key:
  assumes "\<And>x y. x \<in> set xs \<Longrightarrow> y \<in> set xs \<Longrightarrow> before x y \<longleftrightarrow> g y < (g x :: 'b :: linorder)"
  shows "sorted_wrt (\<lambda>a b. g b \<le> g a) (sort_by before xs)"
proof -
  have ins: "sorted_wrt (\<lambda>a b. g b \<le> g a) (insert_by before x ys)"
    if "sorted_wrt (\<lambda>a b. g b \<le> g a) ys" "\<And>y. y \<in> set ys \<Longrightarrow> before y x \<longleftrightarrow> g x < g y" for x ys
    using that by (induction ys) fastforce+
  show ?thesis using assms
  proof (induction xs)
    case (Cons x xs)
    then have "sorted_wrt (\<lambda>a b. g b \<le> g a) (sort_by before xs)" by simp
    then show ?case using ins [of "sort_by before xs" x] Cons.prems by (simp add: sort_by_def set_sort_by [unfolded sort_by_def])
  qed (simp add: sort_by_def)
qed

lemma valid_chars_length: "valid_chars a n \<Longrightarrow> n \<le> length a"
proof (induction n arbitrary: a)
  case (Suc n)
  then show ?case by (cases a) (auto simp: Let_def split: if_splits)
qed simp

lemma memcmp_take: "n \<le> length a \<Longrightarrow> n \<le> length b \<Longrightarrow> memcmp a b n = memcmp (take n a) (take n b) n"
proof (induction n arbitrary: a b)
  case (Suc n)
  obtain x a' y b' where ab: "a = x # a'" "b = y # b'" using Suc.prems by (cases a; cases b) auto
  show ?case using Suc.IH [of a' b'] Suc.prems unfolding ab by simp
qed simp

lemma subkey_less_valid:
  assumes "subkey_valid_ascii a" "subkey_valid_ascii b"
  shows "subkey_less a b \<longleftrightarrow> take 11 a < take 11 b"
proof -
  have n: "11 \<le> length a" "11 \<le> length b"
    using assms valid_chars_length by (simp_all add: subkey_valid_ascii_def valid_ascii_def)
  then have "memcmp (take 11 a) (take 11 b) 11 < 0 \<longleftrightarrow> take 11 a < take 11 b" by (intro memcmp_less_list) simp_all
  then show ?thesis using memcmp_take [OF n] by (simp add: subkey_less_def)
qed

lemma time_word:
  assumes "0 \<le> fst t" "fst t < 2 ^ 34" "0 \<le> snd t" "snd t < 2 ^ 30"
  shows "uint (push_bit 30 (word_of_int (fst t)) + word_of_int (snd t) :: 64 word) = fst t * 2 ^ 30 + snd t"
proof -
  have "push_bit 30 (word_of_int (fst t)) + word_of_int (snd t) = (word_of_int (fst t * 2 ^ 30 + snd t) :: 64 word)"
    by (simp add: push_bit_eq_mult)
  moreover have "uint (word_of_int n :: 64 word) = n" if "0 \<le> n" "n < 2 ^ 64" for n
    using that by (simp add: uint_word_of_int)
  moreover have "0 \<le> fst t * 2 ^ 30 + snd t" "fst t * 2 ^ 30 + snd t < 2 ^ 64" using assms by simp_all
  ultimately show ?thesis by (simp only:)
qed

lemma time_subkey_less:
  assumes "0 \<le> fst a" "fst a < 2 ^ 34" "0 \<le> snd a" "snd a < 2 ^ 30"
    and "0 \<le> fst b" "fst b < 2 ^ 34" "0 \<le> snd b" "snd b < 2 ^ 30"
  shows "time_subkey a < time_subkey b \<longleftrightarrow> timespec_less a b"
proof -
  let ?w = "\<lambda>t :: timespec. push_bit 30 (word_of_int (fst t)) + word_of_int (snd t) :: 64 word"
  have "time_subkey a < time_subkey b \<longleftrightarrow> ?w a < ?w b"
    using subkey_less_valid [OF time_subkey_valid(1) time_subkey_valid(1), of a b] subkey_order [of "?w a" "?w b"]
    by (simp add: time_subkey_valid(2)) (simp add: time_subkey_def)
  also have "\<dots> \<longleftrightarrow> fst a * 2 ^ 30 + snd a < fst b * 2 ^ 30 + snd b"
    using time_word [of a] time_word [of b] assms by (simp only: word_less_def)
  also have "\<dots> \<longleftrightarrow> timespec_less a b" using assms by (auto simp: timespec_less_def)
  finally show ?thesis .
qed

text \<open>
  C39: The entries of a key are tried in the order of the times they were stored at, the newest first.
\<close>

theorem list_subkeys_newest_first:
  assumes "\<not> debug_cache cfg" "list_subkeys cfg k key = xs @ time_subkey b # ys" "time_subkey a \<in> set (list_subkeys cfg k key)"
    and "0 \<le> fst a" "fst a < 2 ^ 34" "0 \<le> snd a" "snd a < 2 ^ 30"
    and "0 \<le> fst b" "fst b < 2 ^ 34" "0 \<le> snd b" "snd b < 2 ^ 30"
    and "timespec_less b a"
  shows "time_subkey a \<in> set xs"
proof -
  have "\<exists>es. c_at (oc_dir k) (cached_file_name key) = Some (CDir es)"
    using assms(3) by (cases "c_at (oc_dir k) (cached_file_name key)") (auto simp: list_subkeys_def split: cnode.splits)
  then obtain es where "c_at (oc_dir k) (cached_file_name key) = Some (CDir es)" by blast
  then have es: "list_subkeys cfg k key = list_subkeys_internal cfg es" by (simp add: list_subkeys_def)
  let ?ns = "map fst (filter (\<lambda>(x, _). subkey_valid_ascii x) es)"
  have "sorted_wrt (\<lambda>a b. take 11 b \<le> take 11 a) (sort_by (\<lambda>a b. subkey_less b a) ?ns)"
    by (rule sorted_by_key) (auto simp: subkey_less_valid)
  then have "sorted_wrt (\<lambda>a b. take 11 b \<le> take 11 a) (xs @ time_subkey b # ys)"
    using assms(1,2) es by (simp add: list_subkeys_internal_def Let_def)
  moreover have "time_subkey b < time_subkey a" using time_subkey_less assms(4-) by blast
  ultimately show ?thesis using assms(2,3) by (auto simp: sorted_wrt_append time_subkey_valid(2))
qed

section \<open>What is stored is read back\<close>

text \<open>
  C4: A serialized entry that fits is stored, is then among the candidates of its key, and the candidate is the entry
  itself, whether the cache is compressed or not; the other entries and all blobs stay.
\<close>

theorem stored_entry_is_candidate:
  assumes "has_dir (oc_dir k) []" "c_at (oc_dir k) [tmp] = None"
    and "clear_way (oc_dir k) (cached_obj_name key (time_subkey (bc_now k)))" "zstd_ok cfg"
    and "n + int (length (serialize_entry io)) \<le> max_entry_size cfg"
    and "fits_entry io" "length (serialize_entry io) < 2 ^ 32"
  shows "\<exists>k'. obj_store cfg k tmp key (serialize_entry io) n = Some (k', True) \<and>
    time_subkey (bc_now k) \<in> set (list_subkeys cfg k' key) \<and>
    candidate cfg read_entry (oc_dir k') key (time_subkey (bc_now k)) = Some (Some io) \<and>
    bc_dir k' = bc_dir k \<and>
    (\<forall>q b m. c_at (oc_dir k) q = Some (CFile b m) \<longrightarrow> c_at (oc_dir k') q = Some (CFile b m))"
proof -
  have "\<exists>k'. obj_store cfg k tmp key (serialize_entry io) n = Some (k', True) \<and>
    (\<exists>x. obj_retrieve cfg (oc_dir k') (cached_obj_name key (time_subkey (bc_now k))) = Some (Some (serialize_entry io, x))) \<and>
    read_entry (serialize_entry io) = Some io \<and> time_subkey (bc_now k) \<in> set (list_subkeys cfg k' key) \<and>
    bc_dir k' = bc_dir k \<and> (\<forall>q b m. c_at (oc_dir k) q = Some (CFile b m) \<longrightarrow> c_at (oc_dir k') q = Some (CFile b m))"
    by (rule obj_roundtrip [OF assms]) blast
  then show ?thesis by (auto simp: candidate_def)
qed



section \<open>Finding an entry\<close>


section \<open>Examples\<close>

definition demo_xxh :: "string \<Rightarrow> hash_t" where
  "demo_xxh d = (if d = ''fresh'' then 8 else 0)"

definition empty_caches :: caches where
  "empty_caches =
     \<lparr>bc_dir = CDir [], oc_dir = CDir [], this_runs_cached_bytes = 0, stored_cached_bytes = 0, bc_now = (5, 6)\<rparr>"

definition missing_entry :: "string \<Rightarrow> process_inputs_outputs" where
  "missing_entry p =
     \<lparr>io_inputs = \<lparr>in_path = [], in_path_notexist = [p]\<rparr>,
      io_outputs = \<lparr>out_path_isreg = [], out_path_isdir = [], out_path_notexist = [], out_append_to_fd = [], out_exit_status = 0\<rparr>,
      io_cpu_time_ms = None\<rparr>"

lemma demo_zstd: "zstd_ok demo_config" "zstd_ok (demo_config\<lparr>compress_cache := True\<rparr>)"
  by (simp_all add: zstd_ok_def demo_config_def kZstdMagicHeader_def)

lemma empty_caches_ok: "bytes_accounted empty_caches" "blobs_ok cfg xxh empty_caches" "blob_place empty_caches key"
  by (simp_all add: empty_caches_def bytes_accounted_def blobs_ok_def get_fd_for_file_def cached_file_name_def Let_def
      blob_place_def has_dir_def)

lemma length_missing_entry: "length p < 100 \<Longrightarrow> length (serialize_entry (missing_entry p)) < 1000"
  by (simp add: serialize_entry_def missing_entry_def fbbstore_def entry_builder_def inputs_builder_def outputs_builder_def
      fields_of_def serialize_msg_def Let_def with_relptr_def length_PAD ok_values_def less_Suc_eq nth_Cons' wire_members_def
      sizeof_wire_def int32_def sizeof_relptrs_def has_offset_def has_size_def align_up_def relptr_offset_def rank_def upt_rec)

lemma fits_missing_entry: "fits_entry (missing_entry p)"
  by (simp add: fits_entry_def missing_entry_def is_int32_def)

theorem cache_run_inv_witness:
  "\<exists>k'. store_file demo_config demo_xxh empty_caches 0 0 (Some ''fresh'') 0 5 = Some (k', 8) \<and> bytes_accounted k' \<and>
    blobs_ok demo_config demo_xxh k'"
proof -
  obtain k' b where "place_blob demo_config demo_xxh empty_caches ''fresh'' = Some (k', demo_xxh ''fresh'')"
    using place_blob_total [OF empty_caches_ok(3) demo_zstd(1)] by blast
  then have st: "store_file demo_config demo_xxh empty_caches 0 0 (Some ''fresh'') 0 5 = Some (k', 8)"
    by (simp add: store_file_def Let_def demo_xxh_def)
  have "cache_run demo_config demo_xxh empty_caches k'" by (rule cache_run.step [OF cache_run.refl cache_step.store_file [OF st]])
  from cache_run_inv [OF this empty_caches_ok(1) demo_zstd(1) empty_caches_ok(2)] show ?thesis using st by blast
qed

theorem stored_entry_is_candidate_witness:
  "\<exists>k'. obj_store (demo_config\<lparr>compress_cache := True\<rparr>) empty_caches ''new'' 7 (serialize_entry (missing_entry ''/x'')) 0 = Some (k', True) \<and>
    candidate (demo_config\<lparr>compress_cache := True\<rparr>) read_entry (oc_dir k') 7 (time_subkey (5, 6)) = Some (Some (missing_entry ''/x''))"
proof -
  have l: "length (serialize_entry (missing_entry ''/x'')) < 1000" by (rule length_missing_entry) simp
  have "has_dir (oc_dir empty_caches) []" "c_at (oc_dir empty_caches) [''new''] = None"
    "clear_way (oc_dir empty_caches) (cached_obj_name 7 (time_subkey (bc_now empty_caches)))"
    by (simp_all add: empty_caches_def has_dir_def cached_obj_name_def cached_file_name_def Let_def)
  from stored_entry_is_candidate [OF this demo_zstd(2), of 0 "missing_entry ''/x''"] l fits_missing_entry
  show ?thesis by (auto simp: demo_config_def empty_caches_def)
qed



text \<open>Two entries of a key: the older one expects \<open>/x\<close> to be missing, the newer one \<open>/b/o\<close>.\<close>

definition two_entries :: caches where
  "two_entries = empty_caches\<lparr>oc_dir := CDir [(take 1 (to_ascii 7), CDir [(take 2 (to_ascii 7), CDir [(to_ascii 7,
     CDir [(time_subkey (1, 0), CFile (kMagicHeader @ serialize_entry (missing_entry ''/x'')) (1, 0)),
           (time_subkey (2, 0), CFile (kMagicHeader @ serialize_entry (missing_entry ''/b/o'')) (2, 0))])])])]\<rparr>"

lemma two_subkeys_order:
  "subkey_less (time_subkey (1, 0)) (time_subkey (2, 0))" "\<not> subkey_less (time_subkey (2, 0)) (time_subkey (1, 0))"
  "time_subkey (1, 0) \<noteq> time_subkey (2, 0)"
proof -
  have "time_subkey (1, 0) < time_subkey (2, 0)" by (subst time_subkey_less) (simp_all add: timespec_less_def)
  then show "subkey_less (time_subkey (1, 0)) (time_subkey (2, 0))" "\<not> subkey_less (time_subkey (2, 0)) (time_subkey (1, 0))"
    "time_subkey (1, 0) \<noteq> time_subkey (2, 0)"
    by (auto simp: subkey_less_valid [OF time_subkey_valid(1) time_subkey_valid(1)] time_subkey_valid(2))
qed

lemma two_subkeys: "list_subkeys demo_config two_entries 7 = [time_subkey (2, 0), time_subkey (1, 0)]"
  by (simp add: two_entries_def empty_caches_def list_subkeys_def cached_file_name_def Let_def list_subkeys_internal_def
      demo_config_def time_subkey_valid(1) sort_by_def two_subkeys_order)

lemma two_candidates:
  "candidate demo_config read_entry (oc_dir two_entries) 7 (time_subkey (1, 0)) = Some (Some (missing_entry ''/x''))"
  "candidate demo_config read_entry (oc_dir two_entries) 7 (time_subkey (2, 0)) = Some (Some (missing_entry ''/b/o''))"
proof -
  have c: "candidate demo_config read_entry (oc_dir two_entries) 7 sk = Some (Some (missing_entry p))"
    if "c_at (oc_dir two_entries) (cached_obj_name 7 sk) = Some (CFile (kMagicHeader @ serialize_entry (missing_entry p)) t)"
      "length p < 100" for sk p t
  proof -
    have l: "length (serialize_entry (missing_entry p)) < 2 ^ 32" using length_missing_entry [OF that(2)] by simp
    have "read_entry (serialize_entry (missing_entry p)) = Some (missing_entry p)"
      using entry_roundtrip [OF fits_missing_entry l, of "[]"] by simp
    moreover have "if compress_cache demo_config
        then zstd demo_config (kMagicHeader @ serialize_entry (missing_entry p)) = Some (kMagicHeader @ serialize_entry (missing_entry p))
        else kMagicHeader @ serialize_entry (missing_entry p) = kMagicHeader @ serialize_entry (missing_entry p)"
      by (simp add: demo_config_def)
    from retrieve_stored [OF this demo_zstd(1) serialize_entry_nonempty [OF fits_missing_entry l] that(1)]
    obtain x where "obj_retrieve demo_config (oc_dir two_entries) (cached_obj_name 7 sk) = Some (Some (serialize_entry (missing_entry p), x))" .
    ultimately show ?thesis by (simp add: candidate_def)
  qed
  show "candidate demo_config read_entry (oc_dir two_entries) 7 (time_subkey (1, 0)) = Some (Some (missing_entry ''/x''))"
    by (rule c) (simp_all add: two_entries_def cached_obj_name_def cached_file_name_def Let_def)
  show "candidate demo_config read_entry (oc_dir two_entries) 7 (time_subkey (2, 0)) = Some (Some (missing_entry ''/b/o''))"
    by (rule c [where t = "(2, 0)"])
      (simp_all add: two_entries_def cached_obj_name_def cached_file_name_def Let_def two_subkeys_order(3) [symmetric])
qed

theorem list_subkeys_newest_first_witness:
  "list_subkeys demo_config two_entries 7 = [time_subkey (2, 0)] @ time_subkey (1, 0) # [] \<and>
   time_subkey (2, 0) \<in> set [time_subkey (2, 0)]"
  using list_subkeys_newest_first [of demo_config two_entries 7 "[time_subkey (2, 0)]" "(1, 0)" "[]" "(2, 0)"] two_subkeys
  by (simp add: demo_config_def timespec_less_def)

text \<open>The operating system the supervisor sees in the example, and the digests of its files.\<close>

definition demo_os :: os where
  "demo_os = env_os (env_of (s_x (see_files demo_files demo_sup)))"

definition demo_digest :: "string \<Rightarrow> stat_key \<Rightarrow> hash_t" where
  "demo_digest p _ = the (path_hash demo_os p (the (os_stat demo_os p)))"

lemma demo_consistent: "consistent demo_digest demo_os"
  by (simp add: consistent_def demo_digest_def)

lemma demo_sup_x: "x_locs (s_x demo_sup) = no_locations" "x_cache (s_x demo_sup) = (\<lambda>_. None)" "x_writers (s_x demo_sup) = (\<lambda>_. None)"
  by (simp_all add: demo_sup_def three_procs_def new_exec_node_def empty_state_def Let_def closest_shortcut_point_def node_def)

lemma demo_current: "cache_current (x_locs (s_x demo_sup)) demo_digest demo_os (x_cache (s_x demo_sup))"
  by (simp add: cache_current_def demo_sup_x)

lemma demo_os_fields: "os_stat demo_os = sys_stat demo_files" "os_writers demo_os p = 0" "os_open demo_os = obj_at demo_files"
  by (simp_all add: demo_os_def env_of_def see_files_def os_of_def writers_count_def demo_sup_x)

lemma demo_absent: "os_stat demo_os ''/x'' = None"
  by (simp add: demo_os_fields sys_stat_def at_def demo_files_def)

lemma demo_present: "os_stat demo_os ''/b/o'' = Some (stat_of (RegNode ''old'' 0x1A4 (0, 0) 3))"
  by (simp add: demo_os_fields sys_stat_def at_def demo_files_def)

lemma demo_readable: "path_hash demo_os ''/b/o'' st \<noteq> None" if "st = stat_of (RegNode ''old'' 0x1A4 (0, 0) 3)"
  using that by (simp add: path_hash_def demo_os_fields set_from_file_def obj_at_def at_def demo_files_def may_read_def
      set_from_fd_def S_ISREG_def S_ISDIR_def key_size_def)

lemma demo_wf: "wf_inputs (x_locs (s_x demo_sup)) demo_os (io_inputs (missing_entry ''/x''))"
   "wf_inputs (x_locs (s_x demo_sup)) demo_os (io_inputs (missing_entry ''/b/o''))"
  using demo_readable
  by (simp_all add: wf_inputs_def missing_entry_def quiet_def demo_os_fields(2) demo_absent demo_present demo_sup_x)

lemma demo_applicable: "applicable_now demo_digest demo_os demo_files (missing_entry ''/x'')"
  "\<not> applicable_now demo_digest demo_os demo_files (missing_entry ''/b/o'')"
  by (simp_all add: applicable_now_def inputs_hold_def missing_entry_def file_state_of_def demo_absent demo_present S_ISREG_def)


end
