(* ===== verification/Spec2Isabelle.thy ===== *)
theory Spec2Isabelle
  imports FB_Prelude FB_Arrays FB_Paths FB_Base64 FB_LinearBuffer FB_FileInfo FB_FileName FB_Hash
    FB_HashCache FB_FileUsage FB_ExecTree FB_Register
    FB_Epoll FB_PipeRecorder FB_Pipe FB_Process FB_Handlers FB_Messages FB_Writers FB_Accounting
    FB_Spawn FB_Runs FB_Tables FB_Lifecycle FB_Fbb FB_FbbLength FB_FbbPlace FB_FbbRead
    FB_Files FB_CacheEntry FB_Caches FB_Shortcut FB_Matching FB_EntryFormat FB_CacheLaws
    FB_Restore FB_CacheRuns
begin

text \<open>
  firebuild: verification development.

  firebuild supervises a build, records what every process reads and writes, and replays the recorded
  effects when a process would do the same work again.  This library models its parts one theory at
  a time.

  \<^item> \<^theory_text>\<open>FB_Prelude\<close>: C strings, \<open>strstr\<close>, \<open>memcmp\<close>, \<open>strcmp\<close>.
  \<^item> \<^theory_text>\<open>FB_Arrays\<close>: arrays and pointer set of \<^verbatim>\<open>src/common/firebuild_common.c\<close>.
  \<^item> \<^theory_text>\<open>FB_Paths\<close>: location test and canonicalisation of \<^verbatim>\<open>src/common/firebuild_common.c\<close>.
\<close>

end
